(* ===== verification/Prelude.thy ===== *)
theory Prelude
  imports Main "HOL-Library.Char_ord" "HOL-Library.List_Lexorder" "HOL-Library.Word"
begin

text \<open>
  Shared vocabulary of the development.

  \<^item> Go errors as values (\<^verbatim>\<open>errors.New\<close>, \<^verbatim>\<open>fmt.Errorf\<close> with its wrapped causes,
    \<^verbatim>\<open>errors.Is\<close>); an error text is its format literal, the formatted arguments are left out.
  \<^item> The outcome of one call over the network. A call succeeds, fails before it took
    effect, or fails after it took effect (the reply is lost). Which one happens is an
    argument of every operation, so a theorem that does not restrict it holds under every
    pattern of faults.
  \<^item> Operations on a state \<open>'s\<close> that may fail, and the two ways the repositories use a
    database: a single statement, and a transaction that commits or rolls back.
  \<^item> Tables as lists of rows with the few generic lemmas the components share.
  \<^item> Fixed-width integers, with their wrap-around written out.
\<close>

named_theorems op_simps \<open>unfolding of the operation combinators\<close>
named_theorems table_simps \<open>rewriting of table updates and lookups\<close>
named_theorems go_consts \<open>constants of the Go sources\<close>

section \<open>Errors\<close>

datatype error =
    Sentinel string
  | Errorf string "error list"

primrec errors_Is :: "error \<Rightarrow> string \<Rightarrow> bool"
  and errors_Is_list :: "error list \<Rightarrow> string \<Rightarrow> bool" where
  "errors_Is (Sentinel s) t = (s = t)"
| "errors_Is (Errorf m es) t = errors_Is_list es t"
| "errors_Is_list [] t = False"
| "errors_Is_list (x # xs) t = (errors_Is x t \<or> errors_Is_list xs t)"

abbreviation errorf :: "string \<Rightarrow> error" where
  "errorf m \<equiv> Errorf m []"

abbreviation wrapf :: "string \<Rightarrow> error \<Rightarrow> error" where
  "wrapf m e \<equiv> Errorf m [e]"

section \<open>Operations that may fail\<close>

type_synonym 'a result = "error + 'a"
type_synonym ('s, 'a) operation = "'s \<Rightarrow> 'a result \<times> 's"

datatype io = IoOk | IoErr | IoLost

definition conn_error :: error where
  "conn_error = Sentinel ''connection error''"

definition in_tx :: "io \<Rightarrow> ('s, 'a) operation \<Rightarrow> ('s, 'a) operation" where
  "in_tx f st s = (if f = IoOk then st s else (Inl conn_error, s))"

definition autocommit :: "io \<Rightarrow> ('s, 'a) operation \<Rightarrow> ('s, 'a) operation" where
  "autocommit f st s =
     (case f of
        IoOk \<Rightarrow> st s
      | IoErr \<Rightarrow> (Inl conn_error, s)
      | IoLost \<Rightarrow> (Inl conn_error, snd (st s)))"

definition run_tx :: "io \<Rightarrow> (error \<Rightarrow> error) \<Rightarrow> io \<Rightarrow> (error \<Rightarrow> error) \<Rightarrow>
    ('s, 'a) operation \<Rightarrow> ('s, 'a) operation" where
  "run_tx begin_io begin_err commit_io commit_err body s =
     (if begin_io \<noteq> IoOk then (Inl (begin_err conn_error), s)
      else case body s of
        (Inl e, _) \<Rightarrow> (Inl e, s)
      | (Inr x, s') \<Rightarrow>
          (case commit_io of
             IoOk \<Rightarrow> (Inr x, s')
           | IoErr \<Rightarrow> (Inl (commit_err conn_error), s)
           | IoLost \<Rightarrow> (Inl (commit_err conn_error), s')))"

lemmas op_defs = in_tx_def autocommit_def run_tx_def

lemma in_tx_cases [op_simps]:
  "in_tx IoOk st s = st s"
  "in_tx IoErr st s = (Inl conn_error, s)"
  "in_tx IoLost st s = (Inl conn_error, s)"
  by (simp_all add: in_tx_def)

lemma autocommit_cases [op_simps]:
  "autocommit IoOk st s = st s"
  "autocommit IoErr st s = (Inl conn_error, s)"
  "autocommit IoLost st s = (Inl conn_error, snd (st s))"
  by (simp_all add: autocommit_def)

text \<open>A transaction either leaves the state alone or leaves the state of its body; it
  reports success only after a commit that was acknowledged.\<close>

lemma run_tx_Inr:
  "run_tx b be c ce body s = (Inr x, s') \<longleftrightarrow>
     b = IoOk \<and> c = IoOk \<and> body s = (Inr x, s')"
  by (auto simp: run_tx_def split: prod.splits sum.splits io.splits)

lemma run_tx_Inl_state:
  assumes "run_tx b be c ce body s = (Inl e, s')"
  shows "s' = s \<or> (c = IoLost \<and> (\<exists>x. body s = (Inr x, s')))"
  using assms by (auto simp: run_tx_def split: prod.splits sum.splits io.splits if_splits)

lemma run_tx_rollback:
  assumes "run_tx b be c ce body s = (Inl e, s')" and "c \<noteq> IoLost"
  shows "s' = s"
  using run_tx_Inl_state [OF assms(1)] assms(2) by blast

lemma run_tx_state_cases:
  "snd (run_tx b be c ce body s) = s \<or>
   (\<exists>x. body s = (Inr x, snd (run_tx b be c ce body s)))"
  by (auto simp: run_tx_def split: prod.splits sum.splits io.splits)

section \<open>Tables\<close>

definition update_where :: "('r \<Rightarrow> bool) \<Rightarrow> ('r \<Rightarrow> 'r) \<Rightarrow> 'r list \<Rightarrow> 'r list" where
  "update_where p f rows = map (\<lambda>r. if p r then f r else r) rows"

definition rows_where :: "('r \<Rightarrow> bool) \<Rightarrow> 'r list \<Rightarrow> nat" where
  "rows_where p rows = length (filter p rows)"

definition keys :: "('r \<Rightarrow> 'k) \<Rightarrow> 'r list \<Rightarrow> 'k list" where
  "keys k rows = map k rows"

lemma update_where_Nil [simp]: "update_where p f [] = []"
  by (simp add: update_where_def)

lemma update_where_Cons [simp]:
  "update_where p f (r # rs) = (if p r then f r else r) # update_where p f rs"
  by (simp add: update_where_def)

lemma update_where_append [simp]:
  "update_where p f (xs @ ys) = update_where p f xs @ update_where p f ys"
  by (simp add: update_where_def)

lemma rows_where_Nil [simp]: "rows_where p [] = 0"
  by (simp add: rows_where_def)

lemma rows_where_Cons [simp]:
  "rows_where p (r # rs) = (if p r then 1 else 0) + rows_where p rs"
  by (simp add: rows_where_def)

lemma keys_simps [simp]:
  "keys k [] = []" "keys k (r # rs) = k r # keys k rs" "keys k (xs @ ys) = keys k xs @ keys k ys"
  by (simp_all add: keys_def)

lemma set_keys: "x \<in> set (keys k rows) \<longleftrightarrow> (\<exists>r \<in> set rows. k r = x)"
  by (auto simp: keys_def)

lemma length_update_where [simp]: "length (update_where p f rows) = length rows"
  by (simp add: update_where_def)

lemma keys_update_where [table_simps]:
  "(\<And>r. k (f r) = k r) \<Longrightarrow> keys k (update_where p f rows) = keys k rows"
  by (auto simp: keys_def update_where_def)

lemma set_update_where [table_simps]:
  "r' \<in> set (update_where p f rows) \<longleftrightarrow>
     (\<exists>r \<in> set rows. r' = (if p r then f r else r))"
  by (auto simp: update_where_def)

lemma update_where_cong_set:
  "(\<And>r. r \<in> set rows \<Longrightarrow> \<not> p r) \<Longrightarrow> update_where p f rows = rows"
  by (induction rows) auto

lemma rows_where_zero: "rows_where p rows = 0 \<longleftrightarrow> (\<forall>r \<in> set rows. \<not> p r)"
  by (simp add: rows_where_def filter_empty_conv)

lemma rows_where_unique:
  assumes "distinct (keys k rows)" and "\<And>r. p r \<Longrightarrow> k r = x"
  shows "rows_where p rows \<le> 1"
  using assms(1)
proof (induction rows)
  case Nil
  then show ?case by simp
next
  case (Cons r rs)
  show ?case
  proof (cases "p r")
    case True
    have "\<not> p r'" if "r' \<in> set rs" for r'
      using that True Cons.prems assms(2) by (auto simp: keys_def)
    then have "rows_where p rs = 0" by (simp add: rows_where_zero)
    with True show ?thesis by simp
  next
    case False
    with Cons show ?thesis by simp
  qed
qed

lemma rows_where_key_one:
  assumes "distinct (keys k rows)" and "r \<in> set rows"
  shows "rows_where (\<lambda>r'. k r' = k r) rows = 1"
proof -
  have "rows_where (\<lambda>r'. k r' = k r) rows \<le> 1"
    using assms(1) by (rule rows_where_unique) simp
  moreover have "rows_where (\<lambda>r'. k r' = k r) rows \<noteq> 0"
    using assms(2) by (auto simp: rows_where_zero)
  ultimately show ?thesis by simp
qed

lemma distinct_keys_eq:
  assumes "distinct (keys k rows)" and "r \<in> set rows" and "r' \<in> set rows" and "k r = k r'"
  shows "r = r'"
  using assms by (auto simp: keys_def distinct_map inj_on_def)

lemma find_key_Some:
  assumes "distinct (keys k rows)" and "r \<in> set rows"
  shows "List.find (\<lambda>r'. k r' = k r) rows = Some r"
  using assms
proof (induction rows)
  case Nil
  then show ?case by simp
next
  case (Cons a rows)
  then show ?case by (auto simp: keys_def)
qed

lemma find_SomeD: "List.find p rows = Some r \<Longrightarrow> r \<in> set rows \<and> p r"
  by (auto simp: find_Some_iff)

lemma find_NoneD: "List.find p rows = None \<Longrightarrow> r \<in> set rows \<Longrightarrow> \<not> p r"
  by (auto simp: find_None_iff)

lemma find_update_where:
  assumes "\<And>r. q (f r) = q r"
  shows "List.find q (update_where p f rows) =
    map_option (\<lambda>r. if p r then f r else r) (List.find q rows)"
  using assms by (induction rows) auto

section \<open>Fixed-width integers\<close>

text \<open>A signed integer of \<open>n\<close> bits, after a conversion that keeps the low bits.\<close>

definition wrap_signed :: "nat \<Rightarrow> int \<Rightarrow> int" where
  "wrap_signed n x = (x + 2 ^ (n - 1)) mod 2 ^ n - 2 ^ (n - 1)"

abbreviation to_int8 :: "int \<Rightarrow> int" where "to_int8 \<equiv> wrap_signed 8"
abbreviation to_int32 :: "int \<Rightarrow> int" where "to_int32 \<equiv> wrap_signed 32"
abbreviation to_int64 :: "int \<Rightarrow> int" where "to_int64 \<equiv> wrap_signed 64"

definition fits_signed :: "nat \<Rightarrow> int \<Rightarrow> bool" where
  "fits_signed n x \<longleftrightarrow> - (2 ^ (n - 1)) \<le> x \<and> x < 2 ^ (n - 1)"

lemma wrap_signed_id: "0 < n \<Longrightarrow> fits_signed n x \<Longrightarrow> wrap_signed n x = x"
proof -
  assume n: "0 < n" and x: "fits_signed n x"
  have p: "(2::int) ^ n = 2 * 2 ^ (n - 1)"
    using n by (cases n) auto
  from x p have "(x + 2 ^ (n - 1)) mod 2 ^ n = x + 2 ^ (n - 1)"
    by (intro mod_pos_pos_trivial) (auto simp: fits_signed_def)
  then show ?thesis by (simp add: wrap_signed_def)
qed

lemma wrap_signed_fits: "0 < n \<Longrightarrow> fits_signed n (wrap_signed n x)"
proof -
  assume n: "0 < n"
  have p: "(2::int) ^ n = 2 * 2 ^ (n - 1)"
    using n by (cases n) auto
  have "0 \<le> (x + 2 ^ (n - 1)) mod 2 ^ n" "(x + 2 ^ (n - 1)) mod 2 ^ n < 2 ^ n"
    by simp_all
  then show ?thesis unfolding fits_signed_def wrap_signed_def using p by linarith
qed

end
