(* ===== verification/Models.thy ===== *)
theory Models
  imports Prelude
begin

text \<open>
  The data of the program: the structs of \<^verbatim>\<open>shared/pkg/models/model.go\<close>, the string
  constants the code compares against, the tables of \<^verbatim>\<open>shared/migrations\<close> and the
  constraints the final schema puts on them.

  A table is the list of its rows in insertion order. The row types extend the Go structs by
  the columns no struct has. Columns that no statement reads (\<^verbatim>\<open>accounts.reconciled_at\<close>,
  \<^verbatim>\<open>transactions.transaction_detail_message\<close>) are left out. Enum columns hold the strings
  of their labels, and a write checks them as PostgreSQL does. Money is an \<open>int\<close> in minor
  units; \<open>BIGINT\<close> and \<open>int64\<close> are the range check \<open>fits_signed 64\<close>.
\<close>

type_synonym time = int \<comment> \<open>microseconds since the Unix epoch\<close>

definition zero_time :: time where \<comment> \<open>Go's \<open>time.Time{}\<close>: January 1, year 1\<close>
  "zero_time = - 62135596800000000"

definition seconds :: "int \<Rightarrow> time" where
  "seconds n = n * 1000000"

section \<open>JSON values\<close>

text \<open>JSON text is represented by the value it denotes. \<open>JInt\<close> is a number literal with
  neither fraction nor exponent, \<open>JReal\<close> any other number literal; \<open>JTime\<close> is a string literal
  that is a timestamp in the RFC 3339 form of \<^verbatim>\<open>time.Time\<close>, \<open>JStr\<close> any other string literal.\<close>

datatype json =
    JNull
  | JBool bool
  | JInt int
  | JReal string
  | JStr string
  | JTime time
  | JArr "json list"
  | JObj "(string \<times> json) list"

section \<open>Statuses\<close>

type_synonym TransactionStatus = string
type_synonym OutboxStatus = string

definition TransactionStatusPending :: TransactionStatus where
  "TransactionStatusPending = ''pending''"
definition TransactionStatusCompleted :: TransactionStatus where
  "TransactionStatusCompleted = ''completed''"
definition TransactionStatusFailed :: TransactionStatus where
  "TransactionStatusFailed = ''failed''"
definition TransactionStatusRejected :: TransactionStatus where
  "TransactionStatusRejected = ''rejected''"

definition OutboxStatusPending :: OutboxStatus where
  "OutboxStatusPending = ''pending''"
definition OutboxStatusClaimed :: OutboxStatus where
  "OutboxStatusClaimed = ''claimed''"
definition OutboxStatusPublished :: OutboxStatus where
  "OutboxStatusPublished = ''published''"
definition OutboxStatusFailed :: OutboxStatus where
  "OutboxStatusFailed = ''failed''"

lemmas status_defs [go_consts] =
  TransactionStatusPending_def TransactionStatusCompleted_def
  TransactionStatusFailed_def TransactionStatusRejected_def
  OutboxStatusPending_def OutboxStatusClaimed_def
  OutboxStatusPublished_def OutboxStatusFailed_def

lemma TransactionStatus_distinct [simp]:
  "TransactionStatusPending \<noteq> TransactionStatusCompleted"
  "TransactionStatusCompleted \<noteq> TransactionStatusPending"
  "TransactionStatusPending \<noteq> TransactionStatusFailed"
  "TransactionStatusFailed \<noteq> TransactionStatusPending"
  "TransactionStatusCompleted \<noteq> TransactionStatusFailed"
  "TransactionStatusFailed \<noteq> TransactionStatusCompleted"
  by (simp_all add: go_consts)

lemma OutboxStatus_distinct [simp]:
  "OutboxStatusPending \<noteq> OutboxStatusClaimed"
  "OutboxStatusClaimed \<noteq> OutboxStatusPending"
  "OutboxStatusPending \<noteq> OutboxStatusPublished"
  "OutboxStatusPublished \<noteq> OutboxStatusPending"
  "OutboxStatusPending \<noteq> OutboxStatusFailed"
  "OutboxStatusFailed \<noteq> OutboxStatusPending"
  "OutboxStatusClaimed \<noteq> OutboxStatusPublished"
  "OutboxStatusPublished \<noteq> OutboxStatusClaimed"
  "OutboxStatusClaimed \<noteq> OutboxStatusFailed"
  "OutboxStatusFailed \<noteq> OutboxStatusClaimed"
  "OutboxStatusPublished \<noteq> OutboxStatusFailed"
  "OutboxStatusFailed \<noteq> OutboxStatusPublished"
  by (simp_all add: go_consts)

definition transaction_status_enum :: "string \<Rightarrow> bool" where
  "transaction_status_enum s \<longleftrightarrow>
     s = ''pending'' \<or> s = ''completed'' \<or> s = ''failed'' \<or> s = ''rejected''"

definition transaction_type_enum :: "string \<Rightarrow> bool" where
  "transaction_type_enum s \<longleftrightarrow> s = ''transfer'' \<or> s = ''deposit'' \<or> s = ''withdrawal''"

definition outbox_status_enum :: "string \<Rightarrow> bool" where
  "outbox_status_enum s \<longleftrightarrow>
     s = ''pending'' \<or> s = ''published'' \<or> s = ''failed'' \<or> s = ''claimed''"

lemma transaction_status_enum_consts [simp]:
  "transaction_status_enum TransactionStatusPending"
  "transaction_status_enum TransactionStatusCompleted"
  "transaction_status_enum TransactionStatusFailed"
  "transaction_status_enum TransactionStatusRejected"
  by (simp_all add: transaction_status_enum_def go_consts)

lemma outbox_status_enum_consts [simp]:
  "outbox_status_enum OutboxStatusPending"
  "outbox_status_enum OutboxStatusClaimed"
  "outbox_status_enum OutboxStatusPublished"
  "outbox_status_enum OutboxStatusFailed"
  by (simp_all add: outbox_status_enum_def go_consts)

section \<open>Structs and rows\<close>

record TransactionModel =
  tm_ID :: string
  tm_FromAccount :: string
  tm_ToAccount :: string
  tm_Amount :: int
  tm_Currency :: string
  tm_Status :: TransactionStatus
  tm_CreatedAt :: time
  tm_UpdatedAt :: time

record AccountModel =
  am_ID :: string
  am_UserID :: string
  am_CreatedAt :: time
  am_UpdatedAt :: time
  am_Transactions :: "TransactionModel list"
  am_Balance :: int
  am_Currency :: string

record UserModel =
  um_ID :: string
  um_Name :: string
  um_Username :: string
  um_Password :: string
  um_Email :: string
  um_CreatedAt :: time
  um_UpdatedAt :: time

record UserAuthModel =
  ua_ID :: string
  ua_RefreshToken :: string
  ua_UserId :: string
  ua_IsCurrentlyLoggedIn :: bool
  ua_CreatedAt :: time
  ua_UpdatedAt :: time

record OutboxModel =
  om_ID :: string
  om_AggregateType :: string
  om_AggregateId :: string
  om_EventType :: string
  om_Payload :: "(string \<times> json) list"
  om_Topic :: string
  om_PartitionKey :: string
  om_IdempotencyKey :: string
  om_Status :: OutboxStatus
  om_ErrorMessage :: "string option"
  om_CreatedAt :: time
  om_UpdatedAt :: time
  om_PublishedAt :: "time option"

record transaction_row = TransactionModel +
  transaction_type :: string

record outbox_row = OutboxModel +
  retry_count :: int
  next_attempt_at :: time

section \<open>The database\<close>

record database =
  users :: "UserModel list"
  accounts :: "AccountModel list"
  transactions :: "transaction_row list"
  user_auth :: "UserAuthModel list"
  transaction_outbox :: "outbox_row list"

definition sql_error :: "string \<Rightarrow> error" where
  "sql_error s = Sentinel s"

definition ErrNoRows :: error where
  "ErrNoRows = Sentinel ''no rows in result set''"

text \<open>The constraints of the final schema, one predicate per table. A foreign key is a
  condition on the primary keys of the table it refers to.\<close>

definition users_ok :: "UserModel list \<Rightarrow> bool" where
  "users_ok us \<longleftrightarrow>
     distinct (keys um_ID us) \<and> distinct (keys um_Username us) \<and> distinct (keys um_Email us)"

definition account_row_ok :: "string list \<Rightarrow> AccountModel \<Rightarrow> bool" where
  "account_row_ok uids a \<longleftrightarrow>
     am_UserID a \<in> set uids \<and> 0 \<le> am_Balance a \<and> fits_signed 64 (am_Balance a)"

definition accounts_ok :: "string list \<Rightarrow> AccountModel list \<Rightarrow> bool" where
  "accounts_ok uids as \<longleftrightarrow>
     distinct (keys am_ID as) \<and> (\<forall>a \<in> set as. account_row_ok uids a)"

definition transaction_row_ok :: "string list \<Rightarrow> transaction_row \<Rightarrow> bool" where
  "transaction_row_ok aids t \<longleftrightarrow>
     tm_FromAccount t \<in> set aids \<and> tm_ToAccount t \<in> set aids \<and>
     0 < tm_Amount t \<and> fits_signed 64 (tm_Amount t) \<and>
     transaction_status_enum (tm_Status t) \<and> transaction_type_enum (transaction_type t) \<and>
     (transaction_type t \<noteq> ''transfer'' \<or> tm_FromAccount t \<noteq> tm_ToAccount t)"

definition transactions_ok :: "string list \<Rightarrow> transaction_row list \<Rightarrow> bool" where
  "transactions_ok aids ts \<longleftrightarrow>
     distinct (keys tm_ID ts) \<and> (\<forall>t \<in> set ts. transaction_row_ok aids t)"

definition user_auth_ok :: "string list \<Rightarrow> UserAuthModel list \<Rightarrow> bool" where
  "user_auth_ok uids ss \<longleftrightarrow>
     distinct (keys ua_ID ss) \<and> distinct (keys ua_UserId ss) \<and>
     (\<forall>s \<in> set ss. ua_UserId s \<in> set uids)"

definition outbox_ok :: "outbox_row list \<Rightarrow> bool" where
  "outbox_ok os \<longleftrightarrow>
     distinct (keys om_ID os) \<and> distinct (keys om_AggregateId os) \<and>
     (\<forall>o' \<in> set os. outbox_status_enum (om_Status o'))"

definition schema_ok :: "database \<Rightarrow> bool" where
  "schema_ok db \<longleftrightarrow>
     users_ok (users db) \<and>
     accounts_ok (keys um_ID (users db)) (accounts db) \<and>
     transactions_ok (keys am_ID (accounts db)) (transactions db) \<and>
     user_auth_ok (keys um_ID (users db)) (user_auth db) \<and>
     outbox_ok (transaction_outbox db)"

lemma schema_okD:
  assumes "schema_ok db"
  shows "distinct (keys am_ID (accounts db))"
    and "distinct (keys tm_ID (transactions db))"
    and "distinct (keys om_AggregateId (transaction_outbox db))"
    and "a \<in> set (accounts db) \<Longrightarrow> account_row_ok (keys um_ID (users db)) a"
    and "t \<in> set (transactions db) \<Longrightarrow> transaction_row_ok (keys am_ID (accounts db)) t"
    and "o' \<in> set (transaction_outbox db) \<Longrightarrow> outbox_status_enum (om_Status o')"
  using assms
  by (auto simp: schema_ok_def accounts_ok_def transactions_ok_def outbox_ok_def)

definition empty_database :: database where
  "empty_database =
     \<lparr>users = [], accounts = [], transactions = [], user_auth = [], transaction_outbox = []\<rparr>"

lemma schema_ok_empty [simp]: "schema_ok empty_database"
  by (simp add: empty_database_def schema_ok_def users_ok_def accounts_ok_def
      transactions_ok_def user_auth_ok_def outbox_ok_def)

section \<open>The environment of a repository call\<close>

text \<open>
  One run of a handler makes each repository call at most once, so the environment gives,
  for every repository call, the outcome of each of its statements and the value of
  \<^verbatim>\<open>now()\<close> in its transaction. Statements are numbered in the order of the source.
\<close>

datatype repo_call =
    InsertAccountC | FindAccountByIdC | FindAccountsByUserIdC
  | TransferFundsC | CreatePendingTransactionC | DepositFundsC | ListTransactionsC
  | UpdateTransactionStatusC | WithdrawFundsC
  | OutboxInsertC | OutboxUpdateC | OutboxMarkPublishFailureC | OutboxDeleteC | OutboxGetC
  | OutboxPendingGetBatchC
  | FindByUserIdC | FindByUsernameC | InsertUserC | UpdateUserC
  | GetTokenByUserIdC | InsertTokenC | DeleteTokenC

datatype stmt = Begin | Stmt nat | Commit

record db_env =
  env_io :: "repo_call \<Rightarrow> stmt \<Rightarrow> io"
  env_now :: "repo_call \<Rightarrow> time"

definition healthy :: "time \<Rightarrow> db_env" where
  "healthy t = \<lparr>env_io = (\<lambda>_ _. IoOk), env_now = (\<lambda>_. t)\<rparr>"

lemma healthy_simps [simp]: "env_io (healthy t) c s = IoOk" "env_now (healthy t) c = t"
  by (simp_all add: healthy_def)

end
