(* ===== verification/Ledger.thy ===== *)
theory Ledger
  imports Models
begin

text \<open>
  The money side of \<^verbatim>\<open>wallet-service/internal/repository/wallet_repository.go\<close>:
  the pending row, the three settlements (deposit, withdrawal, transfer), the reconciliation
  they share, and the status update that follows them. Every SQL statement of the source is a
  function on the tables; row locks (\<^verbatim>\<open>FOR UPDATE\<close>) do not change a table, so here they are
  statements that can only fail, and the order in which they are taken is kept by
  \<open>lock_order\<close>.
\<close>

section \<open>Statements\<close>

definition contribution :: "string \<Rightarrow> transaction_row \<Rightarrow> int" where
  "contribution a t =
     (if transaction_type t = ''deposit'' then tm_Amount t
      else if transaction_type t = ''withdrawal'' then - tm_Amount t
      else if transaction_type t = ''transfer'' \<and> tm_ToAccount t = a then tm_Amount t
      else if transaction_type t = ''transfer'' \<and> tm_FromAccount t = a then - tm_Amount t
      else 0)"

definition involves :: "string \<Rightarrow> transaction_row \<Rightarrow> bool" where
  "involves a t \<longleftrightarrow> tm_FromAccount t = a \<or> tm_ToAccount t = a"

definition ledger_sum :: "string \<Rightarrow> transaction_row list \<Rightarrow> int" where
  "ledger_sum a ts =
     sum_list (map (contribution a)
       (filter (\<lambda>t. involves a t \<and> tm_Status t = TransactionStatusCompleted) ts))"

definition scan_int64 :: "int \<Rightarrow> int result" where
  "scan_int64 x = (if fits_signed 64 x then Inr x else Inl (sql_error ''out of range for int64''))"

definition sql_lock_account :: "string \<Rightarrow> (database, unit) operation" where
  "sql_lock_account a db = (Inr (), db)"

definition sql_ledger_sum :: "string \<Rightarrow> (database, int) operation" where
  "sql_ledger_sum a db = (scan_int64 (ledger_sum a (transactions db)), db)"

definition set_balance :: "string \<Rightarrow> int \<Rightarrow> time \<Rightarrow> AccountModel list \<Rightarrow> AccountModel list" where
  "set_balance a b now as =
     update_where (\<lambda>r. am_ID r = a) (\<lambda>r. r\<lparr>am_Balance := b, am_UpdatedAt := now\<rparr>) as"

definition sql_set_balance :: "string \<Rightarrow> int \<Rightarrow> time \<Rightarrow> (database, nat) operation" where
  "sql_set_balance a b now db =
     (let n = rows_where (\<lambda>r. am_ID r = a) (accounts db) in
      if n > 0 \<and> b < 0 then (Inl (sql_error ''accounts_balance_nonnegative''), db)
      else (Inr n, db\<lparr>accounts := set_balance a b now (accounts db)\<rparr>))"

definition pending_row :: "string \<Rightarrow> transaction_row \<Rightarrow> bool" where
  "pending_row tid t \<longleftrightarrow> tm_ID t = tid \<and> tm_Status t = TransactionStatusPending"

definition complete_pending :: "string \<Rightarrow> time \<Rightarrow> transaction_row list \<Rightarrow> transaction_row list" where
  "complete_pending tid now ts =
     update_where (pending_row tid)
       (\<lambda>t. t\<lparr>tm_Status := TransactionStatusCompleted, tm_UpdatedAt := now\<rparr>) ts"

definition sql_complete_pending :: "string \<Rightarrow> time \<Rightarrow> (database, nat) operation" where
  "sql_complete_pending tid now db =
     (Inr (rows_where (pending_row tid) (transactions db)),
      db\<lparr>transactions := complete_pending tid now (transactions db)\<rparr>)"

definition sql_select_transaction :: "string \<Rightarrow> (database, TransactionModel) operation" where
  "sql_select_transaction tid db =
     (case List.find (\<lambda>t. tm_ID t = tid) (transactions db) of
        None \<Rightarrow> (Inl ErrNoRows, db)
      | Some t \<Rightarrow> (Inr (TransactionModel.truncate t), db))"

section \<open>Reconciliation\<close>

definition reconcileBalance :: "(nat \<Rightarrow> io) \<Rightarrow> time \<Rightarrow> string \<Rightarrow> (database, nat) operation" where
  "reconcileBalance f now accountId db =
     (case in_tx (f 0) (sql_lock_account accountId) db of
        (Inl err, db) \<Rightarrow> (Inl err, db)
      | (Inr _, db) \<Rightarrow>
         (case in_tx (f 1) (sql_ledger_sum accountId) db of
            (Inl err, db) \<Rightarrow> (Inl err, db)
          | (Inr balance, db) \<Rightarrow>
              if balance < 0 then (Inr 0, db)
              else in_tx (f 2) (sql_set_balance accountId balance now) db))"

definition lock_order :: "string \<Rightarrow> string \<Rightarrow> string \<times> string" where
  "lock_order fromAccountId toAccountId =
     (if toAccountId < fromAccountId then (toAccountId, fromAccountId)
      else (fromAccountId, toAccountId))"

definition TransferFunds :: "db_env \<Rightarrow> string \<Rightarrow> string \<Rightarrow> string \<Rightarrow> string \<Rightarrow> int \<Rightarrow>
    (database, TransactionModel) operation" where
  "TransferFunds e transactionId fromAccountId toAccountId currency amount db =
     (if amount \<le> 0 then (Inl (errorf ''transfer amount must be positive, got %v''), db)
      else
        let (firstId, secondId) = lock_order fromAccountId toAccountId;
            f = env_io e TransferFundsC;
            now = env_now e TransferFundsC
        in run_tx (f Begin) (wrapf ''failed to begin tx: %w'')
             (f Commit) (wrapf ''failed to commit transfer from %s to %s: %w'')
             (\<lambda>db.
               case in_tx (f (Stmt 0)) (sql_complete_pending transactionId now) db of
                 (Inl err, db) \<Rightarrow> (Inl (wrapf ''failed to update transaction status: %w'' err), db)
               | (Inr update, db) \<Rightarrow>
                   (case (if update = 1 then
                            (case reconcileBalance (\<lambda>i. f (Stmt (1 + i))) now firstId db of
                               (Inl err, db) \<Rightarrow>
                                 (Inl (wrapf ''failed to reconcile balance for account %s: %w'' err), db)
                             | (Inr firstRows, db) \<Rightarrow>
                                 if firstRows \<noteq> 1
                                 then (Inl (errorf ''account %s not found or insufficient balance''), db)
                                 else
                                   (case reconcileBalance (\<lambda>i. f (Stmt (4 + i))) now secondId db of
                                      (Inl err, db) \<Rightarrow>
                                        (Inl (wrapf ''failed to reconcile balance for account %s: %w'' err), db)
                                    | (Inr secondRows, db) \<Rightarrow>
                                        if secondRows \<noteq> 1
                                        then (Inl (errorf ''account %s not found or insufficient balance''), db)
                                        else (Inr (), db)))
                          else (Inr (), db)) of
                      (Inl err, db) \<Rightarrow> (Inl err, db)
                    | (Inr _, db) \<Rightarrow>
                        (case in_tx (f (Stmt 7)) (sql_select_transaction transactionId) db of
                           (Inl err, db) \<Rightarrow> (Inl (wrapf ''failed to read transaction %s: %w'' err), db)
                         | (Inr transaction, db) \<Rightarrow> (Inr transaction, db))))
             db)"

section \<open>The pending row\<close>

definition new_transaction :: "string \<Rightarrow> string \<Rightarrow> string \<Rightarrow> string \<Rightarrow> string \<Rightarrow> int \<Rightarrow> time \<Rightarrow>
    transaction_row" where
  "new_transaction tid ttype fromAccount toAccount currency amount now =
     \<lparr>tm_ID = tid, tm_FromAccount = fromAccount, tm_ToAccount = toAccount,
      tm_Amount = amount, tm_Currency = currency,
      tm_Status = TransactionStatusPending, tm_CreatedAt = now, tm_UpdatedAt = now,
      transaction_type = ttype\<rparr>"

definition sql_insert_pending :: "string \<Rightarrow> string \<Rightarrow> string \<Rightarrow> string \<Rightarrow> string \<Rightarrow> int \<Rightarrow> time \<Rightarrow>
    (database, unit) operation" where
  "sql_insert_pending tid ttype fromAccount toAccount currency amount now db =
     (if \<not> transaction_type_enum ttype then (Inl (sql_error ''invalid input value for enum''), db)
      else if amount \<le> 0 then (Inl (sql_error ''transactions_amount_check''), db)
      else if ttype = ''transfer'' \<and> fromAccount = toAccount
        then (Inl (sql_error ''chk_transactions_distinct_accounts''), db)
      else if tid \<in> set (keys tm_ID (transactions db)) then (Inr (), db)
      else if fromAccount \<notin> set (keys am_ID (accounts db))
              \<or> toAccount \<notin> set (keys am_ID (accounts db))
        then (Inl (sql_error ''foreign key violation''), db)
      else (Inr (), db\<lparr>transactions := transactions db @
             [new_transaction tid ttype fromAccount toAccount currency amount now]\<rparr>))"

definition lock_both :: "(stmt \<Rightarrow> io) \<Rightarrow> string \<Rightarrow> string \<Rightarrow> (database, unit) operation" where
  "lock_both f fromAccount toAccount db =
     (if fromAccount \<noteq> toAccount then
        (let (firstId, secondId) = lock_order fromAccount toAccount in
         case in_tx (f (Stmt 0)) (sql_lock_account firstId) db of
           (Inl err, db) \<Rightarrow> (Inl err, db)
         | (Inr _, db) \<Rightarrow> in_tx (f (Stmt 1)) (sql_lock_account secondId) db)
      else (Inr (), db))"

definition pending_body :: "(stmt \<Rightarrow> io) \<Rightarrow> time \<Rightarrow> string \<Rightarrow> string \<Rightarrow> string \<Rightarrow> string \<Rightarrow> string \<Rightarrow>
    int \<Rightarrow> (database, unit) operation" where
  "pending_body f now transactionId transactionType fromAccount toAccount currency amount db =
     (case lock_both f fromAccount toAccount db of
        (Inl err, db) \<Rightarrow> (Inl (wrapf ''failed to create pending transaction %s: %w'' err), db)
      | (Inr _, db) \<Rightarrow>
          (case in_tx (f (Stmt 2))
                  (sql_insert_pending transactionId transactionType fromAccount toAccount
                     currency amount now) db of
             (Inl err, db) \<Rightarrow> (Inl (wrapf ''failed to create pending transaction %s: %w'' err), db)
           | (Inr _, db) \<Rightarrow> (Inr (), db)))"

definition CreatePendingTransaction :: "db_env \<Rightarrow> string \<Rightarrow> string \<Rightarrow> string \<Rightarrow> string \<Rightarrow>
    string \<Rightarrow> int \<Rightarrow> (database, unit) operation" where
  "CreatePendingTransaction e transactionId transactionType fromAccount toAccount currency amount =
     (let f = env_io e CreatePendingTransactionC
      in run_tx (f Begin) (wrapf ''failed to begin tx: %w'')
           (f Commit) (wrapf ''failed to commit pending transaction %s: %w'')
           (pending_body f (env_now e CreatePendingTransactionC) transactionId transactionType
              fromAccount toAccount currency amount))"

section \<open>Deposit and withdrawal\<close>

definition DepositFunds :: "db_env \<Rightarrow> string \<Rightarrow> string \<Rightarrow> string \<Rightarrow> int \<Rightarrow>
    (database, TransactionModel) operation" where
  "DepositFunds e transactionId accountId currency amount db =
     (let f = env_io e DepositFundsC; now = env_now e DepositFundsC
      in run_tx (f Begin) (wrapf ''failed to begin tx: %w'')
           (f Commit) (wrapf ''failed to commit deposit for account %s: %w'')
           (\<lambda>db.
             case in_tx (f (Stmt 0)) (sql_complete_pending transactionId now) db of
               (Inl err, db) \<Rightarrow> (Inl (wrapf ''failed to update transaction status: %w'' err), db)
             | (Inr update, db) \<Rightarrow>
                 (case (if update = 1 then
                          (case reconcileBalance (\<lambda>i. f (Stmt (1 + i))) now accountId db of
                             (Inl err, db) \<Rightarrow> (Inl (wrapf ''failed to credit account %s: %w'' err), db)
                           | (Inr creditRows, db) \<Rightarrow>
                               if creditRows \<noteq> 1 then (Inl (errorf ''account %s not found''), db)
                               else (Inr (), db))
                        else (Inr (), db)) of
                    (Inl err, db) \<Rightarrow> (Inl err, db)
                  | (Inr _, db) \<Rightarrow>
                      (case in_tx (f (Stmt 4)) (sql_select_transaction transactionId) db of
                         (Inl err, db) \<Rightarrow> (Inl (wrapf ''failed to read transaction %s: %w'' err), db)
                       | (Inr transaction, db) \<Rightarrow> (Inr transaction, db))))
           db)"

definition WithdrawFunds :: "db_env \<Rightarrow> string \<Rightarrow> string \<Rightarrow> int \<Rightarrow>
    (database, TransactionModel) operation" where
  "WithdrawFunds e transactionId accountId amount db =
     (let f = env_io e WithdrawFundsC; now = env_now e WithdrawFundsC
      in run_tx (f Begin) (wrapf ''failed to begin tx: %w'')
           (f Commit) (wrapf ''Failed to commit withdrawal for account %s: %w'')
           (\<lambda>db.
             case in_tx (f (Stmt 0)) (sql_complete_pending transactionId now) db of
               (Inl err, db) \<Rightarrow> (Inl (wrapf ''failed to update transaction status: %w'' err), db)
             | (Inr update, db) \<Rightarrow>
                 (case (if update = 1 then
                          (case reconcileBalance (\<lambda>i. f (Stmt (1 + i))) now accountId db of
                             (Inl err, db) \<Rightarrow> (Inl (wrapf ''Failed to debit account %s: %w'' err), db)
                           | (Inr debitRows, db) \<Rightarrow>
                               if debitRows \<noteq> 1
                               then (Inl (errorf ''Account %s has insufficient balance''), db)
                               else (Inr (), db))
                        else (Inr (), db)) of
                    (Inl err, db) \<Rightarrow> (Inl err, db)
                  | (Inr _, db) \<Rightarrow>
                      (case in_tx (f (Stmt 4)) (sql_select_transaction transactionId) db of
                         (Inl err, db) \<Rightarrow> (Inl (wrapf ''Failed to read transaction %s: %w'' err), db)
                       | (Inr transaction, db) \<Rightarrow> (Inr transaction, db))))
           db)"

end
