(* ===== verification/Settlement.thy ===== *)
theory Settlement
  imports Ledger
begin

text \<open>
  What the three settlements of the repository promise, stated once as the locale
  \<open>settlement\<close> and proved of \<open>DepositFunds\<close>, \<open>WithdrawFunds\<close> and \<open>TransferFunds\<close> by
  interpretation. The specification \<open>settle_spec\<close> says in one step what a settlement of
  transaction \<open>tid\<close> over the accounts \<open>ids\<close> does: if the row is pending it becomes completed
  and every account of \<open>ids\<close> gets the sum of its completed entries, provided none of these
  sums is negative; otherwise nothing changes.
\<close>

section \<open>Specification\<close>

definition rebalance :: "transaction_row list \<Rightarrow> string list \<Rightarrow> time \<Rightarrow> AccountModel list \<Rightarrow>
    AccountModel list" where
  "rebalance ts ids now as =
     update_where (\<lambda>r. am_ID r \<in> set ids)
       (\<lambda>r. r\<lparr>am_Balance := ledger_sum (am_ID r) ts, am_UpdatedAt := now\<rparr>) as"

definition affordable :: "transaction_row list \<Rightarrow> AccountModel list \<Rightarrow> string \<Rightarrow> bool" where
  "affordable ts as a \<longleftrightarrow>
     a \<in> set (keys am_ID as) \<and> 0 \<le> ledger_sum a ts \<and> fits_signed 64 (ledger_sum a ts)"

definition settle_spec :: "string \<Rightarrow> string list \<Rightarrow> time \<Rightarrow> database \<Rightarrow> database option" where
  "settle_spec tid ids now db =
     (if \<exists>t \<in> set (transactions db). pending_row tid t then
        (let ts = complete_pending tid now (transactions db) in
         if \<forall>a \<in> set ids. affordable ts (accounts db) a
         then Some (db\<lparr>transactions := ts, accounts := rebalance ts ids now (accounts db)\<rparr>)
         else None)
      else Some db)"

definition books_balanced :: "database \<Rightarrow> bool" where
  "books_balanced db \<longleftrightarrow>
     (\<forall>a \<in> set (accounts db). am_Balance a = ledger_sum (am_ID a) (transactions db))"

definition row_within :: "string \<Rightarrow> string list \<Rightarrow> database \<Rightarrow> bool" where
  "row_within tid ids db \<longleftrightarrow>
     (\<forall>t \<in> set (transactions db). tm_ID t = tid \<longrightarrow>
        tm_FromAccount t \<in> set ids \<and> tm_ToAccount t \<in> set ids)"

section \<open>Sums over the ledger\<close>

lemma ledger_sum_Nil [simp]: "ledger_sum a [] = 0"
  by (simp add: ledger_sum_def)

lemma ledger_sum_Cons:
  "ledger_sum a (t # ts) =
     (if involves a t \<and> tm_Status t = TransactionStatusCompleted then contribution a t else 0)
     + ledger_sum a ts"
  by (simp add: ledger_sum_def)

lemma ledger_sum_append: "ledger_sum a (xs @ ys) = ledger_sum a xs + ledger_sum a ys"
  by (simp add: ledger_sum_def)

lemma complete_pending_Nil [simp]: "complete_pending tid now [] = []"
  by (simp add: complete_pending_def)

lemma complete_pending_none:
  "\<not> (\<exists>t \<in> set ts. pending_row tid t) \<Longrightarrow> complete_pending tid now ts = ts"
  unfolding complete_pending_def by (rule update_where_cong_set) blast

lemma keys_complete_pending [simp]:
  "keys tm_ID (complete_pending tid now ts) = keys tm_ID ts"
  by (simp add: complete_pending_def table_simps)

lemma contribution_status [simp]:
  "contribution a (t\<lparr>tm_Status := s, tm_UpdatedAt := now\<rparr>) = contribution a t"
  "involves a (t\<lparr>tm_Status := s, tm_UpdatedAt := now\<rparr>) = involves a t"
  by (simp_all add: contribution_def involves_def)

lemma ledger_sum_complete:
  assumes "distinct (keys tm_ID ts)" and "t \<in> set ts" and "pending_row tid t"
  shows "ledger_sum a (complete_pending tid now ts) =
     ledger_sum a ts + (if involves a t then contribution a t else 0)"
  using assms(1,2)
proof (induction ts)
  case Nil
  then show ?case by simp
next
  case (Cons r ts)
  show ?case
  proof (cases "r = t")
    case True
    have "\<not> (\<exists>r' \<in> set ts. pending_row tid r')"
      using Cons.prems(1) assms(3) True by (auto simp: set_keys pending_row_def)
    then have "complete_pending tid now ts = ts" by (rule complete_pending_none)
    with True assms(3) show ?thesis
      by (simp add: complete_pending_def ledger_sum_Cons pending_row_def)
  next
    case False
    with Cons.prems have t: "t \<in> set ts" by simp
    with Cons.prems(1) assms(3) have "\<not> pending_row tid r"
      by (auto simp: keys_def pending_row_def)
    with Cons t show ?thesis
      by (simp add: complete_pending_def ledger_sum_Cons)
  qed
qed

lemma ledger_sum_complete_outside:
  assumes "row_within tid ids db" and "a \<notin> set ids"
  shows "ledger_sum a (complete_pending tid now (transactions db)) = ledger_sum a (transactions db)"
proof -
  have "ledger_sum a (complete_pending tid now ts) = ledger_sum a ts"
    if "\<forall>t \<in> set ts. tm_ID t = tid \<longrightarrow> \<not> involves a t" for ts
    using that
  proof (induction ts)
    case (Cons t ts)
    then show ?case
      by (auto simp: complete_pending_def ledger_sum_Cons pending_row_def)
  qed simp
  then show ?thesis
    using assms by (force simp: row_within_def involves_def)
qed

text \<open>No entry of the ledger names an account that does not exist.\<close>

lemma ledger_sum_unknown:
  assumes "schema_ok db" and "a \<notin> set (keys am_ID (accounts db))"
  shows "ledger_sum a (transactions db) = 0"
proof -
  have "\<not> involves a t" if "t \<in> set (transactions db)" for t
    using schema_okD(5) [OF assms(1) that] assms(2) by (auto simp: transaction_row_ok_def involves_def)
  then show ?thesis by (auto simp: ledger_sum_def filter_False)
qed

section \<open>Reconciliation of one account\<close>

lemma keys_rebalance [simp]:
  "keys am_ID (rebalance ts ids now as) = keys am_ID as"
  "keys am_UserID (rebalance ts ids now as) = keys am_UserID as"
  by (simp_all add: rebalance_def table_simps)

lemma rebalance_Nil [simp]: "rebalance ts [] now as = as"
  by (simp add: rebalance_def update_where_def)

lemma set_balance_rebalance:
  "set_balance a (ledger_sum a ts) now as = rebalance ts [a] now as"
  by (auto simp: set_balance_def rebalance_def update_where_def)

lemma rebalance_rebalance:
  "rebalance ts ids2 now (rebalance ts ids1 now as) = rebalance ts (ids1 @ ids2) now as"
  by (auto simp: rebalance_def update_where_def)

lemma reconcileBalance_one:
  assumes d: "distinct (keys am_ID (accounts db))"
  shows "reconcileBalance f now a db = (Inr 1, db') \<longleftrightarrow>
     f 0 = IoOk \<and> f 1 = IoOk \<and> f 2 = IoOk \<and> affordable (transactions db) (accounts db) a \<and>
     db' = db\<lparr>accounts := rebalance (transactions db) [a] now (accounts db)\<rparr>"
proof -
  have n: "rows_where (\<lambda>r. am_ID r = a) (accounts db) = 1 \<longleftrightarrow> a \<in> set (keys am_ID (accounts db))"
    using rows_where_key_one [OF d] rows_where_zero [of "\<lambda>r. am_ID r = a" "accounts db"]
    by (fastforce simp: set_keys)
  show ?thesis
    by (auto simp: reconcileBalance_def in_tx_def sql_lock_account_def sql_ledger_sum_def
        sql_set_balance_def scan_int64_def affordable_def set_balance_rebalance n [simplified] Let_def
        split: if_splits)
qed

section \<open>The common body\<close>

fun reconcile_each :: "(stmt \<Rightarrow> io) \<Rightarrow> time \<Rightarrow> (error \<Rightarrow> error) \<Rightarrow> error \<Rightarrow> nat \<Rightarrow> string list \<Rightarrow>
    (database, unit) operation" where
  "reconcile_each f now wr ne k [] db = (Inr (), db)"
| "reconcile_each f now wr ne k (a # as) db =
     (case reconcileBalance (\<lambda>i. f (Stmt (k + i))) now a db of
        (Inl err, db) \<Rightarrow> (Inl (wr err), db)
      | (Inr n, db) \<Rightarrow>
          if n \<noteq> 1 then (Inl ne, db) else reconcile_each f now wr ne (k + 3) as db)"

definition settle_body :: "(stmt \<Rightarrow> io) \<Rightarrow> time \<Rightarrow> (error \<Rightarrow> error) \<Rightarrow> error \<Rightarrow> (error \<Rightarrow> error) \<Rightarrow> nat \<Rightarrow>
    string \<Rightarrow> string list \<Rightarrow> (database, TransactionModel) operation" where
  "settle_body f now wr ne rd k tid ids db =
     (case in_tx (f (Stmt 0)) (sql_complete_pending tid now) db of
        (Inl err, db) \<Rightarrow> (Inl (wrapf ''failed to update transaction status: %w'' err), db)
      | (Inr update, db) \<Rightarrow>
          (case (if update = 1 then reconcile_each f now wr ne 1 ids db else (Inr (), db)) of
             (Inl err, db) \<Rightarrow> (Inl err, db)
           | (Inr _, db) \<Rightarrow>
               (case in_tx (f (Stmt k)) (sql_select_transaction tid) db of
                  (Inl err, db) \<Rightarrow> (Inl (rd err), db)
                | (Inr transaction, db) \<Rightarrow> (Inr transaction, db))))"

lemma DepositFunds_body:
  "DepositFunds e tid a c amt =
     run_tx (env_io e DepositFundsC Begin) (wrapf ''failed to begin tx: %w'')
       (env_io e DepositFundsC Commit) (wrapf ''failed to commit deposit for account %s: %w'')
       (settle_body (env_io e DepositFundsC) (env_now e DepositFundsC)
          (wrapf ''failed to credit account %s: %w'') (errorf ''account %s not found'')
          (wrapf ''failed to read transaction %s: %w'') 4 tid [a])"
  unfolding DepositFunds_def settle_body_def [abs_def] reconcile_each.simps Let_def ..

lemma WithdrawFunds_body:
  "WithdrawFunds e tid a amt =
     run_tx (env_io e WithdrawFundsC Begin) (wrapf ''failed to begin tx: %w'')
       (env_io e WithdrawFundsC Commit) (wrapf ''Failed to commit withdrawal for account %s: %w'')
       (settle_body (env_io e WithdrawFundsC) (env_now e WithdrawFundsC)
          (wrapf ''Failed to debit account %s: %w'') (errorf ''Account %s has insufficient balance'')
          (wrapf ''Failed to read transaction %s: %w'') 4 tid [a])"
  unfolding WithdrawFunds_def settle_body_def [abs_def] reconcile_each.simps Let_def ..

lemma one_plus_3: "(1::nat) + 3 = 4"
  by simp

lemma TransferFunds_body:
  "TransferFunds e tid fr to c amt db =
     (if amt \<le> 0 then (Inl (errorf ''transfer amount must be positive, got %v''), db)
      else run_tx (env_io e TransferFundsC Begin) (wrapf ''failed to begin tx: %w'')
       (env_io e TransferFundsC Commit) (wrapf ''failed to commit transfer from %s to %s: %w'')
       (settle_body (env_io e TransferFundsC) (env_now e TransferFundsC)
          (wrapf ''failed to reconcile balance for account %s: %w'')
          (errorf ''account %s not found or insufficient balance'')
          (wrapf ''failed to read transaction %s: %w'') 7 tid
          [fst (lock_order fr to), snd (lock_order fr to)]) db)"
  unfolding TransferFunds_def settle_body_def [abs_def] reconcile_each.simps Let_def
    split_beta [of _ "lock_order fr to"] one_plus_3 ..

lemma reconcile_each_Inr:
  assumes "distinct (keys am_ID (accounts db))"
  shows "reconcile_each f now wr ne k ids db = (Inr u, db') \<longleftrightarrow>
     (\<forall>i < 3 * length ids. f (Stmt (k + i)) = IoOk) \<and>
     (\<forall>a \<in> set ids. affordable (transactions db) (accounts db) a) \<and>
     db' = db\<lparr>accounts := rebalance (transactions db) ids now (accounts db)\<rparr>"
  using assms
proof (induction ids arbitrary: k db)
  case Nil
  then show ?case by auto
next
  case (Cons a ids)
  let ?db1 = "db\<lparr>accounts := rebalance (transactions db) [a] now (accounts db)\<rparr>"
  let ?ok = "\<lambda>k n. \<forall>i < n. f (Stmt (k + i)) = IoOk"
  have ok3: "?ok k (3 * length (a # ids)) \<longleftrightarrow>
      f (Stmt k) = IoOk \<and> f (Stmt (k + 1)) = IoOk \<and> f (Stmt (k + 2)) = IoOk
      \<and> ?ok (k + 3) (3 * length ids)"
    by (simp add: All_less_Suc2 numeral_eq_Suc)
  have aff: "affordable (transactions db) (accounts ?db1) b = affordable (transactions db) (accounts db) b"
    for b by (simp add: affordable_def)
  have "reconcile_each f now wr ne k (a # ids) db = (Inr u, db') \<longleftrightarrow>
      (\<exists>d. reconcileBalance (\<lambda>i. f (Stmt (k + i))) now a db = (Inr 1, d) \<and>
           reconcile_each f now wr ne (k + 3) ids d = (Inr u, db'))"
    by (auto split: prod.splits sum.splits if_splits)
  also have "\<dots> \<longleftrightarrow> f (Stmt k) = IoOk \<and> f (Stmt (k + 1)) = IoOk \<and> f (Stmt (k + 2)) = IoOk \<and>
      affordable (transactions db) (accounts db) a \<and>
      reconcile_each f now wr ne (k + 3) ids ?db1 = (Inr u, db')"
    using Cons.prems by (auto simp: reconcileBalance_one [simplified])
  also have "reconcile_each f now wr ne (k + 3) ids ?db1 = (Inr u, db') \<longleftrightarrow>
      ?ok (k + 3) (3 * length ids) \<and>
      (\<forall>b \<in> set ids. affordable (transactions db) (accounts db) b) \<and>
      db' = db\<lparr>accounts := rebalance (transactions db) (a # ids) now (accounts db)\<rparr>"
    using Cons.IH [of ?db1 "k + 3"] Cons.prems aff
    by (simp add: rebalance_rebalance)
  finally show ?case using ok3 by (auto simp: numeral_eq_Suc)
qed

lemma pending_row_count:
  assumes "distinct (keys tm_ID ts)"
  shows "rows_where (pending_row tid) ts = 1 \<longleftrightarrow> (\<exists>t \<in> set ts. pending_row tid t)"
    and "rows_where (pending_row tid) ts \<noteq> 1 \<Longrightarrow> rows_where (pending_row tid) ts = 0"
proof -
  have "rows_where (pending_row tid) ts \<le> 1"
    using assms by (rule rows_where_unique [where x = tid]) (simp add: pending_row_def)
  then show "rows_where (pending_row tid) ts = 1 \<longleftrightarrow> (\<exists>t \<in> set ts. pending_row tid t)"
    and "rows_where (pending_row tid) ts \<noteq> 1 \<Longrightarrow> rows_where (pending_row tid) ts = 0"
    using rows_where_zero [of "pending_row tid" ts] by (cases "rows_where (pending_row tid) ts"; auto)+
qed

lemma settle_spec_transactions:
  "settle_spec tid ids now db = Some db' \<Longrightarrow>
     transactions db' = complete_pending tid now (transactions db)"
  by (auto simp: settle_spec_def Let_def complete_pending_none split: if_splits)

lemma settle_spec_schema:
  assumes ok: "schema_ok db" and s: "settle_spec tid ids now db = Some db'"
  shows "schema_ok db'"
proof (cases "\<exists>t \<in> set (transactions db). pending_row tid t")
  case True
  let ?ts = "complete_pending tid now (transactions db)"
  from True s have aff: "\<forall>a \<in> set ids. affordable ?ts (accounts db) a"
    and db': "db' = db\<lparr>transactions := ?ts, accounts := rebalance ?ts ids now (accounts db)\<rparr>"
    by (auto simp: settle_spec_def Let_def split: if_splits)
  have "transactions_ok (keys am_ID (accounts db)) ?ts"
    using ok by (auto simp: schema_ok_def transactions_ok_def transaction_row_ok_def
        complete_pending_def set_update_where keys_update_where split: if_splits)
  moreover have "accounts_ok (keys um_ID (users db)) (rebalance ?ts ids now (accounts db))"
    using ok aff by (auto simp: schema_ok_def accounts_ok_def account_row_ok_def affordable_def
        rebalance_def set_update_where keys_update_where)
  ultimately show ?thesis using ok by (simp add: schema_ok_def db')
next
  case False
  with s ok show ?thesis by (simp add: settle_spec_def)
qed

lemma settle_spec_books:
  assumes ok: "schema_ok db" and b: "books_balanced db" and w: "row_within tid ids db"
    and s: "settle_spec tid ids now db = Some db'"
  shows "books_balanced db'"
proof (cases "\<exists>t \<in> set (transactions db). pending_row tid t")
  case True
  let ?ts = "complete_pending tid now (transactions db)"
  from True s have
    db': "db' = db\<lparr>transactions := ?ts, accounts := rebalance ?ts ids now (accounts db)\<rparr>"
    by (auto simp: settle_spec_def Let_def split: if_splits)
  show ?thesis
    using b ledger_sum_complete_outside [OF w]
    by (auto simp: books_balanced_def db' rebalance_def set_update_where)
next
  case False
  with s b show ?thesis by (simp add: settle_spec_def)
qed

lemma rebalance_outside:
  "a \<in> set as \<Longrightarrow> am_ID a \<notin> set ids \<Longrightarrow> a \<in> set (rebalance ts ids now as)"
  by (force simp: rebalance_def set_update_where)

lemma settle_spec_outside:
  assumes "settle_spec tid ids now db = Some db'"
    and "a \<in> set (accounts db)" and "am_ID a \<notin> set ids"
  shows "a \<in> set (accounts db')"
  using assms rebalance_outside [OF assms(2,3)]
  by (auto simp: settle_spec_def Let_def split: if_splits)

lemma settle_spec_within:
  assumes "settle_spec tid ids now db = Some db'" and "row_within x xs db"
  shows "row_within x xs db'"
  using settle_spec_transactions [OF assms(1)] assms(2)
  by (auto simp: row_within_def complete_pending_def table_simps)

lemma settle_body_Inr:
  assumes ok: "schema_ok db"
  shows "settle_body f now wr ne rd k tid ids db = (Inr t, db') \<longleftrightarrow>
     f (Stmt 0) = IoOk \<and> f (Stmt k) = IoOk \<and>
     ((\<exists>r \<in> set (transactions db). pending_row tid r) \<longrightarrow>
        (\<forall>i < 3 * length ids. f (Stmt (1 + i)) = IoOk)) \<and>
     settle_spec tid ids now db = Some db' \<and>
     sql_select_transaction tid db' = (Inr t, db')"
proof -
  let ?ts = "complete_pending tid now (transactions db)"
  let ?db1 = "db\<lparr>transactions := ?ts\<rparr>"
  note d = schema_okD(1,2) [OF ok]
  have sel: "sql_select_transaction tid d = (r, d') \<Longrightarrow> d' = d" for d d' r
    by (auto simp: sql_select_transaction_def split: option.splits)
  have "settle_body f now wr ne rd k tid ids db = (Inr t, db') \<longleftrightarrow>
      f (Stmt 0) = IoOk \<and> f (Stmt k) = IoOk \<and>
      (\<exists>d u. (if rows_where (pending_row tid) (transactions db) = 1
              then reconcile_each f now wr ne 1 ids ?db1 else (Inr (), ?db1)) = (Inr u, d) \<and>
           sql_select_transaction tid d = (Inr t, db'))"
    by (auto simp: settle_body_def in_tx_def sql_complete_pending_def
        split: prod.splits sum.splits if_splits)
  also have "\<dots> \<longleftrightarrow> f (Stmt 0) = IoOk \<and> f (Stmt k) = IoOk \<and>
      ((\<exists>r \<in> set (transactions db). pending_row tid r) \<longrightarrow>
        (\<forall>i < 3 * length ids. f (Stmt (1 + i)) = IoOk)) \<and>
      settle_spec tid ids now db = Some db' \<and>
      sql_select_transaction tid db' = (Inr t, db')"
  proof (cases "\<exists>r \<in> set (transactions db). pending_row tid r")
    case True
    with d(1) show ?thesis
      by (auto simp: pending_row_count(1) [OF d(2), simplified] reconcile_each_Inr settle_spec_def Let_def dest: sel)
  next
    case False
    then have "?db1 = db" by (simp add: complete_pending_none)
    with False show ?thesis
      by (auto simp: pending_row_count(1) [OF d(2), simplified] settle_spec_def dest: sel)
  qed
  finally show ?thesis .
qed

section \<open>The contract and its consequences\<close>

locale settlement =
  fixes move :: "db_env \<Rightarrow> (database, TransactionModel) operation"
    and tid :: string
    and ids :: "string list"
    and at :: "db_env \<Rightarrow> time"
    and up :: "db_env \<Rightarrow> bool"
    and lost :: "db_env \<Rightarrow> bool"
  assumes move_Inr: "schema_ok db \<Longrightarrow> move e db = (Inr t, db') \<Longrightarrow>
        settle_spec tid ids (at e) db = Some db' \<and> sql_select_transaction tid db' = (Inr t, db')"
    and move_Inl: "schema_ok db \<Longrightarrow> move e db = (Inl err, db') \<Longrightarrow>
        db' = db \<or> (lost e \<and> settle_spec tid ids (at e) db = Some db')"
    and move_up: "schema_ok db \<Longrightarrow> up e \<Longrightarrow> settle_spec tid ids (at e) db = Some db' \<Longrightarrow>
        sql_select_transaction tid db' = (Inr t, db') \<Longrightarrow> move e db = (Inr t, db')"
begin

lemma move_state:
  assumes "schema_ok db"
  shows "snd (move e db) = db \<or> settle_spec tid ids (at e) db = Some (snd (move e db))"
proof (cases "move e db")
  case (Pair r db')
  then show ?thesis
    using move_Inr [OF assms, of e] move_Inl [OF assms, of e] by (cases r) auto
qed

lemma move_atomic:
  assumes "schema_ok db" and "\<not> lost e" and "move e db = (Inl err, db')"
  shows "db' = db"
  using move_Inl [OF assms(1,3)] assms(2) by blast

lemma move_redelivered:
  assumes "schema_ok db" and "\<forall>t \<in> set (transactions db). \<not> pending_row tid t"
  shows "snd (move e db) = db"
  using move_state [OF assms(1), of e] assms(2) by (auto simp: settle_spec_def)

lemma move_outside:
  assumes "schema_ok db" and "a \<in> set (accounts db)" and "am_ID a \<notin> set ids"
  shows "a \<in> set (accounts (snd (move e db)))"
  using move_state [OF assms(1), of e] settle_spec_outside [OF _ assms(2,3)] assms(2) by auto

lemma move_schema:
  assumes "schema_ok db"
  shows "schema_ok (snd (move e db))"
  using move_state [OF assms, of e] settle_spec_schema [OF assms] assms by auto

lemma move_books:
  assumes "schema_ok db" and "books_balanced db" and "row_within tid ids db"
  shows "books_balanced (snd (move e db))"
  using move_state [OF assms(1), of e] settle_spec_books [OF assms] assms(2) by auto

lemma move_within:
  assumes "schema_ok db" and "row_within x xs db"
  shows "row_within x xs (snd (move e db))"
  using move_state [OF assms(1), of e] settle_spec_within [OF _ assms(2)] assms(2) by auto

end

text \<open>
  The state in which a statement of a call is up, and in which its commit took effect without
  being acknowledged.
\<close>

definition call_up :: "repo_call \<Rightarrow> db_env \<Rightarrow> bool" where
  "call_up c e \<longleftrightarrow> (\<forall>s. env_io e c s = IoOk)"

definition commit_lost :: "repo_call \<Rightarrow> db_env \<Rightarrow> bool" where
  "commit_lost c e \<longleftrightarrow> env_io e c Commit = IoLost"

lemma run_tx_settlement_Inr:
  assumes "schema_ok db"
    and "run_tx (f Begin) be (f Commit) ce (settle_body f now wr ne rd k tid ids) db = (Inr t, db')"
  shows "settle_spec tid ids now db = Some db' \<and> sql_select_transaction tid db' = (Inr t, db')"
  using assms by (auto simp: run_tx_Inr settle_body_Inr)

lemma run_tx_settlement_Inl:
  assumes "schema_ok db"
    and "run_tx (f Begin) be (f Commit) ce (settle_body f now wr ne rd k tid ids) db = (Inl err, db')"
  shows "db' = db \<or> (f Commit = IoLost \<and> settle_spec tid ids now db = Some db')"
  using run_tx_Inl_state [OF assms(2)] assms(1) by (auto simp: settle_body_Inr)

lemma run_tx_settlement_up:
  assumes "schema_ok db" and "\<forall>s. f s = IoOk" and "settle_spec tid ids now db = Some db'"
    and "sql_select_transaction tid db' = (Inr t, db')"
  shows "run_tx IoOk be IoOk ce (settle_body f now wr ne rd k tid ids) db = (Inr t, db')"
  using assms by (auto simp: run_tx_Inr settle_body_Inr)

lemmas run_tx_settlement = run_tx_settlement_Inr run_tx_settlement_Inl

interpretation dep: settlement
  "\<lambda>e. DepositFunds e tid a c amt" tid "[a]" "\<lambda>e. env_now e DepositFundsC"
  "call_up DepositFundsC" "commit_lost DepositFundsC"
  for tid a c amt
  by unfold_locales
    (auto simp: DepositFunds_body call_up_def commit_lost_def dest: run_tx_settlement
      intro: run_tx_settlement_up)

interpretation wdr: settlement
  "\<lambda>e. WithdrawFunds e tid a amt" tid "[a]" "\<lambda>e. env_now e WithdrawFundsC"
  "call_up WithdrawFundsC" "commit_lost WithdrawFundsC"
  for tid a amt
  by unfold_locales
    (auto simp: WithdrawFunds_body call_up_def commit_lost_def dest: run_tx_settlement
      intro: run_tx_settlement_up)

interpretation trf: settlement
  "\<lambda>e. TransferFunds e tid fr to c amt" tid "[fst (lock_order fr to), snd (lock_order fr to)]"
  "\<lambda>e. env_now e TransferFundsC"
  "\<lambda>e. call_up TransferFundsC e \<and> 0 < amt" "commit_lost TransferFundsC"
  for tid fr to c amt
  by unfold_locales
    (auto simp: TransferFunds_body call_up_def commit_lost_def dest: run_tx_settlement
      intro: run_tx_settlement_up split: if_splits)

end
