(* ===== verification/GoStd.thy ===== *)
theory GoStd
  imports Prelude "HOL-Library.Sublist"
begin

text \<open>
  The functions of Go's standard library whose results the sources depend on:
  \<^verbatim>\<open>strconv.Itoa\<close>, \<^verbatim>\<open>strconv.ParseInt\<close> (base 10), \<^verbatim>\<open>strconv.Atoi\<close>,
  \<^verbatim>\<open>strings.HasPrefix\<close>, \<^verbatim>\<open>strings.TrimPrefix\<close>, \<^verbatim>\<open>strings.TrimSuffix\<close>, and on top of
  them \<^verbatim>\<open>shared/env/env.go\<close>. A Go function with two results is a pair; its error is
  \<open>None\<close> when it is nil.
\<close>

section \<open>strconv\<close>

definition digit_char :: "nat \<Rightarrow> char" where
  "digit_char n = char_of (48 + n)"

fun decimal :: "nat \<Rightarrow> string" where
  "decimal n = (if n < 10 then [digit_char n] else decimal (n div 10) @ [digit_char (n mod 10)])"

declare decimal.simps [simp del]

definition Itoa :: "int \<Rightarrow> string" where
  "Itoa i = (if i < 0 then CHR ''-'' # decimal (nat (- i)) else decimal (nat i))"

definition is_digit :: "char \<Rightarrow> bool" where
  "is_digit c \<longleftrightarrow> 48 \<le> (of_char c :: nat) \<and> (of_char c :: nat) \<le> 57"

fun parse_digits :: "nat \<Rightarrow> string \<Rightarrow> nat option" where
  "parse_digits acc [] = Some acc"
| "parse_digits acc (c # cs) =
     (if is_digit c then parse_digits (10 * acc + (of_char c - 48)) cs else None)"

definition ErrSyntax :: error where "ErrSyntax = Sentinel ''invalid syntax''"
definition ErrRange :: error where "ErrRange = Sentinel ''value out of range''"

definition split_sign :: "string \<Rightarrow> bool \<times> string" where
  "split_sign s =
     (case s of
        [] \<Rightarrow> (False, [])
      | c # cs \<Rightarrow> if c = CHR ''-'' then (True, cs) else if c = CHR ''+'' then (False, cs)
                 else (False, s))"

definition ParseInt :: "nat \<Rightarrow> string \<Rightarrow> int \<times> error option" where
  "ParseInt bits s =
     (let (neg, ds) = split_sign s in
      if ds = [] then (0, Some ErrSyntax)
      else case parse_digits 0 ds of
        None \<Rightarrow> (0, Some ErrSyntax)
      | Some n \<Rightarrow>
          (if neg then
             (if n \<le> 2 ^ (bits - 1) then (- int n, None)
              else (- (2 ^ (bits - 1)), Some ErrRange))
           else
             (if n < 2 ^ (bits - 1) then (int n, None)
              else (2 ^ (bits - 1) - 1, Some ErrRange))))"

definition Atoi :: "string \<Rightarrow> int \<times> error option" where
  "Atoi s = ParseInt 64 s"

section \<open>strings\<close>

definition HasPrefix :: "string \<Rightarrow> string \<Rightarrow> bool" where
  "HasPrefix s p = prefix p s"

definition TrimPrefix :: "string \<Rightarrow> string \<Rightarrow> string" where
  "TrimPrefix s p = (if prefix p s then drop (length p) s else s)"

definition TrimSuffix :: "string \<Rightarrow> string \<Rightarrow> string" where
  "TrimSuffix s p = (if suffix p s then take (length s - length p) s else s)"

section \<open>env.go\<close>

type_synonym os_env = "string \<Rightarrow> string option"

definition GetString :: "os_env \<Rightarrow> string \<Rightarrow> string \<Rightarrow> string" where
  "GetString env key fallback = (case env key of None \<Rightarrow> fallback | Some val \<Rightarrow> val)"

definition GetInt :: "os_env \<Rightarrow> string \<Rightarrow> int \<Rightarrow> int" where
  "GetInt env key fallback =
     (case env key of
        None \<Rightarrow> fallback
      | Some val \<Rightarrow>
          (case Atoi val of
             (valAsInt, Some err) \<Rightarrow> fallback
           | (valAsInt, None) \<Rightarrow> valAsInt))"

definition ParseBool :: "string \<Rightarrow> bool option" where
  "ParseBool s =
     (if s = ''1'' \<or> s = ''t'' \<or> s = ''T'' \<or> s = ''true'' \<or> s = ''TRUE'' \<or> s = ''True'' then Some True
      else if s = ''0'' \<or> s = ''f'' \<or> s = ''F'' \<or> s = ''false'' \<or> s = ''FALSE'' \<or> s = ''False''
        then Some False
      else None)"

definition GetBool :: "os_env \<Rightarrow> string \<Rightarrow> bool \<Rightarrow> bool" where
  "GetBool env key fallback =
     (case env key of
        None \<Rightarrow> fallback
      | Some val \<Rightarrow> (case ParseBool val of None \<Rightarrow> fallback | Some boolVal \<Rightarrow> boolVal))"

section \<open>Facts\<close>

lemma of_char_digit: "n < 10 \<Longrightarrow> (of_char (digit_char n) :: nat) = 48 + n"
  by (simp add: digit_char_def)

lemma is_digit_digit: "n < 10 \<Longrightarrow> is_digit (digit_char n)"
  by (simp add: is_digit_def of_char_digit)

lemma parse_digits_append:
  "parse_digits acc (xs @ ys) =
     (case parse_digits acc xs of None \<Rightarrow> None | Some n \<Rightarrow> parse_digits n ys)"
  by (induction xs arbitrary: acc) auto

lemma parse_digits_decimal: "parse_digits 0 (decimal n) = Some n"
proof (induction n rule: decimal.induct)
  case (1 n)
  show ?case
  proof (cases "n < 10")
    case True
    then show ?thesis
      by (simp add: decimal.simps [of n] is_digit_digit of_char_digit)
  next
    case False
    with "1.IH" have "parse_digits 0 (decimal (n div 10)) = Some (n div 10)" by simp
    with False show ?thesis
      by (simp add: decimal.simps [of n] parse_digits_append is_digit_digit of_char_digit)
  qed
qed

lemma decimal_head: "\<exists>c cs. decimal n = c # cs \<and> is_digit c"
proof (induction n rule: decimal.induct)
  case (1 n)
  show ?case
  proof (cases "n < 10")
    case True
    then show ?thesis by (simp add: decimal.simps [of n] is_digit_digit)
  next
    case False
    with "1.IH" show ?thesis by (auto simp: decimal.simps [of n])
  qed
qed

lemma split_sign_decimal: "split_sign (decimal n) = (False, decimal n)"
proof -
  obtain c cs where d: "decimal n = c # cs" and c: "is_digit c"
    using decimal_head by blast
  from c have "c \<noteq> CHR ''-''" "c \<noteq> CHR ''+''" by (auto simp: is_digit_def)
  with d show ?thesis by (simp add: split_sign_def)
qed

lemma decimal_nonempty [simp]: "decimal n \<noteq> []"
  using decimal_head [of n] by auto

lemma ParseInt_Itoa:
  assumes "fits_signed bits i"
  shows "ParseInt bits (Itoa i) = (i, None)"
proof (cases "i < 0")
  case True
  then have "nat (- i) \<le> 2 ^ (bits - 1)"
    using assms by (simp add: fits_signed_def nat_le_iff)
  with True show ?thesis
    by (simp add: ParseInt_def Itoa_def split_sign_def parse_digits_decimal)
next
  case False
  then have "nat i < 2 ^ (bits - 1)"
    using assms by (simp add: fits_signed_def nat_less_iff)
  with False show ?thesis
    by (simp add: ParseInt_def Itoa_def split_sign_decimal parse_digits_decimal)
qed

lemma ParseInt_fits:
  assumes "0 < bits"
  shows "fits_signed bits (fst (ParseInt bits s))"
proof -
  have b: "n \<le> 2 ^ (bits - 1) \<Longrightarrow> int n \<le> 2 ^ (bits - 1)"
    "n < 2 ^ (bits - 1) \<Longrightarrow> int n < 2 ^ (bits - 1)" for n
    by (simp_all flip: of_nat_power_le_of_nat_cancel_iff of_nat_less_of_nat_power_cancel_iff)
  have p: "(1::int) \<le> 2 ^ (bits - 1)" by simp
  have neg: "- int n < 2 ^ k" for n k by (rule order.strict_trans1 [of _ 0]) auto
  show ?thesis
    using p by (auto simp: ParseInt_def fits_signed_def Let_def split_beta b neg
        split: option.splits dest: b intro: order_trans [of _ 0])
qed

lemma TrimSuffix_append [simp]: "TrimSuffix (s @ p) p = s"
  by (simp add: TrimSuffix_def suffix_def)

lemma TrimPrefix_append [simp]: "TrimPrefix (p @ s) p = s"
  by (simp add: TrimPrefix_def)

end
