(* ===== verification/Cache.thy ===== *)
theory Cache
  imports Models GoStd
begin

text \<open>
  \<^verbatim>\<open>shared/cache/client.go\<close>. The Redis client is a parameter: a record with the four
  commands the cache uses, on a state of any type. What the code relies on is the locale
  \<open>redis_laws\<close>: the documented effect of each command on the keys that are present, where a
  command that returns an error may still have taken effect. \<open>redis_ref\<close> is a reference store
  with expiry times, a clock and injected faults, which satisfies the laws.

  A JSON document stored under a key is represented by the Go value it encodes.
\<close>

datatype redis_value = RInt int | RStr string | RAuth UserAuthModel

definition redis_Nil :: string where "redis_Nil = ''redis: nil''"

record 'r redis_client =
  redis_Set :: "string \<Rightarrow> redis_value \<Rightarrow> time \<Rightarrow> ('r, unit) operation"
  redis_Get :: "string \<Rightarrow> ('r, redis_value) operation"
  redis_SetNX :: "string \<Rightarrow> redis_value \<Rightarrow> time \<Rightarrow> ('r, bool) operation"
  redis_Del :: "string \<Rightarrow> ('r, unit) operation"

section \<open>CacheClient\<close>

text \<open>\<^verbatim>\<open>time.Duration(n) * time.Minute\<close> and \<^verbatim>\<open>* time.Hour\<close>: nanoseconds in 64 bits, here in the microseconds of \<open>time\<close>.\<close>

definition minutes :: "int \<Rightarrow> time" where
  "minutes n = to_int64 (n * 60000000000) div 1000"

definition hours :: "int \<Rightarrow> time" where
  "hours n = to_int64 (n * 3600000000000) div 1000"

definition idempotencyTTL :: time where
  "idempotencyTTL = hours 24"

definition accessTokenTTL :: "os_env \<Rightarrow> time" where
  "accessTokenTTL env = minutes (GetInt env ''ACCESS_TOKEN_TTL_MINUTES'' 15)"

definition balanceTTL :: "os_env \<Rightarrow> time" where
  "balanceTTL env = minutes (GetInt env ''BALANCE_CACHE_TTL_MINUTES'' 5)"

definition tokenKey :: "string \<Rightarrow> string" where
  "tokenKey userId = ''session:token:'' @ userId"

definition cache_idempotencyKey :: "string \<Rightarrow> string" where
  "cache_idempotencyKey transactionId = ''idempotency:tx:'' @ transactionId"

definition balanceKey :: "string \<Rightarrow> string" where
  "balanceKey accountId = ''balance:account:'' @ accountId"

definition StoreToken :: "'r redis_client \<Rightarrow> os_env \<Rightarrow> time \<Rightarrow> string \<Rightarrow> string \<Rightarrow>
    ('r, string) operation" where
  "StoreToken R env now userId refreshToken r =
     (let userAuth = \<lparr>ua_ID = [], ua_RefreshToken = refreshToken, ua_UserId = userId,
                      ua_IsCurrentlyLoggedIn = True, ua_CreatedAt = now, ua_UpdatedAt = now\<rparr>
      in case redis_Set R (tokenKey userId) (RAuth userAuth) (accessTokenTTL env) r of
           (Inl err, r) \<Rightarrow> (Inl (wrapf ''cache: store token for user %s: %w'' err), r)
         | (Inr _, r) \<Rightarrow> (Inr refreshToken, r))"

definition FindTokenByUserId :: "'r redis_client \<Rightarrow> string \<Rightarrow> ('r, UserAuthModel option) operation" where
  "FindTokenByUserId R userId r =
     (case redis_Get R (tokenKey userId) r of
        (Inl err, r) \<Rightarrow>
          if errors_Is err redis_Nil then (Inr None, r)
          else (Inl (wrapf ''cache: get token for user %s: %w'' err), r)
      | (Inr val, r) \<Rightarrow>
          (case val of
             RAuth userAuth \<Rightarrow> (Inr (Some userAuth), r)
           | _ \<Rightarrow> (Inl (wrapf ''cache: decode token for user %s: %w'' (errorf ''json'')), r)))"

definition DeleteTokenByUserId :: "'r redis_client \<Rightarrow> string \<Rightarrow> ('r, unit) operation" where
  "DeleteTokenByUserId R userId r =
     (case redis_Del R (tokenKey userId) r of
        (Inl err, r) \<Rightarrow> (Inl (wrapf ''cache: delete token for user %s: %w'' err), r)
      | (Inr _, r) \<Rightarrow> (Inr (), r))"

definition TransactionIdempotencyCheck :: "'r redis_client \<Rightarrow> string \<Rightarrow> ('r, bool) operation" where
  "TransactionIdempotencyCheck R transactionId r =
     (case redis_SetNX R (cache_idempotencyKey transactionId) (RStr transactionId) idempotencyTTL r of
        (Inl err, r) \<Rightarrow> (Inl (wrapf ''cache: insert idempotency key for transaction %s: %w'' err), r)
      | (Inr ok, r) \<Rightarrow> (Inr ok, r))"

definition TransactionIdempotencyRelease :: "'r redis_client \<Rightarrow> string \<Rightarrow> ('r, unit) operation" where
  "TransactionIdempotencyRelease R transactionId r =
     (case redis_Del R (cache_idempotencyKey transactionId) r of
        (Inl err, r) \<Rightarrow> (Inl (wrapf ''cache: release idempotency key for transaction %s: %w'' err), r)
      | (Inr _, r) \<Rightarrow> (Inr (), r))"

definition Int64 :: "redis_value result \<Rightarrow> int result" where
  "Int64 cmd =
     (case cmd of
        Inl err \<Rightarrow> Inl err
      | Inr (RInt n) \<Rightarrow> Inr n
      | Inr _ \<Rightarrow> Inl ErrSyntax)"

definition Cache_GetOrStoreAccountBalance :: "'r redis_client \<Rightarrow> os_env \<Rightarrow> string \<Rightarrow> int \<Rightarrow>
    ('r, int) operation" where
  "Cache_GetOrStoreAccountBalance R env accountId amount r =
     (let (cmd, r) = redis_Get R (balanceKey accountId) r in
      case Int64 cmd of
        Inr val \<Rightarrow> (Inr val, r)
      | Inl err \<Rightarrow>
          if \<not> errors_Is err redis_Nil
          then (Inl (wrapf ''cache: get balance for account %s: %w'' err), r)
          else
            (case redis_Set R (balanceKey accountId) (RInt amount) (balanceTTL env) r of
               (Inl err, r) \<Rightarrow> (Inl (wrapf ''cache: store balance for account %s: %w'' err), r)
             | (Inr _, r) \<Rightarrow> (Inr amount, r)))"

definition Cache_InvalidateAccountBalance :: "'r redis_client \<Rightarrow> string \<Rightarrow> ('r, unit) operation" where
  "Cache_InvalidateAccountBalance R accountId r =
     (case redis_Del R (balanceKey accountId) r of
        (Inl err, r) \<Rightarrow> (Inl (wrapf ''cache: invalidate balance for account %s: %w'' err), r)
      | (Inr _, r) \<Rightarrow> (Inr (), r))"

lemmas cache_ops = StoreToken_def FindTokenByUserId_def DeleteTokenByUserId_def
  TransactionIdempotencyCheck_def TransactionIdempotencyRelease_def
  Cache_GetOrStoreAccountBalance_def Cache_InvalidateAccountBalance_def Int64_def

text \<open>Each result of a cache operation in terms of the command it ran.\<close>

lemma check_Inr:
  "TransactionIdempotencyCheck R x r = (Inr b, r') \<longleftrightarrow>
     redis_SetNX R (cache_idempotencyKey x) (RStr x) idempotencyTTL r = (Inr b, r')"
  by (auto simp: cache_ops split: prod.splits sum.splits)

lemma check_Inl:
  "TransactionIdempotencyCheck R x r = (Inl err, r') \<Longrightarrow>
     \<exists>e. redis_SetNX R (cache_idempotencyKey x) (RStr x) idempotencyTTL r = (Inl e, r')"
  by (auto simp: cache_ops split: prod.splits sum.splits)

lemma release_Inr:
  "TransactionIdempotencyRelease R x r = (Inr u, r') \<longleftrightarrow>
     redis_Del R (cache_idempotencyKey x) r = (Inr u, r')"
  by (auto simp: cache_ops split: prod.splits sum.splits)

lemma release_Inl:
  "TransactionIdempotencyRelease R x r = (Inl err, r') \<Longrightarrow>
     \<exists>e. redis_Del R (cache_idempotencyKey x) r = (Inl e, r')"
  by (auto simp: cache_ops split: prod.splits sum.splits)

lemma balance_Inr:
  "Cache_GetOrStoreAccountBalance R env a amount r = (Inr x, r') \<longleftrightarrow>
     redis_Get R (balanceKey a) r = (Inr (RInt x), r') \<or>
     (\<exists>err r1. redis_Get R (balanceKey a) r = (Inl err, r1) \<and> errors_Is err redis_Nil \<and>
        redis_Set R (balanceKey a) (RInt amount) (balanceTTL env) r1 = (Inr (), r') \<and> x = amount)"
  by (auto simp: cache_ops ErrSyntax_def redis_Nil_def
      split: prod.splits sum.splits redis_value.splits if_splits)

section \<open>A reference store\<close>

record ref_redis =
  rr_store :: "(string \<times> redis_value \<times> time option) list"
  rr_now :: time
  rr_faults :: "io list"

definition rr_empty :: ref_redis where
  "rr_empty = \<lparr>rr_store = [], rr_now = 0, rr_faults = []\<rparr>"

definition rr_look :: "ref_redis \<Rightarrow> string \<Rightarrow> redis_value option" where
  "rr_look s k =
     (case map_of (rr_store s) k of
        None \<Rightarrow> None
      | Some (v, None) \<Rightarrow> Some v
      | Some (v, Some d) \<Rightarrow> if rr_now s < d then Some v else None)"

definition rr_put :: "string \<Rightarrow> redis_value \<Rightarrow> time \<Rightarrow> ref_redis \<Rightarrow> ref_redis" where
  "rr_put k v ttl s =
     s\<lparr>rr_store := (k, v, if ttl \<le> 0 then None else Some (rr_now s + ttl)) # rr_store s\<rparr>"

definition rr_drop :: "string \<Rightarrow> ref_redis \<Rightarrow> ref_redis" where
  "rr_drop k s = s\<lparr>rr_store := filter (\<lambda>x. fst x \<noteq> k) (rr_store s)\<rparr>"

definition rr_command :: "(ref_redis, 'a) operation \<Rightarrow> (ref_redis, 'a) operation" where
  "rr_command c s =
     (case rr_faults s of
        [] \<Rightarrow> c s
      | f # fs \<Rightarrow> autocommit f c (s\<lparr>rr_faults := fs\<rparr>))"

definition redis_ref :: "ref_redis redis_client" where
  "redis_ref =
     \<lparr>redis_Set = (\<lambda>k v ttl. rr_command (\<lambda>s. (Inr (), rr_put k v ttl s))),
      redis_Get = (\<lambda>k. rr_command (\<lambda>s.
        case rr_look s k of None \<Rightarrow> (Inl (Sentinel redis_Nil), s) | Some v \<Rightarrow> (Inr v, s))),
      redis_SetNX = (\<lambda>k v ttl. rr_command (\<lambda>s.
        if rr_look s k = None then (Inr True, rr_put k v ttl s) else (Inr False, s))),
      redis_Del = (\<lambda>k. rr_command (\<lambda>s. (Inr (), rr_drop k s)))\<rparr>"

section \<open>The contract with Redis\<close>

locale redis_laws =
  fixes R :: "'r redis_client"
    and look :: "'r \<Rightarrow> string \<Rightarrow> redis_value option"
  assumes set_ok: "redis_Set R k v ttl r = (Inr u, r') \<Longrightarrow> look r' = (look r)(k \<mapsto> v)"
    and set_err: "redis_Set R k v ttl r = (Inl err, r') \<Longrightarrow>
        look r' = look r \<or> look r' = (look r)(k \<mapsto> v)"
    and get_ok: "redis_Get R k r = (Inr v, r') \<Longrightarrow> look r k = Some v \<and> look r' = look r"
    and get_err: "redis_Get R k r = (Inl err, r') \<Longrightarrow>
        look r' = look r \<and> (errors_Is err redis_Nil \<longrightarrow> look r k = None)"
    and setnx_new: "redis_SetNX R k v ttl r = (Inr True, r') \<Longrightarrow>
        look r k = None \<and> look r' = (look r)(k \<mapsto> v)"
    and setnx_old: "redis_SetNX R k v ttl r = (Inr False, r') \<Longrightarrow>
        look r k \<noteq> None \<and> look r' = look r"
    and setnx_err: "redis_SetNX R k v ttl r = (Inl err, r') \<Longrightarrow>
        look r' = look r \<or> (look r k = None \<and> look r' = (look r)(k \<mapsto> v))"
    and del_ok: "redis_Del R k r = (Inr u, r') \<Longrightarrow> look r' = (look r)(k := None)"
    and del_err: "redis_Del R k r = (Inl err, r') \<Longrightarrow>
        look r' = look r \<or> look r' = (look r)(k := None)"
begin

lemma check_acquires:
  assumes "TransactionIdempotencyCheck R x r = (Inr True, r')"
  shows "look r (cache_idempotencyKey x) = None \<and>
    look r' = (look r)(cache_idempotencyKey x \<mapsto> RStr x)"
  using assms by (simp add: check_Inr setnx_new)

lemma check_refuses:
  assumes "TransactionIdempotencyCheck R x r = (Inr False, r')"
  shows "look r (cache_idempotencyKey x) \<noteq> None \<and> look r' = look r"
  using assms setnx_old unfolding check_Inr by blast

lemma check_failed:
  assumes "TransactionIdempotencyCheck R x r = (Inl err, r')"
  shows "look r' = look r \<or> (look r (cache_idempotencyKey x) = None \<and>
    look r' = (look r)(cache_idempotencyKey x \<mapsto> RStr x))"
  using check_Inl [OF assms] setnx_err by blast

lemma check_held:
  assumes "look r (cache_idempotencyKey x) \<noteq> None"
    and "TransactionIdempotencyCheck R x r = (res, r')"
  shows "res \<noteq> Inr True \<and> look r' = look r"
proof (cases res)
  case (Inl err)
  with assms check_failed [of x r err r'] show ?thesis by auto
next
  case (Inr b)
  with assms check_acquires [of x r r'] check_refuses [of x r r'] show ?thesis
    by (cases b) auto
qed

lemma release_frees:
  assumes "TransactionIdempotencyRelease R x r = (Inr u, r')"
  shows "look r' = (look r)(cache_idempotencyKey x := None)"
  using assms del_ok unfolding release_Inr by blast

lemma release_state:
  assumes "TransactionIdempotencyRelease R x r = (res, r')"
  shows "look r' = look r \<or> look r' = (look r)(cache_idempotencyKey x := None)"
proof (cases res)
  case (Inl err)
  with assms release_Inl del_err show ?thesis by metis
next
  case (Inr u)
  with assms release_frees show ?thesis by blast
qed

lemma balance_cached:
  assumes "look r (balanceKey a) = Some (RInt b)"
    and "Cache_GetOrStoreAccountBalance R env a amount r = (Inr x, r')"
  shows "x = b \<and> look r' = look r"
  using assms get_ok get_err unfolding balance_Inr by fastforce

lemma balance_stored:
  assumes "look r (balanceKey a) = None"
    and "Cache_GetOrStoreAccountBalance R env a amount r = (Inr x, r')"
  shows "x = amount \<and> look r' = (look r)(balanceKey a \<mapsto> RInt amount)"
  using assms get_ok get_err set_ok unfolding balance_Inr by fastforce

lemma token_stored:
  assumes "StoreToken R env now u tok r = (Inr x, r')"
  shows "\<exists>ua. look r' (tokenKey u) = Some (RAuth ua) \<and> ua_UserId ua = u \<and>
      ua_RefreshToken ua = tok \<and> ua_IsCurrentlyLoggedIn ua"
  using assms by (auto simp: cache_ops Let_def dest!: set_ok split: prod.splits sum.splits)

end

lemma rr_look_put [simp]:
  "rr_look (rr_put k v ttl s) = (rr_look s)(k \<mapsto> v)"
  by (auto simp: rr_look_def rr_put_def fun_eq_iff split: option.splits prod.splits)

lemma rr_look_drop [simp]:
  "rr_look (rr_drop k s) = (rr_look s)(k := None)"
proof
  fix k'
  have "map_of (filter (\<lambda>x. fst x \<noteq> k) xs) k' = (if k' = k then None else map_of xs k')"
    for xs :: "(string \<times> redis_value \<times> time option) list"
    by (induction xs) auto
  then show "rr_look (rr_drop k s) k' = ((rr_look s)(k := None)) k'"
    by (auto simp: rr_look_def rr_drop_def split: option.splits prod.splits)
qed

lemma rr_look_faults [simp]: "rr_look (s\<lparr>rr_faults := fs\<rparr>) = rr_look s"
  by (auto simp: rr_look_def fun_eq_iff split: option.splits prod.splits)

interpretation ref: redis_laws redis_ref rr_look
  by unfold_locales
    (auto simp: redis_ref_def rr_command_def autocommit_def conn_error_def redis_Nil_def
      split: list.splits io.splits option.splits if_splits)

end
