(* ===== verification/Json.thy ===== *)
theory Json
  imports Models GoStd
begin

text \<open>
  How a payload travels. A handler builds a \<^verbatim>\<open>map[string]interface{}\<close>; the driver stores it
  as JSON; the relay reads it back into a \<^verbatim>\<open>map[string]interface{}\<close>, where every number is a
  \<^verbatim>\<open>float64\<close>, and encodes it again; the consumer decodes it into a struct. \<open>float64_trip\<close>
  is what this does to an integer: the nearest double (ties to even), printed with the least
  number of digits that reads back as the same double.
\<close>

definition round_half_even :: "nat \<Rightarrow> nat \<Rightarrow> nat" where
  "round_half_even n d =
     (let q = n div d; r = n mod d in
      if 2 * r < d then q else if 2 * r > d then q + 1 else if even q then q else q + 1)"

fun bit_len :: "nat \<Rightarrow> nat" where
  "bit_len n = (if n = 0 then 0 else Suc (bit_len (n div 2)))"

declare bit_len.simps [simp del]

definition float64_nat :: "nat \<Rightarrow> nat" where
  "float64_nat n =
     (if n \<le> 2 ^ 53 then n
      else let e = bit_len n - 53 in round_half_even n (2 ^ e) * 2 ^ e)"

text \<open>The bound is compared as an integer when the function is evaluated.\<close>

lemma float64_nat_code [code]:
  "float64_nat n =
     (if int n \<le> 2 ^ 53 then n else let e = bit_len n - 53 in round_half_even n (2 ^ e) * 2 ^ e)"
proof -
  have "int n \<le> 2 ^ 53 \<longleftrightarrow> n \<le> 2 ^ 53" by (metis of_nat_le_iff of_nat_numeral of_nat_power)
  then show ?thesis unfolding float64_nat_def by simp
qed

definition keep_digits :: "nat \<Rightarrow> nat \<Rightarrow> nat" where
  "keep_digits k n =
     (let d = length (decimal n) in
      if d \<le> k then n else round_half_even n (10 ^ (d - k)) * 10 ^ (d - k))"

definition shortest_decimal :: "nat \<Rightarrow> nat" where
  "shortest_decimal n =
     (case List.find (\<lambda>k. float64_nat (keep_digits k n) = n) [1..<18] of
        None \<Rightarrow> n
      | Some k \<Rightarrow> keep_digits k n)"

definition float64_trip :: "int \<Rightarrow> int" where
  "float64_trip i = sgn i * int (shortest_decimal (float64_nat (nat \<bar>i\<bar>)))"

fun scan_json :: "json \<Rightarrow> json" where
  "scan_json (JInt i) = JInt (float64_trip i)"
| "scan_json (JArr xs) = JArr (map scan_json xs)"
| "scan_json (JObj kvs) = JObj (map (\<lambda>(k, v). (k, scan_json v)) kvs)"
| "scan_json v = v"

definition scan_payload :: "(string \<times> json) list \<Rightarrow> (string \<times> json) list" where
  "scan_payload kvs = map (\<lambda>(k, v). (k, scan_json v)) kvs"

section \<open>Decoding into a struct\<close>

text \<open>
  \<^verbatim>\<open>json.Unmarshal\<close> matches a key with a field name without regard to ASCII case, the last
  matching key wins, \<^verbatim>\<open>null\<close> leaves the field as it was. The payload structs carry tags that
  are not well formed, so their keys are the field names themselves.
\<close>

definition lower_char :: "char \<Rightarrow> char" where
  "lower_char c =
     (let n = (of_char c :: nat) in if 65 \<le> n \<and> n \<le> 90 then char_of (n + 32) else c)"

definition fold_eq :: "string \<Rightarrow> string \<Rightarrow> bool" where
  "fold_eq a b \<longleftrightarrow> map lower_char a = map lower_char b"

text \<open>A timestamp read as a string is its text: the date of the proleptic Gregorian calendar in
  UTC, with the fraction of the second that is needed.\<close>

definition civil_date :: "int \<Rightarrow> int \<times> int \<times> int" where
  "civil_date days =
     (let z = days + 719468; era = z div 146097; doe = z mod 146097;
          yoe = (doe - doe div 1460 + doe div 36524 - doe div 146096) div 365;
          doy = doe - (365 * yoe + yoe div 4 - yoe div 100);
          mp = (5 * doy + 2) div 153;
          m = (if mp < 10 then mp + 3 else mp - 9)
      in (yoe + era * 400 + (if m \<le> 2 then 1 else 0), m, doy - (153 * mp + 2) div 5 + 1))"

definition padded :: "nat \<Rightarrow> int \<Rightarrow> string" where
  "padded k n = (let ds = decimal (nat n) in replicate (k - length ds) (CHR ''0'') @ ds)"

definition rfc3339 :: "time \<Rightarrow> string" where
  "rfc3339 t =
     (let (y, m, d) = civil_date (t div 86400000000); s = t mod 86400000000 div 1000000;
          us = t mod 1000000
      in padded 4 y @ ''-'' @ padded 2 m @ ''-'' @ padded 2 d @ ''T'' @
         padded 2 (s div 3600) @ '':'' @ padded 2 (s mod 3600 div 60) @ '':'' @ padded 2 (s mod 60) @
         (if us = 0 then []
          else ''.'' @ rev (dropWhile (\<lambda>c. c = CHR ''0'') (rev (padded 6 us)))) @ ''Z'')"

text \<open>\<^verbatim>\<open>time.Time.MarshalJSON\<close> refuses years outside 0 to 9999.\<close>

definition marshal_time :: "time \<Rightarrow> json option" where
  "marshal_time t =
     (if - 62167219200000000 \<le> t \<and> t < 253402300800000000 then Some (JTime t) else None)"

definition json_error :: error where "json_error = Sentinel ''json: cannot unmarshal''"

fun decode_string :: "string \<Rightarrow> string \<Rightarrow> (string \<times> json) list \<Rightarrow> string result" where
  "decode_string name acc [] = Inr acc"
| "decode_string name acc ((k, v) # kvs) =
     (if fold_eq k name then
        (case v of
           JStr s \<Rightarrow> decode_string name s kvs
         | JTime t \<Rightarrow> decode_string name (rfc3339 t) kvs
         | JNull \<Rightarrow> decode_string name acc kvs
         | _ \<Rightarrow> Inl json_error)
      else decode_string name acc kvs)"

fun decode_int64 :: "string \<Rightarrow> int \<Rightarrow> (string \<times> json) list \<Rightarrow> int result" where
  "decode_int64 name acc [] = Inr acc"
| "decode_int64 name acc ((k, v) # kvs) =
     (if fold_eq k name then
        (case v of
           JInt i \<Rightarrow> if fits_signed 64 i then decode_int64 name i kvs else Inl json_error
         | JNull \<Rightarrow> decode_int64 name acc kvs
         | _ \<Rightarrow> Inl json_error)
      else decode_int64 name acc kvs)"

section \<open>Integers below two to the 53 arrive unchanged\<close>

lemma bit_len_lower: "0 < n \<Longrightarrow> 2 ^ (bit_len n - 1) \<le> n"
proof (induction n rule: bit_len.induct)
  case (1 n)
  show ?case
  proof (cases "n div 2 = 0")
    case True
    then show ?thesis using "1.prems" by (simp add: bit_len.simps)
  next
    case False
    have "0 < bit_len (n div 2)"
      using False by (subst bit_len.simps) simp
    then have "2 ^ bit_len (n div 2) = 2 * 2 ^ (bit_len (n div 2) - 1)"
      by (cases "bit_len (n div 2)") auto
    also have "\<dots> \<le> 2 * (n div 2)"
      using "1.IH" False "1.prems" by simp
    also have "\<dots> \<le> n" by simp
    finally show ?thesis using "1.prems" by (simp add: bit_len.simps [of n])
  qed
qed

lemma bit_len_upper: "n < 2 ^ bit_len n"
proof (induction n rule: bit_len.induct)
  case (1 n)
  show ?case
  proof (cases "n = 0")
    case False
    with "1.IH" have "n div 2 < 2 ^ bit_len (n div 2)" by simp
    then have "n < 2 * 2 ^ bit_len (n div 2)" by linarith
    with False show ?thesis by (simp add: bit_len.simps [of n])
  qed (simp add: bit_len.simps)
qed

lemma round_half_even_ge: "n div d \<le> round_half_even n d"
  by (simp add: round_half_even_def Let_def)

lemma float64_nat_id: "n \<le> 2 ^ 53 \<Longrightarrow> float64_nat n = n"
  by (simp add: float64_nat_def)

lemma float64_nat_big:
  assumes "2 ^ 53 < n"
  shows "2 ^ 53 \<le> float64_nat n"
proof -
  let ?e = "bit_len n - 53"
  have "(2::nat) ^ 53 < 2 ^ bit_len n"
    using assms bit_len_upper [of n] by (rule less_trans)
  then have e: "53 < bit_len n" by (rule power_less_imp_less_exp [rotated]) simp
  have "2 ^ (bit_len n - 1) \<le> n" using assms by (intro bit_len_lower) simp
  moreover have "bit_len n - 1 = 52 + ?e" using e by simp
  ultimately have "2 ^ 52 * 2 ^ ?e \<le> n" by (simp only: power_add)
  then have "2 ^ 52 \<le> n div 2 ^ ?e" by (simp only: less_eq_div_iff_mult_less_eq zero_less_power zero_less_numeral)
  then have "2 ^ 52 \<le> round_half_even n (2 ^ ?e)"
    using round_half_even_ge order_trans by blast
  moreover have "(2::nat) ^ 1 \<le> 2 ^ ?e" using e by (intro power_increasing) auto
  ultimately have "2 ^ 52 * 2 \<le> round_half_even n (2 ^ ?e) * 2 ^ ?e"
    by (intro mult_le_mono) auto
  with assms show ?thesis by (simp add: float64_nat_def Let_def)
qed

lemma shortest_decimal_small:
  assumes "n < 2 ^ 53"
  shows "shortest_decimal n = n"
proof -
  have "keep_digits k n = n" if "float64_nat (keep_digits k n) = n" for k
  proof (cases "keep_digits k n \<le> 2 ^ 53")
    case True
    with that show ?thesis by (simp add: float64_nat_id)
  next
    case False
    then have "2 ^ 53 \<le> float64_nat (keep_digits k n)"
      by (intro float64_nat_big) simp
    with that assms show ?thesis by simp
  qed
  then show ?thesis
    by (auto simp: shortest_decimal_def split: option.splits dest!: find_SomeD)
qed

lemma float64_trip_exact:
  assumes "\<bar>i\<bar> < 2 ^ 53"
  shows "float64_trip i = i"
proof -
  have "nat \<bar>i\<bar> < 2 ^ 53" using assms by (simp add: nat_less_iff)
  then have "float64_trip i = sgn i * \<bar>i\<bar>"
    by (simp add: float64_trip_def float64_nat_id shortest_decimal_small)
  then show ?thesis by (simp add: sgn_mult_abs)
qed

lemma float64_nat_collides: "float64_nat (2 ^ 53 + 1) = 2 ^ 53"
  by (simp add: float64_nat_def round_half_even_def bit_len.simps)

lemma float64_trip_collides: "float64_trip (2 ^ 53 + 1) = float64_trip (2 ^ 53)"
proof -
  have "float64_nat (2 ^ 53) = 2 ^ 53" by (simp add: float64_nat_id)
  with float64_nat_collides show ?thesis by (simp add: float64_trip_def)
qed

end
