(* ===== verification/WalletRepository.thy ===== *)
theory WalletRepository
  imports Settlement Cache Json
begin

text \<open>
  The rest of \<^verbatim>\<open>wallet-service/internal/repository/wallet_repository.go\<close>: accounts, the
  cached balance, listing, the status update and the outbox. The repository holds a database
  client and a cache, so its state is a \<open>world\<close> with both; operations that use only the
  database are operations on \<open>database\<close>. Identifiers made by \<^verbatim>\<open>uuid.NewString()\<close> and
  \<^verbatim>\<open>gen_random_uuid()\<close> are arguments.
\<close>

record 'r world =
  w_db :: database
  w_ch :: 'r

definition on_db :: "(database, 'a) operation \<Rightarrow> ('r world, 'a) operation" where
  "on_db m w = (case m (w_db w) of (x, db) \<Rightarrow> (x, w\<lparr>w_db := db\<rparr>))"

definition on_ch :: "('r, 'a) operation \<Rightarrow> ('r world, 'a) operation" where
  "on_ch m w = (case m (w_ch w) of (x, r) \<Rightarrow> (x, w\<lparr>w_ch := r\<rparr>))"

section \<open>Accounts\<close>

definition sql_insert_account :: "string \<Rightarrow> string \<Rightarrow> string \<Rightarrow> time \<Rightarrow>
    (database, AccountModel) operation" where
  "sql_insert_account newId userId currency now db =
     (let account = \<lparr>am_ID = newId, am_UserID = userId, am_CreatedAt = now, am_UpdatedAt = now,
                     am_Transactions = [], am_Balance = 0, am_Currency = currency\<rparr>
      in if newId \<in> set (keys am_ID (accounts db)) then (Inl (sql_error ''accounts_pkey''), db)
         else if userId \<notin> set (keys um_ID (users db))
           then (Inl (sql_error ''accounts_user_id_fkey''), db)
         else (Inr account, db\<lparr>accounts := accounts db @ [account]\<rparr>))"

definition InsertAccount :: "db_env \<Rightarrow> string \<Rightarrow> string \<Rightarrow> string \<Rightarrow>
    (database, AccountModel) operation" where
  "InsertAccount e newId userId currency db =
     (case autocommit (env_io e InsertAccountC (Stmt 0))
             (sql_insert_account newId userId currency (env_now e InsertAccountC)) db of
        (Inl err, db) \<Rightarrow> (Inl (wrapf ''failed to insert account for user %s: %w'' err), db)
      | (Inr account, db) \<Rightarrow> (Inr account, db))"

definition FindAccountById :: "db_env \<Rightarrow> string \<Rightarrow> (database, AccountModel) operation" where
  "FindAccountById e accountId db =
     (case autocommit (env_io e FindAccountByIdC (Stmt 0))
             (\<lambda>db. case List.find (\<lambda>a. am_ID a = accountId) (accounts db) of
                      None \<Rightarrow> (Inl ErrNoRows, db)
                    | Some a \<Rightarrow> (Inr a, db)) db of
        (Inl err, db) \<Rightarrow> (Inl (wrapf ''Failed to find account %s: %w'' err), db)
      | (Inr account, db) \<Rightarrow> (Inr account, db))"

definition FindAccountsByUserId :: "db_env \<Rightarrow> string \<Rightarrow> (database, AccountModel list) operation" where
  "FindAccountsByUserId e userId =
     autocommit (env_io e FindAccountsByUserIdC (Stmt 0))
       (\<lambda>db. (Inr (filter (\<lambda>a. am_UserID a = userId) (accounts db)), db))"

definition Repo_UpdateAccount :: "string \<Rightarrow> string \<Rightarrow> (database, AccountModel option) operation" where
  "Repo_UpdateAccount fromAccountId toAccountId db = (Inr None, db)"

definition GetOrStoreAccountBalance :: "'r redis_client \<Rightarrow> os_env \<Rightarrow> string \<Rightarrow> int \<Rightarrow>
    ('r world, int) operation" where
  "GetOrStoreAccountBalance R env accountId amount w =
     (case on_ch (Cache_GetOrStoreAccountBalance R env accountId amount) w of
        (Inl err, w) \<Rightarrow> (Inr amount, w)
      | (Inr balance, w) \<Rightarrow> (Inr balance, w))"

definition InvalidateAccountBalance :: "'r redis_client \<Rightarrow> string \<Rightarrow> ('r world, unit) operation" where
  "InvalidateAccountBalance R accountId = on_ch (Cache_InvalidateAccountBalance R accountId)"

section \<open>Listing\<close>

definition history :: "string \<Rightarrow> database \<Rightarrow> transaction_row list" where
  "history accountId db =
     sort_key (\<lambda>t. - tm_CreatedAt t) (filter (involves accountId) (transactions db))"

definition ListTransactions :: "db_env \<Rightarrow> string \<Rightarrow> int \<Rightarrow> int \<Rightarrow>
    (database, TransactionModel list) operation" where
  "ListTransactions e accountId offset limit db =
     (case autocommit (env_io e ListTransactionsC (Stmt 0))
             (\<lambda>db. if limit < 0 \<or> offset < 0
                    then (Inl (sql_error ''LIMIT or OFFSET must not be negative''), db)
                    else (Inr (map TransactionModel.truncate
                           (take (nat limit) (drop (nat offset) (history accountId db)))), db)) db of
        (Inl err, db) \<Rightarrow> (Inl (wrapf ''failed to list transactions for account %s: %w'' err), db)
      | (Inr found, db) \<Rightarrow> (Inr found, db))"

section \<open>Status update\<close>

definition idempotencyKey :: "string \<Rightarrow> string \<Rightarrow> string" where
  "idempotencyKey userId accountId = userId @ ''_'' @ accountId"

definition WithTransaction :: "io \<Rightarrow> io \<Rightarrow> (database, 'a) operation \<Rightarrow> (database, 'a) operation" where
  "WithTransaction begin_io commit_io fn =
     run_tx begin_io (wrapf ''begin transaction: %w'') commit_io (\<lambda>err. err) fn"

definition sql_set_status :: "string \<Rightarrow> string \<Rightarrow> time \<Rightarrow> (database, nat) operation" where
  "sql_set_status tid status now db =
     (if \<not> transaction_status_enum status
      then (Inl (sql_error ''invalid input value for enum''), db)
      else (Inr (rows_where (\<lambda>t. tm_ID t = tid) (transactions db)),
            db\<lparr>transactions := update_where (\<lambda>t. tm_ID t = tid)
                  (\<lambda>t. t\<lparr>tm_Status := status, tm_UpdatedAt := now\<rparr>) (transactions db)\<rparr>))"

definition UpdateTransactionStatus :: "'r redis_client \<Rightarrow> db_env \<Rightarrow> string \<Rightarrow> string \<Rightarrow> string \<Rightarrow>
    TransactionStatus \<Rightarrow> ('r world, unit) operation" where
  "UpdateTransactionStatus R e transactionId userId accountId status w =
     (let f = env_io e UpdateTransactionStatusC in
      case on_db (WithTransaction (f Begin) (f Commit)
             (\<lambda>db. case in_tx (f (Stmt 0))
                      (sql_set_status transactionId status (env_now e UpdateTransactionStatusC)) db of
                 (Inl err, db) \<Rightarrow> (Inl (wrapf ''Failed to update transaction status for id %s: %w'' err), db)
               | (Inr n, db) \<Rightarrow>
                   if n \<noteq> 1 then (Inl (errorf ''No transaction found for id %s''), db)
                   else (Inr (), db))) w of
        (Inl err, w) \<Rightarrow> (Inl (wrapf ''Failed to update transaction status for id %s: %w'' err), w)
      | (Inr _, w) \<Rightarrow>
          (let (_, w) = on_ch (TransactionIdempotencyRelease R (idempotencyKey userId accountId)) w
           in (Inr (), w)))"

section \<open>Outbox\<close>

record OutboxInsertConfig =
  oc_AggregateType :: string
  oc_AggregateId :: string
  oc_EventType :: string
  oc_Payload :: "(string \<times> json) list"
  oc_UserId :: string
  oc_Topic :: string
  oc_Partition_key :: string

definition outboxIdempotencyCheck :: "db_env \<Rightarrow> string \<Rightarrow> (database, bool) operation" where
  "outboxIdempotencyCheck e key db =
     (case autocommit (env_io e OutboxInsertC (Stmt 0))
             (\<lambda>db. (Inr (\<exists>o' \<in> set (transaction_outbox db). \<exists>t \<in> set (transactions db).
                tm_ID t = om_AggregateId o' \<and> om_IdempotencyKey o' = key \<and>
                tm_Status t = TransactionStatusPending), db)) db of
        (Inl err, db) \<Rightarrow> (Inl (wrapf ''failed to check postgres idempotency for lock %s: %w'' err), db)
      | (Inr inProgress, db) \<Rightarrow> (Inr inProgress, db))"

definition new_outbox_row :: "string \<Rightarrow> OutboxInsertConfig \<Rightarrow> string \<Rightarrow> time \<Rightarrow> outbox_row" where
  "new_outbox_row oid cfg key now =
     \<lparr>om_ID = oid, om_AggregateType = oc_AggregateType cfg, om_AggregateId = oc_AggregateId cfg,
      om_EventType = oc_EventType cfg, om_Payload = oc_Payload cfg, om_Topic = oc_Topic cfg,
      om_PartitionKey = oc_Partition_key cfg, om_IdempotencyKey = key,
      om_Status = OutboxStatusPending, om_ErrorMessage = None, om_CreatedAt = now,
      om_UpdatedAt = now, om_PublishedAt = None, retry_count = 0, next_attempt_at = now\<rparr>"

definition sql_insert_outbox :: "outbox_row \<Rightarrow> (database, unit) operation" where
  "sql_insert_outbox row db =
     (if om_ID row \<in> set (keys om_ID (transaction_outbox db))
      then (Inl (sql_error ''transaction_outbox_pkey''), db)
      else if om_AggregateId row \<in> set (keys om_AggregateId (transaction_outbox db))
      then (Inl (sql_error ''transaction_outbox_aggregate_id_key''), db)
      else (Inr (), db\<lparr>transaction_outbox := transaction_outbox db @ [row]\<rparr>))"

definition outbox_write :: "'r redis_client \<Rightarrow> db_env \<Rightarrow> string \<Rightarrow> OutboxInsertConfig \<Rightarrow> string \<Rightarrow>
    ('r world, unit) operation" where
  "outbox_write R e oid cfg key w =
     (case on_db (autocommit (env_io e OutboxInsertC (Stmt 1))
             (sql_insert_outbox (new_outbox_row oid cfg key (env_now e OutboxInsertC)))) w of
        (Inl err, w) \<Rightarrow>
          (let (_, w) = on_ch (TransactionIdempotencyRelease R key) w
           in (Inl (wrapf ''Failed to insert outbox with aggregateType:%s, aggregateId:%s in DB: %w'' err), w))
      | (Inr _, w) \<Rightarrow> (Inr (), w))"

definition OutboxInsert :: "'r redis_client \<Rightarrow> db_env \<Rightarrow> string \<Rightarrow> OutboxInsertConfig \<Rightarrow>
    ('r world, unit) operation" where
  "OutboxInsert R e oid cfg w =
     (let key = idempotencyKey (oc_UserId cfg) (oc_Partition_key cfg) in
      case on_ch (TransactionIdempotencyCheck R key) w of
        (Inl err, w) \<Rightarrow>
          (case on_db (outboxIdempotencyCheck e key) w of
             (Inl pgErr, w) \<Rightarrow> outbox_write R e oid cfg key w
           | (Inr inProgress, w) \<Rightarrow>
               if inProgress
               then (Inl (errorf ''A transaction is already in progress for operator %s''), w)
               else outbox_write R e oid cfg key w)
      | (Inr ok, w) \<Rightarrow>
          if \<not> ok then (Inl (errorf ''Transaction is already in progress for operator %s''), w)
          else outbox_write R e oid cfg key w)"

definition IdempotencyRelease :: "'r redis_client \<Rightarrow> string \<Rightarrow> string \<Rightarrow> string \<Rightarrow>
    ('r world, unit) operation" where
  "IdempotencyRelease R transactionId userId accountId w =
     (case on_ch (TransactionIdempotencyRelease R (idempotencyKey userId accountId)) w of
        (Inl err, w) \<Rightarrow> (Inl (wrapf ''failed to release idempotency for transaction %s: %w'' err), w)
      | (Inr _, w) \<Rightarrow> (Inr (), w))"

definition set_outbox_status :: "OutboxStatus \<Rightarrow> time \<Rightarrow> outbox_row \<Rightarrow> outbox_row" where
  "set_outbox_status status now r =
     r\<lparr>om_Status := status, om_UpdatedAt := now,
       om_PublishedAt := (if status = OutboxStatusPublished then Some now else om_PublishedAt r)\<rparr>"

definition OutboxUpdate :: "db_env \<Rightarrow> string \<Rightarrow> string \<Rightarrow> (database, unit) operation" where
  "OutboxUpdate e aggregateId status db =
     (case autocommit (env_io e OutboxUpdateC (Stmt 0))
             (\<lambda>db. if \<not> outbox_status_enum status
                    then (Inl (sql_error ''invalid input value for enum''), db)
                    else (Inr (rows_where (\<lambda>r. om_AggregateId r = aggregateId) (transaction_outbox db)),
                          db\<lparr>transaction_outbox :=
                               update_where (\<lambda>r. om_AggregateId r = aggregateId)
                                 (set_outbox_status status (env_now e OutboxUpdateC))
                                 (transaction_outbox db)\<rparr>)) db of
        (Inl err, db) \<Rightarrow> (Inl (wrapf ''failed to update outbox status for aggregate_id %s: %w'' err), db)
      | (Inr n, db) \<Rightarrow>
          if n \<noteq> 1 then (Inl (errorf ''no outbox row found for aggregate_id %s''), db) else (Inr (), db))"

definition shl_int4 :: "int \<Rightarrow> int" where \<comment> \<open>PostgreSQL's \<open>1 << n\<close> on \<open>integer\<close>\<close>
  "shl_int4 n = to_int32 (2 ^ nat (n mod 32))"

definition backoff_seconds :: "int \<Rightarrow> int \<Rightarrow> int" where
  "backoff_seconds retries cap = min (shl_int4 retries) cap"

definition mark_failure :: "string \<Rightarrow> int \<Rightarrow> int \<Rightarrow> time \<Rightarrow> outbox_row \<Rightarrow> outbox_row" where
  "mark_failure errMsg maxRetries cap now r =
     r\<lparr>retry_count := retry_count r + 1,
       om_ErrorMessage := Some errMsg,
       om_Status := (if retry_count r + 1 \<ge> maxRetries then OutboxStatusFailed else OutboxStatusPending),
       next_attempt_at := now + seconds (backoff_seconds (retry_count r + 1) cap),
       om_UpdatedAt := now\<rparr>"

definition OutboxMarkPublishFailure :: "db_env \<Rightarrow> os_env \<Rightarrow> string \<Rightarrow> string \<Rightarrow>
    (database, string) operation" where
  "OutboxMarkPublishFailure e env aggregateId errMsg db =
     (let outboxBackoffMaxSeconds = GetInt env ''OUTBOX_BACKOFF_SECONDS'' 60;
          outboxMaxPublishRetries = GetInt env ''OUTBOX_MAX_REPUBLISH_RETRIES'' 4;
          now = env_now e OutboxMarkPublishFailureC
      in case autocommit (env_io e OutboxMarkPublishFailureC (Stmt 0))
             (\<lambda>db. if \<not> fits_signed 32 outboxBackoffMaxSeconds \<or> \<not> fits_signed 32 outboxMaxPublishRetries
                    then (Inl (sql_error ''out of range for int4''), db)
                    else case List.find (\<lambda>r. om_AggregateId r = aggregateId) (transaction_outbox db) of
                      None \<Rightarrow> (Inl ErrNoRows, db)
                    | Some r \<Rightarrow>
                        if \<not> fits_signed 32 (retry_count r + 1)
                        then (Inl (sql_error ''integer out of range''), db)
                        else (Inr (om_Status (mark_failure errMsg outboxMaxPublishRetries
                                 outboxBackoffMaxSeconds now r)),
                              db\<lparr>transaction_outbox :=
                                update_where (\<lambda>r. om_AggregateId r = aggregateId)
                                  (mark_failure errMsg outboxMaxPublishRetries outboxBackoffMaxSeconds now)
                                  (transaction_outbox db)\<rparr>)) db of
           (Inl err, db) \<Rightarrow>
             (Inl (wrapf ''failed to record publish failure for aggregate_id %s: %w'' err), db)
         | (Inr status, db) \<Rightarrow> (Inr status, db))"

definition OutboxDelete :: "db_env \<Rightarrow> string \<Rightarrow> (database, unit) operation" where
  "OutboxDelete e aggregateId db =
     (case autocommit (env_io e OutboxDeleteC (Stmt 0))
             (\<lambda>db. (Inr (), db\<lparr>transaction_outbox :=
                filter (\<lambda>r. om_AggregateId r \<noteq> aggregateId) (transaction_outbox db)\<rparr>)) db of
        (Inl err, db) \<Rightarrow> (Inl (wrapf ''failed to delete outbox row for aggregate_id %s: %w'' err), db)
      | (Inr _, db) \<Rightarrow> (Inr (), db))"

definition OutboxGet :: "db_env \<Rightarrow> string \<Rightarrow> (database, OutboxModel option) operation" where
  "OutboxGet e aggregateId db =
     (case autocommit (env_io e OutboxGetC (Stmt 0))
             (\<lambda>db. case List.find (\<lambda>r. om_AggregateId r = aggregateId) (transaction_outbox db) of
                      None \<Rightarrow> (Inl ErrNoRows, db)
                    | Some r \<Rightarrow>
                        (Inr ((OutboxModel.truncate r)\<lparr>om_Payload := scan_payload (om_Payload r),
                                om_IdempotencyKey := []\<rparr>), db)) db of
        (Inl err, db) \<Rightarrow>
          if err = ErrNoRows then (Inr None, db)
          else (Inl (wrapf ''failed to get outbox row for aggregate_id %s: %w'' err), db)
      | (Inr outboxRow, db) \<Rightarrow> (Inr (Some outboxRow), db))"

definition stale_claim :: "time \<Rightarrow> outbox_row \<Rightarrow> bool" where
  "stale_claim now r \<longleftrightarrow> om_Status r = OutboxStatusClaimed \<and> om_UpdatedAt r < now - seconds 30"

definition reclaim_stale :: "time \<Rightarrow> outbox_row list \<Rightarrow> outbox_row list" where
  "reclaim_stale now rows =
     update_where (stale_claim now)
       (\<lambda>r. r\<lparr>om_Status := OutboxStatusPending, om_UpdatedAt := now\<rparr>) rows"

definition due :: "time \<Rightarrow> outbox_row \<Rightarrow> bool" where
  "due now r \<longleftrightarrow> om_Status r = OutboxStatusPending \<and> next_attempt_at r \<le> now"

definition select_batch :: "(string \<Rightarrow> bool) \<Rightarrow> time \<Rightarrow> nat \<Rightarrow> outbox_row list \<Rightarrow> outbox_row list" where
  "select_batch locked now limit rows =
     take limit (sort_key om_CreatedAt (filter (\<lambda>r. due now r \<and> \<not> locked (om_ID r)) rows))"

definition claim_rows :: "string list \<Rightarrow> time \<Rightarrow> outbox_row list \<Rightarrow> outbox_row list" where
  "claim_rows ids now rows =
     update_where (\<lambda>r. om_ID r \<in> set ids)
       (\<lambda>r. r\<lparr>om_Status := OutboxStatusClaimed, om_UpdatedAt := now\<rparr>) rows"

definition batch_model :: "outbox_row \<Rightarrow> OutboxModel" where
  "batch_model r =
     \<lparr>om_ID = om_ID r, om_AggregateType = om_AggregateType r, om_AggregateId = om_AggregateId r,
      om_EventType = om_EventType r, om_Payload = scan_payload (om_Payload r),
      om_Topic = om_Topic r, om_PartitionKey = om_PartitionKey r,
      om_IdempotencyKey = om_IdempotencyKey r, om_Status = [], om_ErrorMessage = None,
      om_CreatedAt = om_CreatedAt r, om_UpdatedAt = zero_time, om_PublishedAt = None\<rparr>"

definition sql_claim_batch :: "(string \<Rightarrow> bool) \<Rightarrow> time \<Rightarrow> int \<Rightarrow>
    (database, OutboxModel list) operation" where
  "sql_claim_batch locked now limit db =
     (if limit < 0 then (Inl (sql_error ''LIMIT must not be negative''), db)
      else let claimed = select_batch locked now (nat limit) (transaction_outbox db)
           in (Inr (map batch_model claimed),
               db\<lparr>transaction_outbox :=
                    claim_rows (map om_ID claimed) now (transaction_outbox db)\<rparr>))"

definition batch_body :: "(stmt \<Rightarrow> io) \<Rightarrow> (string \<Rightarrow> bool) \<Rightarrow> time \<Rightarrow> int \<Rightarrow>
    (database, OutboxModel list) operation" where
  "batch_body f locked now limit db =
     (case in_tx (f (Stmt 0))
             (\<lambda>db. (Inr (), db\<lparr>transaction_outbox := reclaim_stale now (transaction_outbox db)\<rparr>)) db of
        (Inl err, db) \<Rightarrow> (Inl (wrapf ''failed to reclaim stale outbox claims: %w'' err), db)
      | (Inr _, db) \<Rightarrow>
          (case in_tx (f (Stmt 1)) (sql_claim_batch locked now limit) db of
             (Inl err, db) \<Rightarrow> (Inl (wrapf ''failed to query outbox batch: %w'' err), db)
           | (Inr outboxRows, db) \<Rightarrow> (Inr outboxRows, db)))"

text \<open>\<open>locked\<close> are the rows that other transactions hold while this one runs. Its first statement waits for the stale
  claims among them in Postgres; as one function the poll runs when it need not wait, and \<open>Pollers\<close> has the waiting.\<close>

definition OutboxPendingGetBatch :: "db_env \<Rightarrow> (string \<Rightarrow> bool) \<Rightarrow> int \<Rightarrow>
    (database, OutboxModel list) operation" where
  "OutboxPendingGetBatch e locked limit =
     (let f = env_io e OutboxPendingGetBatchC
      in run_tx (f Begin) (wrapf ''failed to begin tx: %w'')
           (f Commit) (wrapf ''failed to commit outbox batch claim: %w'')
           (batch_body f locked (env_now e OutboxPendingGetBatchC) limit))"

end
