(* ===== verification/Retry.thy ===== *)
theory Retry
  imports Prelude
begin

text \<open>
  \<^verbatim>\<open>shared/retry/retry.go\<close>. Durations are nanoseconds in an \<^verbatim>\<open>int64\<close>. The operation that is
  retried works on a state of any type. Whether the context is done when the loop waits before
  an attempt is an argument: \<open>ctx n\<close> is \<open>Some err\<close> when it is done before attempt \<open>n\<close>. The
  waits the loop went through are part of the result.
\<close>

record Config =
  MaxRetries :: int
  InitialWait :: int
  MaxWait :: int

definition Second :: int where
  "Second = 1000000000"

definition DefaultConfig :: Config where
  "DefaultConfig = \<lparr>MaxRetries = 3, InitialWait = 1 * Second, MaxWait = 10 * Second\<rparr>"

definition next_wait :: "Config \<Rightarrow> int \<Rightarrow> int" where
  "next_wait cfg wait =
     (let wait = to_int64 (wait * 2) in if wait > MaxWait cfg then MaxWait cfg else wait)"

function backoff_loop :: "Config \<Rightarrow> (int \<Rightarrow> error option) \<Rightarrow> ('s, unit) operation \<Rightarrow> int \<Rightarrow> int \<Rightarrow>
    error option \<Rightarrow> 's \<Rightarrow> error option \<times> int list \<times> 's" where
  "backoff_loop cfg ctx operation attempt wait err s =
     (if attempt > MaxRetries cfg then (err, [], s)
      else if attempt > 0 then
        (case ctx attempt of
           Some done \<Rightarrow> (Some done, [], s)
         | None \<Rightarrow>
             (case operation s of
                (Inr _, s) \<Rightarrow> (None, [wait], s)
              | (Inl err, s) \<Rightarrow>
                  (let (r, ws, s) = backoff_loop cfg ctx operation (attempt + 1) (next_wait cfg wait)
                         (Some err) s
                   in (r, wait # ws, s))))
      else
        (case operation s of
           (Inr _, s) \<Rightarrow> (None, [], s)
         | (Inl err, s) \<Rightarrow> backoff_loop cfg ctx operation (attempt + 1) wait (Some err) s))"
  by pat_completeness auto
termination
  by (relation "measure (\<lambda>(cfg, _, _, attempt, _). nat (MaxRetries cfg + 1 - attempt))") auto

declare backoff_loop.simps [simp del]

definition WithBackoff :: "Config \<Rightarrow> (int \<Rightarrow> error option) \<Rightarrow> ('s, unit) operation \<Rightarrow> 's \<Rightarrow>
    error option \<times> int list \<times> 's" where
  "WithBackoff cfg ctx operation s = backoff_loop cfg ctx operation 0 (InitialWait cfg) None s"

section \<open>A rule for the loop\<close>

text \<open>What a failed call keeps and a successful call establishes, the loop keeps and
  establishes, whenever its context ends.\<close>

lemma backoff_loop_rule:
  "(\<And>s err s'. operation s = (Inl err, s') \<Longrightarrow> P s \<Longrightarrow> P s') \<Longrightarrow>
   (\<And>s u s'. operation s = (Inr u, s') \<Longrightarrow> P s \<Longrightarrow> Q s') \<Longrightarrow>
   P s \<Longrightarrow> attempt \<le> MaxRetries cfg \<or> err \<noteq> None \<Longrightarrow>
    (case backoff_loop cfg ctx operation attempt wait err s of
       (None, _, s') \<Rightarrow> Q s' | (Some _, _, s') \<Rightarrow> P s')"
proof (induction cfg ctx operation attempt wait err s rule: backoff_loop.induct)
  case (1 cfg ctx operation attempt wait err s)
  note fail = "1.prems"(1) and succeed = "1.prems"(2)
  obtain r s1 where op: "operation s = (r, s1)" by (cases "operation s")
  show ?case
  proof (cases "attempt > MaxRetries cfg \<or> (attempt > 0 \<and> ctx attempt \<noteq> None)")
    case True
    then show ?thesis
      using "1.prems"(3,4) by (subst backoff_loop.simps) (auto split: option.splits)
  next
    case False
    show ?thesis
    proof (cases r)
      case (Inr u)
      then show ?thesis
        using False op succeed [of s u s1] "1.prems"(3) by (subst backoff_loop.simps) auto
    next
      case (Inl e)
      then have P: "P s1" using op fail "1.prems"(3) by blast
      show ?thesis
      proof (cases "attempt > 0")
        case True
        then have "case backoff_loop cfg ctx operation (attempt + 1) (next_wait cfg wait) (Some e) s1 of
            (None, _, s') \<Rightarrow> Q s' | (Some _, _, s') \<Rightarrow> P s'"
          using "1.IH"(1) [OF _ True _ op [symmetric] Inl] False fail succeed P by auto
        with True False op Inl show ?thesis
          by (subst backoff_loop.simps) (auto simp: Let_def split: prod.splits option.splits)
      next
        case N: False
        then have "case backoff_loop cfg ctx operation (attempt + 1) wait (Some e) s1 of
            (None, _, s') \<Rightarrow> Q s' | (Some _, _, s') \<Rightarrow> P s'"
          using "1.IH"(2) [OF _ N op [symmetric] Inl] False fail succeed P by auto
        with N False op Inl show ?thesis
          by (subst backoff_loop.simps) auto
      qed
    qed
  qed
qed

lemma WithBackoff_rule:
  assumes "\<And>s err s'. operation s = (Inl err, s') \<Longrightarrow> P s \<Longrightarrow> P s'"
    and "\<And>s u s'. operation s = (Inr u, s') \<Longrightarrow> P s \<Longrightarrow> Q s'"
    and "P s" and "0 \<le> MaxRetries cfg" and "WithBackoff cfg ctx operation s = (r, ws, s')"
  shows "if r = None then Q s' else P s'"
  using backoff_loop_rule [of operation P Q s 0 cfg None ctx "InitialWait cfg", OF assms(1,2,3)] assms(4,5)
  by (auto simp: WithBackoff_def split: option.splits)

section \<open>A reference for the loop\<close>

text \<open>The calls of the operation in sequence: its first success within \<open>n\<close> more calls decides,
  otherwise the last error does.\<close>

fun try_calls :: "nat \<Rightarrow> ('s, unit) operation \<Rightarrow> 's \<Rightarrow> error option \<times> nat \<times> 's" where
  "try_calls n operation s =
     (case operation s of
        (Inr _, s) \<Rightarrow> (None, 1, s)
      | (Inl err, s) \<Rightarrow>
          (case n of
             0 \<Rightarrow> (Some err, 1, s)
           | Suc m \<Rightarrow> (let (r, k, s) = try_calls m operation s in (r, k + 1, s))))"

declare try_calls.simps [simp del]

text \<open>The wait before retry number \<open>i + 1\<close>.\<close>

definition wait_before :: "Config \<Rightarrow> nat \<Rightarrow> int" where
  "wait_before cfg i = (if i = 0 then InitialWait cfg else min (InitialWait cfg * 2 ^ i) (MaxWait cfg))"

definition config_ok :: "Config \<Rightarrow> bool" where
  "config_ok cfg \<longleftrightarrow> 0 \<le> MaxRetries cfg \<and> 0 < InitialWait cfg \<and>
     InitialWait cfg \<le> MaxWait cfg \<and> MaxWait cfg < 2 ^ 62"

lemma next_wait_before:
  assumes "config_ok cfg"
  shows "next_wait cfg (wait_before cfg i) = wait_before cfg (Suc i)"
proof -
  have w: "0 < wait_before cfg i" "wait_before cfg i \<le> MaxWait cfg"
    using assms by (auto simp: config_ok_def wait_before_def)
  then have "to_int64 (wait_before cfg i * 2) = wait_before cfg i * 2"
    using assms by (intro wrap_signed_id) (auto simp: config_ok_def fits_signed_def)
  then show ?thesis
    using assms w by (auto simp: next_wait_def wait_before_def config_ok_def min_def Let_def)
qed

lemma backoff_loop_try:
  assumes "config_ok cfg"
  shows "int (Suc i) + int n = MaxRetries cfg \<Longrightarrow>
    backoff_loop cfg (\<lambda>_. None) operation (int (Suc i)) (wait_before cfg i) err s =
      (let (r, k, s') = try_calls n operation s in (r, map (wait_before cfg) [i..<i + k], s'))"
proof (induction n arbitrary: i err s)
  case 0
  then show ?case
    by (subst backoff_loop.simps, subst try_calls.simps)
      (auto simp: backoff_loop.simps split: prod.splits sum.splits)
next
  case (Suc n)
  have IH: "backoff_loop cfg (\<lambda>_. None) operation (int (Suc (Suc i))) (wait_before cfg (Suc i)) err s =
      (let (r, k, s') = try_calls n operation s in (r, map (wait_before cfg) [Suc i..<Suc i + k], s'))"
    for err s
    using Suc.prems by (intro Suc.IH) simp
  have IH': "backoff_loop cfg (\<lambda>_. None) operation (int (Suc i) + 1) (next_wait cfg (wait_before cfg i)) err s =
      (let (r, k, s') = try_calls n operation s in (r, map (wait_before cfg) [Suc i..<Suc i + k], s'))"
    for err s
    using IH next_wait_before [OF assms, of i] by (simp add: add.commute)
  show ?case
  proof (cases "operation s")
    case (Pair res s1)
    show ?thesis
    proof (cases res)
      case (Inl er)
      obtain r k s2 where t: "try_calls n operation s1 = (r, k, s2)"
        by (cases "try_calls n operation s1")
      have "[i..<i + Suc k] = i # [Suc i..<Suc i + k]"
        by (simp add: upt_conv_Cons)
      then show ?thesis
        using Pair Inl Suc.prems t
        by (subst backoff_loop.simps, subst try_calls.simps)
          (simp add: IH' [simplified] Let_def split_beta)
    next
      case (Inr u)
      then show ?thesis
        using Pair Suc.prems
        by (subst backoff_loop.simps, subst try_calls.simps) simp
    qed
  qed
qed

text \<open>A first call that succeeds is the only one.\<close>

lemma WithBackoff_first:
  assumes "operation s = (Inr u, s')" and "0 \<le> MaxRetries cfg"
  shows "WithBackoff cfg ctx operation s = (None, [], s')"
  using assms by (simp add: WithBackoff_def backoff_loop.simps)

lemma WithBackoff_calls:
  assumes "config_ok cfg"
  shows "WithBackoff cfg (\<lambda>_. None) operation s =
    (let (r, k, s') = try_calls (nat (MaxRetries cfg)) operation s
     in (r, map (wait_before cfg) [0..<k - 1], s'))"
proof (cases "operation s")
  case (Pair res s1)
  have c: "\<not> MaxRetries cfg < 0" using assms by (simp add: config_ok_def)
  show ?thesis
  proof (cases res)
    case (Inr u)
    with Pair c show ?thesis
      by (simp add: WithBackoff_def backoff_loop.simps [of cfg _ _ 0] try_calls.simps)
  next
    case (Inl err)
    note step = Pair Inl WithBackoff_def backoff_loop.simps [of cfg _ _ 0]
    show ?thesis
    proof (cases "nat (MaxRetries cfg)")
      case 0
      then show ?thesis
        using c by (simp add: step backoff_loop.simps [of cfg _ _ 1] try_calls.simps)
    next
      case (Suc m)
      then have "backoff_loop cfg (\<lambda>_. None) operation 1 (InitialWait cfg) (Some err) s1 =
          (let (r, k, s') = try_calls m operation s1 in (r, map (wait_before cfg) [0..<k], s'))"
        using backoff_loop_try [OF assms, of 0 m operation "Some err" s1] c
        by (simp add: wait_before_def)
      with Suc c show ?thesis
        by (simp add: step try_calls.simps [of "Suc m"] Let_def split_beta)
    qed
  qed
qed

text \<open>C27. While its context lives, the retry loop calls the operation until it succeeds or
  \<open>MaxRetries + 1\<close> calls were made, returns nil in the first case and the last error in the
  second, and waits before the retries for the initial wait doubled each time and capped.\<close>

theorem WithBackoff_try_calls:
  assumes "config_ok cfg"
  shows "WithBackoff cfg (\<lambda>_. None) operation s =
    (let (r, k, s') = try_calls (nat (MaxRetries cfg)) operation s
     in (r, map (wait_before cfg) [0..<k - 1], s'))"
  by (rule WithBackoff_calls [OF assms])

theorem WithBackoff_try_calls_witness:
  "WithBackoff DefaultConfig (\<lambda>_. None)
     (\<lambda>n. if n < 2 then (Inl (errorf ''down''), n + 1) else (Inr (), n)) (0::nat)
     = (None, [1 * Second, 2 * Second], 2)"
proof -
  have c: "config_ok DefaultConfig" by (simp add: config_ok_def DefaultConfig_def Second_def)
  have "try_calls (nat (MaxRetries DefaultConfig))
      (\<lambda>n. if n < 2 then (Inl (errorf ''down''), n + 1) else (Inr (), n)) (0::nat) = (None, 3, 2)"
    by code_simp
  moreover have "map (wait_before DefaultConfig) [0..<3 - 1] = [1 * Second, 2 * Second]"
    by code_simp
  ultimately show ?thesis by (simp only: WithBackoff_try_calls [OF c] Let_def prod.case)
qed

end
