(* ===== verification/Messaging.thy ===== *)
theory Messaging
  imports Models Retry
begin

text \<open>
  \<^verbatim>\<open>shared/events\<close>: the Kafka client behind the \<^verbatim>\<open>ConnectMessaging\<close> interface, and the
  producer of \<^verbatim>\<open>wallet-service/internal/infra/kafka\<close>. The library \<^verbatim>\<open>segmentio/kafka-go\<close> is a
  parameter: a writer is a function on a broker state of any type, a reader a record with its
  two calls. A message is its key, its topic, its headers and the JSON value of its bytes
  (\<open>None\<close> when the bytes are not JSON). Deadlines of a call show as its failing outcome.
\<close>

record kmessage =
  km_Topic :: string
  km_Key :: string
  km_Value :: "json option"
  km_Headers :: "(string \<times> string) list"

type_synonym 'k kafka_writer = "kmessage \<Rightarrow> ('k, unit) operation"

record 'k KafkaMessaging =
  mk_brokers :: "string list"
  mk_groupID :: string
  mk_writer :: "'k kafka_writer option"

primrec error_text :: "error \<Rightarrow> string" where
  "error_text (Sentinel s) = s"
| "error_text (Errorf m es) = m"

definition ErrInvalidMessage :: string where
  "ErrInvalidMessage = ''invalid message''"

definition TransactionDepositRequested :: string where
  "TransactionDepositRequested = ''transaction.deposit.requested''"
definition TransactionWithdrawalRequested :: string where
  "TransactionWithdrawalRequested = ''transaction.withdrawal.requested''"
definition TransactionTransferRequested :: string where
  "TransactionTransferRequested = ''transaction.transfer.requested''"
definition WalletEventsTopic :: string where
  "WalletEventsTopic = ''wallet.events.v1''"

lemmas event_defs [go_consts] =
  TransactionDepositRequested_def TransactionWithdrawalRequested_def
  TransactionTransferRequested_def WalletEventsTopic_def

definition DlqTopicSuffix :: string where
  "DlqTopicSuffix = ''.dlq''"

section \<open>Connecting\<close>

definition NewKafkaMessagingInstance :: "string \<Rightarrow> string list \<Rightarrow> 'k KafkaMessaging result" where
  "NewKafkaMessagingInstance groupID brokers =
     (if brokers = [] then Inl (errorf ''messaging: at least one broker address is required'')
      else Inr \<lparr>mk_brokers = brokers, mk_groupID = groupID, mk_writer = None\<rparr>)"

text \<open>The probe of \<^verbatim>\<open>Connect\<close>: the connection it dials is closed on every way out.\<close>

definition kafka_probe :: "('n, 'c) operation \<Rightarrow> ('c \<Rightarrow> ('n, unit) operation) \<Rightarrow>
    ('c \<Rightarrow> ('n, unit) operation) \<Rightarrow> ('n, unit) operation" where
  "kafka_probe dial brokers close n =
     (case dial n of
        (Inl err, n) \<Rightarrow> (Inl (wrapf ''dial %s: %w'' err), n)
      | (Inr conn, n) \<Rightarrow>
          (let (brokerErr, n) = brokers conn n;
               (_, n) = close conn n
           in case brokerErr of
                Inl err \<Rightarrow> (Inl (wrapf ''cluster not ready: %w'' err), n)
              | Inr _ \<Rightarrow> (Inr (), n)))"

section \<open>Writing\<close>

definition AppendToDlq :: "'k KafkaMessaging \<Rightarrow> string \<Rightarrow> string \<Rightarrow> json option \<Rightarrow> string \<Rightarrow>
    ('k, unit) operation" where
  "AppendToDlq k topic key message reason b =
     (case mk_writer k of
        None \<Rightarrow> (Inl (errorf ''Kafka writer is not initialized''), b)
      | Some writer \<Rightarrow>
          (case writer \<lparr>km_Topic = topic @ DlqTopicSuffix, km_Key = key, km_Value = message,
                       km_Headers = [(''x-failure-reason'', reason), (''x-source-topic'', topic)]\<rparr> b of
             (Inl err, b) \<Rightarrow> (Inl (wrapf ''Failed to write message to DLQ topic %s: %w'' err), b)
           | (Inr _, b) \<Rightarrow> (Inr (), b)))"

definition PublishMessage :: "'k KafkaMessaging \<Rightarrow> string \<Rightarrow> string \<Rightarrow> json option \<Rightarrow>
    ('k, unit) operation" where
  "PublishMessage k topic key message b =
     (case mk_writer k of
        None \<Rightarrow> (Inl (errorf ''Kafka writer is not initialized''), b)
      | Some writer \<Rightarrow>
          (case writer \<lparr>km_Topic = topic, km_Key = key, km_Value = message, km_Headers = []\<rparr> b of
             (Inl err, b) \<Rightarrow> (Inl (wrapf ''Failed to write message to topic %s: %w'' err), b)
           | (Inr _, b) \<Rightarrow> (Inr (), b)))"

record 'k Producer =
  pr_messaging :: "'k KafkaMessaging"
  pr_topic :: string

definition Publish :: "'k Producer \<Rightarrow> string \<Rightarrow> json option \<Rightarrow> ('k, unit) operation" where
  "Publish p key val = PublishMessage (pr_messaging p) (pr_topic p) key val"

section \<open>The contract with the broker\<close>

text \<open>What the code relies on: an acknowledged write is in the log, a failed one may or may not
  be, and nothing else happens to the log.\<close>

locale kafka_laws =
  fixes W :: "'k kafka_writer"
    and log :: "'k \<Rightarrow> kmessage list"
  assumes write_ok: "W m b = (Inr u, b') \<Longrightarrow> log b' = log b @ [m]"
    and write_err: "W m b = (Inl err, b') \<Longrightarrow> log b' = log b \<or> log b' = log b @ [m]"
begin

lemma write_keeps:
  "x \<in> set (log b) \<Longrightarrow> x \<in> set (log (snd (W m b)))"
  by (cases "W m b"; cases "fst (W m b)") (auto dest: write_ok write_err)

lemma publish_logged:
  assumes "mk_writer k = Some W" and "PublishMessage k topic key v b = (Inr u, b')"
  shows "\<lparr>km_Topic = topic, km_Key = key, km_Value = v, km_Headers = []\<rparr> \<in> set (log b')"
  using assms by (auto simp: PublishMessage_def dest!: write_ok split: prod.splits sum.splits)

lemma publish_keeps:
  assumes "mk_writer k = Some W" and "x \<in> set (log b)"
  shows "x \<in> set (log (snd (PublishMessage k topic key v b)))"
  using write_keeps [OF assms(2)] assms(1)
  by (auto simp: PublishMessage_def split: prod.splits sum.splits) (metis snd_conv)+

lemma dlq_logged:
  assumes "mk_writer k = Some W" and "AppendToDlq k topic key v reason b = (Inr u, b')"
  shows "log b' = log b @ [\<lparr>km_Topic = topic @ DlqTopicSuffix, km_Key = key, km_Value = v,
      km_Headers = [(''x-failure-reason'', reason), (''x-source-topic'', topic)]\<rparr>]"
  using assms by (auto simp: AppendToDlq_def dest!: write_ok split: prod.splits sum.splits)

end

text \<open>A reference broker: the log and a list of injected outcomes.\<close>

record ref_broker =
  rb_log :: "kmessage list"
  rb_faults :: "io list"

definition kafka_ref :: "ref_broker kafka_writer" where
  "kafka_ref m b =
     (case rb_faults b of
        [] \<Rightarrow> (Inr (), b\<lparr>rb_log := rb_log b @ [m]\<rparr>)
      | f # fs \<Rightarrow> autocommit f (\<lambda>b. (Inr (), b\<lparr>rb_log := rb_log b @ [m]\<rparr>)) (b\<lparr>rb_faults := fs\<rparr>))"

interpretation kref: kafka_laws kafka_ref rb_log
  by unfold_locales (auto simp: kafka_ref_def autocommit_def split: list.splits io.splits)

end
