(* ===== verification/WalletService.thy ===== *)
theory WalletService
  imports WalletRepository Messaging
begin

text \<open>
  \<^verbatim>\<open>wallet-service/internal/services/wallet-serice.go\<close>: opening accounts, reading balances,
  listing, and the three operations the event handlers run (deposit, withdrawal, transfer),
  with the structs of \<^verbatim>\<open>wallet-service/internal/domain/domain.go\<close> they use. The service
  ignores the error of the status update that ends each operation, as the source does.
\<close>

section \<open>Domain structs\<close>

record Transaction =
  dt_ID :: string
  dt_FromAccount :: string
  dt_ToAccount :: string
  dt_Amount :: int
  dt_Currency :: string
  dt_Status :: TransactionStatus
  dt_CreatedAt :: time
  dt_UpdatedAt :: time

record Account =
  da_ID :: string
  da_UserID :: string
  da_Balance :: int
  da_Currency :: string
  da_CreatedAt :: time
  da_UpdatedAt :: time

record ListTransactionsRequest =
  lr_AccountID :: string
  lr_Page :: int \<comment> \<open>\<open>int32\<close>\<close>
  lr_PageSize :: int \<comment> \<open>\<open>int8\<close>\<close>

record ListTransactionsResponse =
  ls_Transactions :: "Transaction list"
  ls_NextPageToken :: string

definition transaction_of_model :: "TransactionModel \<Rightarrow> Transaction" where
  "transaction_of_model t =
     \<lparr>dt_ID = tm_ID t, dt_FromAccount = tm_FromAccount t, dt_ToAccount = tm_ToAccount t,
      dt_Amount = tm_Amount t, dt_Currency = tm_Currency t, dt_Status = tm_Status t,
      dt_CreatedAt = tm_CreatedAt t, dt_UpdatedAt = tm_UpdatedAt t\<rparr>"

definition account_of_model :: "int \<Rightarrow> AccountModel \<Rightarrow> Account" where
  "account_of_model balance a =
     \<lparr>da_ID = am_ID a, da_UserID = am_UserID a, da_Balance = balance,
      da_Currency = am_Currency a, da_CreatedAt = am_CreatedAt a, da_UpdatedAt = am_UpdatedAt a\<rparr>"

section \<open>Accounts\<close>

fun count_currency :: "string \<Rightarrow> nat \<Rightarrow> AccountModel list \<Rightarrow> nat" where
  "count_currency currency count [] = count"
| "count_currency currency count (acc # accs) =
     count_currency currency (if am_Currency acc = currency then count + 1 else count) accs"

definition canOpenNewAccounts :: "AccountModel list \<Rightarrow> string \<Rightarrow> bool" where
  "canOpenNewAccounts alreadyOpenedAccounts currency =
     (count_currency currency 0 alreadyOpenedAccounts < 3)"

definition checkUserAccountCompatibility :: "db_env \<Rightarrow> string \<Rightarrow> string \<Rightarrow> database \<Rightarrow>
    AccountModel option \<times> database" where
  "checkUserAccountCompatibility e userId accountId db =
     (case FindAccountById e accountId db of
        (Inl err, db) \<Rightarrow> (None, db)
      | (Inr account, db) \<Rightarrow>
          if am_UserID account \<noteq> userId then (None, db) else (Some account, db))"

definition OpenAccount :: "db_env \<Rightarrow> string \<Rightarrow> string \<Rightarrow> string \<Rightarrow> (database, Account) operation" where
  "OpenAccount e newId userId currency db =
     (if userId = [] then (Inl (errorf ''userId is required to open an account''), db)
      else if currency = [] then (Inl (errorf ''currency is required to open an account''), db)
      else
        case FindAccountsByUserId e userId db of
          (Inl err, db) \<Rightarrow> (Inl (wrapf ''failed to check existing accounts for user %s: %w'' err), db)
        | (Inr alreadyOpenedAccounts, db) \<Rightarrow>
            if \<not> canOpenNewAccounts alreadyOpenedAccounts currency
            then (Inl (errorf ''cannot create more than three accounts on currency: %s''), db)
            else
              (case InsertAccount e newId userId currency db of
                 (Inl err, db) \<Rightarrow> (Inl (wrapf ''failed to open account for user %s: %w'' err), db)
               | (Inr account, db) \<Rightarrow> (Inr (account_of_model (am_Balance account) account), db)))"

definition Svc_UpdateAccount :: "string \<Rightarrow> string \<Rightarrow> (database, Account option) operation" where
  "Svc_UpdateAccount fromAccountId toAccountId db = (Inr None, db)"

definition GetBalance :: "'r redis_client \<Rightarrow> os_env \<Rightarrow> db_env \<Rightarrow> string \<Rightarrow> string \<Rightarrow>
    ('r world, Account) operation" where
  "GetBalance R env e userId accountId w =
     (if accountId = [] then (Inl (errorf ''AccountId is required to get balance''), w)
      else
        case checkUserAccountCompatibility e userId accountId (w_db w) of
          (None, db) \<Rightarrow> (Inl (errorf ''Account %s does not belong to user %s''), w\<lparr>w_db := db\<rparr>)
        | (Some account, db) \<Rightarrow>
            (case GetOrStoreAccountBalance R env accountId (am_Balance account) (w\<lparr>w_db := db\<rparr>) of
               (Inl err, w) \<Rightarrow> (Inl (wrapf ''failed to get balance for account %s: %w'' err), w)
             | (Inr balance, w) \<Rightarrow> (Inr (account_of_model balance account), w)))"

section \<open>Money movements\<close>

definition deposit :: "'r redis_client \<Rightarrow> db_env \<Rightarrow> string \<Rightarrow> string \<Rightarrow> string \<Rightarrow> string \<Rightarrow> int \<Rightarrow>
    ('r world, Transaction) operation" where
  "deposit R e transactionId userId accountId currency amount w =
     (if amount \<le> 0
      then (Inl (errorf ''Cannot deposit 0 or negative amount to the account %s''), w)
      else
        case on_db (CreatePendingTransaction e transactionId ''deposit'' accountId accountId
               currency amount) w of
          (Inl err, w) \<Rightarrow> (Inl (wrapf ''Failed to create pending deposit transaction: %w'' err), w)
        | (Inr _, w) \<Rightarrow>
            (case on_db (DepositFunds e transactionId accountId currency amount) w of
               (Inl err, w) \<Rightarrow>
                 (let (_, w) = UpdateTransactionStatus R e transactionId userId accountId
                        TransactionStatusFailed w
                  in (Inl (wrapf ''Failed to deposit funds to account: %s, error:%w'' err), w))
             | (Inr transaction, w) \<Rightarrow>
                 (let (_, w) = UpdateTransactionStatus R e transactionId userId accountId
                        TransactionStatusCompleted w
                  in (Inr (transaction_of_model transaction), w))))"

definition withdraw :: "'r redis_client \<Rightarrow> db_env \<Rightarrow> string \<Rightarrow> string \<Rightarrow> string \<Rightarrow> int \<Rightarrow>
    ('r world, Transaction) operation" where
  "withdraw R e transactionId userId accountId amount w =
     (if amount \<le> 0
      then (Inl (errorf ''Cannot withdraw 0 or negative amount from the account %s''), w)
      else
        case checkUserAccountCompatibility e userId accountId (w_db w) of
          (None, db) \<Rightarrow> (Inl (errorf ''Account %s does not belong to user %s''), w\<lparr>w_db := db\<rparr>)
        | (Some account, db) \<Rightarrow>
            (let w = w\<lparr>w_db := db\<rparr> in
             if am_Balance account < amount
             then (Inl (errorf ''Insufficient balance for withdrawal, requested amount:%d, available balance: %d''), w)
             else
               case on_db (CreatePendingTransaction e transactionId ''withdrawal'' accountId accountId
                      (am_Currency account) amount) w of
                 (Inl err, w) \<Rightarrow> (Inl (wrapf ''Failed to create pending withdrawal transaction: %w'' err), w)
               | (Inr _, w) \<Rightarrow>
                   if am_Balance account > 600000 then
                     (let (_, w) = UpdateTransactionStatus R e transactionId userId accountId
                            TransactionStatusFailed w
                      in (Inl (errorf ''Cannot withdraw from account %s while balance exceeds 6000''), w))
                   else
                     (case on_db (WithdrawFunds e transactionId accountId amount) w of
                        (Inl err, w) \<Rightarrow>
                          (let (_, w) = UpdateTransactionStatus R e transactionId userId accountId
                                 TransactionStatusFailed w
                           in (Inl (wrapf ''Failed to withdraw funds from account: %s, error:%w'' err), w))
                      | (Inr transaction, w) \<Rightarrow>
                          (let (_, w) = UpdateTransactionStatus R e transactionId userId accountId
                                 TransactionStatusCompleted w
                           in (Inr (transaction_of_model transaction), w)))))"

definition transfer :: "'r redis_client \<Rightarrow> db_env \<Rightarrow> string \<Rightarrow> string \<Rightarrow> string \<Rightarrow> string \<Rightarrow> string \<Rightarrow>
    int \<Rightarrow> ('r world, Transaction) operation" where
  "transfer R e transactionId userId fromAccountId toAccountId currency amount w =
     (if amount \<le> 0
      then (Inl (errorf ''Cannot transfer 0 or negative amount from account %s''), w)
      else
        case on_db (CreatePendingTransaction e transactionId ''transfer'' fromAccountId toAccountId
               currency amount) w of
          (Inl err, w) \<Rightarrow> (Inl (wrapf ''Failed to create pending transfer transaction: %w'' err), w)
        | (Inr _, w) \<Rightarrow>
            (case on_db (TransferFunds e transactionId fromAccountId toAccountId currency amount) w of
               (Inl err, w) \<Rightarrow>
                 (let (_, w) = UpdateTransactionStatus R e transactionId userId fromAccountId
                        TransactionStatusFailed w
                  in (Inl (wrapf ''Failed to transfer funds from account: %s, error:%w'' err), w))
             | (Inr transaction, w) \<Rightarrow>
                 (let (_, w) = UpdateTransactionStatus R e transactionId userId fromAccountId
                        TransactionStatusCompleted w
                  in (Inr (transaction_of_model transaction), w))))"

section \<open>Listing\<close>

definition Svc_ListTransactions :: "db_env \<Rightarrow> ListTransactionsRequest \<Rightarrow>
    (database, ListTransactionsResponse) operation" where
  "Svc_ListTransactions e req db =
     (if lr_AccountID req = []
      then (Inl (errorf ''accountId is required to list transactions''), db)
      else
        let pageSize = (if lr_PageSize req < 8 then 8 else lr_PageSize req);
            page = (if lr_Page req < 0 then 0 else lr_Page req);
            offset = to_int64 (page * pageSize)
        in case ListTransactions e (lr_AccountID req) offset pageSize db of
             (Inl err, db) \<Rightarrow> (Inl (wrapf ''failed to list transactions for account %s: %w'' err), db)
           | (Inr transactionsList, db) \<Rightarrow>
               (Inr \<lparr>ls_Transactions = map transaction_of_model transactionsList,
                     ls_NextPageToken =
                       (if int (length transactionsList) = pageSize then Itoa (page + 1) else [])\<rparr>, db))"

section \<open>Event handlers\<close>

record RequestedPayload = \<comment> \<open>the three payload structs; a withdrawal has no currency\<close>
  rp_ID :: string
  rp_FromAccount :: string
  rp_ToAccount :: string
  rp_Amount :: int
  rp_Currency :: string
  rp_UserId :: string

definition decode_fields :: "bool \<Rightarrow> (string \<times> json) list \<Rightarrow> RequestedPayload result" where
  "decode_fields has_currency kvs =
     (case decode_string ''ID'' [] kvs of Inl err \<Rightarrow> Inl err | Inr i \<Rightarrow>
     (case decode_string ''FromAccount'' [] kvs of Inl err \<Rightarrow> Inl err | Inr f \<Rightarrow>
     (case decode_string ''ToAccount'' [] kvs of Inl err \<Rightarrow> Inl err | Inr t \<Rightarrow>
     (case decode_int64 ''Amount'' 0 kvs of Inl err \<Rightarrow> Inl err | Inr a \<Rightarrow>
     (case (if has_currency then decode_string ''Currency'' [] kvs else Inr []) of
        Inl err \<Rightarrow> Inl err | Inr c \<Rightarrow>
     (case decode_string ''UserId'' [] kvs of Inl err \<Rightarrow> Inl err | Inr u \<Rightarrow>
       Inr \<lparr>rp_ID = i, rp_FromAccount = f, rp_ToAccount = t, rp_Amount = a, rp_Currency = c,
            rp_UserId = u\<rparr>))))))"

definition decode_payload :: "bool \<Rightarrow> json option \<Rightarrow> RequestedPayload result" where
  "decode_payload has_currency payload =
     (case payload of
        Some (JObj kvs) \<Rightarrow> decode_fields has_currency kvs
      | Some JNull \<Rightarrow> decode_fields has_currency []
      | _ \<Rightarrow> Inl json_error)"

definition invalid_message :: "string \<Rightarrow> error" where
  "invalid_message m = Errorf m [Sentinel ErrInvalidMessage]"

definition HandleDepositDispatched :: "'r redis_client \<Rightarrow> db_env \<Rightarrow> string \<Rightarrow> json option \<Rightarrow>
    ('r world, unit) operation" where
  "HandleDepositDispatched R e aggregateId payload w =
     (case decode_payload True payload of
        Inl err \<Rightarrow> (Inl (invalid_message ''%w: decode deposit.requested payload for aggregate_id=%s: %v''), w)
      | Inr p \<Rightarrow>
          (case deposit R e (rp_ID p) (rp_UserId p) (rp_ToAccount p) (rp_Currency p) (rp_Amount p) w of
             (Inl err, w) \<Rightarrow> (Inl err, w)
           | (Inr _, w) \<Rightarrow> (Inr (), w)))"

definition HandleWithdrawalDispatched :: "'r redis_client \<Rightarrow> db_env \<Rightarrow> string \<Rightarrow> json option \<Rightarrow>
    ('r world, unit) operation" where
  "HandleWithdrawalDispatched R e aggregateId payload w =
     (case decode_payload False payload of
        Inl err \<Rightarrow> (Inl (invalid_message ''%w: decode withdrawal.requested payload for aggregate_id=%s: %v''), w)
      | Inr p \<Rightarrow>
          (case withdraw R e (rp_ID p) (rp_UserId p) (rp_ToAccount p) (rp_Amount p) w of
             (Inl err, w) \<Rightarrow> (Inl err, w)
           | (Inr _, w) \<Rightarrow> (Inr (), w)))"

definition HandleTransferDispatched :: "'r redis_client \<Rightarrow> db_env \<Rightarrow> string \<Rightarrow> json option \<Rightarrow>
    ('r world, unit) operation" where
  "HandleTransferDispatched R e aggregateId payload w =
     (case decode_payload True payload of
        Inl err \<Rightarrow> (Inl (invalid_message ''%w: decode transfer.requested payload for aggregate_id=%s: %v''), w)
      | Inr p \<Rightarrow>
          (case transfer R e (rp_ID p) (rp_UserId p) (rp_FromAccount p) (rp_ToAccount p) (rp_Currency p)
                  (rp_Amount p) w of
             (Inl err, w) \<Rightarrow> (Inl err, w)
           | (Inr _, w) \<Rightarrow> (Inr (), w)))"

end
