(* ===== verification/Movements.thy ===== *)
theory Movements
  imports WalletService
begin

text \<open>
  What the three money movements of the wallet service do to the books: exactly the booked
  amount moves on success, nothing moves on failure, and the schema constraints hold
  throughout, for every pattern of database and cache faults. Each movement is a creation of
  the pending row, a settlement and a status update, so the lemmas are proved in the locale
  \<open>settlement\<close> once and reach the operations through its interpretations.
\<close>

section \<open>Observations\<close>

definition balance_of :: "database \<Rightarrow> string \<Rightarrow> int option" where
  "balance_of db a = map_option am_Balance (List.find (\<lambda>r. am_ID r = a) (accounts db))"

definition status_of :: "database \<Rightarrow> string \<Rightarrow> TransactionStatus option" where
  "status_of db tid = map_option tm_Status (List.find (\<lambda>t. tm_ID t = tid) (transactions db))"

definition fresh_or_pending :: "string \<Rightarrow> database \<Rightarrow> bool" where
  "fresh_or_pending tid db \<longleftrightarrow>
     (\<forall>t \<in> set (transactions db). tm_ID t = tid \<longrightarrow> tm_Status t = TransactionStatusPending)"

text \<open>The row of a request, if it is there already, is the pending row of that very request:
  the first delivery of an event, or a delivery after a crash that left the row pending.\<close>

definition awaits :: "string \<Rightarrow> string \<Rightarrow> string \<Rightarrow> string \<Rightarrow> int \<Rightarrow> database \<Rightarrow> bool" where
  "awaits tid ty fr to amt db \<longleftrightarrow>
     (\<forall>t \<in> set (transactions db). tm_ID t = tid \<longrightarrow>
        tm_Status t = TransactionStatusPending \<and> transaction_type t = ty \<and>
        tm_FromAccount t = fr \<and> tm_ToAccount t = to \<and> tm_Amount t = amt)"

definition status_set :: "string \<Rightarrow> TransactionStatus \<Rightarrow> time \<Rightarrow> database \<Rightarrow> database" where
  "status_set tid s now db =
     db\<lparr>transactions := update_where (\<lambda>t. tm_ID t = tid)
          (\<lambda>t. t\<lparr>tm_Status := s, tm_UpdatedAt := now\<rparr>) (transactions db)\<rparr>"

definition settle_and_record :: "'r redis_client \<Rightarrow> db_env \<Rightarrow> string \<Rightarrow> string \<Rightarrow> string \<Rightarrow>
    string \<Rightarrow> (database, TransactionModel) operation \<Rightarrow> ('r world, Transaction) operation" where
  "settle_and_record R e tid uid acc msg m w =
     (case on_db m w of
        (Inl err, w) \<Rightarrow>
          (let (_, w) = UpdateTransactionStatus R e tid uid acc TransactionStatusFailed w
           in (Inl (wrapf msg err), w))
      | (Inr transaction, w) \<Rightarrow>
          (let (_, w) = UpdateTransactionStatus R e tid uid acc TransactionStatusCompleted w
           in (Inr (transaction_of_model transaction), w)))"

lemma deposit_alt:
  "deposit R e tid uid acc cur amt w =
     (if amt \<le> 0 then (Inl (errorf ''Cannot deposit 0 or negative amount to the account %s''), w)
      else case on_db (CreatePendingTransaction e tid ''deposit'' acc acc cur amt) w of
          (Inl err, w) \<Rightarrow> (Inl (wrapf ''Failed to create pending deposit transaction: %w'' err), w)
        | (Inr _, w) \<Rightarrow> settle_and_record R e tid uid acc
            ''Failed to deposit funds to account: %s, error:%w'' (DepositFunds e tid acc cur amt) w)"
  unfolding deposit_def settle_and_record_def ..

lemma transfer_alt:
  "transfer R e tid uid fr to cur amt w =
     (if amt \<le> 0 then (Inl (errorf ''Cannot transfer 0 or negative amount from account %s''), w)
      else case on_db (CreatePendingTransaction e tid ''transfer'' fr to cur amt) w of
          (Inl err, w) \<Rightarrow> (Inl (wrapf ''Failed to create pending transfer transaction: %w'' err), w)
        | (Inr _, w) \<Rightarrow> settle_and_record R e tid uid fr
            ''Failed to transfer funds from account: %s, error:%w'' (TransferFunds e tid fr to cur amt) w)"
  unfolding transfer_def settle_and_record_def ..

lemma withdraw_alt:
  "withdraw R e tid uid acc amt w =
     (if amt \<le> 0 then (Inl (errorf ''Cannot withdraw 0 or negative amount from the account %s''), w)
      else case checkUserAccountCompatibility e uid acc (w_db w) of
          (None, db) \<Rightarrow> (Inl (errorf ''Account %s does not belong to user %s''), w\<lparr>w_db := db\<rparr>)
        | (Some account, db) \<Rightarrow>
            (let w = w\<lparr>w_db := db\<rparr> in
             if am_Balance account < amt
             then (Inl (errorf ''Insufficient balance for withdrawal, requested amount:%d, available balance: %d''), w)
             else
               case on_db (CreatePendingTransaction e tid ''withdrawal'' acc acc
                      (am_Currency account) amt) w of
                 (Inl err, w) \<Rightarrow> (Inl (wrapf ''Failed to create pending withdrawal transaction: %w'' err), w)
               | (Inr _, w) \<Rightarrow>
                   if am_Balance account > 600000 then
                     (let (_, w) = UpdateTransactionStatus R e tid uid acc TransactionStatusFailed w
                      in (Inl (errorf ''Cannot withdraw from account %s while balance exceeds 6000''), w))
                   else settle_and_record R e tid uid acc
                     ''Failed to withdraw funds from account: %s, error:%w'' (WithdrawFunds e tid acc amt) w))"
  unfolding withdraw_def settle_and_record_def ..

section \<open>Steps of a movement\<close>

lemma on_db_eq: "on_db m w = (fst (m (w_db w)), w\<lparr>w_db := snd (m (w_db w))\<rparr>)"
  by (simp add: on_db_def split_beta)

lemma on_ch_eq: "on_ch m w = (fst (m (w_ch w)), w\<lparr>w_ch := snd (m (w_ch w))\<rparr>)"
  by (simp add: on_ch_def split_beta)

lemma lock_both_state: "snd (lock_both f a b db) = db"
  by (simp add: lock_both_def in_tx_def sql_lock_account_def split_beta)

lemma sql_insert_pending_Inr:
  "sql_insert_pending tid ty fr to cur amt now db = (Inr u, db') \<longleftrightarrow>
     transaction_type_enum ty \<and> 0 < amt \<and> (ty = ''transfer'' \<longrightarrow> fr \<noteq> to) \<and>
     (if tid \<in> set (keys tm_ID (transactions db)) then db' = db
      else fr \<in> set (keys am_ID (accounts db)) \<and> to \<in> set (keys am_ID (accounts db)) \<and>
        db' = db\<lparr>transactions := transactions db @ [new_transaction tid ty fr to cur amt now]\<rparr>)"
  by (auto simp: sql_insert_pending_def)

lemma pending_body_Inr:
  assumes "pending_body f now tid ty fr to cur amt db = (Inr u, db')"
  shows "sql_insert_pending tid ty fr to cur amt now db = (Inr (), db')"
  using assms lock_both_state [of f fr to db]
  by (auto simp: pending_body_def in_tx_def split: prod.splits sum.splits if_splits)

lemma pending_body_up:
  assumes "\<forall>s. f s = IoOk" and "sql_insert_pending tid ty fr to cur amt now db = (Inr (), db')"
  shows "pending_body f now tid ty fr to cur amt db = (Inr (), db')"
  using assms
  by (auto simp: pending_body_def in_tx_def lock_both_def sql_lock_account_def split_beta)

abbreviation insert_pending :: "db_env \<Rightarrow> string \<Rightarrow> string \<Rightarrow> string \<Rightarrow> string \<Rightarrow> string \<Rightarrow> int \<Rightarrow>
    (database, unit) operation" where
  "insert_pending e tid ty fr to cur amt \<equiv>
     sql_insert_pending tid ty fr to cur amt (env_now e CreatePendingTransactionC)"

lemma create_pending_Inr:
  assumes "CreatePendingTransaction e tid ty fr to cur amt db = (Inr u, db')"
  shows "insert_pending e tid ty fr to cur amt db = (Inr (), db')"
  using assms by (auto simp: CreatePendingTransaction_def Let_def run_tx_Inr dest: pending_body_Inr)

lemma create_pending_state:
  "snd (CreatePendingTransaction e tid ty fr to cur amt db) = db \<or>
   insert_pending e tid ty fr to cur amt db =
     (Inr (), snd (CreatePendingTransaction e tid ty fr to cur amt db))"
  using run_tx_state_cases pending_body_Inr unfolding CreatePendingTransaction_def Let_def
  by fast

lemma create_pending_up:
  assumes "call_up CreatePendingTransactionC e"
    and "insert_pending e tid ty fr to cur amt db = (Inr (), db')"
  shows "CreatePendingTransaction e tid ty fr to cur amt db = (Inr (), db')"
  using assms
  by (simp add: CreatePendingTransaction_def Let_def run_tx_Inr call_up_def pending_body_up)

lemma insert_pending_schema:
  assumes ok: "schema_ok db" and "sql_insert_pending tid ty fr to cur amt now db = (Inr u, db')"
    and amt: "fits_signed 64 amt"
  shows "schema_ok db'"
proof (cases "tid \<in> set (keys tm_ID (transactions db))")
  case True
  with assms show ?thesis by (simp add: sql_insert_pending_Inr)
next
  case False
  let ?t = "new_transaction tid ty fr to cur amt now"
  from False assms(2) have db': "db' = db\<lparr>transactions := transactions db @ [?t]\<rparr>"
    and t: "transaction_row_ok (keys am_ID (accounts db)) ?t"
    using amt by (auto simp: sql_insert_pending_Inr transaction_row_ok_def new_transaction_def)
  from ok False t have "transactions_ok (keys am_ID (accounts db)) (transactions db @ [?t])"
    by (simp add: schema_ok_def transactions_ok_def new_transaction_def)
  with ok show ?thesis by (simp add: schema_ok_def db')
qed

lemma insert_pending_books:
  assumes "books_balanced db" and "sql_insert_pending tid ty fr to cur amt now db = (Inr u, db')"
  shows "books_balanced db'"
  using assms
  by (auto simp: sql_insert_pending_Inr books_balanced_def ledger_sum_append ledger_sum_Cons
      new_transaction_def split: if_splits)

lemma insert_pending_row:
  assumes "sql_insert_pending tid ty fr to cur amt now db = (Inr u, db')"
  shows "fresh_or_pending tid db \<Longrightarrow> fresh_or_pending tid db'"
    and "row_within tid ids db \<Longrightarrow> fr \<in> set ids \<Longrightarrow> to \<in> set ids \<Longrightarrow> row_within tid ids db'"
    and "accounts db' = accounts db"
    and "tid \<in> set (keys tm_ID (transactions db'))"
  using assms
  by (auto simp: sql_insert_pending_Inr fresh_or_pending_def row_within_def new_transaction_def
      split: if_splits)

section \<open>Status update\<close>

lemma status_update_db:
  assumes "transaction_status_enum s"
  shows "w_db (snd (UpdateTransactionStatus R e tid uid acc s w)) = w_db w \<or>
    w_db (snd (UpdateTransactionStatus R e tid uid acc s w)) =
      status_set tid s (env_now e UpdateTransactionStatusC) (w_db w)"
  using assms
  by (auto simp: UpdateTransactionStatus_def Let_def on_db_eq on_ch_eq WithTransaction_def run_tx_def
      in_tx_def sql_set_status_def status_set_def split: prod.splits sum.splits io.splits if_splits)

lemma status_set_accounts [simp]: "accounts (status_set tid s now db) = accounts db"
  by (simp add: status_set_def)

lemma status_set_schema:
  assumes "schema_ok db" and "transaction_status_enum s"
  shows "schema_ok (status_set tid s now db)"
  using assms
  by (auto simp: schema_ok_def status_set_def transactions_ok_def transaction_row_ok_def
      set_update_where keys_update_where split: if_splits)

lemma status_set_sum:
  assumes "\<forall>t \<in> set ts. tm_ID t = tid \<longrightarrow>
      (tm_Status t = TransactionStatusCompleted) = (s = TransactionStatusCompleted)"
  shows "ledger_sum a (update_where (\<lambda>t. tm_ID t = tid)
      (\<lambda>t. t\<lparr>tm_Status := s, tm_UpdatedAt := now\<rparr>) ts) = ledger_sum a ts"
  using assms by (induction ts) (auto simp: ledger_sum_Cons)

lemma status_set_books:
  assumes "books_balanced db"
    and "\<forall>t \<in> set (transactions db). tm_ID t = tid \<longrightarrow>
      (tm_Status t = TransactionStatusCompleted) = (s = TransactionStatusCompleted)"
  shows "books_balanced (status_set tid s now db)"
  using assms(1) status_set_sum [OF assms(2)]
  by (simp add: books_balanced_def status_set_def)

section \<open>Balances\<close>

lemma balance_of_Some:
  assumes "schema_ok db"
  shows "balance_of db a = Some b \<longleftrightarrow> (\<exists>r \<in> set (accounts db). am_ID r = a \<and> am_Balance r = b)"
proof
  assume "balance_of db a = Some b"
  then show "\<exists>r \<in> set (accounts db). am_ID r = a \<and> am_Balance r = b"
    by (auto simp: balance_of_def dest: find_SomeD)
next
  assume "\<exists>r \<in> set (accounts db). am_ID r = a \<and> am_Balance r = b"
  then show "balance_of db a = Some b"
    using find_key_Some [OF schema_okD(1) [OF assms]] by (auto simp: balance_of_def)
qed

lemma balance_of_None: "balance_of db a = None \<longleftrightarrow> a \<notin> set (keys am_ID (accounts db))"
  by (auto simp: balance_of_def find_None_iff set_keys)

lemma balance_of_accounts: "accounts db' = accounts db \<Longrightarrow> balance_of db' = balance_of db"
  by (simp add: balance_of_def fun_eq_iff)

lemma balance_of_nonneg:
  assumes "schema_ok db" and "balance_of db a = Some b"
  shows "0 \<le> b"
  using assms by (auto simp: balance_of_Some account_row_ok_def dest: schema_okD(4))

lemma balance_of_books:
  assumes "schema_ok db" and "books_balanced db" and "balance_of db a = Some b"
  shows "ledger_sum a (transactions db) = b"
  using assms by (auto simp: balance_of_Some books_balanced_def)

lemma balance_of_rebalance:
  "balance_of (db\<lparr>transactions := x, accounts := rebalance ts ids now (accounts db)\<rparr>) a =
     (if a \<in> set ids then map_option (\<lambda>_. ledger_sum a ts) (balance_of db a) else balance_of db a)"
proof -
  let ?f = "\<lambda>r. if am_ID r \<in> set ids
    then r\<lparr>am_Balance := ledger_sum (am_ID r) ts, am_UpdatedAt := now\<rparr> else r"
  have "List.find (\<lambda>r. am_ID r = a) (rebalance ts ids now (accounts db)) =
      map_option ?f (List.find (\<lambda>r. am_ID r = a) (accounts db))"
    unfolding rebalance_def by (rule find_update_where) simp
  then show ?thesis
    by (cases "List.find (\<lambda>r. am_ID r = a) (accounts db)")
      (auto simp: balance_of_def dest: find_SomeD)
qed

lemma settle_spec_balance:
  assumes ok: "schema_ok db" and books: "books_balanced db"
    and s: "settle_spec tid ids now db = Some db'"
    and t: "t \<in> set (transactions db)" "pending_row tid t"
  shows "balance_of db' a =
     (if a \<in> set ids
      then map_option (\<lambda>b. b + (if involves a t then contribution a t else 0)) (balance_of db a)
      else balance_of db a)"
proof -
  let ?ts = "complete_pending tid now (transactions db)"
  have "db' = db\<lparr>transactions := ?ts, accounts := rebalance ?ts ids now (accounts db)\<rparr>"
    using s t by (auto simp: settle_spec_def Let_def split: if_splits)
  then have b: "balance_of db' a =
      (if a \<in> set ids then map_option (\<lambda>_. ledger_sum a ?ts) (balance_of db a) else balance_of db a)"
    by (simp only: balance_of_rebalance)
  have "ledger_sum a ?ts = ledger_sum a (transactions db)
      + (if involves a t then contribution a t else 0)"
    using ledger_sum_complete [OF schema_okD(2) [OF ok] t] .
  then show ?thesis
    using b balance_of_books [OF ok books, of a] by (cases "balance_of db a") auto
qed

section \<open>Settlement followed by the status update\<close>

lemma settle_and_record_eq:
  "settle_and_record R e tid uid acc msg m w =
     (let w1 = w\<lparr>w_db := snd (m (w_db w))\<rparr> in
      case fst (m (w_db w)) of
        Inl err \<Rightarrow> (Inl (wrapf msg err),
          snd (UpdateTransactionStatus R e tid uid acc TransactionStatusFailed w1))
      | Inr t \<Rightarrow> (Inr (transaction_of_model t),
          snd (UpdateTransactionStatus R e tid uid acc TransactionStatusCompleted w1)))"
  by (auto simp: settle_and_record_def on_db_eq Let_def split_beta split: sum.splits)

lemma settled_rows_completed:
  assumes "settle_spec tid ids now db = Some db1" and "fresh_or_pending tid db"
    and "r \<in> set (transactions db1)" and "tm_ID r = tid"
  shows "tm_Status r = TransactionStatusCompleted"
proof -
  have "r \<in> set (complete_pending tid now (transactions db))"
    using settle_spec_transactions [OF assms(1)] assms(3) by (simp only:)
  then obtain r0 where r0: "r0 \<in> set (transactions db)"
    and r: "r = (if pending_row tid r0
      then r0\<lparr>tm_Status := TransactionStatusCompleted, tm_UpdatedAt := now\<rparr> else r0)"
    by (auto simp: complete_pending_def set_update_where)
  have "pending_row tid r0"
    using assms(2,4) r r0 by (auto simp: fresh_or_pending_def pending_row_def split: if_splits)
  with r show ?thesis by simp
qed

lemma settled_row_found:
  assumes ok: "schema_ok db" and s: "settle_spec tid ids now db = Some db1"
    and r: "r \<in> set (transactions db)" "pending_row tid r"
  shows "List.find (\<lambda>t. tm_ID t = tid) (transactions db1) =
    Some (r\<lparr>tm_Status := TransactionStatusCompleted, tm_UpdatedAt := now\<rparr>)"
proof -
  have id: "tm_ID r = tid" using r(2) by (simp add: pending_row_def)
  have "List.find (\<lambda>t. tm_ID t = tid) (transactions db) = Some r"
    using find_key_Some [OF schema_okD(2) [OF ok] r(1)] id by simp
  moreover have "transactions db1 = complete_pending tid now (transactions db)"
    by (rule settle_spec_transactions [OF s])
  ultimately show ?thesis
    using r(2) by (simp add: complete_pending_def find_update_where)
qed

context settlement
begin

lemma record_schema:
  assumes "schema_ok (w_db w)"
  shows "schema_ok (w_db (snd (settle_and_record R e x uid acc msg (move e) w)))"
proof -
  let ?w1 = "w\<lparr>w_db := snd (move e (w_db w))\<rparr>"
  have ok: "schema_ok (w_db ?w1)" using move_schema [OF assms] by simp
  have "schema_ok (w_db (snd (UpdateTransactionStatus R e x uid acc s ?w1)))"
    if "transaction_status_enum s" for s
    using status_update_db [OF that, of R e x uid acc ?w1] status_set_schema [OF ok that] ok
    by auto
  then show ?thesis by (simp add: settle_and_record_eq Let_def split: sum.splits)
qed

lemma record_Inl:
  assumes "schema_ok (w_db w)" and "\<not> lost e"
    and "settle_and_record R e x uid acc msg (move e) w = (Inl err, w')"
  shows "w_db w' = w_db w \<or>
    w_db w' = status_set x TransactionStatusFailed (env_now e UpdateTransactionStatusC) (w_db w)"
proof -
  let ?w1 = "w\<lparr>w_db := snd (move e (w_db w))\<rparr>"
  obtain er where er: "fst (move e (w_db w)) = Inl er"
    and w': "w' = snd (UpdateTransactionStatus R e x uid acc TransactionStatusFailed ?w1)"
    using assms(3) by (auto simp: settle_and_record_eq Let_def split: sum.splits)
  have "snd (move e (w_db w)) = w_db w"
    using move_atomic [OF assms(1,2), of er] er by (metis prod.collapse)
  then show ?thesis
    using status_update_db [of TransactionStatusFailed R e x uid acc ?w1] w' by auto
qed

lemma record_Inr:
  assumes "schema_ok (w_db w)"
    and "settle_and_record R e x uid acc msg (move e) w = (Inr t, w')"
  obtains db1 m where "settle_spec tid ids (at e) (w_db w) = Some db1"
    and "sql_select_transaction tid db1 = (Inr m, db1)" and "t = transaction_of_model m"
    and "w_db w' = db1 \<or>
      w_db w' = status_set x TransactionStatusCompleted (env_now e UpdateTransactionStatusC) db1"
proof -
  let ?w1 = "w\<lparr>w_db := snd (move e (w_db w))\<rparr>"
  obtain m where m: "fst (move e (w_db w)) = Inr m" and t: "t = transaction_of_model m"
    and w': "w' = snd (UpdateTransactionStatus R e x uid acc TransactionStatusCompleted ?w1)"
    using assms(2) by (auto simp: settle_and_record_eq Let_def split: sum.splits)
  have mv: "move e (w_db w) = (Inr m, snd (move e (w_db w)))"
    using m by (metis prod.collapse)
  have "w_db w' = w_db ?w1 \<or> w_db w' =
      status_set x TransactionStatusCompleted (env_now e UpdateTransactionStatusC) (w_db ?w1)"
    unfolding w' by (rule status_update_db) simp
  then have st: "w_db w' = snd (move e (w_db w)) \<or> w_db w' =
      status_set x TransactionStatusCompleted (env_now e UpdateTransactionStatusC)
        (snd (move e (w_db w)))"
    by simp
  show thesis
    by (rule that [OF conjunct1 [OF move_Inr [OF assms(1) mv]]
          conjunct2 [OF move_Inr [OF assms(1) mv]] t st])
qed

lemma record_books:
  assumes ok: "schema_ok (w_db w)" and books: "books_balanced (w_db w)"
    and within: "row_within tid ids (w_db w)" and fresh: "fresh_or_pending tid (w_db w)"
    and nl: "\<not> lost e"
  shows "books_balanced (w_db (snd (settle_and_record R e tid uid acc msg (move e) w)))"
proof (cases "settle_and_record R e tid uid acc msg (move e) w")
  case (Pair res w')
  show ?thesis
  proof (cases res)
    case (Inl err)
    have "books_balanced (status_set tid TransactionStatusFailed now (w_db w))" for now
      using fresh by (intro status_set_books books) (auto simp: fresh_or_pending_def)
    then show ?thesis
      using record_Inl [OF ok nl, of R tid uid acc msg err w'] Pair Inl books by auto
  next
    case (Inr t)
    obtain db1 where s: "settle_spec tid ids (at e) (w_db w) = Some db1"
      and w': "w_db w' = db1 \<or> w_db w' =
        status_set tid TransactionStatusCompleted (env_now e UpdateTransactionStatusC) db1"
      using record_Inr [OF ok, of R e tid uid acc msg t w'] Pair Inr by metis
    have b1: "books_balanced db1" using settle_spec_books [OF ok books within s] .
    have "books_balanced (status_set tid TransactionStatusCompleted now db1)" for now
      using settled_rows_completed [OF s fresh] by (intro status_set_books b1) auto
    then show ?thesis using w' b1 Pair by auto
  qed
qed

lemma record_effect:
  assumes ok: "schema_ok (w_db w)" and books: "books_balanced (w_db w)"
    and r: "r \<in> set (transactions (w_db w))" "pending_row tid r"
    and res: "settle_and_record R e tid uid acc msg (move e) w = (Inr t, w')"
  shows "balance_of (w_db w') a =
      (if a \<in> set ids
       then map_option (\<lambda>b. b + (if involves a r then contribution a r else 0)) (balance_of (w_db w) a)
       else balance_of (w_db w) a)"
    and "status_of (w_db w') tid = Some TransactionStatusCompleted"
    and "dt_ID t = tid \<and> dt_Amount t = tm_Amount r \<and> dt_Status t = TransactionStatusCompleted"
proof -
  obtain db1 m where s: "settle_spec tid ids (at e) (w_db w) = Some db1"
    and sel: "sql_select_transaction tid db1 = (Inr m, db1)" and t: "t = transaction_of_model m"
    and w': "w_db w' = db1 \<or> w_db w' =
      status_set tid TransactionStatusCompleted (env_now e UpdateTransactionStatusC) db1"
    by (rule record_Inr [OF ok res])
  have find1: "List.find (\<lambda>t. tm_ID t = tid) (transactions db1) =
      Some (r\<lparr>tm_Status := TransactionStatusCompleted, tm_UpdatedAt := at e\<rparr>)"
    by (rule settled_row_found [OF ok s r])
  have "accounts (w_db w') = accounts db1" using w' by auto
  then have "balance_of (w_db w') a = balance_of db1 a" by (simp add: balance_of_def)
  then show "balance_of (w_db w') a =
      (if a \<in> set ids
       then map_option (\<lambda>b. b + (if involves a r then contribution a r else 0)) (balance_of (w_db w) a)
       else balance_of (w_db w) a)"
    using settle_spec_balance [OF ok books s r] by simp
  show "status_of (w_db w') tid = Some TransactionStatusCompleted"
    using w' find1 by (auto simp: status_of_def status_set_def find_update_where)
  show "dt_ID t = tid \<and> dt_Amount t = tm_Amount r \<and> dt_Status t = TransactionStatusCompleted"
    using sel find1 r(2) t
    by (auto simp: sql_select_transaction_def transaction_of_model_def TransactionModel.truncate_def
        pending_row_def)
qed

lemma record_live:
  assumes ok: "schema_ok (w_db w)" and "up e"
    and r: "r \<in> set (transactions (w_db w))" "pending_row tid r"
    and aff: "\<forall>a \<in> set ids. affordable (complete_pending tid (at e) (transactions (w_db w)))
      (accounts (w_db w)) a"
  shows "\<exists>t w'. settle_and_record R e tid uid acc msg (move e) w = (Inr t, w')"
proof -
  have "\<exists>t \<in> set (transactions (w_db w)). pending_row tid t" using r by blast
  then obtain db1 where s: "settle_spec tid ids (at e) (w_db w) = Some db1"
    using aff by (simp add: settle_spec_def Let_def)
  then obtain m where "sql_select_transaction tid db1 = (Inr m, db1)"
    using settled_row_found [OF ok s r] by (simp add: sql_select_transaction_def)
  then have "fst (move e (w_db w)) = Inr m"
    using move_up [OF ok assms(2) s] by simp
  then show ?thesis by (simp add: settle_and_record_eq Let_def)
qed

end

end
