(* ===== verification/Relay.thy ===== *)
theory Relay
  imports WalletRepository Messaging
begin

text \<open>
  \<^verbatim>\<open>wallet-service/internal/services/outbox_relay_service.go\<close>: the poller that moves rows of
  the outbox to Kafka. Its state is a \<open>plant\<close>, the repository's world and the broker. The rows
  of a batch are handled by concurrent goroutines; rows of one batch differ in their
  \<^verbatim>\<open>aggregate_id\<close>, the model runs them one after another in an order that is an argument, each
  with its own database environment.
\<close>

record ('r, 'k) plant =
  pl_world :: "'r world"
  pl_kafka :: 'k

definition on_world :: "('r world, 'a) operation \<Rightarrow> (('r, 'k) plant, 'a) operation" where
  "on_world m p = (case m (pl_world p) of (x, w) \<Rightarrow> (x, p\<lparr>pl_world := w\<rparr>))"

definition on_kafka :: "('k, 'a) operation \<Rightarrow> (('r, 'k) plant, 'a) operation" where
  "on_kafka m p = (case m (pl_kafka p) of (x, k) \<Rightarrow> (x, p\<lparr>pl_kafka := k\<rparr>))"

record ('r, 'k) OutboxRelay =
  or_redis :: "'r redis_client"
  or_publisher :: "'k Producer"
  or_topic :: string
  or_batchSize :: int
  or_osenv :: os_env

definition InsertOutboxRelay :: "('r, 'k) OutboxRelay \<Rightarrow> db_env \<Rightarrow> string \<Rightarrow> string \<Rightarrow> string \<Rightarrow>
    string \<Rightarrow> string \<Rightarrow> string \<Rightarrow> (string \<times> json) list \<Rightarrow> ('r world, unit) operation" where
  "InsertOutboxRelay o' e oid aggregateType aggregateId eventType partitionKey userId payload =
     OutboxInsert (or_redis o') e oid
       \<lparr>oc_AggregateType = aggregateType, oc_AggregateId = aggregateId, oc_EventType = eventType,
        oc_Payload = payload, oc_UserId = userId, oc_Topic = or_topic o',
        oc_Partition_key = partitionKey\<rparr>"

section \<open>One row\<close>

definition EnvelopeVersion :: int where
  "EnvelopeVersion = 1"

definition marshal_envelope :: "OutboxModel \<Rightarrow> json option" where
  "marshal_envelope row =
     (case marshal_time (om_CreatedAt row) of
        None \<Rightarrow> None
      | Some occurredAt \<Rightarrow>
          Some (JObj [(''event_id'', JStr (om_ID row)), (''event_type'', JStr (om_EventType row)),
             (''aggregate_id'', JStr (om_AggregateId row)), (''occurred_at'', occurredAt),
             (''version'', JInt EnvelopeVersion), (''payload'', JObj (om_Payload row))]))"

definition releaseIdempotency :: "('r, 'k) OutboxRelay \<Rightarrow> OutboxModel \<Rightarrow>
    ('r, 'k) plant \<Rightarrow> ('r, 'k) plant" where
  "releaseIdempotency o' row p =
     (let userId = TrimSuffix (om_IdempotencyKey row) (''_'' @ om_PartitionKey row);
          (_, p) = on_world (IdempotencyRelease (or_redis o') (om_AggregateId row) userId
                     (om_PartitionKey row)) p
      in p)"

definition markFailed :: "('r, 'k) OutboxRelay \<Rightarrow> db_env \<Rightarrow> OutboxModel \<Rightarrow>
    ('r, 'k) plant \<Rightarrow> ('r, 'k) plant" where
  "markFailed o' e row p =
     (let (_, p) = on_world (on_db (OutboxUpdate e (om_AggregateId row) OutboxStatusFailed)) p
      in releaseIdempotency o' row p)"

definition relay_row :: "('r, 'k) OutboxRelay \<Rightarrow> db_env \<Rightarrow> OutboxModel \<Rightarrow>
    ('r, 'k) plant \<Rightarrow> ('r, 'k) plant" where
  "relay_row o' e row p =
     (case marshal_envelope row of
        None \<Rightarrow> markFailed o' e row p
      | Some message \<Rightarrow>
          (case on_kafka (Publish (or_publisher o') (om_PartitionKey row) (Some message)) p of
             (Inl err, p) \<Rightarrow>
               (case on_world (on_db (OutboxMarkPublishFailure e (or_osenv o') (om_AggregateId row)
                       (error_text err))) p of
                  (Inl markErr, p) \<Rightarrow> p
                | (Inr status, p) \<Rightarrow>
                    if status = OutboxStatusFailed then releaseIdempotency o' row p else p)
           | (Inr _, p) \<Rightarrow>
               (let (_, p) = on_world (on_db (OutboxUpdate e (om_AggregateId row)
                      OutboxStatusPublished)) p
                in p)))"

section \<open>One poll and the polling loop\<close>

record relay_poll =
  po_env :: db_env
  po_locked :: "string \<Rightarrow> bool" \<comment> \<open>rows other transactions hold, skipped by \<open>SKIP LOCKED\<close>\<close>
  po_order :: "OutboxModel list \<Rightarrow> OutboxModel list" \<comment> \<open>order of the goroutines\<close>
  po_row_env :: "string \<Rightarrow> db_env"
  po_done :: bool \<comment> \<open>the context is done after this poll\<close>

definition readAndRelay :: "('r, 'k) OutboxRelay \<Rightarrow> relay_poll \<Rightarrow> ('r, 'k) plant \<Rightarrow>
    int \<times> ('r, 'k) plant" where
  "readAndRelay o' po p =
     (case on_world (on_db (OutboxPendingGetBatch (po_env po) (po_locked po) (or_batchSize o'))) p of
        (Inl err, p) \<Rightarrow> (0, p)
      | (Inr rows, p) \<Rightarrow>
          (int (length rows),
           fold (\<lambda>row. relay_row o' (po_row_env po (om_AggregateId row)) row) (po_order po rows) p))"

datatype drain_end = Drained | Cancelled | Unfinished

fun drain :: "('r, 'k) OutboxRelay \<Rightarrow> relay_poll list \<Rightarrow> ('r, 'k) plant \<Rightarrow>
    drain_end \<times> ('r, 'k) plant" where
  "drain o' [] p = (Unfinished, p)"
| "drain o' (po # pos) p =
     (let (n, p) = readAndRelay o' po p in
      if n < or_batchSize o' then (Drained, p)
      else if po_done po then (Cancelled, p)
      else drain o' pos p)"

text \<open>What the select of the outer loop sees: a tick with the polls of its drain, or the end of
  the context.\<close>

datatype relay_event = Tick "relay_poll list" | CtxDone

fun CheckAndRelay :: "('r, 'k) OutboxRelay \<Rightarrow> relay_event list \<Rightarrow> ('r, 'k) plant \<Rightarrow>
    drain_end \<times> ('r, 'k) plant" where
  "CheckAndRelay o' [] p = (Unfinished, p)"
| "CheckAndRelay o' (CtxDone # evs) p = (Cancelled, p)"
| "CheckAndRelay o' (Tick pos # evs) p =
     (case drain o' pos p of
        (Drained, p) \<Rightarrow> CheckAndRelay o' evs p
      | (r, p) \<Rightarrow> (r, p))"

end
