(* ===== verification/Fixtures.thy ===== *)
theory Fixtures
  imports WalletService Relay
begin

text \<open>
  A small concrete world on which the witnesses of the development are evaluated: two users,
  \<open>a1\<close> with 1000 from one completed deposit, \<open>a2\<close> empty, the reference Redis store, and
  database environments with and without faults.
\<close>

definition mk_user :: "string \<Rightarrow> UserModel" where
  "mk_user u = \<lparr>um_ID = u, um_Name = u, um_Username = u, um_Password = ''hash'', um_Email = u,
     um_CreatedAt = 0, um_UpdatedAt = 0\<rparr>"

definition mk_account :: "string \<Rightarrow> string \<Rightarrow> int \<Rightarrow> AccountModel" where
  "mk_account a u b = \<lparr>am_ID = a, am_UserID = u, am_CreatedAt = 0, am_UpdatedAt = 0,
     am_Transactions = [], am_Balance = b, am_Currency = ''USD''\<rparr>"

definition mk_row :: "string \<Rightarrow> string \<Rightarrow> string \<Rightarrow> string \<Rightarrow> int \<Rightarrow> TransactionStatus \<Rightarrow> transaction_row" where
  "mk_row tid ty fr to amt s = (new_transaction tid ty fr to ''USD'' amt 0)\<lparr>tm_Status := s\<rparr>"

definition sample_db :: database where
  "sample_db = \<lparr>users = [mk_user ''u1'', mk_user ''u2''],
     accounts = [mk_account ''a1'' ''u1'' 1000, mk_account ''a2'' ''u2'' 0],
     transactions = [mk_row ''t0'' ''deposit'' ''a1'' ''a1'' 1000 TransactionStatusCompleted],
     user_auth = [], transaction_outbox = []\<rparr>"

definition sample :: "ref_redis world" where
  "sample = \<lparr>w_db = sample_db, w_ch = rr_empty\<rparr>"

definition down :: "repo_call \<Rightarrow> time \<Rightarrow> db_env" where
  "down c t = \<lparr>env_io = (\<lambda>c' s. if c' = c then IoErr else IoOk), env_now = (\<lambda>_. t)\<rparr>"

definition failed_db :: database where
  "failed_db = sample_db\<lparr>transactions := transactions sample_db @
     [mk_row ''t1'' ''deposit'' ''a1'' ''a1'' 500 TransactionStatusFailed]\<rparr>"

definition sample_cached :: "ref_redis world" where
  "sample_cached = sample\<lparr>w_ch := rr_put (balanceKey ''a1'') (RInt 1000) (minutes 5) rr_empty\<rparr>"

definition mk_outbox :: "string \<Rightarrow> string \<Rightarrow> OutboxStatus \<Rightarrow> time \<Rightarrow> outbox_row" where
  "mk_outbox oid tid s t =
     \<lparr>om_ID = oid, om_AggregateType = ''transaction'', om_AggregateId = tid,
      om_EventType = TransactionDepositRequested, om_Payload = [], om_Topic = WalletEventsTopic,
      om_PartitionKey = ''a1'', om_IdempotencyKey = idempotencyKey ''u1'' ''a1'', om_Status = s,
      om_ErrorMessage = None, om_CreatedAt = t, om_UpdatedAt = t, om_PublishedAt = None,
      retry_count = 0, next_attempt_at = t\<rparr>"

definition sample_outbox_db :: database where
  "sample_outbox_db = sample_db\<lparr>transaction_outbox :=
     [mk_outbox ''o1'' ''t1'' OutboxStatusPending 1, mk_outbox ''o2'' ''t2'' OutboxStatusClaimed 2]\<rparr>"

definition last_attempt :: outbox_row where
  "last_attempt = (mk_outbox ''o1'' ''t1'' OutboxStatusClaimed 1)\<lparr>retry_count := 3\<rparr>"

definition sample_cfg :: OutboxInsertConfig where
  "sample_cfg = \<lparr>oc_AggregateType = ''transaction'', oc_AggregateId = ''t1'',
     oc_EventType = TransactionDepositRequested, oc_Payload = [], oc_UserId = ''u1'',
     oc_Topic = WalletEventsTopic, oc_Partition_key = ''a1''\<rparr>"

definition sample_locked :: ref_redis where
  "sample_locked = rr_put (cache_idempotencyKey ''u1_a1'') (RStr ''u1_a1'') idempotencyTTL rr_empty"

definition sample_relay :: "(ref_redis, ref_broker) OutboxRelay" where
  "sample_relay = \<lparr>or_redis = redis_ref,
     or_publisher = \<lparr>pr_messaging = \<lparr>mk_brokers = [''localhost:9092''], mk_groupID = ''wallet-service'',
         mk_writer = Some kafka_ref\<rparr>, pr_topic = WalletEventsTopic\<rparr>,
     or_topic = WalletEventsTopic, or_batchSize = 100, or_osenv = (\<lambda>_. None)\<rparr>"

definition sample_poll :: "time \<Rightarrow> relay_poll" where
  "sample_poll t = \<lparr>po_env = healthy t, po_locked = (\<lambda>_. False), po_order = rev,
     po_row_env = (\<lambda>_. healthy t), po_done = False\<rparr>"

definition sample_plant :: "database \<Rightarrow> io list \<Rightarrow> (ref_redis, ref_broker) plant" where
  "sample_plant db fs = \<lparr>pl_world = \<lparr>w_db = db, w_ch = sample_locked\<rparr>,
     pl_kafka = \<lparr>rb_log = [], rb_faults = fs\<rparr>\<rparr>"

lemmas fixture_defs = mk_user_def mk_account_def mk_row_def new_transaction_def sample_db_def
  sample_def down_def

lemma sample_schema [simp]: "schema_ok sample_db"
  by (simp add: fixture_defs schema_ok_def users_ok_def accounts_ok_def account_row_ok_def
      transactions_ok_def transaction_row_ok_def transaction_type_enum_def user_auth_ok_def
      outbox_ok_def fits_signed_def)

lemma sample_w_db [simp]: "w_db sample = sample_db"
  by (simp add: sample_def)

lemma sample_books [simp]: "books_balanced sample_db"
  by (simp add: fixture_defs books_balanced_def ledger_sum_def involves_def contribution_def)

lemma down_simps [simp]:
  "env_io (down c t) c' s = (if c' = c then IoErr else IoOk)" "env_now (down c t) c' = t"
  by (simp_all add: down_def)

lemma sample_outbox_schema [simp]: "schema_ok sample_outbox_db"
  using sample_schema
  by (simp add: sample_outbox_db_def schema_ok_def outbox_ok_def mk_outbox_def)

lemma mk_outbox_fields:
  "om_ID (mk_outbox i a s t) = i" "om_AggregateId (mk_outbox i a s t) = a"
  "om_Status (mk_outbox i a s t) = s" "retry_count (mk_outbox i a s t) = 0"
  "om_CreatedAt (mk_outbox i a s t) = t"
  by (simp_all add: mk_outbox_def)

end
