(* ===== verification/MovementProps.thy ===== *)
theory MovementProps
  imports Movements Fixtures
begin

text \<open>
  The properties of \<open>deposit\<close>, \<open>withdraw\<close> and \<open>transfer\<close>: the constraints of the schema and the
  agreement of balances with the ledger hold after every run, under every pattern of faults
  that does not lose the acknowledgement of a settlement's commit; a run that reports success moved exactly the
  amount; a run that reports failure moved nothing; and with a healthy database the run
  succeeds. Each operation is split at the creation of its pending row by \<open>pend_then\<close>; what
  follows is an instance of the locale \<open>settlement\<close>.
\<close>

section \<open>The pending row and what follows it\<close>

definition pend_then :: "db_env \<Rightarrow> string \<Rightarrow> string \<Rightarrow> string \<Rightarrow> string \<Rightarrow> string \<Rightarrow> int \<Rightarrow> string \<Rightarrow>
    ('r world, 'a) operation \<Rightarrow> ('r world, 'a) operation" where
  "pend_then e tid ty fr to cur amt msg k w =
     (case on_db (CreatePendingTransaction e tid ty fr to cur amt) w of
        (Inl err, w) \<Rightarrow> (Inl (wrapf msg err), w)
      | (Inr _, w) \<Rightarrow> k w)"

lemma deposit_pend:
  "deposit R e tid uid acc cur amt w =
     (if amt \<le> 0 then (Inl (errorf ''Cannot deposit 0 or negative amount to the account %s''), w)
      else pend_then e tid ''deposit'' acc acc cur amt
        ''Failed to create pending deposit transaction: %w''
        (settle_and_record R e tid uid acc ''Failed to deposit funds to account: %s, error:%w''
           (DepositFunds e tid acc cur amt)) w)"
  unfolding deposit_alt pend_then_def ..

lemma transfer_pend:
  "transfer R e tid uid fr to cur amt w =
     (if amt \<le> 0 then (Inl (errorf ''Cannot transfer 0 or negative amount from account %s''), w)
      else pend_then e tid ''transfer'' fr to cur amt
        ''Failed to create pending transfer transaction: %w''
        (settle_and_record R e tid uid fr ''Failed to transfer funds from account: %s, error:%w''
           (TransferFunds e tid fr to cur amt)) w)"
  unfolding transfer_alt pend_then_def ..

definition withdraw_tail :: "'r redis_client \<Rightarrow> db_env \<Rightarrow> string \<Rightarrow> string \<Rightarrow> AccountModel \<Rightarrow>
    string \<Rightarrow> int \<Rightarrow> ('r world, Transaction) operation" where
  "withdraw_tail R e tid uid account acc amt w =
     (if am_Balance account > 600000 then
        (let (_, w) = UpdateTransactionStatus R e tid uid acc TransactionStatusFailed w
         in (Inl (errorf ''Cannot withdraw from account %s while balance exceeds 6000''), w))
      else settle_and_record R e tid uid acc
        ''Failed to withdraw funds from account: %s, error:%w'' (WithdrawFunds e tid acc amt) w)"

lemma check_account:
  "checkUserAccountCompatibility e uid acc db =
     ((if env_io e FindAccountByIdC (Stmt 0) = IoOk
       then (case List.find (\<lambda>a. am_ID a = acc) (accounts db) of
               None \<Rightarrow> None
             | Some a \<Rightarrow> if am_UserID a = uid then Some a else None)
       else None), db)"
  by (auto simp: checkUserAccountCompatibility_def FindAccountById_def autocommit_def
      split: io.splits option.splits)

lemma withdraw_pend:
  "withdraw R e tid uid acc amt w =
     (if amt \<le> 0 then (Inl (errorf ''Cannot withdraw 0 or negative amount from the account %s''), w)
      else case fst (checkUserAccountCompatibility e uid acc (w_db w)) of
          None \<Rightarrow> (Inl (errorf ''Account %s does not belong to user %s''), w)
        | Some account \<Rightarrow>
            (if am_Balance account < amt
             then (Inl (errorf ''Insufficient balance for withdrawal, requested amount:%d, available balance: %d''), w)
             else pend_then e tid ''withdrawal'' acc acc (am_Currency account) amt
               ''Failed to create pending withdrawal transaction: %w''
               (withdraw_tail R e tid uid account acc amt) w))"
  unfolding withdraw_alt pend_then_def withdraw_tail_def check_account
  by (simp add: Let_def split: option.splits)

lemma pend_then_cases:
  obtains
    (stop) err db1 where "pend_then e tid ty fr to cur amt msg k w = (Inl err, w\<lparr>w_db := db1\<rparr>)"
      and "db1 = w_db w \<or> insert_pending e tid ty fr to cur amt (w_db w) = (Inr (), db1)"
  | (go) db1 where "pend_then e tid ty fr to cur amt msg k w = k (w\<lparr>w_db := db1\<rparr>)"
      and "insert_pending e tid ty fr to cur amt (w_db w) = (Inr (), db1)"
proof (cases "CreatePendingTransaction e tid ty fr to cur amt (w_db w)")
  case (Pair res db1)
  show thesis
  proof (cases res)
    case (Inl err)
    have "pend_then e tid ty fr to cur amt msg k w = (Inl (wrapf msg err), w\<lparr>w_db := db1\<rparr>)"
      using Pair Inl by (simp add: pend_then_def on_db_def)
    moreover have "db1 = w_db w \<or> insert_pending e tid ty fr to cur amt (w_db w) = (Inr (), db1)"
      using create_pending_state [of e tid ty fr to cur amt "w_db w"] Pair by simp
    ultimately show thesis by (rule stop)
  next
    case (Inr u)
    then show thesis
      using Pair create_pending_Inr [of e tid ty fr to cur amt "w_db w" u db1]
      by (intro go [of db1]) (simp_all add: pend_then_def on_db_def)
  qed
qed

lemma pend_then_inv:
  assumes "P (w_db w)"
    and "\<And>db1. insert_pending e tid ty fr to cur amt (w_db w) = (Inr (), db1) \<Longrightarrow> P db1"
    and "\<And>db1. insert_pending e tid ty fr to cur amt (w_db w) = (Inr (), db1) \<Longrightarrow>
      P (w_db (snd (k (w\<lparr>w_db := db1\<rparr>))))"
  shows "P (w_db (snd (pend_then e tid ty fr to cur amt msg k w)))"
  by (rule pend_then_cases [of e tid ty fr to cur amt msg k w]) (use assms in \<open>auto\<close>)

lemma pend_then_up:
  assumes "call_up CreatePendingTransactionC e"
    and "insert_pending e tid ty fr to cur amt (w_db w) = (Inr (), db1)"
  shows "pend_then e tid ty fr to cur amt msg k w = k (w\<lparr>w_db := db1\<rparr>)"
  using create_pending_up [OF assms] by (simp add: pend_then_def on_db_def)

lemma awaits_facts:
  assumes "awaits tid ty fr to amt db"
  shows "fresh_or_pending tid db"
    and "fr \<in> set ids \<Longrightarrow> to \<in> set ids \<Longrightarrow> row_within tid ids db"
  using assms by (auto simp: awaits_def fresh_or_pending_def row_within_def)

lemma insert_pending_awaits:
  assumes "sql_insert_pending tid ty fr to cur amt now db = (Inr u, db1)"
    and "awaits tid ty fr to amt db"
  shows "awaits tid ty fr to amt db1"
  using assms by (auto simp: sql_insert_pending_Inr awaits_def new_transaction_def split: if_splits)

lemma insert_pending_booked:
  assumes "sql_insert_pending tid ty fr to cur amt now db = (Inr u, db1)"
    and "awaits tid ty fr to amt db"
  obtains r where "r \<in> set (transactions db1)" and "pending_row tid r"
    and "transaction_type r = ty" and "tm_FromAccount r = fr" and "tm_ToAccount r = to"
    and "tm_Amount r = amt"
proof -
  have "tid \<in> set (keys tm_ID (transactions db1))" using insert_pending_row(4) [OF assms(1)] .
  then obtain r where "r \<in> set (transactions db1)" "tm_ID r = tid" by (auto simp: set_keys)
  with insert_pending_awaits [OF assms] show thesis
    by (intro that [of r]) (auto simp: awaits_def pending_row_def)
qed

lemma insert_pending_balance:
  assumes "sql_insert_pending tid ty fr to cur amt now db = (Inr u, db1)"
  shows "balance_of db1 = balance_of db"
  using insert_pending_row(3) [OF assms] by (rule balance_of_accounts)

lemma pend_then_failed:
  assumes "\<And>db1. insert_pending e tid ty fr to cur amt (w_db w) = (Inr (), db1) \<Longrightarrow>
      fst (k (w\<lparr>w_db := db1\<rparr>)) = Inl err \<Longrightarrow> accounts (w_db (snd (k (w\<lparr>w_db := db1\<rparr>)))) = accounts db1"
    and "fst (pend_then e tid ty fr to cur amt msg k w) = Inl err"
  shows "accounts (w_db (snd (pend_then e tid ty fr to cur amt msg k w))) = accounts (w_db w)"
proof (rule pend_then_cases [of e tid ty fr to cur amt msg k w])
  fix er db1
  assume "pend_then e tid ty fr to cur amt msg k w = (Inl er, w\<lparr>w_db := db1\<rparr>)"
    and "db1 = w_db w \<or> insert_pending e tid ty fr to cur amt (w_db w) = (Inr (), db1)"
  then show ?thesis using insert_pending_row(3) by auto
next
  fix db1
  assume go: "pend_then e tid ty fr to cur amt msg k w = k (w\<lparr>w_db := db1\<rparr>)"
    and ins: "insert_pending e tid ty fr to cur amt (w_db w) = (Inr (), db1)"
  then show ?thesis using assms(1) [OF ins] assms(2) insert_pending_row(3) [OF ins] by simp
qed

lemma status_failed_accounts:
  "accounts (w_db (snd (UpdateTransactionStatus R e tid uid acc TransactionStatusFailed w)))
     = accounts (w_db w)"
  using status_update_db [of TransactionStatusFailed R e tid uid acc w] by auto

context settlement
begin

lemma pend_record_schema:
  assumes "schema_ok (w_db w)" and "fits_signed 64 amt"
  shows "schema_ok (w_db (snd (pend_then e tid ty fr to cur amt pmsg
    (settle_and_record R e x uid acc msg (move e)) w)))"
proof (rule pend_then_inv)
  show "schema_ok (w_db w)" by fact
next
  fix db1
  assume ins: "insert_pending e tid ty fr to cur amt (w_db w) = (Inr (), db1)"
  show ok1: "schema_ok db1" by (rule insert_pending_schema [OF assms(1) ins assms(2)])
  show "schema_ok (w_db (snd (settle_and_record R e x uid acc msg (move e) (w\<lparr>w_db := db1\<rparr>))))"
    by (rule record_schema) (simp add: ok1)
qed

lemma pend_record_books:
  assumes ok: "schema_ok (w_db w)" and books: "books_balanced (w_db w)"
    and aw: "awaits tid ty fr to amt (w_db w)" and amt: "fits_signed 64 amt"
    and ids: "fr \<in> set ids" "to \<in> set ids" and nl: "\<not> lost e"
  shows "books_balanced (w_db (snd (pend_then e tid ty fr to cur amt pmsg
    (settle_and_record R e tid uid acc msg (move e)) w)))"
proof (rule pend_then_inv)
  show "books_balanced (w_db w)" by fact
next
  fix db1
  assume ins: "insert_pending e tid ty fr to cur amt (w_db w) = (Inr (), db1)"
  show bk1: "books_balanced db1" by (rule insert_pending_books [OF books ins])
  have aw1: "awaits tid ty fr to amt db1" by (rule insert_pending_awaits [OF ins aw])
  show "books_balanced (w_db (snd (settle_and_record R e tid uid acc msg (move e)
      (w\<lparr>w_db := db1\<rparr>))))"
    by (rule record_books)
      (simp_all add: insert_pending_schema [OF ok ins amt] bk1 awaits_facts [OF aw1] ids nl)
qed

lemma pend_record_effect:
  assumes ok: "schema_ok (w_db w)" and books: "books_balanced (w_db w)"
    and aw: "awaits tid ty fr to amt (w_db w)" and amt: "fits_signed 64 amt"
    and res: "pend_then e tid ty fr to cur amt pmsg
      (settle_and_record R e tid uid acc msg (move e)) w = (Inr t, w')"
  obtains r where "transaction_type r = ty" and "tm_FromAccount r = fr" and "tm_ToAccount r = to"
    and "tm_Amount r = amt"
    and "\<And>a. balance_of (w_db w') a =
      (if a \<in> set ids
       then map_option (\<lambda>b. b + (if involves a r then contribution a r else 0)) (balance_of (w_db w) a)
       else balance_of (w_db w) a)"
    and "status_of (w_db w') tid = Some TransactionStatusCompleted"
    and "dt_ID t = tid \<and> dt_Amount t = amt \<and> dt_Status t = TransactionStatusCompleted"
    and "ty = ''transfer'' \<longrightarrow> fr \<noteq> to"
    and "balance_of (w_db w) fr \<noteq> None" and "balance_of (w_db w) to \<noteq> None"
proof -
  obtain db1 where go: "settle_and_record R e tid uid acc msg (move e) (w\<lparr>w_db := db1\<rparr>) = (Inr t, w')"
    and ins: "insert_pending e tid ty fr to cur amt (w_db w) = (Inr (), db1)"
    by (rule pend_then_cases [of e tid ty fr to cur amt pmsg
          "settle_and_record R e tid uid acc msg (move e)" w]) (use res in \<open>auto\<close>)
  obtain r where r: "r \<in> set (transactions db1)" "pending_row tid r"
    and f: "transaction_type r = ty" "tm_FromAccount r = fr" "tm_ToAccount r = to" "tm_Amount r = amt"
    by (rule insert_pending_booked [OF ins aw])
  note rec = record_effect [of "w\<lparr>w_db := db1\<rparr>" r R e uid acc msg t w',
      simplified, OF insert_pending_schema [OF ok ins amt] insert_pending_books [OF books ins] r go]
  have "transaction_row_ok (keys am_ID (accounts db1)) r"
    using schema_okD(5) [OF insert_pending_schema [OF ok ins amt] r(1)] .
  then have known: "balance_of (w_db w) fr \<noteq> None" "balance_of (w_db w) to \<noteq> None"
    using f insert_pending_row(3) [OF ins] by (auto simp: transaction_row_ok_def balance_of_None)
  show thesis
  proof (rule that [OF f])
    show "\<And>a. balance_of (w_db w') a =
      (if a \<in> set ids
       then map_option (\<lambda>b. b + (if involves a r then contribution a r else 0)) (balance_of (w_db w) a)
       else balance_of (w_db w) a)"
      using rec(1) insert_pending_balance [OF ins] by simp
  qed (use rec(2,3) f ins known in \<open>simp_all add: sql_insert_pending_Inr\<close>)
qed

lemma pend_record_failed:
  assumes ok: "schema_ok (w_db w)" and amt: "fits_signed 64 amt" and nl: "\<not> lost e"
    and res: "pend_then e tid ty fr to cur amt pmsg
      (settle_and_record R e tid uid acc msg (move e)) w = (Inl err, w')"
  shows "accounts (w_db w') = accounts (w_db w)"
proof -
  have "accounts (w_db (snd (settle_and_record R e tid uid acc msg (move e) (w\<lparr>w_db := db1\<rparr>)))) =
      accounts db1"
    if ins: "insert_pending e tid ty fr to cur amt (w_db w) = (Inr (), db1)"
      and f: "fst (settle_and_record R e tid uid acc msg (move e) (w\<lparr>w_db := db1\<rparr>)) = Inl err" for db1
    using record_Inl [OF _ nl, of "w\<lparr>w_db := db1\<rparr>" R tid uid acc msg err]
      insert_pending_schema [OF ok ins amt] f by (fastforce simp: prod_eq_iff)
  then have "accounts (w_db (snd (pend_then e tid ty fr to cur amt pmsg
      (settle_and_record R e tid uid acc msg (move e)) w))) = accounts (w_db w)"
    by (rule pend_then_failed) (simp_all add: res)
  then show ?thesis by (simp add: res)
qed

lemma pend_record_live:
  assumes ok: "schema_ok (w_db w)" and books: "books_balanced (w_db w)"
    and aw: "awaits tid ty fr to amt (w_db w)" and amt: "fits_signed 64 amt" "0 < amt"
    and ty: "transaction_type_enum ty" "ty = ''transfer'' \<longrightarrow> fr \<noteq> to"
    and known: "fr \<in> set (keys am_ID (accounts (w_db w)))" "to \<in> set (keys am_ID (accounts (w_db w)))"
    and up: "call_up CreatePendingTransactionC e" "up e"
    and aff: "\<And>r a. transaction_type r = ty \<Longrightarrow> tm_FromAccount r = fr \<Longrightarrow> tm_ToAccount r = to \<Longrightarrow>
      tm_Amount r = amt \<Longrightarrow> a \<in> set ids \<Longrightarrow> \<exists>b. balance_of (w_db w) a = Some b \<and>
        0 \<le> b + (if involves a r then contribution a r else 0) \<and>
        fits_signed 64 (b + (if involves a r then contribution a r else 0))"
  shows "\<exists>t w'. pend_then e tid ty fr to cur amt pmsg
      (settle_and_record R e tid uid acc msg (move e)) w = (Inr t, w')"
proof -
  obtain db1 where ins: "insert_pending e tid ty fr to cur amt (w_db w) = (Inr (), db1)"
    using amt ty known by (cases "tid \<in> set (keys tm_ID (transactions (w_db w)))")
      (auto simp: sql_insert_pending_Inr)
  have ok1: "schema_ok db1" and bk1: "books_balanced db1"
    using insert_pending_schema [OF ok ins amt(1)] insert_pending_books [OF books ins] .
  obtain r where r: "r \<in> set (transactions db1)" "pending_row tid r"
    and f: "transaction_type r = ty" "tm_FromAccount r = fr" "tm_ToAccount r = to" "tm_Amount r = amt"
    by (rule insert_pending_booked [OF ins aw])
  have "affordable (complete_pending tid (at e) (transactions db1)) (accounts db1) a"
    if a: "a \<in> set ids" for a
  proof -
    obtain b where b: "balance_of db1 a = Some b"
      and nn: "0 \<le> b + (if involves a r then contribution a r else 0)"
        "fits_signed 64 (b + (if involves a r then contribution a r else 0))"
      using aff [OF f a] insert_pending_balance [OF ins] by auto
    have "ledger_sum a (complete_pending tid (at e) (transactions db1)) =
        b + (if involves a r then contribution a r else 0)"
      using ledger_sum_complete [OF schema_okD(2) [OF ok1] r] balance_of_books [OF ok1 bk1 b] by simp
    then show ?thesis
      using nn b balance_of_None [of db1 a] by (simp only: affordable_def) auto
  qed
  then show ?thesis
    using record_live [of "w\<lparr>w_db := db1\<rparr>", simplified, OF ok1 up(2) r]
    by (simp add: pend_then_up [OF up(1) ins])
qed

end


section \<open>The sample world\<close>

lemma sample_awaits: "tid \<noteq> ''t0'' \<Longrightarrow> awaits tid ty fr to amt sample_db"
  by (simp add: awaits_def fixture_defs)

lemma sample_balances: "balance_of sample_db ''a1'' = Some 1000" "balance_of sample_db ''a2'' = Some 0"
  by (simp_all add: balance_of_def fixture_defs)

lemma sample_account:
  "mk_account ''a1'' ''u1'' 1000 \<in> set (accounts sample_db)"
  "am_ID (mk_account a u b) = a" "am_UserID (mk_account a u b) = u" "am_Balance (mk_account a u b) = b"
  by (simp_all add: fixture_defs)

lemma run_Inr:
  assumes "\<not> isl (fst p)" obtains t w where "p = (Inr t, w)"
  using assms by (cases p; cases "fst p") auto

lemma run_Inl:
  assumes "isl (fst p)" obtains err w where "p = (Inl err, w)"
  using assms by (cases p; cases "fst p") auto

section \<open>Every run keeps the ledger\<close>

lemma failed_status_books:
  assumes "books_balanced (w_db w)" and "fresh_or_pending tid (w_db w)"
  shows "books_balanced (w_db (snd (UpdateTransactionStatus R e tid uid acc TransactionStatusFailed w)))"
proof -
  have "books_balanced (status_set tid TransactionStatusFailed now (w_db w))" for now
    using assms by (intro status_set_books) (auto simp: fresh_or_pending_def)
  with status_update_db [of TransactionStatusFailed R e tid uid acc w] assms(1) show ?thesis
    by auto
qed

lemma failed_status_schema:
  assumes "schema_ok (w_db w)"
  shows "schema_ok (w_db (snd (UpdateTransactionStatus R e tid uid acc TransactionStatusFailed w)))"
  using status_update_db [of TransactionStatusFailed R e tid uid acc w] assms
    status_set_schema [OF assms, of TransactionStatusFailed tid] by auto

lemma withdraw_tail_schema:
  assumes "schema_ok (w_db w)"
  shows "schema_ok (w_db (snd (withdraw_tail R e tid uid account acc amt w)))"
  using failed_status_schema [OF assms] wdr.record_schema [OF assms]
  by (simp add: withdraw_tail_def split_beta)

lemma withdraw_tail_books:
  assumes "schema_ok (w_db w)" and "books_balanced (w_db w)"
    and "awaits tid ''withdrawal'' acc acc amt (w_db w)" and "\<not> commit_lost WithdrawFundsC e"
  shows "books_balanced (w_db (snd (withdraw_tail R e tid uid account acc amt w)))"
  using failed_status_books [OF assms(2) awaits_facts(1) [OF assms(3)]]
    wdr.record_books [OF assms(1,2) awaits_facts(2) [OF assms(3)] awaits_facts(1) [OF assms(3)] assms(4)]
  by (simp add: withdraw_tail_def split_beta)

lemma withdraw_inv:
  assumes "P (w_db w)"
    and "\<And>cur db1. insert_pending e tid ''withdrawal'' acc acc cur amt (w_db w) = (Inr (), db1) \<Longrightarrow> P db1"
    and "\<And>cur db1 account. insert_pending e tid ''withdrawal'' acc acc cur amt (w_db w) = (Inr (), db1) \<Longrightarrow>
      P (w_db (snd (withdraw_tail R e tid uid account acc amt (w\<lparr>w_db := db1\<rparr>))))"
  shows "P (w_db (snd (withdraw R e tid uid acc amt w)))"
proof -
  have "P (w_db (snd (pend_then e tid ''withdrawal'' acc acc cur amt msg
      (withdraw_tail R e tid uid account acc amt) w)))" for cur msg account
    by (rule pend_then_inv [where P = P, OF assms(1)]) (fact assms(2), fact assms(3))
  with assms(1) show ?thesis by (simp add: withdraw_pend split: option.splits)
qed

lemma lock_order_set:
  "set [fst (lock_order fr to), snd (lock_order fr to)] = {fr, to}"
  by (auto simp: lock_order_def)

lemma deposit_schema:
  assumes "schema_ok (w_db w)" and "fits_signed 64 amt"
  shows "schema_ok (w_db (snd (deposit R e tid uid acc cur amt w)))"
  using assms dep.pend_record_schema [OF assms] by (simp add: deposit_pend)

lemma withdraw_schema:
  assumes "schema_ok (w_db w)" and "fits_signed 64 amt"
  shows "schema_ok (w_db (snd (withdraw R e tid uid acc amt w)))"
proof (rule withdraw_inv)
  show "schema_ok (w_db w)" by fact
next
  fix cur db1 account
  assume ins: "insert_pending e tid ''withdrawal'' acc acc cur amt (w_db w) = (Inr (), db1)"
  show ok1: "schema_ok db1" by (rule insert_pending_schema [OF assms(1) ins assms(2)])
  show "schema_ok (w_db (snd (withdraw_tail R e tid uid account acc amt (w\<lparr>w_db := db1\<rparr>))))"
    by (rule withdraw_tail_schema) (simp add: ok1)
qed

lemma transfer_schema:
  assumes "schema_ok (w_db w)" and "fits_signed 64 amt"
  shows "schema_ok (w_db (snd (transfer R e tid uid fr to cur amt w)))"
  using assms trf.pend_record_schema [OF assms] by (simp add: transfer_pend)

lemma deposit_books:
  assumes "schema_ok (w_db w)" and "books_balanced (w_db w)"
    and "awaits tid ''deposit'' acc acc amt (w_db w)" and "fits_signed 64 amt"
    and "\<not> commit_lost DepositFundsC e"
  shows "books_balanced (w_db (snd (deposit R e tid uid acc cur amt w)))"
  using assms(2) dep.pend_record_books [OF assms(1-4) _ _ assms(5)] by (simp add: deposit_pend)

lemma withdraw_books:
  assumes "schema_ok (w_db w)" and "books_balanced (w_db w)"
    and "awaits tid ''withdrawal'' acc acc amt (w_db w)" and "fits_signed 64 amt"
    and "\<not> commit_lost WithdrawFundsC e"
  shows "books_balanced (w_db (snd (withdraw R e tid uid acc amt w)))"
proof (rule withdraw_inv)
  show "books_balanced (w_db w)" by fact
next
  fix cur db1 account
  assume ins: "insert_pending e tid ''withdrawal'' acc acc cur amt (w_db w) = (Inr (), db1)"
  show bk1: "books_balanced db1" by (rule insert_pending_books [OF assms(2) ins])
  show "books_balanced (w_db (snd (withdraw_tail R e tid uid account acc amt (w\<lparr>w_db := db1\<rparr>))))"
    by (rule withdraw_tail_books)
      (simp_all add: insert_pending_schema [OF assms(1) ins assms(4)] bk1
        insert_pending_awaits [OF ins assms(3)] assms(5))
qed

lemma transfer_books:
  assumes "schema_ok (w_db w)" and "books_balanced (w_db w)"
    and "awaits tid ''transfer'' fr to amt (w_db w)" and "fits_signed 64 amt"
    and "\<not> commit_lost TransferFundsC e"
  shows "books_balanced (w_db (snd (transfer R e tid uid fr to cur amt w)))"
  using assms(2) trf.pend_record_books [OF assms(1-4) _ _ assms(5)]
  by (simp add: transfer_pend lock_order_set del: set_simps) 

section \<open>Success moves exactly the amount\<close>

lemma deposit_effect:
  assumes "schema_ok (w_db w)" and "books_balanced (w_db w)"
    and "awaits tid ''deposit'' acc acc amt (w_db w)" and "fits_signed 64 amt"
    and "deposit R e tid uid acc cur amt w = (Inr t, w')"
  shows "(\<exists>b. balance_of (w_db w) acc = Some b \<and> balance_of (w_db w') acc = Some (b + amt))
    \<and> (\<forall>a. a \<noteq> acc \<longrightarrow> balance_of (w_db w') a = balance_of (w_db w) a)
    \<and> status_of (w_db w') tid = Some TransactionStatusCompleted
    \<and> dt_ID t = tid \<and> dt_Amount t = amt \<and> dt_Status t = TransactionStatusCompleted"
proof -
  have run: "pend_then e tid ''deposit'' acc acc cur amt
      ''Failed to create pending deposit transaction: %w''
      (settle_and_record R e tid uid acc ''Failed to deposit funds to account: %s, error:%w''
         (DepositFunds e tid acc cur amt)) w = (Inr t, w')"
    using assms(5) by (simp add: deposit_pend split: if_splits)
  show ?thesis
    by (rule dep.pend_record_effect [OF assms(1-4) run])
      (auto simp: involves_def contribution_def)
qed

text \<open>A deposit that reports success raised the balance of its account by exactly the
  amount, changed no other balance, and its row is completed.\<close>

theorem deposit_exact:
  assumes "schema_ok (w_db w)" and "books_balanced (w_db w)"
    and "awaits tid ''deposit'' acc acc amt (w_db w)" and "fits_signed 64 amt"
    and "deposit R e tid uid acc cur amt w = (Inr t, w')"
  shows "(\<exists>b. balance_of (w_db w) acc = Some b \<and> balance_of (w_db w') acc = Some (b + amt))
    \<and> (\<forall>a. a \<noteq> acc \<longrightarrow> balance_of (w_db w') a = balance_of (w_db w) a)
    \<and> status_of (w_db w') tid = Some TransactionStatusCompleted
    \<and> dt_ID t = tid \<and> dt_Amount t = amt \<and> dt_Status t = TransactionStatusCompleted"
  by (rule deposit_effect [OF assms])

theorem deposit_exact_witness:
  "\<exists>t w'. deposit redis_ref (healthy 5) ''t1'' ''u1'' ''a1'' ''USD'' 500 sample = (Inr t, w') \<and> balance_of (w_db w') ''a1'' = Some 1500"
proof -
  have "\<not> isl (fst (deposit redis_ref (healthy 5) ''t1'' ''u1'' ''a1'' ''USD'' 500 sample))"
    by code_simp
  then obtain t w' where r: "deposit redis_ref (healthy 5) ''t1'' ''u1'' ''a1'' ''USD'' 500 sample = (Inr t, w')"
    by (rule run_Inr)
  show ?thesis
    using deposit_exact [OF _ _ _ _ r] r
    by (simp add: sample_awaits sample_balances fits_signed_def)
qed

lemma transfer_effect:
  assumes "schema_ok (w_db w)" and "books_balanced (w_db w)"
    and "awaits tid ''transfer'' fr to amt (w_db w)" and "fits_signed 64 amt"
    and "transfer R e tid uid fr to cur amt w = (Inr t, w')"
  shows "fr \<noteq> to
    \<and> (\<exists>b c. balance_of (w_db w) fr = Some b \<and> amt \<le> b \<and> balance_of (w_db w) to = Some c
        \<and> balance_of (w_db w') fr = Some (b - amt) \<and> balance_of (w_db w') to = Some (c + amt))
    \<and> (\<forall>a. a \<noteq> fr \<and> a \<noteq> to \<longrightarrow> balance_of (w_db w') a = balance_of (w_db w) a)
    \<and> status_of (w_db w') tid = Some TransactionStatusCompleted
    \<and> dt_ID t = tid \<and> dt_Amount t = amt \<and> dt_Status t = TransactionStatusCompleted"
proof -
  have run: "pend_then e tid ''transfer'' fr to cur amt
      ''Failed to create pending transfer transaction: %w''
      (settle_and_record R e tid uid fr ''Failed to transfer funds from account: %s, error:%w''
         (TransferFunds e tid fr to cur amt)) w = (Inr t, w')"
    using assms(5) by (simp add: transfer_pend split: if_splits)
  have eff: "fr \<noteq> to \<and> balance_of (w_db w) fr \<noteq> None \<and> balance_of (w_db w) to \<noteq> None
      \<and> (\<forall>a. balance_of (w_db w') a =
          (if a = fr then map_option (\<lambda>b. b - amt) (balance_of (w_db w) a)
           else if a = to then map_option (\<lambda>b. b + amt) (balance_of (w_db w) a)
           else balance_of (w_db w) a))
      \<and> status_of (w_db w') tid = Some TransactionStatusCompleted
      \<and> dt_ID t = tid \<and> dt_Amount t = amt \<and> dt_Status t = TransactionStatusCompleted"
    by (rule trf.pend_record_effect [OF assms(1-4) run])
      (auto simp: involves_def contribution_def lock_order_def)
  have "schema_ok (w_db w')" using transfer_schema [OF assms(1,4), of R e tid uid fr to cur] assms(5) by simp
  with eff balance_of_nonneg [of "w_db w'" fr] show ?thesis by auto
qed


text \<open>A transfer that reports success is between two different accounts, lowered one
  balance and raised the other by exactly the amount, changed no other balance, and its row
  is completed.\<close>

theorem transfer_exact:
  assumes "schema_ok (w_db w)" and "books_balanced (w_db w)"
    and "awaits tid ''transfer'' fr to amt (w_db w)" and "fits_signed 64 amt"
    and "transfer R e tid uid fr to cur amt w = (Inr t, w')"
  shows "fr \<noteq> to
    \<and> (\<exists>b c. balance_of (w_db w) fr = Some b \<and> amt \<le> b \<and> balance_of (w_db w) to = Some c
        \<and> balance_of (w_db w') fr = Some (b - amt) \<and> balance_of (w_db w') to = Some (c + amt))
    \<and> (\<forall>a. a \<noteq> fr \<and> a \<noteq> to \<longrightarrow> balance_of (w_db w') a = balance_of (w_db w) a)
    \<and> status_of (w_db w') tid = Some TransactionStatusCompleted
    \<and> dt_ID t = tid \<and> dt_Amount t = amt \<and> dt_Status t = TransactionStatusCompleted"
  by (rule transfer_effect [OF assms])

theorem transfer_exact_witness:
  "\<exists>t w'. transfer redis_ref (healthy 5) ''t1'' ''u1'' ''a1'' ''a2'' ''USD'' 300 sample = (Inr t, w')
     \<and> balance_of (w_db w') ''a1'' = Some 700 \<and> balance_of (w_db w') ''a2'' = Some 300"
proof -
  have "\<not> isl (fst (transfer redis_ref (healthy 5) ''t1'' ''u1'' ''a1'' ''a2'' ''USD'' 300 sample))"
    by code_simp
  then obtain t w' where r: "transfer redis_ref (healthy 5) ''t1'' ''u1'' ''a1'' ''a2'' ''USD'' 300 sample = (Inr t, w')"
    by (rule run_Inr)
  show ?thesis
    using transfer_exact [OF _ _ _ _ r] r
    by (simp add: sample_awaits sample_balances fits_signed_def)
qed

lemma withdraw_reaches:
  assumes "withdraw R e tid uid acc amt w = (Inr t, w')"
  obtains account where "account \<in> set (accounts (w_db w))" and "am_ID account = acc"
    and "am_UserID account = uid" and "0 < amt" and "amt \<le> am_Balance account"
    and "am_Balance account \<le> 600000"
    and "pend_then e tid ''withdrawal'' acc acc (am_Currency account) amt
      ''Failed to create pending withdrawal transaction: %w''
      (settle_and_record R e tid uid acc ''Failed to withdraw funds from account: %s, error:%w''
         (WithdrawFunds e tid acc amt)) w = (Inr t, w')"
proof -
  let ?pmsg = "''Failed to create pending withdrawal transaction: %w''"
  obtain account where c: "fst (checkUserAccountCompatibility e uid acc (w_db w)) = Some account"
    and amt: "0 < amt" "amt \<le> am_Balance account"
    and run: "pend_then e tid ''withdrawal'' acc acc (am_Currency account) amt ?pmsg
      (withdraw_tail R e tid uid account acc amt) w = (Inr t, w')"
    using assms by (auto simp: withdraw_pend split: if_splits option.splits)
  have lim: "am_Balance account \<le> 600000"
    by (rule pend_then_cases [of e tid "''withdrawal''" acc acc "am_Currency account" amt ?pmsg
          "withdraw_tail R e tid uid account acc amt" w])
      (use run in \<open>auto simp: withdraw_tail_def split_beta split: if_splits\<close>)
  then have "withdraw_tail R e tid uid account acc amt = settle_and_record R e tid uid acc
      ''Failed to withdraw funds from account: %s, error:%w'' (WithdrawFunds e tid acc amt)"
    by (simp add: withdraw_tail_def fun_eq_iff)
  with run have run': "pend_then e tid ''withdrawal'' acc acc (am_Currency account) amt ?pmsg
      (settle_and_record R e tid uid acc ''Failed to withdraw funds from account: %s, error:%w''
         (WithdrawFunds e tid acc amt)) w = (Inr t, w')"
    by simp
  have "account \<in> set (accounts (w_db w)) \<and> am_ID account = acc \<and> am_UserID account = uid"
    using c by (auto simp: check_account split: if_splits option.splits dest!: find_SomeD)
  with amt lim run' show thesis by (intro that) auto
qed

lemma withdraw_effect:
  assumes "schema_ok (w_db w)" and "books_balanced (w_db w)"
    and "awaits tid ''withdrawal'' acc acc amt (w_db w)" and "fits_signed 64 amt"
    and "withdraw R e tid uid acc amt w = (Inr t, w')"
  shows "(\<exists>b. balance_of (w_db w) acc = Some b \<and> amt \<le> b \<and> b \<le> 600000
        \<and> balance_of (w_db w') acc = Some (b - amt))
    \<and> (\<exists>account \<in> set (accounts (w_db w)). am_ID account = acc \<and> am_UserID account = uid)
    \<and> (\<forall>a. a \<noteq> acc \<longrightarrow> balance_of (w_db w') a = balance_of (w_db w) a)
    \<and> status_of (w_db w') tid = Some TransactionStatusCompleted"
proof -
  obtain account where acc: "account \<in> set (accounts (w_db w))" "am_ID account = acc"
    "am_UserID account = uid" and amt: "amt \<le> am_Balance account" "am_Balance account \<le> 600000"
    and run: "pend_then e tid ''withdrawal'' acc acc (am_Currency account) amt
      ''Failed to create pending withdrawal transaction: %w''
      (settle_and_record R e tid uid acc ''Failed to withdraw funds from account: %s, error:%w''
         (WithdrawFunds e tid acc amt)) w = (Inr t, w')"
    by (rule withdraw_reaches [OF assms(5)])
  have "balance_of (w_db w) acc = Some (am_Balance account)"
    using acc balance_of_Some [OF assms(1)] by auto
  moreover have "balance_of (w_db w') a =
      (if a = acc then map_option (\<lambda>b. b - amt) (balance_of (w_db w) a) else balance_of (w_db w) a)
      \<and> status_of (w_db w') tid = Some TransactionStatusCompleted" for a
    by (rule wdr.pend_record_effect [OF assms(1-4) run])
      (auto simp: involves_def contribution_def)
  ultimately show ?thesis using acc amt by auto
qed

text \<open>A withdrawal that reports success was asked for by the owner of the account, for
  an amount the account had, from a balance of at most 600000 minor units, and lowered that
  balance by exactly the amount; no other balance changed and the row is completed.\<close>

theorem withdraw_exact:
  assumes "schema_ok (w_db w)" and "books_balanced (w_db w)"
    and "awaits tid ''withdrawal'' acc acc amt (w_db w)" and "fits_signed 64 amt"
    and "withdraw R e tid uid acc amt w = (Inr t, w')"
  shows "(\<exists>b. balance_of (w_db w) acc = Some b \<and> amt \<le> b \<and> b \<le> 600000
        \<and> balance_of (w_db w') acc = Some (b - amt))
    \<and> (\<exists>account \<in> set (accounts (w_db w)). am_ID account = acc \<and> am_UserID account = uid)
    \<and> (\<forall>a. a \<noteq> acc \<longrightarrow> balance_of (w_db w') a = balance_of (w_db w) a)
    \<and> status_of (w_db w') tid = Some TransactionStatusCompleted"
  by (rule withdraw_effect [OF assms])

theorem withdraw_exact_witness:
  "\<exists>t w'. withdraw redis_ref (healthy 5) ''t1'' ''u1'' ''a1'' 300 sample = (Inr t, w') \<and> balance_of (w_db w') ''a1'' = Some 700"
proof -
  have "\<not> isl (fst (withdraw redis_ref (healthy 5) ''t1'' ''u1'' ''a1'' 300 sample))"
    by code_simp
  then obtain t w' where r: "withdraw redis_ref (healthy 5) ''t1'' ''u1'' ''a1'' 300 sample = (Inr t, w')"
    by (rule run_Inr)
  show ?thesis
    using withdraw_exact [OF _ _ _ _ r] r
    by (simp add: sample_awaits sample_balances fits_signed_def)
qed

section \<open>Failure moves nothing\<close>

lemma deposit_failed:
  assumes "schema_ok (w_db w)" and "fits_signed 64 amt" and "\<not> commit_lost DepositFundsC e"
    and "deposit R e tid uid acc cur amt w = (Inl err, w')"
  shows "accounts (w_db w') = accounts (w_db w)"
  using assms(4) dep.pend_record_failed [OF assms(1-3)]
  by (auto simp: deposit_pend split: if_splits)

lemma transfer_failed:
  assumes "schema_ok (w_db w)" and "fits_signed 64 amt" and "\<not> commit_lost TransferFundsC e"
    and "transfer R e tid uid fr to cur amt w = (Inl err, w')"
  shows "accounts (w_db w') = accounts (w_db w)"
  using assms(4) trf.pend_record_failed [OF assms(1-3)]
  by (auto simp: transfer_pend split: if_splits)

lemma withdraw_tail_failed:
  assumes "schema_ok (w_db w)" and "\<not> commit_lost WithdrawFundsC e"
    and "withdraw_tail R e tid uid account acc amt w = (Inl err, w')"
  shows "accounts (w_db w') = accounts (w_db w)"
proof (cases "am_Balance account > 600000")
  case True
  with assms(3) have "w' = snd (UpdateTransactionStatus R e tid uid acc TransactionStatusFailed w)"
    by (auto simp: withdraw_tail_def split_beta)
  then show ?thesis by (simp add: status_failed_accounts)
next
  case False
  with assms(3) have "settle_and_record R e tid uid acc
      ''Failed to withdraw funds from account: %s, error:%w'' (WithdrawFunds e tid acc amt) w = (Inl err, w')"
    by (simp add: withdraw_tail_def)
  from wdr.record_Inl [OF assms(1,2) this] show ?thesis by auto
qed

lemma withdraw_failed:
  assumes "schema_ok (w_db w)" and "fits_signed 64 amt" and "\<not> commit_lost WithdrawFundsC e"
    and "withdraw R e tid uid acc amt w = (Inl err, w')"
  shows "accounts (w_db w') = accounts (w_db w)"
proof (cases "fst (checkUserAccountCompatibility e uid acc (w_db w))")
  case None
  with assms(4) show ?thesis by (auto simp: withdraw_pend split: if_splits)
next
  case (Some account)
  let ?k = "withdraw_tail R e tid uid account acc amt"
  have tail: "accounts (w_db (snd (?k (w\<lparr>w_db := db1\<rparr>)))) = accounts db1"
    if ins: "insert_pending e tid ''withdrawal'' acc acc cur amt (w_db w) = (Inr (), db1)"
      and f: "fst (?k (w\<lparr>w_db := db1\<rparr>)) = Inl err" for cur db1
    using withdraw_tail_failed [of "w\<lparr>w_db := db1\<rparr>" e R tid uid account acc amt err]
      insert_pending_schema [OF assms(1) ins assms(2)] assms(3) f
    by (simp add: prod_eq_iff)
  have "accounts (w_db w') = accounts (w_db w)"
    if "pend_then e tid ''withdrawal'' acc acc cur amt msg ?k w = (Inl err, w')" for cur msg
  proof -
    have "accounts (w_db (snd (pend_then e tid ''withdrawal'' acc acc cur amt msg ?k w))) =
        accounts (w_db w)"
      using tail by (rule pend_then_failed) (simp_all add: that)
    with that show ?thesis by simp
  qed
  then show ?thesis using assms(4) Some by (auto simp: withdraw_pend split: if_splits)
qed

section \<open>A healthy database lets every valid request through\<close>

text \<open>While the database answers, every deposit of a positive amount to an existing account
  succeeds, as long as the new balance fits the column.\<close>

lemma deposit_succeeds:
  assumes ok: "schema_ok (w_db w)" and books: "books_balanced (w_db w)"
    and aw: "awaits tid ''deposit'' acc acc amt (w_db w)"
    and amt: "0 < amt" "balance_of (w_db w) acc = Some b" "fits_signed 64 (b + amt)"
    and up: "call_up CreatePendingTransactionC e" "call_up DepositFundsC e"
  shows "\<exists>t w'. deposit R e tid uid acc cur amt w = (Inr t, w')"
proof -
  have b: "0 \<le> b" by (rule balance_of_nonneg [OF ok amt(2)])
  have known: "acc \<in> set (keys am_ID (accounts (w_db w)))"
    using amt(2) balance_of_None [of "w_db w" acc] by auto
  have "fits_signed 64 amt" using amt b by (auto simp: fits_signed_def)
  then have "\<exists>t w'. pend_then e tid ''deposit'' acc acc cur amt pmsg
      (settle_and_record R e tid uid acc msg (DepositFunds e tid acc cur amt)) w = (Inr t, w')"
    for pmsg msg
    using amt b known up
    by (intro dep.pend_record_live [OF ok books aw])
      (auto simp: transaction_type_enum_def involves_def contribution_def)
  then show ?thesis using amt(1) by (simp add: deposit_pend)
qed

text \<open>While the database answers, every transfer of a positive amount between two existing
  accounts succeeds if the sender has it and the receiver's new balance fits the column.\<close>

lemma transfer_succeeds:
  assumes ok: "schema_ok (w_db w)" and books: "books_balanced (w_db w)"
    and aw: "awaits tid ''transfer'' fr to amt (w_db w)"
    and amt: "0 < amt" "fr \<noteq> to" "balance_of (w_db w) fr = Some b" "amt \<le> b"
      "balance_of (w_db w) to = Some c" "fits_signed 64 (c + amt)"
    and up: "call_up CreatePendingTransactionC e" "call_up TransferFundsC e"
  shows "\<exists>t w'. transfer R e tid uid fr to cur amt w = (Inr t, w')"
proof -
  have b: "0 \<le> c" "fits_signed 64 b" using balance_of_nonneg [OF ok amt(5)] amt(3)
    by (auto simp: balance_of_Some [OF ok] account_row_ok_def dest: schema_okD(4) [OF ok])
  have fit: "fits_signed 64 amt" "fits_signed 64 (b - amt)"
    using amt b by (auto simp: fits_signed_def)
  have known: "fr \<in> set (keys am_ID (accounts (w_db w)))" "to \<in> set (keys am_ID (accounts (w_db w)))"
    using amt balance_of_None [of "w_db w" fr] balance_of_None [of "w_db w" to] by auto
  have "\<exists>t w'. pend_then e tid ''transfer'' fr to cur amt pmsg
      (settle_and_record R e tid uid fr msg (TransferFunds e tid fr to cur amt)) w = (Inr t, w')"
    for pmsg msg
    using amt b fit known up
    by (intro trf.pend_record_live [OF ok books aw])
      (auto simp: transaction_type_enum_def involves_def contribution_def lock_order_def split: if_splits)
  then show ?thesis using amt(1) by (simp add: transfer_pend)
qed

text \<open>While the database answers, every withdrawal the owner asks for of a positive amount
  the account has succeeds, if the balance is at most 600000.\<close>

lemma withdraw_succeeds:
  assumes ok: "schema_ok (w_db w)" and books: "books_balanced (w_db w)"
    and aw: "awaits tid ''withdrawal'' acc acc amt (w_db w)"
    and own: "account \<in> set (accounts (w_db w))" "am_ID account = acc" "am_UserID account = uid"
    and amt: "0 < amt" "amt \<le> am_Balance account" "am_Balance account \<le> 600000"
    and up: "call_up FindAccountByIdC e" "call_up CreatePendingTransactionC e" "call_up WithdrawFundsC e"
  shows "\<exists>t w'. withdraw R e tid uid acc amt w = (Inr t, w')"
proof -
  have b: "balance_of (w_db w) acc = Some (am_Balance account)"
    using own balance_of_Some [OF ok] by auto
  have known: "acc \<in> set (keys am_ID (accounts (w_db w)))" using own by (auto simp: set_keys)
  have "\<exists>t w'. pend_then e tid ''withdrawal'' acc acc cur amt pmsg
      (settle_and_record R e tid uid acc msg (WithdrawFunds e tid acc amt)) w = (Inr t, w')"
    for cur pmsg msg
    using amt b known up
    by (intro wdr.pend_record_live [OF ok books aw])
      (auto simp: transaction_type_enum_def involves_def contribution_def fits_signed_def)
  moreover have "fst (checkUserAccountCompatibility e uid acc (w_db w)) = Some account"
    using find_key_Some [OF schema_okD(1) [OF ok] own(1)] own up(1)
    by (simp add: check_account call_up_def)
  moreover have "withdraw_tail R e tid uid account acc amt = settle_and_record R e tid uid acc
      ''Failed to withdraw funds from account: %s, error:%w'' (WithdrawFunds e tid acc amt)"
    using amt(3) by (simp add: withdraw_tail_def fun_eq_iff)
  ultimately show ?thesis using amt by (simp add: withdraw_pend)
qed

end
