(* ===== verification/History.thy ===== *)
theory History
  imports MovementProps
begin

text \<open>
  Histories of requests: any number of deposits, withdrawals and transfers, one after another
  as the consumer handles them, each under its own faults. The invariants of the ledger hold
  along every history, and the money in all accounts is what was there, plus what the
  successful deposits brought, minus what the successful withdrawals took.
\<close>

section \<open>Requests\<close>

datatype request =
    DepositReq string string string string int \<comment> \<open>transaction, user, account, currency, amount\<close>
  | WithdrawReq string string string int
  | TransferReq string string string string string int

primrec run_request :: "'r redis_client \<Rightarrow> db_env \<Rightarrow> request \<Rightarrow> ('r world, Transaction) operation" where
  "run_request R e (DepositReq tid uid acc cur amt) = deposit R e tid uid acc cur amt"
| "run_request R e (WithdrawReq tid uid acc amt) = withdraw R e tid uid acc amt"
| "run_request R e (TransferReq tid uid fr to cur amt) = transfer R e tid uid fr to cur amt"

primrec req_id :: "request \<Rightarrow> string" where
  "req_id (DepositReq tid uid acc cur amt) = tid"
| "req_id (WithdrawReq tid uid acc amt) = tid"
| "req_id (TransferReq tid uid fr to cur amt) = tid"

primrec req_amount :: "request \<Rightarrow> int" where
  "req_amount (DepositReq tid uid acc cur amt) = amt"
| "req_amount (WithdrawReq tid uid acc amt) = amt"
| "req_amount (TransferReq tid uid fr to cur amt) = amt"

primrec req_awaits :: "request \<Rightarrow> database \<Rightarrow> bool" where
  "req_awaits (DepositReq tid uid acc cur amt) db = awaits tid ''deposit'' acc acc amt db"
| "req_awaits (WithdrawReq tid uid acc amt) db = awaits tid ''withdrawal'' acc acc amt db"
| "req_awaits (TransferReq tid uid fr to cur amt) db = awaits tid ''transfer'' fr to amt db"

primrec req_lost :: "request \<Rightarrow> db_env \<Rightarrow> bool" where
  "req_lost (DepositReq tid uid acc cur amt) e = commit_lost DepositFundsC e"
| "req_lost (WithdrawReq tid uid acc amt) e = commit_lost WithdrawFundsC e"
| "req_lost (TransferReq tid uid fr to cur amt) e = commit_lost TransferFundsC e"

text \<open>What a request brings into the accounts when it succeeds.\<close>

primrec req_net :: "request \<Rightarrow> int" where
  "req_net (DepositReq tid uid acc cur amt) = amt"
| "req_net (WithdrawReq tid uid acc amt) = - amt"
| "req_net (TransferReq tid uid fr to cur amt) = 0"

definition total_balance :: "database \<Rightarrow> int" where
  "total_balance db = sum_list (map am_Balance (accounts db))"

fun run_history :: "'r redis_client \<Rightarrow> (db_env \<times> request) list \<Rightarrow> 'r world \<Rightarrow> int \<times> 'r world" where
  "run_history R [] w = (0, w)"
| "run_history R ((e, rq) # h) w =
     (let (res, w1) = run_request R e rq w; (n, w2) = run_history R h w1
      in (n + (if isl res then 0 else req_net rq), w2))"

section \<open>One request\<close>

lemma request_schema:
  assumes "schema_ok (w_db w)" and "fits_signed 64 (req_amount rq)"
  shows "schema_ok (w_db (snd (run_request R e rq w)))"
  using assms by (cases rq) (auto intro: deposit_schema withdraw_schema transfer_schema)

lemma request_books:
  assumes "schema_ok (w_db w)" and "books_balanced (w_db w)" and "fits_signed 64 (req_amount rq)"
    and "req_awaits rq (w_db w)" and "\<not> req_lost rq e"
  shows "books_balanced (w_db (snd (run_request R e rq w)))"
  using assms by (cases rq) (auto intro: deposit_books withdraw_books transfer_books)

text \<open>The accounts and the identifiers of the rows a request can touch.\<close>

definition extends_by :: "string \<Rightarrow> database \<Rightarrow> database \<Rightarrow> bool" where
  "extends_by tid db db' \<longleftrightarrow> keys am_ID (accounts db') = keys am_ID (accounts db)
     \<and> keys am_UserID (accounts db') = keys am_UserID (accounts db)
     \<and> set (keys tm_ID (transactions db')) \<subseteq> insert tid (set (keys tm_ID (transactions db)))"

lemma extends_by_refl [simp]: "extends_by tid db db"
  by (auto simp: extends_by_def)

lemma extends_by_trans: "extends_by tid a b \<Longrightarrow> extends_by tid b c \<Longrightarrow> extends_by tid a c"
  by (auto simp: extends_by_def)

lemma insert_pending_extends:
  "sql_insert_pending tid ty fr to cur amt now db = (Inr u, db') \<Longrightarrow> extends_by tid db db'"
  by (auto simp: sql_insert_pending_Inr extends_by_def new_transaction_def split: if_splits)

lemma settle_spec_extends: "settle_spec t ids now db = Some db' \<Longrightarrow> extends_by tid db db'"
  by (auto simp: settle_spec_def Let_def extends_by_def split: if_splits)

lemma status_update_extends:
  assumes "transaction_status_enum s"
  shows "extends_by tid (w_db w) (w_db (snd (UpdateTransactionStatus R e x uid acc s w)))"
  using status_update_db [OF assms, of R e x uid acc w]
  by (auto simp: extends_by_def status_set_def keys_update_where)

context settlement
begin

lemma record_extends:
  assumes "schema_ok (w_db w)"
  shows "extends_by x (w_db w) (w_db (snd (settle_and_record R e x uid acc msg (move e) w)))"
proof -
  let ?w1 = "w\<lparr>w_db := snd (move e (w_db w))\<rparr>"
  have m: "extends_by x (w_db w) (w_db ?w1)"
    using move_state [OF assms, of e] settle_spec_extends by auto
  have "extends_by x (w_db w) (w_db (snd (UpdateTransactionStatus R e x uid acc s ?w1)))"
    if "transaction_status_enum s" for s
    using m status_update_extends [OF that, of x ?w1] extends_by_trans by blast
  then show ?thesis by (simp add: settle_and_record_eq Let_def split: sum.splits)
qed

lemma pend_record_extends:
  assumes "schema_ok (w_db w)" and "fits_signed 64 amt"
  shows "extends_by tid (w_db w) (w_db (snd (pend_then e tid ty fr to cur amt pmsg
    (settle_and_record R e tid uid acc msg (move e)) w)))"
proof (rule pend_then_inv [where P = "extends_by tid (w_db w)"])
  fix db1
  assume ins: "insert_pending e tid ty fr to cur amt (w_db w) = (Inr (), db1)"
  show x: "extends_by tid (w_db w) db1" by (rule insert_pending_extends [OF ins])
  show "extends_by tid (w_db w)
      (w_db (snd (settle_and_record R e tid uid acc msg (move e) (w\<lparr>w_db := db1\<rparr>))))"
    using record_extends [of "w\<lparr>w_db := db1\<rparr>" tid R e uid acc msg]
      insert_pending_schema [OF assms(1) ins assms(2)] x extends_by_trans by fastforce
qed simp

end

lemma withdraw_tail_extends:
  assumes "schema_ok (w_db w)"
  shows "extends_by tid (w_db w) (w_db (snd (withdraw_tail R e tid uid account acc amt w)))"
  using wdr.record_extends [OF assms] status_update_extends [of TransactionStatusFailed tid w]
  by (simp add: withdraw_tail_def split_beta)

lemma withdraw_extends:
  assumes "schema_ok (w_db w)" and "fits_signed 64 amt"
  shows "extends_by tid (w_db w) (w_db (snd (withdraw R e tid uid acc amt w)))"
proof (rule withdraw_inv [where P = "extends_by tid (w_db w)"])
  fix cur db1 account
  assume ins: "insert_pending e tid ''withdrawal'' acc acc cur amt (w_db w) = (Inr (), db1)"
  show x: "extends_by tid (w_db w) db1" by (rule insert_pending_extends [OF ins])
  show "extends_by tid (w_db w) (w_db (snd (withdraw_tail R e tid uid account acc amt (w\<lparr>w_db := db1\<rparr>))))"
    using withdraw_tail_extends [of "w\<lparr>w_db := db1\<rparr>" tid R e uid account acc amt]
      insert_pending_schema [OF assms(1) ins assms(2)] x extends_by_trans by fastforce
qed simp

lemma request_extends:
  assumes "schema_ok (w_db w)" and "fits_signed 64 (req_amount rq)"
  shows "extends_by (req_id rq) (w_db w) (w_db (snd (run_request R e rq w)))"
  using assms dep.pend_record_extends [OF assms] trf.pend_record_extends [OF assms] withdraw_extends
  by (cases rq) (auto simp: deposit_pend transfer_pend)

lemma request_failed:
  assumes "schema_ok (w_db w)" and "fits_signed 64 (req_amount rq)" and "\<not> req_lost rq e"
    and "run_request R e rq w = (Inl err, w')"
  shows "accounts (w_db w') = accounts (w_db w)"
  using assms by (cases rq) (auto intro: deposit_failed withdraw_failed transfer_failed)

section \<open>The money in all accounts\<close>

lemma total_balance_sum:
  assumes "schema_ok db"
  shows "total_balance db = (\<Sum>a \<in> set (keys am_ID (accounts db)). the (balance_of db a))"
proof -
  have "map am_Balance (accounts db) = map (\<lambda>a. the (balance_of db a)) (keys am_ID (accounts db))"
    using balance_of_Some [OF assms] by (force simp: keys_def intro!: map_cong)
  then show ?thesis
    using schema_okD(1) [OF assms] by (simp add: total_balance_def sum_list_distinct_conv_sum_set)
qed

lemma sum_change_one:
  assumes "finite K" and "x \<in> K" and "g x = f x + d" and "\<And>a. a \<in> K \<Longrightarrow> a \<noteq> x \<Longrightarrow> g a = f a"
  shows "sum g K = sum f K + (d :: int)"
proof -
  have "sum g (K - {x}) = sum f (K - {x})" using assms(4) by (intro sum.cong) auto
  then show ?thesis using assms(1-3) by (simp add: sum.remove [OF assms(1,2)])
qed

lemma total_change_one:
  assumes "schema_ok db" and "schema_ok db'" and "keys am_ID (accounts db') = keys am_ID (accounts db)"
    and "balance_of db x = Some b" and "balance_of db' x = Some (b + d)"
    and "\<forall>a. a \<noteq> x \<longrightarrow> balance_of db' a = balance_of db a"
  shows "total_balance db' = total_balance db + d"
proof -
  have "x \<in> set (keys am_ID (accounts db))" using assms(4) balance_of_None [of db x] by auto
  then show ?thesis
    unfolding total_balance_sum [OF assms(1)] total_balance_sum [OF assms(2)] assms(3)
    using assms(4-6) by (intro sum_change_one) auto
qed

lemma total_change_two:
  assumes "schema_ok db" and "schema_ok db'" and "keys am_ID (accounts db') = keys am_ID (accounts db)"
    and "balance_of db x = Some b" and "balance_of db' x = Some (b - d)" and "x \<noteq> y"
    and "balance_of db y = Some c" and "balance_of db' y = Some (c + d)"
    and "\<forall>a. a \<noteq> x \<and> a \<noteq> y \<longrightarrow> balance_of db' a = balance_of db a"
  shows "total_balance db' = total_balance db"
proof -
  let ?K = "set (keys am_ID (accounts db))"
  let ?f = "\<lambda>a. the (balance_of db a)" and ?g = "\<lambda>a. the (balance_of db' a)"
  have K: "x \<in> ?K" "y \<in> ?K" using assms(4,7) balance_of_None [of db] by force+
  have "sum ?g ?K = sum (?f(x := b - d)) ?K + d"
    using K assms by (intro sum_change_one [of _ y]) auto
  moreover have "sum (?f(x := b - d)) ?K = sum ?f ?K + (- d)"
    using K assms by (intro sum_change_one [of _ x]) auto
  ultimately show ?thesis
    by (simp add: total_balance_sum [OF assms(1)] total_balance_sum [OF assms(2)] assms(3))
qed

lemma request_total:
  assumes ok: "schema_ok (w_db w)" and books: "books_balanced (w_db w)"
    and amt: "fits_signed 64 (req_amount rq)" and aw: "req_awaits rq (w_db w)" and nl: "\<not> req_lost rq e"
    and run: "run_request R e rq w = (res, w')"
  shows "total_balance (w_db w') = total_balance (w_db w) + (if isl res then 0 else req_net rq)"
proof (cases res)
  case (Inl err)
  then show ?thesis using request_failed [OF ok amt nl] run by (simp add: total_balance_def)
next
  case (Inr t)
  have ok': "schema_ok (w_db w')" and k: "keys am_ID (accounts (w_db w')) = keys am_ID (accounts (w_db w))"
    using request_schema [OF ok amt, of R e] request_extends [OF ok amt, of R e] run
    by (auto simp: extends_by_def)
  note one = total_change_one [OF ok ok' k] and two = total_change_two [OF ok ok' k]
  show ?thesis
  proof (cases rq)
    case (DepositReq tid uid acc cur amt)
    with deposit_effect [OF ok books, of tid acc amt R e uid cur t w'] assms Inr show ?thesis
      by (auto intro: one)
  next
    case (WithdrawReq tid uid acc amt)
    with withdraw_effect [OF ok books, of tid acc amt R e uid t w'] assms Inr show ?thesis
      by (auto intro: one [where d = "- amt", simplified])
  next
    case (TransferReq tid uid fr to cur amt)
    with transfer_effect [OF ok books, of tid fr to amt R e uid cur t w'] assms Inr show ?thesis
      by (auto intro: two)
  qed
qed

section \<open>Histories\<close>

definition history_ok :: "(db_env \<times> request) list \<Rightarrow> database \<Rightarrow> bool" where
  "history_ok h db \<longleftrightarrow>
     distinct (map (req_id \<circ> snd) h) \<and>
     (\<forall>(e, rq) \<in> set h. req_id rq \<notin> set (keys tm_ID (transactions db)) \<and>
        fits_signed 64 (req_amount rq) \<and> \<not> req_lost rq e)"

lemma fresh_awaits: "req_id rq \<notin> set (keys tm_ID (transactions db)) \<Longrightarrow> req_awaits rq db"
  by (cases rq) (auto simp: awaits_def keys_def)

lemma history_ok_step:
  assumes "history_ok ((e, rq) # h) db" and "extends_by (req_id rq) db db'"
  shows "history_ok h db'"
  using assms by (force simp: history_ok_def extends_by_def)

lemma history_step:
  assumes "schema_ok (w_db w)" and "books_balanced (w_db w)" and "history_ok ((e, rq) # h) (w_db w)"
    and "run_request R e rq w = (res, w1)"
  shows "schema_ok (w_db w1) \<and> books_balanced (w_db w1) \<and> history_ok h (w_db w1)"
proof -
  have "fits_signed 64 (req_amount rq)" "\<not> req_lost rq e" "req_awaits rq (w_db w)"
    using assms(3) by (auto simp: history_ok_def intro: fresh_awaits)
  then show ?thesis
    using request_schema [OF assms(1), of rq R e] request_books [OF assms(1,2), of rq e R]
      history_ok_step [OF assms(3) request_extends [OF assms(1), of rq R e]] assms(4) by simp
qed

lemma history_invariant:
  assumes "schema_ok (w_db w)" and "books_balanced (w_db w)" and "history_ok h (w_db w)"
    and "run_history R h w = (n, w')"
  shows "schema_ok (w_db w') \<and> books_balanced (w_db w')
    \<and> total_balance (w_db w') = total_balance (w_db w) + n"
  using assms
proof (induction h arbitrary: w n)
  case Nil
  then show ?case by simp
next
  case (Cons x h)
  obtain e rq where x: "x = (e, rq)" by (cases x)
  obtain res w1 where r: "run_request R e rq w = (res, w1)" by (cases "run_request R e rq w")
  obtain n2 w2 where h: "run_history R h w1 = (n2, w2)" by (cases "run_history R h w1")
  have pre: "fits_signed 64 (req_amount rq)" "\<not> req_lost rq e" "req_awaits rq (w_db w)"
    using Cons.prems(3) by (auto simp: x history_ok_def intro: fresh_awaits)
  have 1: "schema_ok (w_db w1)" "books_balanced (w_db w1)" "history_ok h (w_db w1)"
    using history_step [OF Cons.prems(1,2) Cons.prems(3) [unfolded x] r] by auto
  have "total_balance (w_db w1) = total_balance (w_db w) + (if isl res then 0 else req_net rq)"
    by (rule request_total [OF Cons.prems(1,2) pre(1,3,2) r])
  moreover have h': "run_history R h w1 = (n2, w')" using h Cons.prems(4) by (simp add: x r)
  ultimately show ?case
    using Cons.IH [OF 1 h'] Cons.prems(4) by (auto simp: x r h split: if_splits)
qed

text \<open>C1. Take any history of deposits, withdrawals and transfers with identifiers of their
  own, run one after another, each under faults of its own at every statement and every cache
  command, short of a settlement whose commit is not acknowledged. Afterwards the constraints
  of the schema hold, so no balance is negative; every balance is the sum of the completed
  entries of its account; and the money in all accounts is what it was before, plus the
  deposits that reported success, minus the withdrawals that reported success.\<close>

theorem money_is_conserved:
  assumes "schema_ok (w_db w)" and "books_balanced (w_db w)" and "history_ok h (w_db w)"
    and "run_history R h w = (n, w')"
  shows "schema_ok (w_db w') \<and> books_balanced (w_db w')
    \<and> total_balance (w_db w') = total_balance (w_db w) + n"
  by (rule history_invariant [OF assms])

theorem money_is_conserved_witness:
  "\<exists>w'. run_history redis_ref
       [(healthy 1, DepositReq ''t1'' ''u1'' ''a1'' ''USD'' 500),
        (down TransferFundsC 2, TransferReq ''t2'' ''u1'' ''a1'' ''a2'' ''USD'' 300),
        (healthy 3, TransferReq ''t3'' ''u1'' ''a1'' ''a2'' ''USD'' 300),
        (healthy 4, WithdrawReq ''t4'' ''u2'' ''a2'' 100)] sample = (400, w')
     \<and> total_balance (w_db w') = 1400"
proof -
  let ?h = "[(healthy 1, DepositReq ''t1'' ''u1'' ''a1'' ''USD'' 500),
        (down TransferFundsC 2, TransferReq ''t2'' ''u1'' ''a1'' ''a2'' ''USD'' 300),
        (healthy 3, TransferReq ''t3'' ''u1'' ''a1'' ''a2'' ''USD'' 300),
        (healthy 4, WithdrawReq ''t4'' ''u2'' ''a2'' 100)]"
  have "fst (run_history redis_ref ?h sample) = 400" by code_simp
  then obtain w' where r: "run_history redis_ref ?h sample = (400, w')" by (metis prod.collapse)
  have "history_ok ?h (w_db sample)"
    by (simp add: history_ok_def fixture_defs fits_signed_def commit_lost_def healthy_def)
  moreover have "total_balance (w_db sample) = 1000" by (simp add: total_balance_def fixture_defs)
  ultimately show ?thesis using money_is_conserved [OF _ _ _ r] r by simp
qed

text \<open>A request that reports an error, for whatever reason, left every account as it was:
  there is no partial booking.\<close>

theorem failed_request_moves_nothing:
  assumes "schema_ok (w_db w)" and "fits_signed 64 (req_amount rq)" and "\<not> req_lost rq e"
    and "run_request R e rq w = (Inl err, w')"
  shows "accounts (w_db w') = accounts (w_db w)"
  by (rule request_failed [OF assms])

theorem failed_request_moves_nothing_witness:
  "\<exists>err w'. run_request redis_ref (down TransferFundsC 2)
       (TransferReq ''t2'' ''u1'' ''a1'' ''a2'' ''USD'' 300) sample = (Inl err, w')
     \<and> accounts (w_db w') = accounts sample_db"
proof -
  let ?r = "run_request redis_ref (down TransferFundsC 2) (TransferReq ''t2'' ''u1'' ''a1'' ''a2'' ''USD'' 300)"
  have "isl (fst (?r sample))" by code_simp
  then obtain err w' where r: "?r sample = (Inl err, w')" by (rule run_Inl)
  from failed_request_moves_nothing [OF _ _ _ r] r show ?thesis
    by (simp add: fits_signed_def commit_lost_def)
qed

text \<open>One request, whatever its identifier and whatever fails, leaves a database that
  satisfies every constraint of the schema.\<close>

theorem request_keeps_schema:
  assumes "schema_ok (w_db w)" and "fits_signed 64 (req_amount rq)"
  shows "schema_ok (w_db (snd (run_request R e rq w)))"
  by (rule request_schema [OF assms])

theorem request_keeps_schema_witness:
  "schema_ok (w_db (snd (run_request redis_ref (down UpdateTransactionStatusC 5)
     (WithdrawReq ''t0'' ''u1'' ''a1'' 300) sample)))"
  by (rule request_keeps_schema) (simp_all add: fits_signed_def)

end
