(* ===== verification/Bank.thy ===== *)
theory Bank
  imports History
begin

text \<open>
  The abstract specification of the wallet: a bank that keeps the owner and the balance of every
  account and nothing else, no ledger, no statuses, no outbox. The three movements of the
  service refine it: while the database answers, a request succeeds exactly when the bank allows
  it and changes the accounts exactly as the bank does; under faults the requests that report
  success are a run of the bank that ends with the balances in the database.
\<close>

section \<open>The bank\<close>

type_synonym bank = "string \<rightharpoonup> string \<times> int" \<comment> \<open>account to owner and balance\<close>

fun bank_do :: "request \<Rightarrow> bank \<Rightarrow> bank option" where
  "bank_do (DepositReq tid uid acc cur amt) b =
     (case b acc of
        Some (own, x) \<Rightarrow> if 0 < amt \<and> fits_signed 64 (x + amt) then Some (b(acc \<mapsto> (own, x + amt))) else None
      | None \<Rightarrow> None)"
| "bank_do (WithdrawReq tid uid acc amt) b =
     (case b acc of
        Some (own, x) \<Rightarrow>
          if 0 < amt \<and> own = uid \<and> amt \<le> x \<and> x \<le> 600000 then Some (b(acc \<mapsto> (own, x - amt))) else None
      | None \<Rightarrow> None)"
| "bank_do (TransferReq tid uid fr to cur amt) b =
     (case (b fr, b to) of
        (Some (own, x), Some (own', y)) \<Rightarrow>
          if 0 < amt \<and> fr \<noteq> to \<and> amt \<le> x \<and> fits_signed 64 (y + amt)
          then Some (b(fr \<mapsto> (own, x - amt), to \<mapsto> (own', y + amt))) else None
      | _ \<Rightarrow> None)"

fun bank_run :: "request list \<Rightarrow> bank \<Rightarrow> bank option" where
  "bank_run [] b = Some b"
| "bank_run (rq # rqs) b = (case bank_do rq b of None \<Rightarrow> None | Some b' \<Rightarrow> bank_run rqs b')"

text \<open>The bank a database stands for.\<close>

definition owner_of :: "database \<Rightarrow> string \<Rightarrow> string option" where
  "owner_of db a = map_option am_UserID (List.find (\<lambda>r. am_ID r = a) (accounts db))"

definition bank_of :: "database \<Rightarrow> bank" where
  "bank_of db a =
     map_option (\<lambda>r. (am_UserID r, am_Balance r)) (List.find (\<lambda>r. am_ID r = a) (accounts db))"

lemma bank_of_alt:
  "bank_of db a = (case owner_of db a of None \<Rightarrow> None | Some u \<Rightarrow> map_option (Pair u) (balance_of db a))"
  by (auto simp: bank_of_def owner_of_def balance_of_def split: option.splits)

lemma owner_of_None: "owner_of db a = None \<longleftrightarrow> balance_of db a = None"
  by (simp add: owner_of_def balance_of_def)

lemma owner_of_Some: "balance_of db a = Some b \<Longrightarrow> \<exists>u. owner_of db a = Some u"
  using owner_of_None [of db a] by auto

lemma find_key_cong:
  "map k xs = map k ys \<Longrightarrow> map g xs = map g ys \<Longrightarrow>
     map_option g (List.find (\<lambda>r. k r = a) xs) = map_option g (List.find (\<lambda>r. k r = a) ys)"
proof (induction xs arbitrary: ys)
  case (Cons x xs)
  then obtain y ys' where "ys = y # ys'" by (cases ys) simp_all
  with Cons show ?case by simp
qed simp

lemma owner_of_extends: "extends_by tid db db' \<Longrightarrow> owner_of db' = owner_of db"
  unfolding owner_of_def extends_by_def keys_def by (intro ext find_key_cong) auto

lemma owner_of_row:
  assumes "schema_ok db" and "r \<in> set (accounts db)"
  shows "owner_of db (am_ID r) = Some (am_UserID r)"
  using find_key_Some [OF schema_okD(1) [OF assms(1)] assms(2)] by (simp add: owner_of_def)

section \<open>One request\<close>

text \<open>Whatever fails, a request that reports success is a move of the bank.\<close>

lemma request_simulated:
  assumes ok: "schema_ok (w_db w)" and books: "books_balanced (w_db w)"
    and amt: "fits_signed 64 (req_amount rq)" and aw: "req_awaits rq (w_db w)"
    and run: "run_request R e rq w = (Inr t, w')"
  shows "bank_do rq (bank_of (w_db w)) = Some (bank_of (w_db w'))"
proof -
  have own: "owner_of (w_db w') = owner_of (w_db w)" and ok': "schema_ok (w_db w')"
    using request_extends [OF ok amt, of R e] request_schema [OF ok amt, of R e] run
    by (auto dest: owner_of_extends)
  have fit: "fits_signed 64 b" if "balance_of (w_db w') a = Some b" for a b
    using that by (auto simp: balance_of_Some [OF ok'] account_row_ok_def dest: schema_okD(4) [OF ok'])
  show ?thesis
  proof (cases rq)
    case (DepositReq tid uid acc cur x)
    then have "0 < x" using run by (auto simp: deposit_def split: if_splits)
    with deposit_effect [OF ok books, of tid acc x R e uid cur t w'] assms DepositReq show ?thesis
      by (auto simp: bank_of_alt own fun_eq_iff dest: fit owner_of_Some split: option.splits)
  next
    case (WithdrawReq tid uid acc x)
    then have "0 < x" using run by (auto simp: withdraw_def split: if_splits)
    with withdraw_effect [OF ok books, of tid acc x R e uid t w'] assms WithdrawReq show ?thesis
      by (auto simp: bank_of_alt own fun_eq_iff dest: fit owner_of_Some owner_of_row [OF ok] split: option.splits)
  next
    case (TransferReq tid uid fr to cur x)
    then have "0 < x" using run by (auto simp: transfer_def split: if_splits)
    with transfer_effect [OF ok books, of tid fr to x R e uid cur t w'] assms TransferReq show ?thesis
      by (auto simp: bank_of_alt own fun_eq_iff dest: fit owner_of_Some split: option.splits)
  qed
qed

text \<open>While the database answers, a request the bank allows succeeds.\<close>

definition database_up :: "db_env \<Rightarrow> bool" where
  "database_up e \<longleftrightarrow>
     list_all (\<lambda>c. call_up c e)
       [FindAccountByIdC, CreatePendingTransactionC, DepositFundsC, WithdrawFundsC, TransferFundsC]"

lemma database_up_not_lost: "database_up e \<Longrightarrow> \<not> req_lost rq e"
  by (cases rq) (auto simp: database_up_def call_up_def commit_lost_def)

lemma bank_of_SomeD:
  assumes "bank_of db a = Some (u, x)"
  shows "balance_of db a = Some x" and "\<exists>r \<in> set (accounts db). am_ID r = a \<and> am_UserID r = u \<and> am_Balance r = x"
  using assms by (auto simp: bank_of_def balance_of_def dest: find_SomeD)

lemma request_allowed:
  assumes ok: "schema_ok (w_db w)" and books: "books_balanced (w_db w)"
    and aw: "req_awaits rq (w_db w)" and up: "database_up e"
    and allowed: "bank_do rq (bank_of (w_db w)) = Some b"
  shows "\<exists>t w'. run_request R e rq w = (Inr t, w')"
proof (cases rq)
  case (DepositReq tid uid acc cur x)
  then show ?thesis using allowed aw up
    by (auto simp: database_up_def split: option.splits if_splits
        intro!: deposit_succeeds [OF ok books] bank_of_SomeD(1))
next
  case (WithdrawReq tid uid acc x)
  then obtain bal where bank: "bank_of (w_db w) acc = Some (uid, bal)"
    and amt: "0 < x" "x \<le> bal" "bal \<le> 600000"
    using allowed by (auto split: option.splits if_splits)
  obtain r where "r \<in> set (accounts (w_db w))" "am_ID r = acc" "am_UserID r = uid" "am_Balance r = bal"
    using bank_of_SomeD(2) [OF bank] by auto
  then show ?thesis using WithdrawReq withdraw_succeeds [OF ok books, of tid acc x r uid e R] aw up amt
    by (auto simp: database_up_def)
next
  case (TransferReq tid uid fr to cur x)
  then obtain u v bal c where bank: "bank_of (w_db w) fr = Some (u, bal)" "bank_of (w_db w) to = Some (v, c)"
    and amt: "0 < x" "fr \<noteq> to" "x \<le> bal" "fits_signed 64 (c + x)"
    using allowed by (auto split: option.splits if_splits)
  then show ?thesis
    using TransferReq transfer_succeeds [OF ok books, of tid fr to x bal c e R] aw up bank_of_SomeD(1)
    by (auto simp: database_up_def)
qed

lemma request_refused:
  assumes "schema_ok (w_db w)" and "fits_signed 64 (req_amount rq)" and "\<not> req_lost rq e"
    and "run_request R e rq w = (Inl err, w')"
  shows "bank_of (w_db w') = bank_of (w_db w)"
  using request_failed [OF assms] by (simp add: bank_of_def fun_eq_iff)

text \<open>C8. Functional refinement of one request, while the database answers: the request reports
  success exactly when the bank allows it (a positive amount, an existing account, for a
  withdrawal the owner, the balance and the limit of 600000, for a transfer two different
  accounts and the sender's balance, and a new balance within 64 bits), and the owners and balances
  afterwards are those of the bank after the move, or unchanged.\<close>

theorem request_refines_bank:
  assumes "schema_ok (w_db w)" and "books_balanced (w_db w)" and "fits_signed 64 (req_amount rq)"
    and "req_awaits rq (w_db w)" and "database_up e" and "run_request R e rq w = (res, w')"
  shows "bank_do rq (bank_of (w_db w)) = (if isl res then None else Some (bank_of (w_db w')))
    \<and> (isl res \<longrightarrow> bank_of (w_db w') = bank_of (w_db w))"
proof (cases res)
  case (Inl err)
  then have "bank_do rq (bank_of (w_db w)) = None"
    using request_allowed [OF assms(1,2,4,5), of _ R] assms(6) by (cases "bank_do rq (bank_of (w_db w))") auto
  with Inl request_refused [OF assms(1,3) database_up_not_lost [OF assms(5)]] assms(6) show ?thesis by simp
next
  case (Inr t)
  with request_simulated [OF assms(1-4)] assms(6) show ?thesis by simp
qed

theorem request_refines_bank_witness:
  "\<exists>t w'. run_request redis_ref (healthy 5) (TransferReq ''t1'' ''u1'' ''a1'' ''a2'' ''USD'' 300) sample
       = (Inr t, w')
     \<and> bank_of (w_db w') = (bank_of (w_db sample))(''a1'' \<mapsto> (''u1'', 700), ''a2'' \<mapsto> (''u2'', 300))
     \<and> isl (fst (run_request redis_ref (healthy 5) (WithdrawReq ''t1'' ''u2'' ''a1'' 300) sample))"
proof -
  let ?t = "TransferReq ''t1'' ''u1'' ''a1'' ''a2'' ''USD'' 300" and ?x = "WithdrawReq ''t1'' ''u2'' ''a1'' 300"
  have up: "database_up (healthy 5)" by (simp add: database_up_def call_up_def)
  have b: "bank_of (w_db sample) ''a1'' = Some (''u1'', 1000)" "bank_of (w_db sample) ''a2'' = Some (''u2'', 0)"
    by (simp_all add: bank_of_def fixture_defs)
  have go: "bank_do rq (bank_of (w_db sample)) = (if isl (fst (run_request redis_ref (healthy 5) rq sample))
      then None else Some (bank_of (w_db (snd (run_request redis_ref (healthy 5) rq sample)))))"
    if "rq = ?t \<or> rq = ?x" for rq
    using request_refines_bank [OF _ _ _ _ up prod.collapse [symmetric], of sample rq redis_ref] that
    by (auto simp: sample_awaits fits_signed_def simp del: bank_do.simps run_request.simps)
  have "\<not> isl (fst (run_request redis_ref (healthy 5) ?t sample))"
    using go [of ?t] b by (auto simp: fits_signed_def split: if_splits)
  then obtain t w' where r: "run_request redis_ref (healthy 5) ?t sample = (Inr t, w')" by (rule run_Inr)
  with go [of ?t] go [of ?x] b show ?thesis by (auto simp: fits_signed_def split: if_splits)
qed

section \<open>Histories\<close>

text \<open>The requests of a history that report success, in order.\<close>

fun succeeded :: "'r redis_client \<Rightarrow> (db_env \<times> request) list \<Rightarrow> 'r world \<Rightarrow> request list" where
  "succeeded R [] w = []"
| "succeeded R ((e, rq) # h) w =
     (let (res, w1) = run_request R e rq w
      in if isl res then succeeded R h w1 else rq # succeeded R h w1)"

lemma history_simulated:
  assumes "schema_ok (w_db w)" and "books_balanced (w_db w)" and "history_ok h (w_db w)"
  shows "bank_run (succeeded R h w) (bank_of (w_db w)) = Some (bank_of (w_db (snd (run_history R h w))))"
  using assms
proof (induction h arbitrary: w)
  case (Cons x h)
  obtain e rq where x: "x = (e, rq)" by (cases x)
  obtain res w1 where r: "run_request R e rq w = (res, w1)" by (cases "run_request R e rq w")
  have pre: "fits_signed 64 (req_amount rq)" "\<not> req_lost rq e" "req_awaits rq (w_db w)"
    using Cons.prems(3) by (auto simp: x history_ok_def intro: fresh_awaits)
  have "schema_ok (w_db w1)" "books_balanced (w_db w1)" "history_ok h (w_db w1)"
    using history_step [OF Cons.prems(1,2) Cons.prems(3) [unfolded x] r] by auto
  note IH = Cons.IH [OF this]
  show ?case
  proof (cases res)
    case (Inl err)
    with IH request_refused [OF Cons.prems(1) pre(1,2)] r show ?thesis by (simp add: x split_beta)
  next
    case (Inr t)
    with IH request_simulated [OF Cons.prems(1,2) pre(1,3)] r show ?thesis by (simp add: x split_beta)
  qed
qed simp

text \<open>C2. Refinement along every history of requests, under any faults short of a settlement
  whose commit is not acknowledged: the requests that reported success, taken in order, are a run
  of the bank, each allowed when its turn comes, and it ends with exactly the owners and balances
  the database holds.\<close>

theorem history_refines_bank:
  assumes "schema_ok (w_db w)" and "books_balanced (w_db w)" and "history_ok h (w_db w)"
  shows "bank_run (succeeded R h w) (bank_of (w_db w)) = Some (bank_of (w_db (snd (run_history R h w))))"
  by (rule history_simulated [OF assms])

theorem history_refines_bank_witness:
  "bank_of (w_db (snd (run_history redis_ref
       [(down DepositFundsC 1, DepositReq ''t1'' ''u1'' ''a1'' ''USD'' 500),
        (healthy 2, TransferReq ''t2'' ''u1'' ''a1'' ''a2'' ''USD'' 300)] sample))) ''a2''
     = Some (''u2'', 300)"
proof -
  let ?h = "[(down DepositFundsC 1, DepositReq ''t1'' ''u1'' ''a1'' ''USD'' 500),
        (healthy 2, TransferReq ''t2'' ''u1'' ''a1'' ''a2'' ''USD'' 300)]"
  have "history_ok ?h (w_db sample)"
    by (simp add: history_ok_def fixture_defs fits_signed_def commit_lost_def healthy_def down_def)
  moreover have "succeeded redis_ref ?h sample = [TransferReq ''t2'' ''u1'' ''a1'' ''a2'' ''USD'' 300]"
    by code_simp
  moreover have "bank_of (w_db sample) ''a1'' = Some (''u1'', 1000)" "bank_of (w_db sample) ''a2'' = Some (''u2'', 0)"
    by (simp_all add: bank_of_def fixture_defs)
  ultimately show ?thesis
    using history_refines_bank [of sample ?h redis_ref] by (auto simp: fits_signed_def dest!: fun_cong [where x = "''a2''"])
qed

end
