(* ===== verification/OutboxProps.thy ===== *)
theory OutboxProps
  imports Relay Fixtures
begin

text \<open>
  Properties of the outbox: what a poll claims, that two polls do not claim the same row,
  the retry schedule of a row that cannot be published, the lock that admits one request per
  user and account, and that a row is marked published only when its message is in Kafka.
\<close>

section \<open>The batch\<close>

lemma select_batch_set:
  "r \<in> set (select_batch locked now n rows) \<Longrightarrow> r \<in> set rows \<and> due now r \<and> \<not> locked (om_ID r)"
  by (auto simp: select_batch_def dest!: in_set_takeD)

lemma select_batch_length: "length (select_batch locked now n rows) \<le> n"
  by (simp add: select_batch_def)

lemma select_batch_distinct:
  assumes "distinct (keys k rows)"
  shows "distinct (map k (select_batch locked now n rows))"
proof -
  let ?xs = "sort_key om_CreatedAt (filter (\<lambda>r. due now r \<and> \<not> locked (om_ID r)) rows)"
  have "distinct rows" "inj_on k (set rows)"
    using assms by (auto simp: keys_def distinct_map)
  then have "distinct ?xs" "inj_on k (set ?xs)"
    by (auto intro: inj_on_subset)
  then have "distinct (map k ?xs)" by (simp add: distinct_map)
  then show ?thesis by (simp add: select_batch_def take_map [symmetric] del: set_sort)
qed

lemma select_batch_order:
  assumes "r \<in> set (select_batch locked now n rows)"
    and "r' \<in> set rows" "due now r'" "\<not> locked (om_ID r')"
      "r' \<notin> set (select_batch locked now n rows)"
  shows "om_CreatedAt r \<le> om_CreatedAt r'"
proof -
  let ?xs = "sort_key om_CreatedAt (filter (\<lambda>r. due now r \<and> \<not> locked (om_ID r)) rows)"
  have "r' \<in> set (take n ?xs) \<union> set (drop n ?xs)"
    using assms(2-4) by (subst set_append [symmetric]) simp
  then have "r' \<in> set (drop n ?xs)" using assms(5) by (simp add: select_batch_def)
  moreover have "sorted (map om_CreatedAt (take n ?xs @ drop n ?xs))" by simp
  ultimately show ?thesis
    using assms(1) unfolding map_append sorted_append select_batch_def by auto
qed

abbreviation batch_now :: "db_env \<Rightarrow> time" where
  "batch_now e \<equiv> env_now e OutboxPendingGetBatchC"

lemma batch_body_Inr:
  "batch_body f locked now limit db = (Inr ms, db') \<longleftrightarrow>
     f (Stmt 0) = IoOk \<and> f (Stmt 1) = IoOk \<and> 0 \<le> limit \<and>
     (let rows = reclaim_stale now (transaction_outbox db);
          claimed = select_batch locked now (nat limit) rows
      in ms = map batch_model claimed \<and>
         db' = db\<lparr>transaction_outbox := claim_rows (map om_ID claimed) now rows\<rparr>)"
  by (auto simp: batch_body_def in_tx_def sql_claim_batch_def Let_def split: if_splits)

lemma batch_Inr:
  "OutboxPendingGetBatch e locked limit db = (Inr ms, db') \<longleftrightarrow>
     env_io e OutboxPendingGetBatchC Begin = IoOk \<and> env_io e OutboxPendingGetBatchC Commit = IoOk \<and>
     env_io e OutboxPendingGetBatchC (Stmt 0) = IoOk \<and>
     env_io e OutboxPendingGetBatchC (Stmt 1) = IoOk \<and> 0 \<le> limit \<and>
     (let now = batch_now e; rows = reclaim_stale now (transaction_outbox db);
          claimed = select_batch locked now (nat limit) rows
      in ms = map batch_model claimed \<and>
         db' = db\<lparr>transaction_outbox := claim_rows (map om_ID claimed) now rows\<rparr>)"
  by (auto simp: OutboxPendingGetBatch_def run_tx_Inr batch_body_Inr Let_def)

lemma reclaim_keys [simp]: "keys om_ID (reclaim_stale now rows) = keys om_ID rows"
  by (simp add: reclaim_stale_def table_simps)

text \<open>A row a poll can hand out: due, or claimed more than 30 seconds ago and due.\<close>

definition claimable :: "time \<Rightarrow> outbox_row \<Rightarrow> bool" where
  "claimable now r \<longleftrightarrow> (om_Status r = OutboxStatusPending \<or> stale_claim now r) \<and> next_attempt_at r \<le> now"

definition reclaimed :: "time \<Rightarrow> outbox_row \<Rightarrow> outbox_row" where
  "reclaimed now r =
     (if stale_claim now r then r\<lparr>om_Status := OutboxStatusPending, om_UpdatedAt := now\<rparr> else r)"

lemma reclaimed_due: "due now (reclaimed now r) \<longleftrightarrow> claimable now r"
  by (auto simp: due_def claimable_def reclaimed_def stale_claim_def)

lemma reclaimed_fields [simp]:
  "om_ID (reclaimed now r) = om_ID r" "om_AggregateId (reclaimed now r) = om_AggregateId r"
  "om_CreatedAt (reclaimed now r) = om_CreatedAt r"
  "batch_model (reclaimed now r) = batch_model r"
  by (simp_all add: reclaimed_def batch_model_def)

lemma set_reclaim: "set (reclaim_stale now rows) = reclaimed now ` set rows"
  by (auto simp: reclaim_stale_def update_where_def reclaimed_def image_def)

lemma claimed_in_batch:
  assumes "OutboxPendingGetBatch e locked limit db = (Inr ms, db')" and "m \<in> set ms"
  obtains r where "r \<in> set (transaction_outbox db)" and "claimable (batch_now e) r"
    and "\<not> locked (om_ID r)" and "m = batch_model r"
proof -
  let ?rows = "reclaim_stale (batch_now e) (transaction_outbox db)"
  obtain q where q: "q \<in> set (select_batch locked (batch_now e) (nat limit) ?rows)"
    and m: "m = batch_model q"
    using assms by (auto simp: batch_Inr Let_def)
  from select_batch_set [OF q] obtain r where "r \<in> set (transaction_outbox db)"
    "q = reclaimed (batch_now e) r" "due (batch_now e) q" "\<not> locked (om_ID q)"
    by (auto simp: set_reclaim)
  with m show thesis by (intro that [of r]) (auto simp: reclaimed_due)
qed

lemma claimed_row_after:
  assumes "OutboxPendingGetBatch e locked limit db = (Inr ms, db')"
    and "r \<in> set (transaction_outbox db')" and "om_ID r \<in> om_ID ` set ms"
  shows "om_Status r = OutboxStatusClaimed \<and> om_UpdatedAt r = batch_now e"
proof -
  let ?claimed = "select_batch locked (batch_now e) (nat limit)
    (reclaim_stale (batch_now e) (transaction_outbox db))"
  have ms: "ms = map batch_model ?claimed" and db': "transaction_outbox db' =
      claim_rows (map om_ID ?claimed) (batch_now e) (reclaim_stale (batch_now e) (transaction_outbox db))"
    using assms(1) by (auto simp: batch_Inr Let_def)
  have "om_ID r \<in> set (map om_ID ?claimed)"
    using assms(3) unfolding ms by (auto simp: batch_model_def)
  moreover obtain r0 where "r = (if om_ID r0 \<in> set (map om_ID ?claimed)
      then r0\<lparr>om_Status := OutboxStatusClaimed, om_UpdatedAt := batch_now e\<rparr> else r0)"
    using assms(2) unfolding db' claim_rows_def set_update_where by blast
  ultimately show ?thesis by (simp split: if_splits)
qed

lemma healthy_poll:
  assumes "0 \<le> limit"
  shows "\<exists>ms db'. OutboxPendingGetBatch (healthy t) locked limit db = (Inr ms, db')"
  using assms by (simp add: batch_Inr Let_def)

text \<open>A poll hands out at most \<open>limit\<close> rows, no row twice, and only rows that are pending
  and due or whose claim is older than 30 seconds; each of them is claimed with the time of the
  poll when it returns.\<close>

theorem batch_claims:
  assumes "schema_ok db" and "OutboxPendingGetBatch e locked limit db = (Inr ms, db')"
  shows "int (length ms) \<le> limit \<and> distinct (map om_ID ms)
    \<and> (\<forall>m \<in> set ms. \<exists>r \<in> set (transaction_outbox db). m = batch_model r \<and> \<not> locked (om_ID r)
          \<and> claimable (batch_now e) r)
    \<and> (\<forall>r \<in> set (transaction_outbox db'). om_ID r \<in> om_ID ` set ms \<longrightarrow>
          om_Status r = OutboxStatusClaimed \<and> om_UpdatedAt r = batch_now e)"
proof -
  let ?rows = "reclaim_stale (batch_now e) (transaction_outbox db)"
  have ms: "ms = map batch_model (select_batch locked (batch_now e) (nat limit) ?rows)"
    and l: "0 \<le> limit"
    using assms(2) by (auto simp: batch_Inr Let_def)
  have "distinct (map om_ID (select_batch locked (batch_now e) (nat limit) ?rows))"
    using assms(1) by (intro select_batch_distinct) (simp add: schema_ok_def outbox_ok_def)
  then have "distinct (map om_ID ms)" by (simp add: ms comp_def batch_model_def)
  moreover have "int (length ms) \<le> limit"
    using select_batch_length [of locked "batch_now e" "nat limit" ?rows] l by (simp add: ms)
  moreover have "\<exists>r \<in> set (transaction_outbox db). m = batch_model r \<and> \<not> locked (om_ID r)
          \<and> claimable (batch_now e) r" if "m \<in> set ms" for m
    by (rule claimed_in_batch [OF assms(2) that]) blast
  ultimately show ?thesis using claimed_row_after [OF assms(2)] by blast
qed

theorem batch_claims_witness:
  "\<exists>ms db'. OutboxPendingGetBatch (healthy (seconds 60)) (\<lambda>_. False) 1 sample_outbox_db = (Inr ms, db')
     \<and> int (length ms) \<le> 1 \<and> distinct (map om_ID ms)"
proof -
  obtain ms db' where p:
    "OutboxPendingGetBatch (healthy (seconds 60)) (\<lambda>_. False) 1 sample_outbox_db = (Inr ms, db')"
    using healthy_poll [of 1] by force
  from batch_claims [OF sample_outbox_schema p] p show ?thesis by blast
qed

text \<open>The batch of a poll and the batch of the next poll, up to 30 seconds later, have no row
  in common: while its claim is fresh a row is in the hands of one poller only.\<close>

theorem batch_disjoint:
  assumes "schema_ok db"
    and "OutboxPendingGetBatch e1 locked1 limit1 db = (Inr ms1, db1)"
    and "OutboxPendingGetBatch e2 locked2 limit2 db1 = (Inr ms2, db2)"
    and "batch_now e2 \<le> batch_now e1 + seconds 30"
  shows "om_ID ` set ms1 \<inter> om_ID ` set ms2 = {}"
proof (rule ccontr)
  assume "om_ID ` set ms1 \<inter> om_ID ` set ms2 \<noteq> {}"
  then obtain i where "i \<in> om_ID ` set ms1" "i \<in> om_ID ` set ms2" by blast
  then obtain m where m: "m \<in> set ms2" "om_ID m \<in> om_ID ` set ms1" by (elim imageE) simp
  obtain r where r: "r \<in> set (transaction_outbox db1)" "claimable (batch_now e2) r"
    and mr: "m = batch_model r"
    by (rule claimed_in_batch [OF assms(3) m(1)])
  then have "om_ID r = om_ID m" by (simp add: batch_model_def)
  then have "om_Status r = OutboxStatusClaimed" "om_UpdatedAt r = batch_now e1"
    using claimed_row_after [OF assms(2) r(1)] m(2) by auto
  with r(2) assms(4) show False by (auto simp: claimable_def stale_claim_def)
qed

theorem batch_disjoint_witness:
  "\<exists>ms1 ms2 db1 db2.
     OutboxPendingGetBatch (healthy (seconds 60)) (\<lambda>_. False) 1 sample_outbox_db = (Inr ms1, db1) \<and>
     OutboxPendingGetBatch (healthy (seconds 70)) (\<lambda>_. False) 1 db1 = (Inr ms2, db2) \<and>
     om_ID ` set ms1 \<inter> om_ID ` set ms2 = {}"
proof -
  obtain ms1 db1 where p1:
    "OutboxPendingGetBatch (healthy (seconds 60)) (\<lambda>_. False) 1 sample_outbox_db = (Inr ms1, db1)"
    using healthy_poll [of 1] by force
  obtain ms2 db2 where p2:
    "OutboxPendingGetBatch (healthy (seconds 70)) (\<lambda>_. False) 1 db1 = (Inr ms2, db2)"
    using healthy_poll [of 1] by force
  have "om_ID ` set ms1 \<inter> om_ID ` set ms2 = {}"
    by (rule batch_disjoint [OF sample_outbox_schema p1 p2]) (simp add: seconds_def)
  with p1 p2 show ?thesis by blast
qed

text \<open>Among the rows a poll may hand out, the ones it leaves for later were created no
  earlier than the ones it takes.\<close>

theorem batch_oldest_first:
  assumes "schema_ok db" and "OutboxPendingGetBatch e locked limit db = (Inr ms, db')"
    and "m \<in> set ms" and "r \<in> set (transaction_outbox db)" and "claimable (batch_now e) r"
    and "\<not> locked (om_ID r)" and "om_ID r \<notin> om_ID ` set ms"
  shows "om_CreatedAt m \<le> om_CreatedAt r"
proof -
  let ?rows = "reclaim_stale (batch_now e) (transaction_outbox db)"
  let ?sel = "select_batch locked (batch_now e) (nat limit) ?rows"
  let ?r = "reclaimed (batch_now e) r"
  have ms: "ms = map batch_model ?sel" using assms(2) by (auto simp: batch_Inr Let_def)
  then obtain q where q: "q \<in> set ?sel" "m = batch_model q" using assms(3) by auto
  have "om_ID ` set ms = om_ID ` set ?sel" by (simp add: ms image_image batch_model_def)
  then have "?r \<notin> set ?sel" using assms(7) imageI [of ?r "set ?sel" om_ID] by auto
  then have "om_CreatedAt q \<le> om_CreatedAt ?r"
    using q(1) assms(4-6) by (intro select_batch_order [of q]) (auto simp: set_reclaim reclaimed_due)
  then show ?thesis using q(2) by (simp add: batch_model_def)
qed

theorem batch_oldest_first_witness:
  "\<exists>ms db'. OutboxPendingGetBatch (healthy (seconds 60)) (\<lambda>_. False) 1 sample_outbox_db = (Inr ms, db')
     \<and> om_CreatedAt (batch_model (mk_outbox ''o1'' ''t1'' OutboxStatusPending 1)) \<le>
       om_CreatedAt (mk_outbox ''o2'' ''t2'' OutboxStatusClaimed 2)"
proof -
  let ?m = "batch_model (mk_outbox ''o1'' ''t1'' OutboxStatusPending 1)"
  let ?r = "mk_outbox ''o2'' ''t2'' OutboxStatusClaimed 2"
  have p: "OutboxPendingGetBatch (healthy (seconds 60)) (\<lambda>_. False) 1 sample_outbox_db =
      (Inr [?m], snd (OutboxPendingGetBatch (healthy (seconds 60)) (\<lambda>_. False) 1 sample_outbox_db))"
    by code_simp
  have "om_CreatedAt ?m \<le> om_CreatedAt ?r"
    by (rule batch_oldest_first [OF sample_outbox_schema p])
      (simp_all add: sample_outbox_db_def mk_outbox_def claimable_def stale_claim_def seconds_def
        batch_model_def)
  with p show ?thesis by blast
qed

text \<open>While the database answers, a poll whose limit is at least the size of the outbox
  hands out every row that may be handed out, abandoned claims included: no row is stuck.\<close>

theorem batch_complete:
  assumes "schema_ok db" and "call_up OutboxPendingGetBatchC e"
    and "int (length (transaction_outbox db)) \<le> limit"
    and "r \<in> set (transaction_outbox db)" and "claimable (batch_now e) r" and "\<not> locked (om_ID r)"
  shows "\<exists>ms db'. OutboxPendingGetBatch e locked limit db = (Inr ms, db') \<and> batch_model r \<in> set ms"
proof -
  let ?rows = "reclaim_stale (batch_now e) (transaction_outbox db)"
  let ?sel = "select_batch locked (batch_now e) (nat limit) ?rows"
  have "length ?rows = length (transaction_outbox db)" by (simp add: reclaim_stale_def)
  then have n: "length (filter (\<lambda>r. due (batch_now e) r \<and> \<not> locked (om_ID r)) ?rows) \<le> nat limit"
    using assms(3) length_filter_le [of "\<lambda>r. due (batch_now e) r \<and> \<not> locked (om_ID r)" ?rows]
    by linarith
  have "reclaimed (batch_now e) r \<in> set ?sel"
    using assms(4-6) n by (auto simp: select_batch_def set_reclaim reclaimed_due)
  then have "batch_model r \<in> batch_model ` set ?sel"
    using imageI [of "reclaimed (batch_now e) r" "set ?sel" batch_model] by simp
  moreover have "OutboxPendingGetBatch e locked limit db = (Inr (map batch_model ?sel),
      db\<lparr>transaction_outbox := claim_rows (map om_ID ?sel) (batch_now e) ?rows\<rparr>)"
    using assms(2,3) by (simp add: batch_Inr call_up_def Let_def)
  ultimately show ?thesis by auto
qed

theorem batch_complete_witness:
  "\<exists>ms db'. OutboxPendingGetBatch (healthy (seconds 60)) (\<lambda>_. False) 2 sample_outbox_db = (Inr ms, db')
     \<and> batch_model (mk_outbox ''o2'' ''t2'' OutboxStatusClaimed 2) \<in> set ms"
  by (rule batch_complete [OF sample_outbox_schema])
    (simp_all add: sample_outbox_db_def mk_outbox_def claimable_def stale_claim_def seconds_def
      call_up_def)

section \<open>Retries of a row that cannot be published\<close>

lemma shl_int4_small: "0 \<le> n \<Longrightarrow> n \<le> 30 \<Longrightarrow> shl_int4 n = 2 ^ nat n"
proof -
  assume n: "0 \<le> n" "n \<le> 30"
  have "(2::int) ^ nat n \<le> 2 ^ 30" using n by (intro power_increasing) auto
  then have "fits_signed 32 (2 ^ nat n)"
    unfolding fits_signed_def by (auto intro: order_trans [of _ 0])
  then show ?thesis using n by (simp add: shl_int4_def wrap_signed_id)
qed

lemma mark_failure_found:
  assumes "call_up OutboxMarkPublishFailureC e"
    and "fits_signed 32 (GetInt env ''OUTBOX_BACKOFF_SECONDS'' 60)"
    and "fits_signed 32 (GetInt env ''OUTBOX_MAX_REPUBLISH_RETRIES'' 4)"
    and "List.find (\<lambda>r. om_AggregateId r = a) (transaction_outbox db) = Some r"
    and "fits_signed 32 (retry_count r + 1)"
  shows "OutboxMarkPublishFailure e env a msg db =
    (let f = mark_failure msg (GetInt env ''OUTBOX_MAX_REPUBLISH_RETRIES'' 4)
               (GetInt env ''OUTBOX_BACKOFF_SECONDS'' 60) (env_now e OutboxMarkPublishFailureC)
     in (Inr (om_Status (f r)), db\<lparr>transaction_outbox :=
           update_where (\<lambda>r. om_AggregateId r = a) f (transaction_outbox db)\<rparr>))"
  using assms by (simp add: OutboxMarkPublishFailure_def call_up_def autocommit_def Let_def)

lemma mark_failure_row:
  assumes ok: "schema_ok db" and r: "r \<in> set (transaction_outbox db)"
    and up: "call_up OutboxMarkPublishFailureC e"
    and cap: "GetInt env ''OUTBOX_BACKOFF_SECONDS'' 60 = cap" "fits_signed 32 cap"
    and lim: "GetInt env ''OUTBOX_MAX_REPUBLISH_RETRIES'' 4 = lim" "fits_signed 32 lim"
    and n: "0 \<le> retry_count r" "retry_count r < 30"
  shows "\<exists>r'. OutboxMarkPublishFailure e env (om_AggregateId r) msg db =
      (Inr (if retry_count r + 1 \<ge> lim then OutboxStatusFailed else OutboxStatusPending),
       db\<lparr>transaction_outbox := update_where (\<lambda>x. x = r) (\<lambda>_. r') (transaction_outbox db)\<rparr>)
    \<and> om_Status r' = (if retry_count r + 1 \<ge> lim then OutboxStatusFailed else OutboxStatusPending)
    \<and> retry_count r' = retry_count r + 1 \<and> batch_model r' = batch_model r
    \<and> next_attempt_at r' = env_now e OutboxMarkPublishFailureC
        + seconds (min (2 ^ nat (retry_count r + 1)) cap)"
proof -
  note d = schema_okD(3) [OF ok]
  let ?f = "mark_failure msg lim cap (env_now e OutboxMarkPublishFailureC)"
  have "fits_signed 32 (retry_count r + 1)" using n by (auto simp: fits_signed_def)
  then have m: "OutboxMarkPublishFailure e env (om_AggregateId r) msg db = (Inr (om_Status (?f r)),
      db\<lparr>transaction_outbox :=
        update_where (\<lambda>x. om_AggregateId x = om_AggregateId r) ?f (transaction_outbox db)\<rparr>)"
    using mark_failure_found [OF up _ _ find_key_Some [OF d r]] cap lim by (simp add: Let_def)
  have "update_where (\<lambda>x. om_AggregateId x = om_AggregateId r) ?f (transaction_outbox db) =
      update_where (\<lambda>x. x = r) (\<lambda>_. ?f r) (transaction_outbox db)"
    using distinct_keys_eq [OF d _ r] by (auto simp: update_where_def)
  with m show ?thesis
    using n by (intro exI [of _ "?f r"])
      (simp add: mark_failure_def batch_model_def backoff_seconds_def shl_int4_small)
qed

text \<open>A failed publication of a row is recorded as one more attempt: the row waits for
  two to the number of attempts seconds, at most the configured cap, and becomes failed at the
  configured number of attempts; no other row changes.\<close>

theorem publish_failure_recorded:
  assumes ok: "schema_ok db" and r: "r \<in> set (transaction_outbox db)"
    and up: "call_up OutboxMarkPublishFailureC e"
    and cap: "GetInt env ''OUTBOX_BACKOFF_SECONDS'' 60 = cap" "fits_signed 32 cap"
    and lim: "GetInt env ''OUTBOX_MAX_REPUBLISH_RETRIES'' 4 = lim" "fits_signed 32 lim"
    and n: "0 \<le> retry_count r" "retry_count r < 30"
  shows "\<exists>r'. OutboxMarkPublishFailure e env (om_AggregateId r) msg db =
      (Inr (if retry_count r + 1 \<ge> lim then OutboxStatusFailed else OutboxStatusPending),
       db\<lparr>transaction_outbox := update_where (\<lambda>x. x = r) (\<lambda>_. r') (transaction_outbox db)\<rparr>)
    \<and> om_Status r' = (if retry_count r + 1 \<ge> lim then OutboxStatusFailed else OutboxStatusPending)
    \<and> retry_count r' = retry_count r + 1 \<and> batch_model r' = batch_model r
    \<and> next_attempt_at r' = env_now e OutboxMarkPublishFailureC
        + seconds (min (2 ^ nat (retry_count r + 1)) cap)"
  by (rule mark_failure_row [OF assms])

theorem publish_failure_recorded_witness:
  "\<exists>r' db'. OutboxMarkPublishFailure (healthy 0) (\<lambda>_. None) ''t1'' ''down'' sample_outbox_db
      = (Inr OutboxStatusPending, db') \<and> r' \<in> set (transaction_outbox db') \<and> retry_count r' = 1
      \<and> next_attempt_at r' = seconds 2"
proof -
  let ?r = "mk_outbox ''o1'' ''t1'' OutboxStatusPending 1"
  have r: "?r \<in> set (transaction_outbox sample_outbox_db)" by (simp add: sample_outbox_db_def)
  have "\<exists>r'. OutboxMarkPublishFailure (healthy 0) (\<lambda>_. None) ''t1'' ''down'' sample_outbox_db =
      (Inr OutboxStatusPending, sample_outbox_db\<lparr>transaction_outbox :=
         update_where (\<lambda>x. x = ?r) (\<lambda>_. r') (transaction_outbox sample_outbox_db)\<rparr>)
      \<and> retry_count r' = 1 \<and> next_attempt_at r' = seconds 2"
    using publish_failure_recorded [OF sample_outbox_schema r, of "healthy 0" "\<lambda>_. None" 60 4 "''down''"]
    by (auto simp: mk_outbox_fields call_up_def GetInt_def fits_signed_def)
  then show ?thesis using r by (fastforce simp: set_update_where)
qed

text \<open>The shift that computes the wait overflows its 32 bits at the 31st attempt: with a
  configuration that allows that many attempts the next one is due at once, 68 years ago in
  fact, instead of after the cap.\<close>

theorem backoff_overflow:
  assumes "0 \<le> cap"
  shows "backoff_seconds 31 cap = - 2147483648"
  using assms by (simp add: backoff_seconds_def shl_int4_def wrap_signed_def)

theorem backoff_overflow_witness: "backoff_seconds 31 60 = - 2147483648"
  by (rule backoff_overflow) simp

section \<open>The lock of a request\<close>

abbreviation request_key :: "OutboxInsertConfig \<Rightarrow> string" where
  "request_key cfg \<equiv> idempotencyKey (oc_UserId cfg) (oc_Partition_key cfg)"

lemma on_db_w_ch [simp]: "w_ch (snd (on_db m w)) = w_ch w"
  by (simp add: on_db_def split_beta)

lemma on_ch_w_db [simp]: "w_db (snd (on_ch m w)) = w_db w"
  by (simp add: on_ch_def split_beta)

lemma outboxIdempotencyCheck_state [simp]: "snd (outboxIdempotencyCheck e key db) = db"
  by (auto simp: outboxIdempotencyCheck_def autocommit_def split: io.splits)

lemma outbox_write_Inr:
  assumes "outbox_write R e oid cfg key w = (Inr u, w')"
  shows "w' = w\<lparr>w_db := (w_db w)\<lparr>transaction_outbox := transaction_outbox (w_db w) @
      [new_outbox_row oid cfg key (env_now e OutboxInsertC)]\<rparr>\<rparr>
    \<and> oid \<notin> set (keys om_ID (transaction_outbox (w_db w)))
    \<and> oc_AggregateId cfg \<notin> set (keys om_AggregateId (transaction_outbox (w_db w)))"
  using assms
  by (auto simp: outbox_write_def on_db_def autocommit_def sql_insert_outbox_def new_outbox_row_def
      split: io.splits if_splits prod.splits)

lemma outbox_write_Inl:
  assumes "outbox_write R e oid cfg key w = (Inl err, w')"
  shows "w_ch w' = snd (TransactionIdempotencyRelease R key (w_ch w)) \<and>
    (env_io e OutboxInsertC (Stmt 1) \<noteq> IoLost \<longrightarrow> w_db w' = w_db w)"
  using assms
  by (auto simp: outbox_write_def on_db_def on_ch_def autocommit_def sql_insert_outbox_def
      split: io.splits if_splits prod.splits)

lemma OutboxInsert_locked:
  assumes "TransactionIdempotencyCheck R (request_key cfg) (w_ch w) = (Inr True, r)"
  shows "OutboxInsert R e oid cfg w = outbox_write R e oid cfg (request_key cfg) (w\<lparr>w_ch := r\<rparr>)"
  using assms by (simp add: OutboxInsert_def on_ch_def Let_def)

lemma OutboxInsert_refused:
  assumes "TransactionIdempotencyCheck R (request_key cfg) (w_ch w) = (Inr False, r)"
  shows "OutboxInsert R e oid cfg w =
    (Inl (errorf ''Transaction is already in progress for operator %s''), w\<lparr>w_ch := r\<rparr>)"
  using assms by (simp add: OutboxInsert_def on_ch_def Let_def)

lemma sample_locked_check:
  "TransactionIdempotencyCheck redis_ref (request_key sample_cfg) sample_locked = (Inr False, sample_locked)"
  by code_simp

lemma sample_locked_held: "rr_look sample_locked (cache_idempotencyKey (request_key sample_cfg)) \<noteq> None"
  by code_simp

lemma insert_appended:
  assumes "OutboxInsert R e oid cfg w = (Inr u, w')"
  shows "w_db w' = (w_db w)\<lparr>transaction_outbox := transaction_outbox (w_db w) @
      [new_outbox_row oid cfg (request_key cfg) (env_now e OutboxInsertC)]\<rparr>
    \<and> oc_AggregateId cfg \<notin> set (keys om_AggregateId (transaction_outbox (w_db w)))"
proof -
  have "outbox_write R e oid cfg (request_key cfg)
      (w\<lparr>w_ch := snd (TransactionIdempotencyCheck R (request_key cfg) (w_ch w))\<rparr>) = (Inr u, w')"
    using assms
    by (auto simp: OutboxInsert_def on_ch_def on_db_def Let_def split_beta
        split: prod.splits sum.splits if_splits)
  from outbox_write_Inr [OF this] show ?thesis by simp
qed

text \<open>An accepted request is one new row at the end of the outbox, pending, with the
  event and payload of the request and the time of the insertion; the identifier of its
  transaction was new, and nothing else of the database changed.\<close>

theorem outbox_insert_appends:
  assumes "OutboxInsert R e oid cfg w = (Inr u, w')"
  shows "w_db w' = (w_db w)\<lparr>transaction_outbox := transaction_outbox (w_db w) @
      [new_outbox_row oid cfg (request_key cfg) (env_now e OutboxInsertC)]\<rparr>
    \<and> oc_AggregateId cfg \<notin> set (keys om_AggregateId (transaction_outbox (w_db w)))"
  by (rule insert_appended [OF assms])

theorem outbox_insert_appends_witness:
  "\<exists>w'. OutboxInsert redis_ref (healthy 7) ''o1'' sample_cfg sample = (Inr (), w')
     \<and> map om_AggregateId (transaction_outbox (w_db w')) = [''t1'']"
proof -
  have "\<not> isl (fst (OutboxInsert redis_ref (healthy 7) ''o1'' sample_cfg sample))" by code_simp
  then obtain w' where r: "OutboxInsert redis_ref (healthy 7) ''o1'' sample_cfg sample = (Inr (), w')"
    by (metis (full_types) prod.collapse sum.collapse(2) old.unit.exhaust)
  from outbox_insert_appends [OF r] r show ?thesis
    by (simp add: new_outbox_row_def sample_cfg_def sample_db_def)
qed

text \<open>While the lock of a user and account is held and Redis answers, no further request
  for them is accepted: the database and the locks stay as they are.\<close>

theorem outbox_lock_exclusive:
  assumes "redis_laws R look"
    and "look (w_ch w) (cache_idempotencyKey (request_key cfg)) \<noteq> None"
    and "TransactionIdempotencyCheck R (request_key cfg) (w_ch w) = (Inr b, r)"
  shows "isl (fst (OutboxInsert R e oid cfg w)) \<and> w_db (snd (OutboxInsert R e oid cfg w)) = w_db w
    \<and> look (w_ch (snd (OutboxInsert R e oid cfg w))) = look (w_ch w)"
proof -
  have "\<not> b" "look r = look (w_ch w)"
    using redis_laws.check_held [OF assms] by auto
  then show ?thesis using OutboxInsert_refused [of R cfg w r] assms(3) by simp
qed

theorem outbox_lock_exclusive_witness:
  "isl (fst (OutboxInsert redis_ref (healthy 7) ''o1'' sample_cfg (sample\<lparr>w_ch := sample_locked\<rparr>)))"
  using outbox_lock_exclusive [OF ref.redis_laws_axioms, of "sample\<lparr>w_ch := sample_locked\<rparr>" sample_cfg
      False sample_locked "healthy 7" "''o1''"]
  by (simp add: sample_locked_held sample_locked_check)

text \<open>A request that took the lock but whose row could not be inserted gives the lock
  back: it can be repeated at once.\<close>

theorem outbox_insert_failed_releases:
  assumes laws: "redis_laws R look"
    and c: "TransactionIdempotencyCheck R (request_key cfg) (w_ch w) = (Inr True, r)"
    and d: "TransactionIdempotencyRelease R (request_key cfg) r = (Inr (), r')"
    and f: "OutboxInsert R e oid cfg w = (Inl err, w')"
  shows "look (w_ch w') = look (w_ch w)
    \<and> (env_io e OutboxInsertC (Stmt 1) \<noteq> IoLost \<longrightarrow> w_db w' = w_db w)"
proof -
  have w: "outbox_write R e oid cfg (request_key cfg) (w\<lparr>w_ch := r\<rparr>) = (Inl err, w')"
    using f OutboxInsert_locked [OF c] by simp
  have "w_ch w' = r'" using outbox_write_Inl [OF w] d by simp
  moreover have "look r' = (look r)(cache_idempotencyKey (request_key cfg) := None)"
    by (rule redis_laws.release_frees [OF laws d])
  moreover note redis_laws.check_acquires [OF laws c]
  ultimately have "look (w_ch w') = look (w_ch w)" by auto
  with outbox_write_Inl [OF w] show ?thesis by simp
qed

theorem outbox_insert_failed_releases_witness:
  "\<exists>err w'. OutboxInsert redis_ref (down OutboxInsertC 7) ''o1'' sample_cfg sample = (Inl err, w')
     \<and> rr_look (w_ch w') = rr_look rr_empty"
proof -
  have "isl (fst (OutboxInsert redis_ref (down OutboxInsertC 7) ''o1'' sample_cfg sample))" by code_simp
  then obtain err w' where f:
    "OutboxInsert redis_ref (down OutboxInsertC 7) ''o1'' sample_cfg sample = (Inl err, w')"
    by (metis prod.collapse sum.collapse(1))
  have c: "TransactionIdempotencyCheck redis_ref (request_key sample_cfg) (w_ch sample) =
      (Inr True, sample_locked)"
    and d: "TransactionIdempotencyRelease redis_ref (request_key sample_cfg) sample_locked =
      (Inr (), rr_empty)"
    by code_simp+
  from outbox_insert_failed_releases [OF ref.redis_laws_axioms c d f] f show ?thesis
    by (simp add: sample_def)
qed

end
