(* ===== verification/RelayProps.thy ===== *)
theory RelayProps
  imports OutboxProps
begin

text \<open>
  Properties of the relay: a row is marked published only after Kafka acknowledged its
  message, under every pattern of faults of the database, the cache and the broker and every
  order of the goroutines; a row given up releases the lock its request took.
\<close>

section \<open>What the relay leaves alone\<close>

lemma on_world_eq: "on_world m p = (fst (m (pl_world p)), p\<lparr>pl_world := snd (m (pl_world p))\<rparr>)"
  by (simp add: on_world_def split_beta)

lemma on_kafka_eq: "on_kafka m p = (fst (m (pl_kafka p)), p\<lparr>pl_kafka := snd (m (pl_kafka p))\<rparr>)"
  by (simp add: on_kafka_def split_beta)

abbreviation outbox_of :: "('r, 'k) plant \<Rightarrow> outbox_row list" where
  "outbox_of p \<equiv> transaction_outbox (w_db (pl_world p))"

lemma OutboxUpdate_outbox:
  "transaction_outbox (snd (OutboxUpdate e a s db)) = transaction_outbox db \<or>
   transaction_outbox (snd (OutboxUpdate e a s db)) = update_where (\<lambda>r. om_AggregateId r = a)
     (set_outbox_status s (env_now e OutboxUpdateC)) (transaction_outbox db)"
  by (auto simp: OutboxUpdate_def autocommit_def split: io.splits prod.splits sum.splits if_splits)

lemma mark_failure_outbox:
  "\<exists>lim cap. transaction_outbox (snd (OutboxMarkPublishFailure e env a msg db)) = transaction_outbox db \<or>
   transaction_outbox (snd (OutboxMarkPublishFailure e env a msg db)) =
     update_where (\<lambda>r. om_AggregateId r = a)
       (mark_failure msg lim cap (env_now e OutboxMarkPublishFailureC)) (transaction_outbox db)"
  by (auto simp: OutboxMarkPublishFailure_def autocommit_def Let_def
      split: io.splits prod.splits sum.splits if_splits option.splits)

lemma releaseIdempotency_other:
  "w_db (pl_world (releaseIdempotency o' m p)) = w_db (pl_world p) \<and>
   pl_kafka (releaseIdempotency o' m p) = pl_kafka p"
  by (simp add: releaseIdempotency_def Let_def on_world_eq split_beta IdempotencyRelease_def on_ch_def
      split: sum.splits)

section \<open>Published rows are in the log\<close>

definition in_log :: "string \<Rightarrow> kmessage list \<Rightarrow> OutboxModel \<Rightarrow> bool" where
  "in_log topic msgs m \<longleftrightarrow>
     (\<exists>v. marshal_envelope m = Some v \<and>
        \<lparr>km_Topic = topic, km_Key = om_PartitionKey m, km_Value = Some v, km_Headers = []\<rparr> \<in> set msgs)"

definition published_logged :: "string \<Rightarrow> kmessage list \<Rightarrow> outbox_row list \<Rightarrow> bool" where
  "published_logged topic msgs rows \<longleftrightarrow>
     (\<forall>r \<in> set rows. om_Status r = OutboxStatusPublished \<longrightarrow> in_log topic msgs (batch_model r))"

lemma published_update:
  assumes "published_logged topic msgs rows" and "set msgs \<subseteq> set msgs'"
    and "\<And>r. r \<in> set rows \<Longrightarrow> q r \<Longrightarrow> batch_model (f r) = batch_model r"
    and "\<And>r. r \<in> set rows \<Longrightarrow> q r \<Longrightarrow> om_Status (f r) = OutboxStatusPublished \<Longrightarrow>
      in_log topic msgs' (batch_model r)"
  shows "published_logged topic msgs' (update_where q f rows)"
  unfolding published_logged_def
proof (intro ballI impI)
  fix r' assume "r' \<in> set (update_where q f rows)" and pub: "om_Status r' = OutboxStatusPublished"
  then obtain r where r: "r \<in> set rows" and r': "r' = (if q r then f r else r)"
    by (auto simp: set_update_where)
  show "in_log topic msgs' (batch_model r')"
  proof (cases "q r")
    case True
    with r r' pub assms(3,4) show ?thesis by simp
  next
    case False
    with r r' pub assms(1) have "in_log topic msgs (batch_model r')" by (simp add: published_logged_def)
    with assms(2) show ?thesis by (auto simp: in_log_def)
  qed
qed

lemma batch_model_update [simp]:
  "batch_model (set_outbox_status s now r) = batch_model r"
  "batch_model (mark_failure msg lim cap now r) = batch_model r"
  by (simp_all add: set_outbox_status_def mark_failure_def batch_model_def)

lemma models_update:
  "(\<And>r. batch_model (f r) = batch_model r) \<Longrightarrow>
     map batch_model (update_where q f rows) = map batch_model rows"
  by (simp add: update_where_def)

lemma same_model:
  assumes "distinct (map om_AggregateId (map batch_model rows))" and "m \<in> set (map batch_model rows)"
    and "r \<in> set rows" and "om_AggregateId r = om_AggregateId m"
  shows "batch_model r = m"
  using assms by (auto simp: distinct_map batch_model_def inj_on_def)

text \<open>The relay keeps the rows' contents and the agreement of published rows with the log.\<close>

definition relay_inv :: "string \<Rightarrow> ('k \<Rightarrow> kmessage list) \<Rightarrow> OutboxModel list \<Rightarrow> ('r, 'k) plant \<Rightarrow> bool" where
  "relay_inv topic log ms p \<longleftrightarrow>
     map batch_model (outbox_of p) = ms \<and> published_logged topic (log (pl_kafka p)) (outbox_of p)"

lemma mark_failed_inv:
  assumes "relay_inv topic log ms p"
  shows "relay_inv topic log ms (markFailed o' e m p)"
proof -
  let ?db = "w_db (pl_world p)"
  let ?f = "set_outbox_status OutboxStatusFailed (env_now e OutboxUpdateC)"
  have "published_logged topic (log (pl_kafka p))
      (update_where (\<lambda>r. om_AggregateId r = om_AggregateId m) ?f (outbox_of p))"
    using assms
    by (intro published_update [where msgs = "log (pl_kafka p)"])
      (auto simp: relay_inv_def set_outbox_status_def batch_model_def)
  then show ?thesis
    using assms OutboxUpdate_outbox [of e "om_AggregateId m" OutboxStatusFailed ?db]
      models_update [of ?f "\<lambda>r. om_AggregateId r = om_AggregateId m" "outbox_of p"]
    by (auto simp: relay_inv_def markFailed_def Let_def on_world_eq on_db_def split_beta
        releaseIdempotency_other)
qed

context kafka_laws
begin

lemma relay_row_inv:
  assumes inv: "relay_inv topic log ms p" and m: "m \<in> set ms"
    and d: "distinct (map om_AggregateId ms)"
    and o': "mk_writer (pr_messaging (or_publisher o')) = Some W" "pr_topic (or_publisher o') = topic"
  shows "relay_inv topic log ms (relay_row o' e m p)"
proof (cases "marshal_envelope m")
  case None
  then show ?thesis using mark_failed_inv [OF inv] by (simp add: relay_row_def)
next
  case (Some v)
  let ?pub = "Publish (or_publisher o') (om_PartitionKey m) (Some v)"
  let ?q = "\<lambda>r. om_AggregateId r = om_AggregateId m"
  let ?b = "snd (?pub (pl_kafka p))"
  have keep: "set (log (pl_kafka p)) \<subseteq> set (log ?b)"
    using publish_keeps [OF o'(1)] o'(2) by (auto simp: Publish_def)
  have ms: "map batch_model (outbox_of p) = ms"
    and pl: "published_logged topic (log (pl_kafka p)) (outbox_of p)"
    using inv by (auto simp: relay_inv_def)
  have pl': "published_logged topic (log ?b) (outbox_of p)"
    using published_update [OF pl keep, of "\<lambda>_. False" id] by (simp add: update_where_def)
  show ?thesis
  proof (cases "fst (?pub (pl_kafka p))")
    case (Inl err)
    let ?mark = "OutboxMarkPublishFailure e (or_osenv o') (om_AggregateId m) (error_text err)"
    obtain lim cap where c: "transaction_outbox (snd (?mark (w_db (pl_world p)))) = outbox_of p \<or>
        transaction_outbox (snd (?mark (w_db (pl_world p)))) = update_where ?q
          (mark_failure (error_text err) lim cap (env_now e OutboxMarkPublishFailureC)) (outbox_of p)"
      using mark_failure_outbox by blast
    have "published_logged topic (log ?b) (update_where ?q
        (mark_failure (error_text err) lim cap (env_now e OutboxMarkPublishFailureC)) (outbox_of p))"
      by (rule published_update [OF pl keep]) (auto simp: mark_failure_def batch_model_def split: if_splits)
    then have "relay_inv topic log ms (p\<lparr>pl_kafka := ?b,
        pl_world := (pl_world p)\<lparr>w_db := snd (?mark (w_db (pl_world p)))\<rparr>\<rparr>)"
      using c pl' ms by (auto simp: relay_inv_def models_update)
    then show ?thesis
      using Some Inl
      by (auto simp: relay_row_def on_kafka_eq on_world_eq on_db_def split_beta relay_inv_def
          releaseIdempotency_other split: sum.splits)
  next
    case (Inr u)
    let ?f = "set_outbox_status OutboxStatusPublished (env_now e OutboxUpdateC)"
    have "in_log topic (log ?b) m"
      using publish_logged [OF o'(1), of topic "om_PartitionKey m" "Some v" "pl_kafka p" u ?b] Inr Some o'(2)
      by (auto simp: in_log_def Publish_def prod_eq_iff)
    then have "published_logged topic (log ?b) (update_where ?q ?f (outbox_of p))"
      using same_model [of "outbox_of p" m] d m ms
      by (intro published_update [OF pl keep]) auto
    then show ?thesis
      using Some Inr pl' ms OutboxUpdate_outbox [of e "om_AggregateId m" OutboxStatusPublished "w_db (pl_world p)"]
      by (auto simp: relay_row_def on_kafka_eq on_world_eq on_db_def split_beta relay_inv_def models_update)
  qed
qed

lemma relay_rows_inv:
  assumes "set xs \<subseteq> set ms" and "distinct (map om_AggregateId ms)"
    and "mk_writer (pr_messaging (or_publisher o')) = Some W" "pr_topic (or_publisher o') = topic"
  shows "relay_inv topic log ms p \<Longrightarrow>
    relay_inv topic log ms (fold (\<lambda>row. relay_row o' (es (om_AggregateId row)) row) xs p)"
  using assms(1)
  by (induction xs arbitrary: p) (use relay_row_inv [OF _ _ assms(2-4)] in \<open>auto\<close>)

end

lemma batch_state:
  "snd (OutboxPendingGetBatch e locked limit db) = db \<or>
   (\<exists>ids. snd (OutboxPendingGetBatch e locked limit db) =
      db\<lparr>transaction_outbox := claim_rows ids (batch_now e) (reclaim_stale (batch_now e) (transaction_outbox db))\<rparr>)"
  using run_tx_state_cases [of "env_io e OutboxPendingGetBatchC Begin" "wrapf ''failed to begin tx: %w''"
      "env_io e OutboxPendingGetBatchC Commit" "wrapf ''failed to commit outbox batch claim: %w''"
      "batch_body (env_io e OutboxPendingGetBatchC) locked (batch_now e) limit" db]
  unfolding OutboxPendingGetBatch_def Let_def batch_body_Inr by blast

lemma batch_inv:
  assumes "published_logged topic msgs (transaction_outbox db)"
  shows "published_logged topic msgs (transaction_outbox (snd (OutboxPendingGetBatch e locked limit db)))
    \<and> map batch_model (transaction_outbox (snd (OutboxPendingGetBatch e locked limit db))) =
      map batch_model (transaction_outbox db)"
proof -
  have "published_logged topic msgs (claim_rows ids (batch_now e) (reclaim_stale (batch_now e) rows))
    \<and> map batch_model (claim_rows ids (batch_now e) (reclaim_stale (batch_now e) rows)) = map batch_model rows"
    if "published_logged topic msgs rows" for ids rows
    unfolding claim_rows_def reclaim_stale_def using that
    by (intro conjI published_update [where msgs = msgs])
      (auto simp: models_update batch_model_def)
  then show ?thesis using batch_state [of e locked limit db] assms by auto
qed

lemma poll_published:
  assumes laws: "kafka_laws W log"
    and o': "mk_writer (pr_messaging (or_publisher o')) = Some W" "pr_topic (or_publisher o') = topic"
    and ok: "schema_ok (w_db (pl_world p))"
    and order: "\<And>rows. set (po_order po rows) \<subseteq> set rows"
    and inv: "published_logged topic (log (pl_kafka p)) (outbox_of p)"
  shows "published_logged topic (log (pl_kafka (snd (readAndRelay o' po p))))
      (outbox_of (snd (readAndRelay o' po p)))
    \<and> map batch_model (outbox_of (snd (readAndRelay o' po p))) = map batch_model (outbox_of p)"
proof -
  let ?get = "OutboxPendingGetBatch (po_env po) (po_locked po) (or_batchSize o')"
  let ?ms = "map batch_model (outbox_of p)"
  let ?p1 = "p\<lparr>pl_world := (pl_world p)\<lparr>w_db := snd (?get (w_db (pl_world p)))\<rparr>\<rparr>"
  have i1: "relay_inv topic log ?ms ?p1"
    using batch_inv [OF inv] by (simp add: relay_inv_def)
  have d: "distinct (map om_AggregateId ?ms)"
    using schema_okD(3) [OF ok] by (simp add: keys_def comp_def batch_model_def)
  have sub: "set rows \<subseteq> set ?ms" if "?get (w_db (pl_world p)) = (Inr rows, db')" for rows db'
    using claimed_in_batch [OF that] by (metis image_eqI set_map subsetI)
  have "relay_inv topic log ?ms (snd (readAndRelay o' po p))"
  proof (cases "?get (w_db (pl_world p))")
    case (Pair res db')
    show ?thesis
    proof (cases res)
      case (Inl err)
      with Pair i1 show ?thesis by (simp add: readAndRelay_def on_world_def on_db_def)
    next
      case (Inr rows)
      have "set (po_order po rows) \<subseteq> set ?ms" using order sub Pair Inr by blast
      with kafka_laws.relay_rows_inv [OF laws this d o' i1] Pair Inr show ?thesis
        by (simp add: readAndRelay_def on_world_def on_db_def)
    qed
  qed
  then show ?thesis by (simp add: relay_inv_def)
qed

text \<open>Whatever fails, and in whatever order the goroutines of a batch run, a poll of the
  relay keeps this: every row marked published has its envelope in the Kafka topic, under the
  key of its account, with the event and payload that were inserted.\<close>

theorem relay_publishes_before_marking:
  assumes laws: "kafka_laws W log"
    and o': "mk_writer (pr_messaging (or_publisher o')) = Some W" "pr_topic (or_publisher o') = topic"
    and ok: "schema_ok (w_db (pl_world p))"
    and order: "\<And>rows. set (po_order po rows) \<subseteq> set rows"
    and inv: "published_logged topic (log (pl_kafka p)) (outbox_of p)"
  shows "published_logged topic (log (pl_kafka (snd (readAndRelay o' po p))))
      (outbox_of (snd (readAndRelay o' po p)))
    \<and> map batch_model (outbox_of (snd (readAndRelay o' po p))) = map batch_model (outbox_of p)"
  by (rule poll_published [OF assms])

theorem relay_publishes_before_marking_witness:
  "published_logged WalletEventsTopic
     (rb_log (pl_kafka (snd (readAndRelay sample_relay (sample_poll (seconds 60))
        (sample_plant sample_outbox_db [IoErr])))))
     (outbox_of (snd (readAndRelay sample_relay (sample_poll (seconds 60))
        (sample_plant sample_outbox_db [IoErr]))))"
proof -
  have "published_logged WalletEventsTopic (rb_log (pl_kafka (sample_plant sample_outbox_db [IoErr])))
      (outbox_of (sample_plant sample_outbox_db [IoErr]))"
    by (simp add: published_logged_def sample_plant_def sample_outbox_db_def mk_outbox_fields)
  then show ?thesis
    using relay_publishes_before_marking [OF kref.kafka_laws_axioms, of sample_relay WalletEventsTopic
        "sample_plant sample_outbox_db [IoErr]" "sample_poll (seconds 60)"]
    by (simp add: sample_relay_def sample_poll_def sample_plant_def)
qed

section \<open>Giving up\<close>

lemma idempotencyKey_user:
  "TrimSuffix (idempotencyKey u a) (''_'' @ a) = u"
  using TrimSuffix_append [of u "''_'' @ a"] by (simp add: idempotencyKey_def)

lemma releaseIdempotency_key:
  assumes "om_IdempotencyKey m = idempotencyKey u (om_PartitionKey m)"
    and "TransactionIdempotencyRelease (or_redis o') (om_IdempotencyKey m) (w_ch (pl_world p)) = (Inr u', r')"
  shows "w_ch (pl_world (releaseIdempotency o' m p)) = r'"
  using assms
  by (simp add: releaseIdempotency_def Let_def on_world_def IdempotencyRelease_def on_ch_def
      idempotencyKey_user [simplified])

text \<open>C24. When the last permitted attempt to publish a row fails, the row becomes failed and
  the lock that its request took for the user and account is free again: the key the relay
  computes from the row is the key the insertion stored.\<close>

theorem relay_gives_up:
  assumes laws: "redis_laws (or_redis o') look"
    and ok: "schema_ok (w_db (pl_world p))" and r: "r \<in> set (outbox_of p)"
    and key: "om_IdempotencyKey r = idempotencyKey u (om_PartitionKey r)"
    and env: "marshal_envelope (batch_model r) = Some v"
    and pub: "Publish (or_publisher o') (om_PartitionKey r) (Some v) (pl_kafka p) = (Inl err, b)"
    and up: "call_up OutboxMarkPublishFailureC e"
    and cap: "GetInt (or_osenv o') ''OUTBOX_BACKOFF_SECONDS'' 60 = cap" "fits_signed 32 cap"
    and lim: "GetInt (or_osenv o') ''OUTBOX_MAX_REPUBLISH_RETRIES'' 4 = lim" "fits_signed 32 lim"
    and n: "0 \<le> retry_count r" "retry_count r < 30" "lim \<le> retry_count r + 1"
    and rel: "TransactionIdempotencyRelease (or_redis o') (om_IdempotencyKey r) (w_ch (pl_world p)) = (Inr (), c)"
  shows "\<exists>r'. outbox_of (relay_row o' e (batch_model r) p) = update_where (\<lambda>x. x = r) (\<lambda>_. r') (outbox_of p)
      \<and> om_Status r' = OutboxStatusFailed
      \<and> look (w_ch (pl_world (relay_row o' e (batch_model r) p))) =
        (look (w_ch (pl_world p)))(cache_idempotencyKey (om_IdempotencyKey r) := None)"
proof -
  have f: "om_AggregateId (batch_model r) = om_AggregateId r"
    "om_PartitionKey (batch_model r) = om_PartitionKey r"
    "om_IdempotencyKey (batch_model r) = om_IdempotencyKey r"
    by (simp_all add: batch_model_def)
  obtain r' where m: "OutboxMarkPublishFailure e (or_osenv o') (om_AggregateId r) (error_text err)
        (w_db (pl_world p)) = (Inr OutboxStatusFailed, (w_db (pl_world p))\<lparr>transaction_outbox :=
          update_where (\<lambda>x. x = r) (\<lambda>_. r') (outbox_of p)\<rparr>)"
    and r': "om_Status r' = OutboxStatusFailed"
    using mark_failure_row [OF ok r up cap lim n(1,2), of "error_text err"] n(3) by auto
  let ?p1 = "p\<lparr>pl_kafka := b, pl_world := (pl_world p)\<lparr>w_db := (w_db (pl_world p))\<lparr>transaction_outbox :=
      update_where (\<lambda>x. x = r) (\<lambda>_. r') (outbox_of p)\<rparr>\<rparr>\<rparr>"
  have step: "relay_row o' e (batch_model r) p = releaseIdempotency o' (batch_model r) ?p1"
    using env pub m by (simp add: relay_row_def on_kafka_def on_world_def on_db_def f)
  have "w_ch (pl_world (relay_row o' e (batch_model r) p)) = c"
    unfolding step by (rule releaseIdempotency_key [where u = u and u' = "()"]) (simp_all add: f key rel [unfolded key])
  then show ?thesis
    using redis_laws.release_frees [OF laws rel] r' releaseIdempotency_other [of o' "batch_model r" ?p1]
    by (intro exI [of _ r']) (simp add: step)
qed

theorem relay_gives_up_witness:
  "\<exists>r'. om_Status r' = OutboxStatusFailed
     \<and> r' \<in> set (outbox_of (relay_row sample_relay (healthy 9) (batch_model last_attempt)
           (sample_plant (sample_db\<lparr>transaction_outbox := [last_attempt]\<rparr>) [IoErr])))
     \<and> rr_look (w_ch (pl_world (relay_row sample_relay (healthy 9) (batch_model last_attempt)
           (sample_plant (sample_db\<lparr>transaction_outbox := [last_attempt]\<rparr>) [IoErr]))))
         (cache_idempotencyKey ''u1_a1'') = None"
proof -
  let ?p = "sample_plant (sample_db\<lparr>transaction_outbox := [last_attempt]\<rparr>) [IoErr]"
  have laws: "redis_laws (or_redis sample_relay) rr_look"
    using ref.redis_laws_axioms by (simp add: sample_relay_def)
  have ok: "schema_ok (w_db (pl_world ?p))"
    using sample_schema by (simp add: sample_plant_def schema_ok_def outbox_ok_def last_attempt_def mk_outbox_def)
  have r: "last_attempt \<in> set (outbox_of ?p)" by (simp add: sample_plant_def)
  have key: "om_IdempotencyKey last_attempt = idempotencyKey ''u1'' (om_PartitionKey last_attempt)"
    by (simp add: last_attempt_def mk_outbox_def)
  obtain v where v: "marshal_envelope (batch_model last_attempt) = Some v"
    by (auto simp: marshal_envelope_def marshal_time_def batch_model_def last_attempt_def mk_outbox_def)
  obtain b where pub: "Publish (or_publisher sample_relay) (om_PartitionKey last_attempt) (Some v) (pl_kafka ?p) =
      (Inl (wrapf ''Failed to write message to topic %s: %w'' conn_error), b)"
    by (simp add: Publish_def PublishMessage_def sample_relay_def sample_plant_def kafka_ref_def autocommit_def)
  obtain c where rel: "TransactionIdempotencyRelease (or_redis sample_relay) (om_IdempotencyKey last_attempt)
      (w_ch (pl_world ?p)) = (Inr (), c)"
    by (simp add: TransactionIdempotencyRelease_def sample_relay_def redis_ref_def rr_command_def
        sample_plant_def sample_locked_def rr_put_def rr_empty_def)
  have "\<exists>r'. outbox_of (relay_row sample_relay (healthy 9) (batch_model last_attempt) ?p) =
        update_where (\<lambda>x. x = last_attempt) (\<lambda>_. r') (outbox_of ?p)
      \<and> om_Status r' = OutboxStatusFailed
      \<and> rr_look (w_ch (pl_world (relay_row sample_relay (healthy 9) (batch_model last_attempt) ?p))) =
        (rr_look (w_ch (pl_world ?p)))(cache_idempotencyKey (om_IdempotencyKey last_attempt) := None)"
    by (rule relay_gives_up [OF laws ok r key v pub, where cap = 60 and lim = 4 and c = c])
      (simp_all add: call_up_def sample_relay_def GetInt_def fits_signed_def last_attempt_def
        mk_outbox_fields rel [unfolded sample_relay_def last_attempt_def, simplified])
  then show ?thesis
    by (auto simp: sample_plant_def last_attempt_def mk_outbox_def idempotencyKey_def)
qed

end
