(* ===== verification/Draining.thy ===== *)
theory Draining
  imports RelayProps
begin

text \<open>
  The drain loop of the relay (\<^verbatim>\<open>CheckAndRelay\<close>, the inner \<^verbatim>\<open>for\<close>), which polls until a batch is
  not full. It ends although every poll may fail to publish, fail to record that, or lose its
  claims: a row taken by a poll cannot be taken again for 30 seconds unless a failed attempt was
  counted, and attempts are limited. And when the broker and the database answer, a drain that ends
  has published every row that was due.
\<close>

section \<open>Attempts left\<close>

text \<open>How often a row can be handed out by polls up to the time \<open>T\<close>, with a limit of \<open>lim\<close>
  attempts.\<close>

definition attempts_left :: "time \<Rightarrow> int \<Rightarrow> outbox_row \<Rightarrow> nat" where
  "attempts_left T lim r =
     (if om_Status r = OutboxStatusPending \<or> stale_claim T r then max 1 (nat (lim - retry_count r)) else 0)"

abbreviation retry_limit :: "('r, 'k) OutboxRelay \<Rightarrow> int" where
  "retry_limit o' \<equiv> GetInt (or_osenv o') ''OUTBOX_MAX_REPUBLISH_RETRIES'' 4"

text \<open>What relaying one row can do to a row of the outbox.\<close>

definition relay_effect :: "int \<Rightarrow> outbox_row \<Rightarrow> outbox_row \<Rightarrow> bool" where
  "relay_effect lim r r' \<longleftrightarrow> r' = r
     \<or> (\<exists>s now. (s = OutboxStatusPublished \<or> s = OutboxStatusFailed) \<and> r' = set_outbox_status s now r)
     \<or> (\<exists>msg cap now. r' = mark_failure msg lim cap now r)"

lemma relay_effect_intros [simp]:
  "relay_effect lim r r"
  "relay_effect lim r (set_outbox_status OutboxStatusPublished now r)"
  "relay_effect lim r (set_outbox_status OutboxStatusFailed now r)"
  "relay_effect lim r (mark_failure msg lim cap now r)"
  unfolding relay_effect_def by blast+

lemma relay_effect_fields:
  assumes "relay_effect lim r r'"
  shows "batch_model r' = batch_model r \<and> retry_count r \<le> retry_count r'"
  using assms by (auto simp: relay_effect_def) (simp_all add: set_outbox_status_def mark_failure_def)

lemma attempts_left_status [simp]:
  "attempts_left T lim (set_outbox_status OutboxStatusPublished now r) = 0"
  "attempts_left T lim (set_outbox_status OutboxStatusFailed now r) = 0"
  "attempts_left T lim (mark_failure msg lim cap now r) = nat (lim - (retry_count r + 1))"
  by (simp_all add: attempts_left_def set_outbox_status_def mark_failure_def stale_claim_def)

definition relayed :: "int \<Rightarrow> string \<Rightarrow> outbox_row list \<Rightarrow> outbox_row list \<Rightarrow> bool" where
  "relayed lim a = list_all2 (\<lambda>r r'. if om_AggregateId r = a then relay_effect lim r r' else r' = r)"

lemma relayed_refl [simp]: "relayed lim a rows rows"
  by (simp add: relayed_def list.rel_refl)

lemma relayed_update:
  "(\<And>r. relay_effect lim r (f r)) \<Longrightarrow>
     relayed lim a rows (update_where (\<lambda>r. om_AggregateId r = a) f rows)"
  by (simp add: relayed_def update_where_def list_all2_map2 list.rel_refl)

lemma mark_failure_relayed:
  "relayed (GetInt env ''OUTBOX_MAX_REPUBLISH_RETRIES'' 4) a (transaction_outbox db)
     (transaction_outbox (snd (OutboxMarkPublishFailure e env a msg db)))"
  using relayed_update [of "GetInt env ''OUTBOX_MAX_REPUBLISH_RETRIES'' 4"
      "mark_failure msg (GetInt env ''OUTBOX_MAX_REPUBLISH_RETRIES'' 4)
        (GetInt env ''OUTBOX_BACKOFF_SECONDS'' 60) (env_now e OutboxMarkPublishFailureC)" a]
  by (auto simp: OutboxMarkPublishFailure_def autocommit_def Let_def
      split: io.splits prod.splits sum.splits if_splits option.splits)

lemma OutboxUpdate_relayed:
  assumes "s = OutboxStatusPublished \<or> s = OutboxStatusFailed"
  shows "relayed lim a (transaction_outbox db) (transaction_outbox (snd (OutboxUpdate e a s db)))"
  using OutboxUpdate_outbox [of e a s db]
    relayed_update [of lim "set_outbox_status s (env_now e OutboxUpdateC)" a] assms
  by auto

lemma relay_row_relayed:
  "relayed (retry_limit o') (om_AggregateId m) (outbox_of p) (outbox_of (relay_row o' e m p))"
  by (auto simp: relay_row_def markFailed_def Let_def on_kafka_eq on_world_eq on_db_def split_beta
      releaseIdempotency_other OutboxUpdate_relayed mark_failure_relayed split: option.splits sum.splits)

section \<open>One poll\<close>

text \<open>Rows before and after a poll that took the aggregates \<open>A\<close>: the rows taken have fewer
  attempts left.\<close>

definition used_up :: "time \<Rightarrow> int \<Rightarrow> string set \<Rightarrow> outbox_row \<Rightarrow> outbox_row \<Rightarrow> bool" where
  "used_up T lim A r r' \<longleftrightarrow> batch_model r' = batch_model r \<and>
     (if om_AggregateId r \<in> A
      then attempts_left T lim r' < attempts_left T lim r \<and> retry_count r \<le> retry_count r'
        \<and> attempts_left T lim r = max 1 (nat (lim - retry_count r))
      else attempts_left T lim r' \<le> attempts_left T lim r)"

lemma used_up_effect:
  assumes "used_up T lim A r r'" and "relay_effect lim r' r''" and "om_AggregateId r \<in> A"
  shows "used_up T lim A r r''"
proof -
  have "attempts_left T lim r'' < max 1 (nat (lim - retry_count r)) \<or> r'' = r'"
    using assms(1,2,3) by (auto simp: relay_effect_def used_up_def)
  then show ?thesis
    using assms(1,3) relay_effect_fields [OF assms(2)] by (auto simp: used_up_def)
qed

lemma used_up_relayed:
  assumes "list_all2 (used_up T lim A) rows rows'" and "relayed lim a rows' rows''" and "a \<in> A"
  shows "list_all2 (used_up T lim A) rows rows''"
  using assms(1,2) unfolding relayed_def
proof (rule list_all2_trans [rotated])
  fix r r' r''
  assume u: "used_up T lim A r r'" and e: "if om_AggregateId r' = a then relay_effect lim r' r'' else r'' = r'"
  have "om_AggregateId r' = om_AggregateId r" using u by (simp add: used_up_def batch_model_def)
  then show "used_up T lim A r r''" using used_up_effect [OF u] u e assms(3) by (auto split: if_splits)
qed

lemma used_up_rows:
  assumes "om_AggregateId ` set ms \<subseteq> A"
    and "list_all2 (used_up T (retry_limit o') A) rows (outbox_of p)"
  shows "list_all2 (used_up T (retry_limit o') A) rows
     (outbox_of (fold (\<lambda>row. relay_row o' (es (om_AggregateId row)) row) ms p))"
  using assms
proof (induction ms arbitrary: p)
  case (Cons m ms)
  then show ?case
    using used_up_relayed [OF Cons.prems(2) relay_row_relayed, of m "es (om_AggregateId m)"] by simp
qed simp

definition claimed_at :: "time \<Rightarrow> string set \<Rightarrow> outbox_row \<Rightarrow> outbox_row" where
  "claimed_at now ids r =
     (if om_ID r \<in> ids then (reclaimed now r)\<lparr>om_Status := OutboxStatusClaimed, om_UpdatedAt := now\<rparr>
      else reclaimed now r)"

lemma claim_reclaim:
  "claim_rows ids now (reclaim_stale now rows) = map (claimed_at now (set ids)) rows"
  by (auto simp: claim_rows_def reclaim_stale_def update_where_def claimed_at_def reclaimed_def)

lemma claimed_at_model [simp]: "batch_model (claimed_at now ids r) = batch_model r"
  by (simp add: claimed_at_def reclaimed_def batch_model_def)

lemma batch_model_keys [simp]:
  "om_ID (batch_model r) = om_ID r" "om_AggregateId (batch_model r) = om_AggregateId r"
  by (simp_all add: batch_model_def)

lemma retry_count_claimed [simp]: "retry_count (claimed_at now ids r) = retry_count r"
  by (simp add: claimed_at_def reclaimed_def)

lemma claimed_at_left:
  assumes "now \<le> T" and "T \<le> now + seconds 30"
  shows "attempts_left T lim (claimed_at now ids r) = (if om_ID r \<in> ids then 0 else attempts_left T lim r)"
  using assms
  by (auto simp: attempts_left_def claimed_at_def reclaimed_def stale_claim_def seconds_def)

lemma claimable_left:
  "claimable now r \<Longrightarrow> now \<le> T \<Longrightarrow> attempts_left T lim r = max 1 (nat (lim - retry_count r))"
  by (auto simp: claimable_def attempts_left_def stale_claim_def)

lemma claim_used_up:
  assumes get: "OutboxPendingGetBatch e locked limit db = (Inr ms, db')"
    and d: "distinct (keys om_AggregateId (transaction_outbox db))"
    and now: "batch_now e \<le> T" "T \<le> batch_now e + seconds 30"
  shows "list_all2 (used_up T lim (om_AggregateId ` set ms)) (transaction_outbox db) (transaction_outbox db')"
proof -
  let ?now = "batch_now e" and ?rows = "transaction_outbox db"
  let ?sel = "select_batch locked ?now (nat limit) (reclaim_stale ?now ?rows)"
  have ms: "ms = map batch_model ?sel"
    and db': "transaction_outbox db' = map (claimed_at ?now (set (map om_ID ?sel))) ?rows"
    using get by (auto simp: batch_Inr Let_def claim_reclaim)
  have "used_up T lim (om_AggregateId ` set ms) r (claimed_at ?now (set (map om_ID ?sel)) r)"
    if r: "r \<in> set ?rows" for r
  proof (cases "om_AggregateId r \<in> om_AggregateId ` set ms")
    case True
    then obtain m where m: "m \<in> set ms" "om_AggregateId m = om_AggregateId r" by auto
    obtain q where q: "q \<in> set ?rows" "claimable ?now q" "m = batch_model q"
      by (rule claimed_in_batch [OF get m(1)])
    then have "q = r" using m distinct_keys_eq [OF d q(1) r] by simp
    moreover have "om_ID m \<in> set (map om_ID ?sel)" using m(1) by (auto simp: ms)
    ultimately show ?thesis
      using True q claimable_left [OF q(2) now(1)] claimed_at_left [OF now]
      by (simp add: used_up_def less_max_iff_disj)
  next
    case False
    then show ?thesis using claimed_at_left [OF now] by (simp add: used_up_def)
  qed
  then show ?thesis unfolding db' list_all2_map2 by (intro list.rel_refl_strong)
qed

definition all_left :: "time \<Rightarrow> int \<Rightarrow> outbox_row list \<Rightarrow> nat" where
  "all_left T lim rows = sum_list (map (attempts_left T lim) rows)"

lemma used_up_left:
  assumes "list_all2 (used_up T lim A) rows rows'"
  shows "all_left T lim rows' + length (filter (\<lambda>r. om_AggregateId r \<in> A) rows) \<le> all_left T lim rows
    \<and> map batch_model rows' = map batch_model rows"
  using assms by (induction) (auto simp: all_left_def used_up_def split: if_splits)

lemma taken_length:
  assumes "OutboxPendingGetBatch e locked limit db = (Inr ms, db')"
    and "distinct (keys om_ID (transaction_outbox db))"
  shows "length ms \<le> length (filter (\<lambda>r. om_AggregateId r \<in> om_AggregateId ` set ms) (transaction_outbox db))"
proof -
  let ?rows = "transaction_outbox db"
  let ?f = "filter (\<lambda>r. om_AggregateId r \<in> om_AggregateId ` set ms) ?rows"
  have "distinct (map om_ID ms)"
    using assms by (auto simp: batch_Inr Let_def comp_def
        intro!: select_batch_distinct [unfolded comp_def])
  then have "length ms = card (om_ID ` set ms)" by (metis distinct_card length_map set_map)
  also have "\<dots> \<le> card (om_ID ` set ?f)"
  proof (rule card_mono)
    have "om_ID m \<in> om_ID ` set ?f" if m: "m \<in> set ms" for m
    proof -
      obtain q where "q \<in> set ?rows" "m = batch_model q" by (rule claimed_in_batch [OF assms(1) m])
      with m show ?thesis by (intro image_eqI [of _ _ q]) (auto intro: rev_image_eqI [of "batch_model q"])
    qed
    then show "om_ID ` set ms \<subseteq> om_ID ` set ?f" by blast
  qed simp
  also have "\<dots> \<le> length ?f" by (metis card_length length_map set_map)
  finally show ?thesis .
qed

lemma poll_uses_attempts:
  assumes ids: "distinct (keys om_ID (outbox_of p))" "distinct (keys om_AggregateId (outbox_of p))"
    and order: "\<And>rows. set (po_order po rows) \<subseteq> set rows"
    and now: "batch_now (po_env po) \<le> T" "T \<le> batch_now (po_env po) + seconds 30"
  shows "all_left T (retry_limit o') (outbox_of (snd (readAndRelay o' po p))) + nat (fst (readAndRelay o' po p))
      \<le> all_left T (retry_limit o') (outbox_of p)
    \<and> map batch_model (outbox_of (snd (readAndRelay o' po p))) = map batch_model (outbox_of p)"
proof -
  let ?get = "OutboxPendingGetBatch (po_env po) (po_locked po) (or_batchSize o')"
  let ?db = "w_db (pl_world p)"
  obtain res db' where g: "?get ?db = (res, db')" by (cases "?get ?db")
  show ?thesis
  proof (cases res)
    case (Inl err)
    have "list_all2 (used_up T (retry_limit o') {}) (outbox_of p) (transaction_outbox db')"
      using batch_state [of "po_env po" "po_locked po" "or_batchSize o'" ?db] g
      by (auto simp: claim_reclaim list_all2_map2 used_up_def claimed_at_left [OF now] intro!: list.rel_refl)
    with used_up_left [OF this] g Inl show ?thesis
      by (simp add: readAndRelay_def on_world_def on_db_def)
  next
    case (Inr ms)
    let ?A = "om_AggregateId ` set ms"
    have "om_AggregateId ` set (po_order po ms) \<subseteq> ?A" using order [of ms] by blast
    from used_up_rows [OF this, of T o' "outbox_of p" "p\<lparr>pl_world := (pl_world p)\<lparr>w_db := db'\<rparr>\<rparr>" "po_row_env po"]
    have "list_all2 (used_up T (retry_limit o') ?A) (outbox_of p) (outbox_of (snd (readAndRelay o' po p)))"
      using claim_used_up [OF g [unfolded Inr] ids(2) now, of "retry_limit o'"] g Inr
      by (simp add: readAndRelay_def on_world_def on_db_def)
    from used_up_left [OF this] taken_length [OF g [unfolded Inr] ids(1)] g Inr show ?thesis
      by (simp add: readAndRelay_def on_world_def on_db_def)
  qed
qed

lemma keys_of_models:
  assumes "map batch_model rows' = map batch_model rows"
  shows "keys om_ID rows' = keys om_ID rows" and "keys om_AggregateId rows' = keys om_AggregateId rows"
  using arg_cong [OF assms, of "map om_ID"] arg_cong [OF assms, of "map om_AggregateId"]
  by (simp_all add: keys_def comp_def)

section \<open>The drain loop ends\<close>

text \<open>The polls of one drain: made within 30 seconds, each relaying only rows of its batch.\<close>

definition within :: "time \<Rightarrow> time \<Rightarrow> relay_poll \<Rightarrow> bool" where
  "within T0 T po \<longleftrightarrow> T0 \<le> batch_now (po_env po) \<and> batch_now (po_env po) \<le> T
     \<and> (\<forall>rows. set (po_order po rows) \<subseteq> set rows)"

lemma drain_bounded:
  assumes "distinct (keys om_ID (outbox_of p))" and "distinct (keys om_AggregateId (outbox_of p))"
    and size: "0 < or_batchSize o'" and T: "T = T0 + seconds 30"
    and "list_all (within T0 T) pos"
    and "int (all_left T (retry_limit o') (outbox_of p)) < int (length pos) * or_batchSize o'"
  shows "fst (drain o' pos p) \<noteq> Unfinished"
  using assms(1,2,5,6)
proof (induction pos arbitrary: p)
  case (Cons po pos)
  obtain n p1 where r: "readAndRelay o' po p = (n, p1)" by (cases "readAndRelay o' po p")
  have po: "batch_now (po_env po) \<le> T" "T \<le> batch_now (po_env po) + seconds 30"
      "\<And>rows. set (po_order po rows) \<subseteq> set rows" and pos: "list_all (within T0 T) pos"
    using Cons.prems(3) T by (auto simp: within_def [of _ _ po])
  have left: "all_left T (retry_limit o') (outbox_of p1) + nat n \<le> all_left T (retry_limit o') (outbox_of p)"
    and models: "map batch_model (outbox_of p1) = map batch_model (outbox_of p)"
    using poll_uses_attempts [OF Cons.prems(1,2) po(3,1,2), of o'] r by simp_all
  show ?case
  proof (cases "n < or_batchSize o'")
    case False
    have "int (all_left T (retry_limit o') (outbox_of p1)) < int (length pos) * or_batchSize o'"
      using left False size Cons.prems(4) by (simp add: algebra_simps)
    from Cons.IH [OF _ _ pos this] Cons.prems(1,2) keys_of_models [OF models] show ?thesis
      by (simp add: r)
  qed (simp add: r)
qed (use size in \<open>simp add: zero_less_mult_iff\<close>)

lemma not_cancelled:
  "list_all (\<lambda>po. \<not> po_done po) pos \<Longrightarrow> fst (drain o' pos p) \<noteq> Cancelled"
  by (induction pos arbitrary: p) (auto simp: split_beta)

text \<open>C9. The drain loop terminates. Whatever fails in the database, in Redis and in the broker, in
  any order of the goroutines and whatever other pollers hold: as long as its polls fall within
  30 seconds and nobody inserts rows between them, a drain makes at most as many full batches as the attempts left to the rows of the
  outbox allow, and then ends.\<close>

theorem drain_ends:
  assumes "schema_ok (w_db (pl_world p))" and "0 < or_batchSize o'"
    and "list_all (within T0 (T0 + seconds 30)) pos"
    and "int (all_left (T0 + seconds 30) (retry_limit o') (outbox_of p)) < int (length pos) * or_batchSize o'"
  shows "fst (drain o' pos p) \<noteq> Unfinished"
  using drain_bounded [OF _ schema_okD(3) [OF assms(1)] assms(2) refl assms(3,4)] assms(1)
  by (simp add: schema_ok_def outbox_ok_def)

theorem drain_ends_witness:
  "fst (drain (sample_relay\<lparr>or_batchSize := 1\<rparr>) (replicate 9 (sample_poll (seconds 60)))
     (sample_plant sample_outbox_db (replicate 9 IoErr))) \<noteq> Unfinished"
proof (rule drain_ends)
  show "list_all (within (seconds 60) (seconds 60 + seconds 30)) (replicate 9 (sample_poll (seconds 60)))"
    by (simp add: within_def sample_poll_def seconds_def list_all_iff)
  show "schema_ok (w_db (pl_world (sample_plant sample_outbox_db (replicate 9 IoErr))))"
    by (simp add: sample_plant_def)
qed (simp_all add: sample_plant_def sample_relay_def sample_outbox_db_def all_left_def attempts_left_def
    mk_outbox_def stale_claim_def seconds_def GetInt_def)

section \<open>A drain publishes what is due\<close>

text \<open>The relay writes to a broker that acknowledges every message as long as it is up.\<close>

definition answers :: "('k \<Rightarrow> bool) \<Rightarrow> 'k kafka_writer \<Rightarrow> bool" where
  "answers up W \<longleftrightarrow> (\<forall>m b. up b \<longrightarrow> \<not> isl (fst (W m b)) \<and> up (snd (W m b)))"

text \<open>A poll during which the database answers, no row is locked and the goroutines take the whole
  batch.\<close>

definition good_poll :: "relay_poll \<Rightarrow> bool" where
  "good_poll po \<longleftrightarrow> call_up OutboxPendingGetBatchC (po_env po) \<and> (\<forall>i. \<not> po_locked po i)
     \<and> (\<forall>a. call_up OutboxUpdateC (po_row_env po a)) \<and> (\<forall>rows. set (po_order po rows) = set rows)"

definition final_row :: "(string \<Rightarrow> db_env) \<Rightarrow> outbox_row \<Rightarrow> outbox_row" where
  "final_row es r =
     set_outbox_status
       (if marshal_envelope (batch_model r) = None then OutboxStatusFailed else OutboxStatusPublished)
       (env_now (es (om_AggregateId r)) OutboxUpdateC) r"

lemma final_row_fields [simp]:
  "batch_model (final_row es r) = batch_model r" "om_AggregateId (final_row es r) = om_AggregateId r"
  by (simp_all add: final_row_def) (simp add: set_outbox_status_def)

lemma final_row_idem: "final_row es (final_row es r) = final_row es r"
  unfolding final_row_def [of _ "final_row es r"] final_row_fields
  by (simp add: final_row_def set_outbox_status_def)

lemma OutboxUpdate_up:
  "call_up OutboxUpdateC e \<Longrightarrow> outbox_status_enum s \<Longrightarrow>
     transaction_outbox (snd (OutboxUpdate e a s db)) = update_where (\<lambda>r. om_AggregateId r = a)
       (set_outbox_status s (env_now e OutboxUpdateC)) (transaction_outbox db)"
  by (simp add: OutboxUpdate_def call_up_def autocommit_def split: prod.splits sum.splits)

lemma update_where_agree:
  "(\<And>r. r \<in> set rows \<Longrightarrow> q r \<Longrightarrow> f r = g r) \<Longrightarrow> update_where q f rows = update_where q g rows"
  by (auto simp: update_where_def)

lemma relay_row_good:
  assumes W: "mk_writer (pr_messaging (or_publisher o')) = Some W" "answers up W" "up (pl_kafka p)"
    and e: "call_up OutboxUpdateC (es (om_AggregateId m))"
    and d: "distinct (keys om_AggregateId (outbox_of p))" and m: "m \<in> set (map batch_model (outbox_of p))"
  shows "outbox_of (relay_row o' (es (om_AggregateId m)) m p)
      = update_where (\<lambda>r. om_AggregateId r = om_AggregateId m) (final_row es) (outbox_of p)
    \<and> up (pl_kafka (relay_row o' (es (om_AggregateId m)) m p))"
proof -
  have mm: "batch_model r = m" if "r \<in> set (outbox_of p)" "om_AggregateId r = om_AggregateId m" for r
    using same_model [OF _ m that] d by (simp add: keys_def comp_def)
  let ?s = "if marshal_envelope m = None then OutboxStatusFailed else OutboxStatusPublished"
  have "update_where (\<lambda>r. om_AggregateId r = om_AggregateId m)
      (set_outbox_status ?s (env_now (es (om_AggregateId m)) OutboxUpdateC)) (outbox_of p)
    = update_where (\<lambda>r. om_AggregateId r = om_AggregateId m) (final_row es) (outbox_of p)"
    by (rule update_where_agree) (simp add: final_row_def mm)
  moreover have "\<not> isl (fst (Publish (or_publisher o') k v (pl_kafka p)))
      \<and> up (snd (Publish (or_publisher o') k v (pl_kafka p)))" for k v
    using W by (auto simp: Publish_def PublishMessage_def answers_def split: prod.splits sum.splits)
      (metis fst_conv snd_conv isl_def)+
  ultimately show ?thesis
    using W(3) OutboxUpdate_up [OF e, of ?s "om_AggregateId m"]
    by (cases "marshal_envelope m") (auto simp: relay_row_def markFailed_def Let_def on_kafka_eq on_world_eq
        on_db_def split_beta releaseIdempotency_other isl_def split: sum.splits)
qed

lemma update_where_twice:
  assumes "\<And>r. f (f r) = f r" and "\<And>r. k (f r) = k r"
  shows "update_where (\<lambda>r. k r \<in> A) f (update_where (\<lambda>r. k r = a) f rows)
    = update_where (\<lambda>r. k r \<in> insert a A) f rows"
  using assms by (auto simp: update_where_def)

lemma relay_rows_good:
  assumes W: "mk_writer (pr_messaging (or_publisher o')) = Some W" "answers up W"
    and es: "\<And>a. call_up OutboxUpdateC (es a)"
    and "up (pl_kafka p)" and "distinct (keys om_AggregateId (outbox_of p))"
    and "set ms \<subseteq> set (map batch_model (outbox_of p))"
  shows "outbox_of (fold (\<lambda>row. relay_row o' (es (om_AggregateId row)) row) ms p)
      = update_where (\<lambda>r. om_AggregateId r \<in> om_AggregateId ` set ms) (final_row es) (outbox_of p)
    \<and> up (pl_kafka (fold (\<lambda>row. relay_row o' (es (om_AggregateId row)) row) ms p))"
  using assms(4-6)
proof (induction ms arbitrary: p)
  case Nil
  then show ?case by (simp add: update_where_def)
next
  case (Cons m ms)
  let ?p = "relay_row o' (es (om_AggregateId m)) m p"
  have 1: "outbox_of ?p = update_where (\<lambda>r. om_AggregateId r = om_AggregateId m) (final_row es) (outbox_of p)"
    "up (pl_kafka ?p)"
    using relay_row_good [of o' W up p es m] W es Cons.prems by auto
  have models: "map batch_model (outbox_of ?p) = map batch_model (outbox_of p)"
    unfolding 1 by (rule models_update) simp
  have "set ms \<subseteq> set (map batch_model (outbox_of ?p))"
    unfolding models using Cons.prems(3) by simp
  from Cons.IH [OF 1(2) _ this] Cons.prems(2) keys_of_models(2) [OF models] show ?case
    by (simp add: 1(1) update_where_twice final_row_idem)
qed

text \<open>The outbox after a good poll that took the rows \<open>ids\<close>.\<close>

definition polled :: "(string \<Rightarrow> db_env) \<Rightarrow> time \<Rightarrow> string set \<Rightarrow> outbox_row \<Rightarrow> outbox_row" where
  "polled es now ids r =
     (if om_ID r \<in> ids then final_row es (claimed_at now ids r) else reclaimed now r)"

lemma good_poll_outbox:
  assumes W: "mk_writer (pr_messaging (or_publisher o')) = Some W" "answers up W" "up (pl_kafka p)"
    and po: "good_poll po" and size: "0 < or_batchSize o'"
    and d: "distinct (keys om_AggregateId (outbox_of p))" "distinct (keys om_ID (outbox_of p))"
  obtains ids n p' where "readAndRelay o' po p = (n, p')" and "up (pl_kafka p')"
    and "outbox_of p' = map (polled (po_row_env po) (batch_now (po_env po)) ids) (outbox_of p)"
    and "\<And>r. n < or_batchSize o' \<Longrightarrow> r \<in> set (outbox_of p) \<Longrightarrow>
        claimable (batch_now (po_env po)) r \<Longrightarrow> om_ID r \<in> ids"
proof -
  let ?now = "batch_now (po_env po)" and ?rows = "outbox_of p" and ?db = "w_db (pl_world p)"
  let ?due = "filter (\<lambda>r. due ?now r \<and> \<not> po_locked po (om_ID r)) (reclaim_stale ?now ?rows)"
  let ?sel = "select_batch (po_locked po) ?now (nat (or_batchSize o')) (reclaim_stale ?now ?rows)"
  let ?ms = "map batch_model ?sel" and ?ids = "om_ID ` set ?sel"
  let ?p1 = "p\<lparr>pl_world := (pl_world p)\<lparr>w_db := ?db\<lparr>transaction_outbox := map (claimed_at ?now ?ids) ?rows\<rparr>\<rparr>\<rparr>"
  let ?p' = "fold (\<lambda>row. relay_row o' (po_row_env po (om_AggregateId row)) row) (po_order po ?ms) ?p1"
  have sel: "\<exists>r. r \<in> set ?rows \<and> claimable ?now r \<and> q = reclaimed ?now r" if "q \<in> set ?sel" for q
    using select_batch_set [OF that] by (auto simp: set_reclaim reclaimed_due)
  have run: "readAndRelay o' po p = (int (length ?sel), ?p')"
    using po size by (simp add: readAndRelay_def on_world_def on_db_def good_poll_def call_up_def
        batch_Inr [THEN iffD2] Let_def claim_reclaim)
  have models: "map batch_model (outbox_of ?p1) = map batch_model ?rows" by (simp add: comp_def)
  have order: "set (po_order po ?ms) = batch_model ` set ?sel" using po by (simp add: good_poll_def)
  have "set (po_order po ?ms) \<subseteq> set (map batch_model (outbox_of ?p1))"
    unfolding models order using sel by fastforce
  from relay_rows_good [OF W(1,2) _ _ _ this, of "po_row_env po"]
  have r: "outbox_of ?p' = update_where (\<lambda>r. om_AggregateId r \<in> om_AggregateId ` set ?sel)
        (final_row (po_row_env po)) (map (claimed_at ?now ?ids) ?rows)" "up (pl_kafka ?p')"
    using W(3) po d(1) keys_of_models(2) [OF models] by (simp_all add: good_poll_def order image_image)
  have ids: "om_AggregateId r \<in> om_AggregateId ` set ?sel \<longleftrightarrow> om_ID r \<in> ?ids" if "r \<in> set ?rows" for r
    using sel distinct_keys_eq [OF d(1) that] distinct_keys_eq [OF d(2) that]
    by (smt (verit) image_iff reclaimed_fields(1,2))
  show thesis
  proof (rule that [OF run r(2), of ?ids])
    show "outbox_of ?p' = map (polled (po_row_env po) ?now ?ids) ?rows"
      unfolding r(1) using ids by (auto simp: update_where_def polled_def claimed_at_def)
  next
    fix r assume r: "r \<in> set ?rows"
    show "om_ID r \<in> ?ids" if "int (length ?sel) < or_batchSize o'" "claimable ?now r"
    proof -
      have "?sel = sort_key om_CreatedAt ?due" using that(1) by (auto simp: select_batch_def min_def split: if_splits)
      moreover have "reclaimed ?now r \<in> set ?due"
        using that(2) r po by (auto simp: set_reclaim reclaimed_due good_poll_def)
      ultimately have "reclaimed ?now r \<in> set ?sel" by (simp only: set_sort)
      then show ?thesis by (rule rev_image_eqI) simp
    qed
  qed
qed

text \<open>Rows on their way: published, or still to be taken by a poll at or after \<open>T0\<close>.\<close>

definition under_way :: "time \<Rightarrow> outbox_row \<Rightarrow> bool" where
  "under_way T0 r \<longleftrightarrow> om_Status r = OutboxStatusPublished \<or> claimable T0 r"

lemma claimable_later: "claimable t r \<Longrightarrow> t \<le> t' \<Longrightarrow> claimable t' r"
  by (auto simp: claimable_def stale_claim_def)

lemma polled_model [simp]: "batch_model (polled es now ids r) = batch_model r"
  by (simp add: polled_def)

lemma polled_taken:
  assumes "om_ID r \<in> ids" and "marshal_envelope (batch_model r) \<noteq> None"
  shows "om_Status (polled es now ids r) = OutboxStatusPublished"
  using assms by (simp add: polled_def final_row_def set_outbox_status_def)

lemma polled_left:
  assumes "under_way T0 r" and "T0 \<le> now" and "om_ID r \<notin> ids"
  shows "under_way T0 (polled es now ids r)"
  using assms by (auto simp: polled_def under_way_def reclaimed_def claimable_def stale_claim_def)

lemma drain_publishes_due:
  assumes W: "mk_writer (pr_messaging (or_publisher o')) = Some W" "answers up W"
    and size: "0 < or_batchSize o'"
    and "up (pl_kafka p)" "distinct (keys om_AggregateId (outbox_of p))" "distinct (keys om_ID (outbox_of p))"
    and "list_all (\<lambda>po. good_poll po \<and> T0 \<le> batch_now (po_env po)) pos"
    and "drain o' pos p = (Drained, p')"
    and "r \<in> set (outbox_of p)" "under_way T0 r" "marshal_envelope (batch_model r) \<noteq> None"
  shows "\<exists>r' \<in> set (outbox_of p'). batch_model r' = batch_model r \<and> om_Status r' = OutboxStatusPublished"
  using assms(4-11)
proof (induction pos arbitrary: p r)
  case (Cons po pos)
  have po: "good_poll po" and t: "T0 \<le> batch_now (po_env po)" using Cons.prems(4) by auto
  obtain ids n p1 where run: "readAndRelay o' po p = (n, p1)" and up: "up (pl_kafka p1)"
    and rows: "outbox_of p1 = map (polled (po_row_env po) (batch_now (po_env po)) ids) (outbox_of p)"
    and all: "\<And>r. n < or_batchSize o' \<Longrightarrow> r \<in> set (outbox_of p) \<Longrightarrow>
        claimable (batch_now (po_env po)) r \<Longrightarrow> om_ID r \<in> ids"
    by (rule good_poll_outbox [OF W Cons.prems(1) po size Cons.prems(2,3)]) (rule that, assumption+)
  let ?r = "polled (po_row_env po) (batch_now (po_env po)) ids r"
  have r1: "?r \<in> set (outbox_of p1)" using Cons.prems(6) by (simp add: rows)
  have way: "under_way T0 ?r"
    using polled_taken [OF _ Cons.prems(8)] polled_left [OF Cons.prems(7) t]
    by (cases "om_ID r \<in> ids") (auto simp: under_way_def)
  have "map batch_model (outbox_of p1) = map batch_model (outbox_of p)" by (simp add: rows)
  note k = keys_of_models [OF this]
  show ?case
  proof (cases "n < or_batchSize o'")
    case True
    have "om_Status ?r = OutboxStatusPublished"
    proof (cases "om_ID r \<in> ids")
      case False
      then have "\<not> claimable T0 r" using all [OF True Cons.prems(6)] claimable_later [OF _ t] by blast
      then show ?thesis
        using Cons.prems(7) False by (auto simp: under_way_def polled_def reclaimed_def stale_claim_def)
    qed (use polled_taken [OF _ Cons.prems(8)] in \<open>auto\<close>)
    moreover have "p1 = p'" using Cons.prems(5) True run by simp
    ultimately show ?thesis using r1 by (intro bexI [of _ ?r]) simp_all
  next
    case False
    then have "drain o' pos p1 = (Drained, p')" using Cons.prems(5) run by (simp split: if_splits)
    with Cons.IH [OF up _ _ _ this r1 way] Cons.prems(2,3,4,8) k show ?thesis by simp
  qed
qed simp

text \<open>While the broker and the database answer, a drain publishes everything that is due: with
  as many polls as the termination bound asks for, all within 30 seconds and none cancelled, the
  drain ends, and every row that was pending and due or whose claim was abandoned when it began
  is marked published.\<close>

theorem drain_publishes:
  assumes "mk_writer (pr_messaging (or_publisher o')) = Some W" and "answers up W" and "up (pl_kafka p)"
    and "schema_ok (w_db (pl_world p))" and "0 < or_batchSize o'"
    and "list_all (\<lambda>po. good_poll po \<and> within T0 (T0 + seconds 30) po \<and> \<not> po_done po) pos"
    and "int (all_left (T0 + seconds 30) (retry_limit o') (outbox_of p)) < int (length pos) * or_batchSize o'"
  shows "\<exists>p'. drain o' pos p = (Drained, p')
    \<and> (\<forall>r \<in> set (outbox_of p). claimable T0 r \<and> marshal_envelope (batch_model r) \<noteq> None \<longrightarrow>
         (\<exists>r' \<in> set (outbox_of p'). batch_model r' = batch_model r \<and> om_Status r' = OutboxStatusPublished))"
proof -
  note d = schema_okD(3) [OF assms(4)]
  have i: "distinct (keys om_ID (outbox_of p))" using assms(4) by (simp add: schema_ok_def outbox_ok_def)
  have pos: "list_all (within T0 (T0 + seconds 30)) pos" "list_all (\<lambda>po. \<not> po_done po) pos"
    "list_all (\<lambda>po. good_poll po \<and> T0 \<le> batch_now (po_env po)) pos"
    using assms(6) by (simp_all add: list_all_iff) (auto simp: within_def)
  have "fst (drain o' pos p) = Drained"
    using drain_bounded [OF i d assms(5) refl pos(1) assms(7)] not_cancelled [OF pos(2), of o' p]
    by (cases "fst (drain o' pos p)") auto
  then obtain p' where run: "drain o' pos p = (Drained, p')" by (metis prod.collapse)
  with drain_publishes_due [OF assms(1,2,5,3) d i pos(3) run] show ?thesis
    by (auto simp: under_way_def)
qed

theorem drain_publishes_witness:
  "\<exists>p'. drain (sample_relay\<lparr>or_batchSize := 1\<rparr>) (replicate 9 (sample_poll (seconds 60)))
       (sample_plant sample_outbox_db []) = (Drained, p')
     \<and> (\<exists>r' \<in> set (outbox_of p'). om_AggregateId r' = ''t2'' \<and> om_Status r' = OutboxStatusPublished)"
proof -
  let ?o = "sample_relay\<lparr>or_batchSize := 1\<rparr>" and ?p = "sample_plant sample_outbox_db []"
  let ?pos = "replicate 9 (sample_poll (seconds 60))" and ?r = "mk_outbox ''o2'' ''t2'' OutboxStatusClaimed 2"
  have "answers (\<lambda>b. rb_faults b = []) kafka_ref" by (simp add: answers_def kafka_ref_def)
  moreover have "list_all (\<lambda>po. good_poll po \<and> within (seconds 60) (seconds 60 + seconds 30) po \<and> \<not> po_done po) ?pos"
    by (simp add: within_def good_poll_def call_up_def sample_poll_def seconds_def list_all_iff)
  moreover have "all_left (seconds 60 + seconds 30) (retry_limit ?o) (outbox_of ?p) = 8"
    by (simp add: sample_plant_def sample_relay_def sample_outbox_db_def all_left_def attempts_left_def
        mk_outbox_def stale_claim_def seconds_def GetInt_def)
  ultimately obtain p' where "drain ?o ?pos ?p = (Drained, p')"
    and pub: "\<And>r. r \<in> set (outbox_of ?p) \<Longrightarrow> claimable (seconds 60) r \<Longrightarrow> marshal_envelope (batch_model r) \<noteq> None \<Longrightarrow>
      \<exists>r' \<in> set (outbox_of p'). batch_model r' = batch_model r \<and> om_Status r' = OutboxStatusPublished"
    using drain_publishes [of ?o kafka_ref "\<lambda>b. rb_faults b = []" ?p "seconds 60" ?pos]
    by (auto simp: sample_relay_def sample_plant_def)
  moreover have "\<exists>r' \<in> set (outbox_of p'). batch_model r' = batch_model ?r \<and> om_Status r' = OutboxStatusPublished"
    by (rule pub) (simp_all add: sample_plant_def sample_outbox_db_def mk_outbox_def claimable_def
        stale_claim_def seconds_def marshal_envelope_def marshal_time_def batch_model_def)
  ultimately show ?thesis
    by (metis batch_model_keys(2) mk_outbox_fields(2))
qed

end
