(* ===== verification/Redelivery.thy ===== *)
theory Redelivery
  imports History
begin

text \<open>
  What happens to an event that is delivered again, and where the code falls short: a settled
  transaction never moves money twice; but a transaction that had failed is marked completed
  by a second delivery although nothing is booked, a withdrawal that is rejected early leaves
  the lock of its request in place, and a cached balance outlives the deposit that changed it.
\<close>

section \<open>A settled transaction moves no money\<close>

definition settled :: "string \<Rightarrow> database \<Rightarrow> bool" where
  "settled tid db \<longleftrightarrow> tid \<in> set (keys tm_ID (transactions db)) \<and>
     (\<forall>t \<in> set (transactions db). \<not> pending_row tid t)"

lemma insert_pending_settled:
  assumes "sql_insert_pending tid ty fr to cur amt now db = (Inr u, db1)" and "settled tid db"
  shows "db1 = db"
  using assms by (simp add: sql_insert_pending_Inr settled_def)

context settlement
begin

lemma record_settled:
  assumes "schema_ok (w_db w)" and "settled tid (w_db w)"
  shows "accounts (w_db (snd (settle_and_record R e tid uid acc msg (move e) w))) = accounts (w_db w)"
proof -
  let ?w1 = "w\<lparr>w_db := snd (move e (w_db w))\<rparr>"
  have m: "snd (move e (w_db w)) = w_db w"
    using move_redelivered [OF assms(1)] assms(2) by (simp add: settled_def)
  have "accounts (w_db (snd (UpdateTransactionStatus R e tid uid acc s ?w1))) = accounts (w_db w)"
    if "transaction_status_enum s" for s
    using status_update_db [OF that, of R e tid uid acc ?w1] m by auto
  then show ?thesis by (simp add: settle_and_record_eq Let_def split: sum.splits)
qed

lemma pend_record_settled:
  assumes "schema_ok (w_db w)" and "settled tid (w_db w)"
  shows "accounts (w_db (snd (pend_then e tid ty fr to cur amt pmsg
    (settle_and_record R e tid uid acc msg (move e)) w))) = accounts (w_db w)"
proof (rule pend_then_inv [where P = "\<lambda>db. accounts db = accounts (w_db w)"])
  fix db1
  assume "insert_pending e tid ty fr to cur amt (w_db w) = (Inr (), db1)"
  then have "db1 = w_db w" using assms(2) by (rule insert_pending_settled)
  then show "accounts db1 = accounts (w_db w)"
    and "accounts (w_db (snd (settle_and_record R e tid uid acc msg (move e) (w\<lparr>w_db := db1\<rparr>)))) =
      accounts (w_db w)"
    using record_settled [OF assms] by auto
qed simp

end

lemma withdraw_settled:
  assumes "schema_ok (w_db w)" and "settled tid (w_db w)"
  shows "accounts (w_db (snd (withdraw R e tid uid acc amt w))) = accounts (w_db w)"
proof (rule withdraw_inv [where P = "\<lambda>db. accounts db = accounts (w_db w)"])
  fix cur db1 account
  assume "insert_pending e tid ''withdrawal'' acc acc cur amt (w_db w) = (Inr (), db1)"
  then have "db1 = w_db w" using assms(2) by (rule insert_pending_settled)
  then show "accounts db1 = accounts (w_db w)"
    and "accounts (w_db (snd (withdraw_tail R e tid uid account acc amt (w\<lparr>w_db := db1\<rparr>)))) =
      accounts (w_db w)"
    using wdr.record_settled [OF assms]
    by (auto simp: withdraw_tail_def split_beta status_failed_accounts)
qed simp

text \<open>C13. An event whose transaction is settled, be it completed, failed or rejected, moves no
  money when it is delivered again, whatever fails and even if it carries other accounts or
  another amount.\<close>

theorem redelivery_moves_nothing:
  assumes "schema_ok (w_db w)" and "settled (req_id rq) (w_db w)"
  shows "accounts (w_db (snd (run_request R e rq w))) = accounts (w_db w)"
  using assms dep.pend_record_settled [OF assms(1)] trf.pend_record_settled [OF assms(1)] withdraw_settled
  by (cases rq) (auto simp: deposit_pend transfer_pend)

theorem redelivery_moves_nothing_witness:
  "accounts (w_db (snd (run_request redis_ref (healthy 5)
     (DepositReq ''t0'' ''u1'' ''a1'' ''USD'' 1000) sample))) = accounts sample_db"
proof -
  have "settled ''t0'' sample_db" by (simp add: settled_def fixture_defs pending_row_def)
  then show ?thesis
    using redelivery_moves_nothing [of sample "DepositReq ''t0'' ''u1'' ''a1'' ''USD'' 1000" redis_ref "healthy 5"]
    by simp
qed

section \<open>A failed transaction is marked completed\<close>

text \<open>Setting the status of a row by hand, whatever it was.\<close>

lemma ledger_sum_status:
  assumes "distinct (keys tm_ID ts)" and "t \<in> set ts" and "tm_ID t = tid"
  shows "ledger_sum a (update_where (\<lambda>t. tm_ID t = tid) (\<lambda>t. t\<lparr>tm_Status := s, tm_UpdatedAt := now\<rparr>) ts) =
    ledger_sum a ts + (if involves a t then (if s = TransactionStatusCompleted then contribution a t else 0)
      - (if tm_Status t = TransactionStatusCompleted then contribution a t else 0) else 0)"
  using assms(1,2)
proof (induction ts)
  case Nil
  then show ?case by simp
next
  case (Cons r ts)
  show ?case
  proof (cases "r = t")
    case True
    have "update_where (\<lambda>t. tm_ID t = tid) (\<lambda>t. t\<lparr>tm_Status := s, tm_UpdatedAt := now\<rparr>) ts = ts"
      using Cons.prems(1) assms(3) True by (intro update_where_cong_set) (auto simp: set_keys)
    with True assms(3) show ?thesis by (simp add: ledger_sum_Cons)
  next
    case False
    with Cons.prems assms(3) have "t \<in> set ts" "tm_ID r \<noteq> tid" by (auto simp: keys_def)
    with Cons show ?thesis by (simp add: ledger_sum_Cons)
  qed
qed

lemma status_update_up:
  assumes "call_up UpdateTransactionStatusC e" and "transaction_status_enum s"
    and "rows_where (\<lambda>t. tm_ID t = tid) (transactions (w_db w)) = 1"
  shows "w_db (snd (UpdateTransactionStatus R e tid uid acc s w)) =
    status_set tid s (env_now e UpdateTransactionStatusC) (w_db w)"
  using assms
  by (simp add: UpdateTransactionStatus_def Let_def on_db_eq WithTransaction_def run_tx_def
      call_up_def in_tx_def sql_set_status_def status_set_def on_ch_def split_beta)

text \<open>C29. A deposit that failed, when its event is delivered again while everything answers,
  reports success and its row becomes completed, although the money was never credited: the
  balance no longer agrees with the ledger.\<close>

theorem failed_deposit_redelivered:
  assumes ok: "schema_ok (w_db w)" and books: "books_balanced (w_db w)"
    and t: "t \<in> set (transactions (w_db w))" "tm_ID t = tid" "tm_Status t = TransactionStatusFailed"
      "transaction_type t = ''deposit''" "tm_FromAccount t = acc" "tm_ToAccount t = acc" "tm_Amount t = amt"
    and up: "call_up CreatePendingTransactionC e" "call_up DepositFundsC e" "call_up UpdateTransactionStatusC e"
  shows "\<exists>r w'. deposit R e tid uid acc cur amt w = (Inr r, w')
    \<and> status_of (w_db w') tid = Some TransactionStatusCompleted
    \<and> accounts (w_db w') = accounts (w_db w) \<and> \<not> books_balanced (w_db w')"
proof -
  let ?db = "w_db w" and ?now = "env_now e UpdateTransactionStatusC"
  let ?db' = "status_set tid TransactionStatusCompleted ?now ?db"
  have row: "transaction_row_ok (keys am_ID (accounts ?db)) t" by (rule schema_okD(5) [OF ok t(1)])
  have amt: "0 < amt" and acc: "acc \<in> set (keys am_ID (accounts ?db))"
    using row t by (auto simp: transaction_row_ok_def)
  have np: "\<not> pending_row tid x" if "x \<in> set (transactions ?db)" for x
    using distinct_keys_eq [OF schema_okD(2) [OF ok] that t(1)] t(2,3) by (auto simp: pending_row_def)
  have find: "List.find (\<lambda>x. tm_ID x = tid) (transactions ?db) = Some t"
    using find_key_Some [OF schema_okD(2) [OF ok] t(1)] t(2) by simp
  have ins: "insert_pending e tid ''deposit'' acc acc cur amt ?db = (Inr (), ?db)"
    using t(1,2) amt by (auto simp: sql_insert_pending_Inr transaction_type_enum_def set_keys)
  have "settle_spec tid [acc] (env_now e DepositFundsC) ?db = Some ?db"
    using np by (auto simp: settle_spec_def)
  then have mv: "DepositFunds e tid acc cur amt ?db = (Inr (TransactionModel.truncate t), ?db)"
    using find up(2) by (intro dep.move_up [OF ok]) (simp_all add: sql_select_transaction_def)
  have one: "rows_where (\<lambda>x. tm_ID x = tid) (transactions ?db) = 1"
    using rows_where_key_one [OF schema_okD(2) [OF ok] t(1)] t(2) by simp
  have rec: "settle_and_record R e tid uid acc msg (DepositFunds e tid acc cur amt) w =
      (Inr (transaction_of_model (TransactionModel.truncate t)),
       snd (UpdateTransactionStatus R e tid uid acc TransactionStatusCompleted w))" for msg
    by (simp add: settle_and_record_eq mv Let_def)
  have st: "w_db (snd (UpdateTransactionStatus R e tid uid acc TransactionStatusCompleted w)) = ?db'"
    by (rule status_update_up [OF up(3) _ one]) simp
  have "\<not> books_balanced ?db'"
  proof -
    obtain b where b: "b \<in> set (accounts ?db)" "am_ID b = acc" using acc by (auto simp: set_keys)
    have "ledger_sum acc (transactions ?db') = ledger_sum acc (transactions ?db) + amt"
      using ledger_sum_status [OF schema_okD(2) [OF ok] t(1,2), where a = acc and s = TransactionStatusCompleted and now = ?now] t
      by (simp add: status_set_def involves_def contribution_def)
    then show ?thesis using books b amt by (force simp: books_balanced_def)
  qed
  moreover have "status_of ?db' tid = Some TransactionStatusCompleted"
    using find by (simp add: status_of_def status_set_def find_update_where t(2))
  ultimately show ?thesis
    using amt st rec by (simp add: deposit_pend pend_then_up [OF up(1) ins])
qed

theorem failed_deposit_redelivered_witness:
  "\<exists>r w'. deposit redis_ref (healthy 5) ''t1'' ''u1'' ''a1'' ''USD'' 500 (sample\<lparr>w_db := failed_db\<rparr>)
       = (Inr r, w')
    \<and> status_of (w_db w') ''t1'' = Some TransactionStatusCompleted
    \<and> accounts (w_db w') = accounts failed_db \<and> \<not> books_balanced (w_db w')"
proof -
  have "schema_ok failed_db" "books_balanced failed_db"
    using sample_schema sample_books
    by (auto simp: failed_db_def schema_ok_def transactions_ok_def transaction_row_ok_def
        transaction_type_enum_def fits_signed_def books_balanced_def ledger_sum_append ledger_sum_Cons
        fixture_defs)
  then show ?thesis
    using failed_deposit_redelivered [of "sample\<lparr>w_db := failed_db\<rparr>"
        "mk_row ''t1'' ''deposit'' ''a1'' ''a1'' 500 TransactionStatusFailed" "''t1''" "''a1''" 500
        "healthy 5" redis_ref "''u1''" "''USD''"]
    by (simp add: failed_db_def mk_row_def new_transaction_def call_up_def)
qed

section \<open>An early rejection keeps the lock\<close>

text \<open>A withdrawal of nothing, by somebody who does not own the account, or of more than
  the account has, is rejected before anything is written: no row records it, and the lock its
  request took in the cache stays until it expires.\<close>

theorem early_rejection_changes_nothing:
  assumes "amt \<le> 0 \<or> (\<forall>a \<in> set (accounts (w_db w)). am_ID a = acc \<longrightarrow> am_UserID a = uid \<longrightarrow> am_Balance a < amt)"
  shows "\<exists>err. withdraw R e tid uid acc amt w = (Inl err, w)"
proof (cases "0 < amt")
  case True
  show ?thesis
  proof (cases "fst (checkUserAccountCompatibility e uid acc (w_db w))")
    case (Some a)
    then have "a \<in> set (accounts (w_db w)) \<and> am_ID a = acc \<and> am_UserID a = uid"
      by (auto simp: check_account split: if_splits option.splits dest!: find_SomeD)
    with assms True have "am_Balance a < amt" by auto
    with Some True show ?thesis by (simp add: withdraw_pend)
  qed (simp add: withdraw_pend)
qed (simp add: withdraw_pend)

theorem early_rejection_changes_nothing_witness:
  "\<exists>err. withdraw redis_ref (healthy 5) ''t1'' ''u1'' ''a1'' 2000 (sample\<lparr>w_ch := sample_locked\<rparr>)
     = (Inl err, sample\<lparr>w_ch := sample_locked\<rparr>)"
proof -
  have "\<forall>a \<in> set (accounts sample_db). am_Balance a < 2000" by (simp add: fixture_defs)
  then show ?thesis by (intro early_rejection_changes_nothing) simp
qed

section \<open>The cached balance\<close>

lemma balance_key_differs [simp]: "balanceKey a \<noteq> cache_idempotencyKey x"
  by (simp add: balanceKey_def cache_idempotencyKey_def)

lemma status_update_cache:
  assumes "redis_laws R look"
  shows "look (w_ch (snd (UpdateTransactionStatus R e tid uid acc s w))) (balanceKey a) =
    look (w_ch w) (balanceKey a)"
proof -
  have "look (snd (TransactionIdempotencyRelease R k r)) (balanceKey a) = look r (balanceKey a)" for k r
    using redis_laws.release_state [OF assms prod.collapse [symmetric], of k r] by auto
  then show ?thesis
    by (simp add: UpdateTransactionStatus_def Let_def on_db_def on_ch_def split_beta split: sum.splits)
qed

lemma deposit_cache:
  assumes "redis_laws R look"
  shows "look (w_ch (snd (deposit R e tid uid acc cur amt w))) (balanceKey a) = look (w_ch w) (balanceKey a)"
  using status_update_cache [OF assms]
  by (simp add: deposit_pend pend_then_def settle_and_record_eq on_db_def Let_def split_beta split: sum.splits)

text \<open>C31. No deposit invalidates the cached balance of its account: as long as the entry lives
  and the cache answers, the owner is shown the balance from before the deposit.\<close>

theorem cached_balance_is_stale:
  assumes laws: "redis_laws R look"
    and c: "look (w_ch w) (balanceKey acc) = Some (RInt b)"
    and d: "deposit R e tid uid acc cur amt w = (Inr t, w1)"
    and g: "redis_Get R (balanceKey acc) (w_ch w1) = (Inr v, r)"
    and bal: "GetBalance R env e' user acc w1 = (Inr account, w2)"
  shows "da_Balance account = b"
proof -
  have l: "look (w_ch w1) (balanceKey acc) = Some (RInt b)"
    using deposit_cache [OF laws, of e tid uid acc cur amt w acc] c d by simp
  then have v: "v = RInt b" using redis_laws.get_ok [OF laws g] by simp
  have "Cache_GetOrStoreAccountBalance R env acc x (w_ch w1) = (Inr b, r)" for x
    using g v by (simp add: balance_Inr)
  then show ?thesis
    using bal
    by (auto simp: GetBalance_def check_account GetOrStoreAccountBalance_def on_ch_def account_of_model_def
        split: if_splits option.splits)
qed

theorem cached_balance_is_stale_witness:
  "\<exists>t w1 account w2.
     deposit redis_ref (healthy 5) ''t1'' ''u1'' ''a1'' ''USD'' 500 sample_cached = (Inr t, w1) \<and>
     GetBalance redis_ref (\<lambda>_. None) (healthy 6) ''u1'' ''a1'' w1 = (Inr account, w2) \<and>
     da_Balance account = 1000"
proof -
  let ?d = "deposit redis_ref (healthy 5) ''t1'' ''u1'' ''a1'' ''USD'' 500 sample_cached"
  have "\<not> isl (fst ?d)" by code_simp
  then obtain t w1 where d: "?d = (Inr t, w1)" by (rule run_Inr)
  have "\<not> isl (fst (GetBalance redis_ref (\<lambda>_. None) (healthy 6) ''u1'' ''a1'' (snd ?d)))" by code_simp
  then obtain account w2 where g:
    "GetBalance redis_ref (\<lambda>_. None) (healthy 6) ''u1'' ''a1'' w1 = (Inr account, w2)"
    using d by (metis run_Inr snd_conv)
  have "\<not> isl (fst (redis_Get redis_ref (balanceKey ''a1'') (w_ch (snd ?d))))" by code_simp
  then obtain v r where "redis_Get redis_ref (balanceKey ''a1'') (w_ch w1) = (Inr v, r)"
    using d by (metis run_Inr snd_conv)
  moreover have "rr_look (w_ch sample_cached) (balanceKey ''a1'') = Some (RInt 1000)" by code_simp
  ultimately have "da_Balance account = 1000"
    using cached_balance_is_stale [OF ref.redis_laws_axioms _ d _ g] by blast
  with d g show ?thesis by blast
qed

end
