(* ===== verification/EventDispatcher.thy ===== *)
theory EventDispatcher
  imports WalletService Relay
begin

text \<open>
  \<^verbatim>\<open>wallet-service/internal/services/event_dispatcher.go\<close> and the consumer loop of
  \<^verbatim>\<open>shared/events/kafka.go\<close>: a message is fetched, decoded, handed to the handler of its event
  type, and committed, left uncommitted, or sent to the dead-letter topic.
\<close>

section \<open>Dispatcher\<close>

record Envelope =
  ev_EventId :: string
  ev_EventType :: string
  ev_AggregateId :: string
  ev_OccurredAt :: time
  ev_Version :: int
  ev_Payload :: "json option" \<comment> \<open>\<open>json.RawMessage\<close>, nil when the key is absent\<close>

fun decode_time :: "string \<Rightarrow> time \<Rightarrow> (string \<times> json) list \<Rightarrow> time result" where
  "decode_time name acc [] = Inr acc"
| "decode_time name acc ((k, v) # kvs) =
     (if fold_eq k name then
        (case v of
           JTime t \<Rightarrow> decode_time name t kvs
         | JNull \<Rightarrow> decode_time name acc kvs
         | _ \<Rightarrow> Inl json_error)
      else decode_time name acc kvs)"

fun decode_raw :: "string \<Rightarrow> json option \<Rightarrow> (string \<times> json) list \<Rightarrow> json option" where
  "decode_raw name acc [] = acc"
| "decode_raw name acc ((k, v) # kvs) =
     decode_raw name (if fold_eq k name then Some v else acc) kvs"

definition decode_envelope :: "json option \<Rightarrow> Envelope result" where
  "decode_envelope message =
     (case message of
        Some (JObj kvs) \<Rightarrow>
          (case decode_string ''event_id'' [] kvs of Inl err \<Rightarrow> Inl err | Inr i \<Rightarrow>
          (case decode_string ''event_type'' [] kvs of Inl err \<Rightarrow> Inl err | Inr ty \<Rightarrow>
          (case decode_string ''aggregate_id'' [] kvs of Inl err \<Rightarrow> Inl err | Inr a \<Rightarrow>
          (case decode_time ''occurred_at'' zero_time kvs of Inl err \<Rightarrow> Inl err | Inr t \<Rightarrow>
          (case decode_int64 ''version'' 0 kvs of Inl err \<Rightarrow> Inl err | Inr v \<Rightarrow>
             Inr \<lparr>ev_EventId = i, ev_EventType = ty, ev_AggregateId = a, ev_OccurredAt = t,
                  ev_Version = v, ev_Payload = decode_raw ''payload'' None kvs\<rparr>)))))
      | Some JNull \<Rightarrow> Inr \<lparr>ev_EventId = [], ev_EventType = [], ev_AggregateId = [],
            ev_OccurredAt = zero_time, ev_Version = 0, ev_Payload = None\<rparr>
      | _ \<Rightarrow> Inl json_error)"

type_synonym 's EventHandler = "string \<Rightarrow> json option \<Rightarrow> ('s, unit) operation"
type_synonym 's EventDispatcher = "string \<Rightarrow> 's EventHandler option"

definition NewEventDispatcherService :: "'s EventDispatcher" where
  "NewEventDispatcherService = (\<lambda>_. None)"

definition Register :: "string \<Rightarrow> 's EventHandler \<Rightarrow> 's EventDispatcher \<Rightarrow> 's EventDispatcher" where
  "Register eventType handler d = d(eventType \<mapsto> handler)"

definition Handle :: "'s EventDispatcher \<Rightarrow> json option \<Rightarrow> ('s, unit) operation" where
  "Handle d message s =
     (case decode_envelope message of
        Inl err \<Rightarrow> (Inl (invalid_message ''%w: Event dispatcher: failed to decode envelope: %v''), s)
      | Inr envelope \<Rightarrow>
          (case d (ev_EventType envelope) of
             None \<Rightarrow>
               (Inl (invalid_message ''%w: Event dispatcher: no handler registered for event_type=%s''), s)
           | Some handler \<Rightarrow>
               (case handler (ev_AggregateId envelope) (ev_Payload envelope) s of
                  (Inl err, s) \<Rightarrow>
                    (Inl (wrapf ''Event dispatchr: handler for event_type=%s failed: %w'' err), s)
                | (Inr _, s) \<Rightarrow> (Inr (), s))))"

definition wallet_dispatcher :: "'r redis_client \<Rightarrow> db_env \<Rightarrow> 'r world EventDispatcher" where
  "wallet_dispatcher R e =
     Register TransactionTransferRequested (HandleTransferDispatched R e)
       (Register TransactionWithdrawalRequested (HandleWithdrawalDispatched R e)
         (Register TransactionDepositRequested (HandleDepositDispatched R e)
           NewEventDispatcherService))"

section \<open>Consumer loop\<close>

text \<open>A fetched message carries its place, a partition and an offset in it. A handler that panics gives \<open>None\<close>.\<close>

type_synonym place = "nat \<times> nat"

record 'k kafka_reader =
  rd_FetchMessage :: "('k, place \<times> kmessage) operation"
  rd_CommitMessages :: "place \<Rightarrow> ('k, unit) operation"

type_synonym 's guarded = "'s \<Rightarrow> unit result option \<times> 's"

definition dispatch :: "(json option \<Rightarrow> 's guarded) \<Rightarrow> kmessage \<Rightarrow> ('s, unit) operation" where
  "dispatch handler msg s =
     (case handler (km_Value msg) s of
        (None, s) \<Rightarrow> (Inl (errorf ''handler panicked: %v''), s)
      | (Some r, s) \<Rightarrow> (r, s))"

definition io_EOF :: string where "io_EOF = ''EOF''"
definition io_ErrClosedPipe :: string where "io_ErrClosedPipe = ''io: read/write on closed pipe''"
definition context_Canceled :: string where "context_Canceled = ''context canceled''"

definition initialBackoff :: int where "initialBackoff = 1 * Second"
definition maxBackoff :: int where "maxBackoff = 30 * Second"

record ('s, 'k) consumer =
  cs_app :: 's
  cs_kafka :: 'k
  cs_backoff :: int

text \<open>One turn of the loop; \<open>None\<close> when the goroutine returns. \<open>ctx_done\<close> says whether the
  context ends while the loop waits.\<close>

definition consume_turn :: "'k KafkaMessaging \<Rightarrow> 'k kafka_reader \<Rightarrow> string \<Rightarrow>
    (json option \<Rightarrow> 's guarded) \<Rightarrow> bool \<Rightarrow> ('s, 'k) consumer \<Rightarrow>
    ('s, 'k) consumer option" where
  "consume_turn k reader topic handler ctx_done c =
     (case rd_FetchMessage reader (cs_kafka c) of
        (Inl err, b) \<Rightarrow>
          if errors_Is err io_EOF \<or> errors_Is err io_ErrClosedPipe \<or> errors_Is err context_Canceled
          then None
          else if ctx_done then None
          else
            (let backoff = to_int64 (cs_backoff c * 2)
             in Some (c\<lparr>cs_kafka := b,
                        cs_backoff := (if backoff > maxBackoff then maxBackoff else backoff)\<rparr>))
      | (Inr (offset, msg), b) \<Rightarrow>
          (let backoff = initialBackoff in
           case dispatch handler msg (cs_app c) of
             (Inl dispatchErr, s) \<Rightarrow>
               if errors_Is dispatchErr ErrInvalidMessage then
                 (case AppendToDlq k topic (km_Key msg) (km_Value msg) (error_text dispatchErr) b of
                    (Inl dlqErr, b) \<Rightarrow> Some \<lparr>cs_app = s, cs_kafka = b, cs_backoff = backoff\<rparr>
                  | (Inr _, b) \<Rightarrow>
                      (let (_, b) = rd_CommitMessages reader offset b
                       in Some \<lparr>cs_app = s, cs_kafka = b, cs_backoff = backoff\<rparr>))
               else Some \<lparr>cs_app = s, cs_kafka = b, cs_backoff = backoff\<rparr>
           | (Inr _, s) \<Rightarrow>
               (let (_, b) = rd_CommitMessages reader offset b
                in Some \<lparr>cs_app = s, cs_kafka = b, cs_backoff = backoff\<rparr>)))"

definition consumer_start :: "'s \<Rightarrow> 'k \<Rightarrow> ('s, 'k) consumer" where
  "consumer_start s b = \<lparr>cs_app = s, cs_kafka = b, cs_backoff = initialBackoff\<rparr>"

fun ConsumeMessage :: "'k KafkaMessaging \<Rightarrow> 'k kafka_reader \<Rightarrow> string \<Rightarrow>
    (json option \<Rightarrow> 's guarded) \<Rightarrow> bool list \<Rightarrow> ('s, 'k) consumer \<Rightarrow>
    bool \<times> ('s, 'k) consumer" where
  "ConsumeMessage k reader topic handler [] c = (False, c)"
| "ConsumeMessage k reader topic handler (d # ds) c =
     (case consume_turn k reader topic handler d c of
        None \<Rightarrow> (True, c)
      | Some c \<Rightarrow> ConsumeMessage k reader topic handler ds c)"

end
