(* ===== verification/WalletGrpc.thy ===== *)
theory WalletGrpc
  imports WalletService Relay
begin

text \<open>
  The gRPC surface of the wallet service: \<^verbatim>\<open>wallet-service/internal/infra/grpc/grpc.go\<close> and the
  mappers of \<^verbatim>\<open>wallet-service/internal/mapping/mapper.go\<close>. The messages are those of
  \<^verbatim>\<open>wallet.proto\<close>; a nil pointer is \<open>None\<close>. A transaction identifier made by
  \<^verbatim>\<open>uuid.NewString()\<close> is the argument \<open>newId\<close>, the row identifier of the outbox is \<open>oid\<close>.
\<close>

section \<open>Messages\<close>

record pb_Account =
  pa_Id :: string
  pa_Balance :: int
  pa_Currency :: string
  pa_OwnerUser :: string
  pa_CreatedAt :: "time option"

record pb_Transaction =
  pt_Id :: string
  pt_FromAccount :: string
  pt_ToAccount :: string
  pt_Amount :: int
  pt_Currency :: string
  pt_Status :: string
  pt_CreatedAt :: "time option"
  pt_UpdatedAt :: "time option"

record pb_ListTransactionsRequest =
  pl_AccountId :: string
  pl_PageSize :: int \<comment> \<open>\<open>int32\<close>\<close>
  pl_Page :: string

record pb_ListTransactionsResponse =
  pls_Transactions :: "pb_Transaction option list"
  pls_NextPageToken :: string

record pb_DepositRequest =
  pd_AccountId :: string
  pd_Amount :: int
  pd_UserId :: string
  pd_Currency :: string

record pb_WithdrawRequest =
  pw_AccountId :: string
  pw_Amount :: int
  pw_TransactionId :: string
  pw_UserId :: string

record pb_TransferRequest =
  px_FromAccountId :: string
  px_ToAccountId :: string
  px_Currency :: string
  px_Amount :: int
  px_IdempotencyKey :: string
  px_UserId :: string

section \<open>Mappers\<close>

definition ToAccountDomain :: "pb_Account option \<Rightarrow> Account option" where
  "ToAccountDomain a =
     (case a of
        None \<Rightarrow> None
      | Some a \<Rightarrow>
          Some \<lparr>da_ID = pa_Id a, da_UserID = pa_OwnerUser a, da_Balance = pa_Balance a,
                da_Currency = pa_Currency a,
                da_CreatedAt = (case pa_CreatedAt a of None \<Rightarrow> zero_time | Some t \<Rightarrow> t),
                da_UpdatedAt = zero_time\<rparr>)"

definition ToAccountProto :: "Account option \<Rightarrow> pb_Account option" where
  "ToAccountProto account =
     (case account of
        None \<Rightarrow> None
      | Some account \<Rightarrow>
          Some \<lparr>pa_Id = da_ID account, pa_Balance = da_Balance account,
                pa_Currency = da_Currency account, pa_OwnerUser = da_UserID account,
                pa_CreatedAt = Some (da_CreatedAt account)\<rparr>)"

definition ToTransactionDomain :: "pb_Transaction option \<Rightarrow> Transaction option" where
  "ToTransactionDomain t =
     (case t of
        None \<Rightarrow> None
      | Some t \<Rightarrow>
          Some \<lparr>dt_ID = pt_Id t, dt_FromAccount = pt_FromAccount t, dt_ToAccount = pt_ToAccount t,
                dt_Amount = pt_Amount t, dt_Currency = pt_Currency t, dt_Status = pt_Status t,
                dt_CreatedAt = (case pt_CreatedAt t of None \<Rightarrow> zero_time | Some c \<Rightarrow> c),
                dt_UpdatedAt = (case pt_UpdatedAt t of None \<Rightarrow> zero_time | Some u \<Rightarrow> u)\<rparr>)"

definition ToTransactionProto :: "Transaction option \<Rightarrow> pb_Transaction option" where
  "ToTransactionProto t =
     (case t of
        None \<Rightarrow> None
      | Some t \<Rightarrow>
          Some \<lparr>pt_Id = dt_ID t, pt_FromAccount = dt_FromAccount t, pt_ToAccount = dt_ToAccount t,
                pt_Amount = dt_Amount t, pt_Currency = dt_Currency t, pt_Status = dt_Status t,
                pt_CreatedAt = Some (dt_CreatedAt t), pt_UpdatedAt = Some (dt_UpdatedAt t)\<rparr>)"

definition ToListTransactionsDomain :: "pb_ListTransactionsRequest option \<Rightarrow>
    ListTransactionsRequest option" where
  "ToListTransactionsDomain req =
     (case req of
        None \<Rightarrow> None
      | Some req \<Rightarrow>
          (let (page, _) = Atoi (pl_Page req)
           in Some \<lparr>lr_AccountID = pl_AccountId req, lr_Page = to_int32 page,
                    lr_PageSize = to_int8 (pl_PageSize req)\<rparr>))"

definition ToListTransactionsProto :: "ListTransactionsResponse option \<Rightarrow>
    pb_ListTransactionsResponse option" where
  "ToListTransactionsProto resp =
     (case resp of
        None \<Rightarrow> None
      | Some resp \<Rightarrow>
          Some \<lparr>pls_Transactions = map (\<lambda>t. ToTransactionProto (Some t)) (ls_Transactions resp),
                pls_NextPageToken = ls_NextPageToken resp\<rparr>)"

section \<open>Handlers\<close>

definition Grpc_CreateAccount :: "db_env \<Rightarrow> string \<Rightarrow> string \<Rightarrow> string \<Rightarrow>
    (database, pb_Account option) operation" where
  "Grpc_CreateAccount e newId ownerUser currency db =
     (case OpenAccount e newId ownerUser currency db of
        (Inl err, db) \<Rightarrow> (Inl err, db)
      | (Inr account, db) \<Rightarrow> (Inr (ToAccountProto (Some account)), db))"

definition Grpc_GetBalance :: "'r redis_client \<Rightarrow> os_env \<Rightarrow> db_env \<Rightarrow> string \<Rightarrow> string \<Rightarrow>
    ('r world, int \<times> string) operation" where
  "Grpc_GetBalance R env e userId accountId w =
     (case GetBalance R env e userId accountId w of
        (Inl err, w) \<Rightarrow> (Inl err, w)
      | (Inr account, w) \<Rightarrow> (Inr (da_Balance account, da_Currency account), w))"

definition Grpc_Deposit :: "('r, 'k) OutboxRelay \<Rightarrow> db_env \<Rightarrow> string \<Rightarrow> string \<Rightarrow> pb_DepositRequest \<Rightarrow>
    ('r world, pb_Transaction option) operation" where
  "Grpc_Deposit o' e oid newId req w =
     (let transactionId = newId;
          pendingTransaction =
            \<lparr>dt_ID = transactionId, dt_FromAccount = pd_AccountId req, dt_ToAccount = pd_AccountId req,
             dt_Amount = pd_Amount req, dt_Currency = pd_Currency req,
             dt_Status = TransactionStatusPending, dt_CreatedAt = zero_time, dt_UpdatedAt = zero_time\<rparr>;
          payload =
            [(''ID'', JStr (dt_ID pendingTransaction)),
             (''FromAccount'', JStr (dt_FromAccount pendingTransaction)),
             (''ToAccount'', JStr (dt_ToAccount pendingTransaction)),
             (''Amount'', JInt (dt_Amount pendingTransaction)),
             (''Currency'', JStr (dt_Currency pendingTransaction)),
             (''UserId'', JStr (pd_UserId req))]
      in case InsertOutboxRelay o' e oid ''transaction'' transactionId TransactionDepositRequested
                (pd_AccountId req) (pd_UserId req) payload w of
           (Inl err, w) \<Rightarrow> (Inl err, w)
         | (Inr _, w) \<Rightarrow> (Inr (ToTransactionProto (Some pendingTransaction)), w))"

definition Grpc_Withdraw :: "('r, 'k) OutboxRelay \<Rightarrow> db_env \<Rightarrow> string \<Rightarrow> string \<Rightarrow> pb_WithdrawRequest \<Rightarrow>
    ('r world, pb_Transaction option) operation" where
  "Grpc_Withdraw o' e oid newId req w =
     (let transactionId = (if pw_TransactionId req = [] then newId else pw_TransactionId req);
          pendingTransaction =
            \<lparr>dt_ID = transactionId, dt_FromAccount = pw_AccountId req, dt_ToAccount = pw_AccountId req,
             dt_Amount = pw_Amount req, dt_Currency = [],
             dt_Status = TransactionStatusPending, dt_CreatedAt = zero_time, dt_UpdatedAt = zero_time\<rparr>;
          payload =
            [(''ID'', JStr (dt_ID pendingTransaction)),
             (''FromAccount'', JStr (dt_FromAccount pendingTransaction)),
             (''ToAccount'', JStr (dt_ToAccount pendingTransaction)),
             (''Amount'', JInt (dt_Amount pendingTransaction)),
             (''UserId'', JStr (pw_UserId req))]
      in case InsertOutboxRelay o' e oid ''transaction'' transactionId TransactionWithdrawalRequested
                (pw_AccountId req) (pw_UserId req) payload w of
           (Inl err, w) \<Rightarrow> (Inl err, w)
         | (Inr _, w) \<Rightarrow> (Inr (ToTransactionProto (Some pendingTransaction)), w))"

definition Grpc_Transfer :: "('r, 'k) OutboxRelay \<Rightarrow> db_env \<Rightarrow> string \<Rightarrow> string \<Rightarrow> pb_TransferRequest \<Rightarrow>
    ('r world, pb_Transaction option) operation" where
  "Grpc_Transfer o' e oid newId req w =
     (let transactionId = (if px_IdempotencyKey req = [] then newId else px_IdempotencyKey req);
          pendingTransaction =
            \<lparr>dt_ID = transactionId, dt_FromAccount = px_FromAccountId req,
             dt_ToAccount = px_ToAccountId req, dt_Amount = px_Amount req,
             dt_Currency = px_Currency req, dt_Status = TransactionStatusPending,
             dt_CreatedAt = zero_time, dt_UpdatedAt = zero_time\<rparr>;
          payload =
            [(''ID'', JStr (dt_ID pendingTransaction)),
             (''FromAccount'', JStr (dt_FromAccount pendingTransaction)),
             (''ToAccount'', JStr (dt_ToAccount pendingTransaction)),
             (''Amount'', JInt (dt_Amount pendingTransaction)),
             (''Currency'', JStr (dt_Currency pendingTransaction)),
             (''UserId'', JStr (px_UserId req))]
      in case InsertOutboxRelay o' e oid ''transaction'' transactionId TransactionTransferRequested
                (px_FromAccountId req) (px_UserId req) payload w of
           (Inl err, w) \<Rightarrow> (Inl err, w)
         | (Inr _, w) \<Rightarrow> (Inr (ToTransactionProto (Some pendingTransaction)), w))"

definition Grpc_ListTransactions :: "db_env \<Rightarrow> pb_ListTransactionsRequest \<Rightarrow>
    (database, pb_ListTransactionsResponse option) operation" where
  "Grpc_ListTransactions e req db =
     (case ToListTransactionsDomain (Some req) of
        None \<Rightarrow> (Inl (errorf ''nil pointer''), db)
      | Some domainReq \<Rightarrow>
          (case Svc_ListTransactions e domainReq db of
             (Inl err, db) \<Rightarrow> (Inl err, db)
           | (Inr transactionsList, db) \<Rightarrow> (Inr (ToListTransactionsProto (Some transactionsList)), db)))"

definition StreamTransactions :: "unit result" where
  "StreamTransactions = Inl (errorf ''Method not yet implemented'')"

end
