(* ===== verification/Delivery.thy ===== *)
theory Delivery
  imports Redelivery RelayProps EventDispatcher WalletGrpc
begin

text \<open>
  The way of an event from the request to the ledger: what the gRPC handlers write, the relay
  publishes, the dispatcher decodes and the handlers book; and the consumer loop around the
  dispatcher, with its dead-letter topic and its commits.
\<close>

section \<open>Payload of a deposit\<close>

definition deposit_payload :: "string \<Rightarrow> pb_DepositRequest \<Rightarrow> (string \<times> json) list" where
  "deposit_payload tid req =
     [(''ID'', JStr tid), (''FromAccount'', JStr (pd_AccountId req)),
      (''ToAccount'', JStr (pd_AccountId req)), (''Amount'', JInt (pd_Amount req)),
      (''Currency'', JStr (pd_Currency req)), (''UserId'', JStr (pd_UserId req))]"

definition sample_deposit :: pb_DepositRequest where
  "sample_deposit = \<lparr>pd_AccountId = ''a1'', pd_Amount = 500, pd_UserId = ''u1'', pd_Currency = ''USD''\<rparr>"

section \<open>Envelopes and payloads\<close>

lemma fold_eq_refl [simp]: "fold_eq k k"
  by (simp add: fold_eq_def)

lemma lower_names:
  "map lower_char ''event_id'' = ''event_id''"
  "map lower_char ''event_type'' = ''event_type''"
  "map lower_char ''aggregate_id'' = ''aggregate_id''"
  "map lower_char ''occurred_at'' = ''occurred_at''"
  "map lower_char ''version'' = ''version''"
  "map lower_char ''payload'' = ''payload''"
  "map lower_char ''ID'' = ''id''"
  "map lower_char ''FromAccount'' = ''fromaccount''"
  "map lower_char ''ToAccount'' = ''toaccount''"
  "map lower_char ''Amount'' = ''amount''"
  "map lower_char ''Currency'' = ''currency''"
  "map lower_char ''UserId'' = ''userid''"
  by code_simp+

lemma fold_eq_names [simp]:
  "\<not> fold_eq ''event_id'' ''event_type''" "\<not> fold_eq ''event_id'' ''aggregate_id''"
  "\<not> fold_eq ''event_id'' ''occurred_at''" "\<not> fold_eq ''event_id'' ''version''"
  "\<not> fold_eq ''event_id'' ''payload''" "\<not> fold_eq ''event_type'' ''event_id''"
  "\<not> fold_eq ''event_type'' ''aggregate_id''" "\<not> fold_eq ''event_type'' ''occurred_at''"
  "\<not> fold_eq ''event_type'' ''version''" "\<not> fold_eq ''event_type'' ''payload''"
  "\<not> fold_eq ''aggregate_id'' ''event_id''" "\<not> fold_eq ''aggregate_id'' ''event_type''"
  "\<not> fold_eq ''aggregate_id'' ''occurred_at''" "\<not> fold_eq ''aggregate_id'' ''version''"
  "\<not> fold_eq ''aggregate_id'' ''payload''" "\<not> fold_eq ''occurred_at'' ''event_id''"
  "\<not> fold_eq ''occurred_at'' ''event_type''"
  "\<not> fold_eq ''occurred_at'' ''aggregate_id''" "\<not> fold_eq ''occurred_at'' ''version''"
  "\<not> fold_eq ''occurred_at'' ''payload''" "\<not> fold_eq ''version'' ''event_id''"
  "\<not> fold_eq ''version'' ''event_type''" "\<not> fold_eq ''version'' ''aggregate_id''"
  "\<not> fold_eq ''version'' ''occurred_at''" "\<not> fold_eq ''version'' ''payload''"
  "\<not> fold_eq ''payload'' ''event_id''" "\<not> fold_eq ''payload'' ''event_type''"
  "\<not> fold_eq ''payload'' ''aggregate_id''" "\<not> fold_eq ''payload'' ''occurred_at''"
  "\<not> fold_eq ''payload'' ''version''"
  by (unfold fold_eq_def lower_names) simp_all

lemma fold_eq_fields [simp]:
  "\<not> fold_eq ''ID'' ''FromAccount''" "\<not> fold_eq ''ID'' ''ToAccount''"
  "\<not> fold_eq ''ID'' ''Amount''" "\<not> fold_eq ''ID'' ''Currency''"
  "\<not> fold_eq ''ID'' ''UserId''" "\<not> fold_eq ''FromAccount'' ''ID''"
  "\<not> fold_eq ''FromAccount'' ''ToAccount''" "\<not> fold_eq ''FromAccount'' ''Amount''"
  "\<not> fold_eq ''FromAccount'' ''Currency''" "\<not> fold_eq ''FromAccount'' ''UserId''"
  "\<not> fold_eq ''ToAccount'' ''ID''" "\<not> fold_eq ''ToAccount'' ''FromAccount''"
  "\<not> fold_eq ''ToAccount'' ''Amount''" "\<not> fold_eq ''ToAccount'' ''Currency''"
  "\<not> fold_eq ''ToAccount'' ''UserId''" "\<not> fold_eq ''Amount'' ''ID''"
  "\<not> fold_eq ''Amount'' ''FromAccount''" "\<not> fold_eq ''Amount'' ''ToAccount''"
  "\<not> fold_eq ''Amount'' ''Currency''" "\<not> fold_eq ''Amount'' ''UserId''"
  "\<not> fold_eq ''Currency'' ''ID''" "\<not> fold_eq ''Currency'' ''FromAccount''"
  "\<not> fold_eq ''Currency'' ''ToAccount''" "\<not> fold_eq ''Currency'' ''Amount''"
  "\<not> fold_eq ''Currency'' ''UserId''" "\<not> fold_eq ''UserId'' ''ID''"
  "\<not> fold_eq ''UserId'' ''FromAccount''" "\<not> fold_eq ''UserId'' ''ToAccount''"
  "\<not> fold_eq ''UserId'' ''Amount''" "\<not> fold_eq ''UserId'' ''Currency''"
  by (unfold fold_eq_def lower_names) simp_all

lemma decode_marshalled:
  assumes "marshal_envelope m = Some v"
  shows "decode_envelope (Some v) = Inr
    \<lparr>ev_EventId = om_ID m, ev_EventType = om_EventType m, ev_AggregateId = om_AggregateId m,
     ev_OccurredAt = om_CreatedAt m, ev_Version = EnvelopeVersion,
     ev_Payload = Some (JObj (om_Payload m))\<rparr>"
  using assms
  by (auto simp: marshal_envelope_def marshal_time_def decode_envelope_def EnvelopeVersion_def
      fits_signed_def split: if_splits)

lemma Handle_marshalled:
  assumes "marshal_envelope m = Some v" and "d (om_EventType m) = Some h"
  shows "Handle d (Some v) s =
    (case h (om_AggregateId m) (Some (JObj (om_Payload m))) s of
       (Inl err, s) \<Rightarrow> (Inl (wrapf ''Event dispatchr: handler for event_type=%s failed: %w'' err), s)
     | (Inr _, s) \<Rightarrow> (Inr (), s))"
  using assms(2) by (simp add: Handle_def decode_marshalled [OF assms(1)])

text \<open>C32. The dispatcher reads from a published message exactly what the relay put into it.\<close>

theorem envelope_roundtrip:
  assumes "marshal_envelope m = Some v"
  shows "decode_envelope (Some v) = Inr
    \<lparr>ev_EventId = om_ID m, ev_EventType = om_EventType m, ev_AggregateId = om_AggregateId m,
     ev_OccurredAt = om_CreatedAt m, ev_Version = EnvelopeVersion,
     ev_Payload = Some (JObj (om_Payload m))\<rparr>"
  by (rule decode_marshalled [OF assms])

theorem envelope_roundtrip_witness:
  "\<exists>v. marshal_envelope (batch_model last_attempt) = Some v \<and>
     map_sum id ev_AggregateId (decode_envelope (Some v)) = Inr ''t1''"
proof -
  obtain v where v: "marshal_envelope (batch_model last_attempt) = Some v"
    by (auto simp: marshal_envelope_def marshal_time_def batch_model_def last_attempt_def mk_outbox_def)
  with envelope_roundtrip [OF v] show ?thesis
    by (auto simp: batch_model_def last_attempt_def mk_outbox_def)
qed

lemma decode_deposit_payload:
  "decode_payload True (Some (JObj (scan_payload
     [(''ID'', JStr i), (''FromAccount'', JStr f), (''ToAccount'', JStr t), (''Amount'', JInt a),
      (''Currency'', JStr c), (''UserId'', JStr u)]))) =
   (if fits_signed 64 (float64_trip a)
    then Inr \<lparr>rp_ID = i, rp_FromAccount = f, rp_ToAccount = t, rp_Amount = float64_trip a,
              rp_Currency = c, rp_UserId = u\<rparr>
    else Inl json_error)"
  by (simp add: decode_payload_def decode_fields_def scan_payload_def)

lemma decode_withdraw_payload:
  "decode_payload False (Some (JObj (scan_payload
     [(''ID'', JStr i), (''FromAccount'', JStr f), (''ToAccount'', JStr t), (''Amount'', JInt a),
      (''UserId'', JStr u)]))) =
   (if fits_signed 64 (float64_trip a)
    then Inr \<lparr>rp_ID = i, rp_FromAccount = f, rp_ToAccount = t, rp_Amount = float64_trip a,
              rp_Currency = [], rp_UserId = u\<rparr>
    else Inl json_error)"
  by (simp add: decode_payload_def decode_fields_def scan_payload_def)

lemma dispatcher_handlers [simp]:
  "wallet_dispatcher R e TransactionDepositRequested = Some (HandleDepositDispatched R e)"
  "wallet_dispatcher R e TransactionWithdrawalRequested = Some (HandleWithdrawalDispatched R e)"
  "wallet_dispatcher R e TransactionTransferRequested = Some (HandleTransferDispatched R e)"
  by (simp_all add: wallet_dispatcher_def Register_def go_consts)

section \<open>From an accepted request to the ledger\<close>

lemma insert_relay_row:
  assumes "InsertOutboxRelay o' e oid aty tid ety pk uid payload w = (Inr u, w1)"
    and "row \<in> set (transaction_outbox (w_db w1))" and "om_AggregateId row = tid"
  shows "om_EventType row = ety \<and> om_Payload row = payload \<and> om_PartitionKey row = pk"
proof -
  let ?cfg = "\<lparr>oc_AggregateType = aty, oc_AggregateId = tid, oc_EventType = ety,
        oc_Payload = payload, oc_UserId = uid, oc_Topic = or_topic o', oc_Partition_key = pk\<rparr>"
  have "OutboxInsert (or_redis o') e oid ?cfg w = (Inr u, w1)"
    using assms(1) by (simp add: InsertOutboxRelay_def)
  from insert_appended [OF this] assms(2,3)
  have "row = new_outbox_row oid ?cfg (request_key ?cfg) (env_now e OutboxInsertC)"
    by (auto simp: set_keys)
  then show ?thesis by (simp add: new_outbox_row_def)
qed

lemma Grpc_Deposit_row:
  assumes "Grpc_Deposit o' e oid tid req w = (Inr reply, w1)"
    and "row \<in> set (transaction_outbox (w_db w1))" and "om_AggregateId row = tid"
  shows "om_EventType row = TransactionDepositRequested \<and> om_Payload row = deposit_payload tid req
    \<and> om_PartitionKey row = pd_AccountId req"
proof -
  have "InsertOutboxRelay o' e oid ''transaction'' tid TransactionDepositRequested
      (pd_AccountId req) (pd_UserId req) (deposit_payload tid req) w = (Inr (), w1)"
    using assms(1)
    by (auto simp: Grpc_Deposit_def deposit_payload_def Let_def split: prod.splits sum.splits)
  from insert_relay_row [OF this assms(2,3)] show ?thesis .
qed

lemma handle_deposit_message:
  assumes ev: "om_EventType row = TransactionDepositRequested" "om_Payload row = deposit_payload tid req"
    and v: "marshal_envelope (batch_model row) = Some v"
    and amt: "\<bar>pd_Amount req\<bar> < 2 ^ 53"
  shows "Handle (wallet_dispatcher R e) (Some v) w =
    (case deposit R e tid (pd_UserId req) (pd_AccountId req) (pd_Currency req) (pd_Amount req) w of
       (Inl err, w) \<Rightarrow> (Inl (wrapf ''Event dispatchr: handler for event_type=%s failed: %w'' err), w)
     | (Inr _, w) \<Rightarrow> (Inr (), w))"
proof -
  have trip: "float64_trip (pd_Amount req) = pd_Amount req" by (rule float64_trip_exact [OF amt])
  have "fits_signed 64 (pd_Amount req)" using amt by (auto simp: fits_signed_def abs_less_iff)
  then have "decode_payload True (Some (JObj (om_Payload (batch_model row)))) =
      Inr \<lparr>rp_ID = tid, rp_FromAccount = pd_AccountId req, rp_ToAccount = pd_AccountId req,
           rp_Amount = pd_Amount req, rp_Currency = pd_Currency req, rp_UserId = pd_UserId req\<rparr>"
    using decode_deposit_payload [of tid "pd_AccountId req" "pd_AccountId req" "pd_Amount req"
        "pd_Currency req" "pd_UserId req"] ev(2) trip
    by (simp add: deposit_payload_def batch_model_def)
  moreover have "om_EventType (batch_model row) = TransactionDepositRequested"
    using ev(1) by (simp add: batch_model_def)
  ultimately show ?thesis
    using Handle_marshalled [OF v, of "wallet_dispatcher R e" "HandleDepositDispatched R e" w]
    by (simp add: HandleDepositDispatched_def split: prod.splits sum.splits)
qed

text \<open>C17. A deposit the gateway-facing handler accepted is credited: the message the relay
  makes of the row it inserted, when the consumer hands it to the dispatcher in any later state
  in which the transaction is still to be done, raises the balance of the account by exactly
  the requested amount, for every amount below two to the 53, and completes the transaction.\<close>

theorem accepted_deposit_is_credited:
  assumes acc: "Grpc_Deposit o' e oid tid req w = (Inr reply, w1)"
    and row: "row \<in> set (transaction_outbox (w_db w1))" "om_AggregateId row = tid"
    and v: "marshal_envelope (batch_model row) = Some v"
    and amt: "0 < pd_Amount req" "pd_Amount req < 2 ^ 53"
    and ok: "schema_ok (w_db w2)" and books: "books_balanced (w_db w2)"
    and aw: "awaits tid ''deposit'' (pd_AccountId req) (pd_AccountId req) (pd_Amount req) (w_db w2)"
    and b: "balance_of (w_db w2) (pd_AccountId req) = Some b" "fits_signed 64 (b + pd_Amount req)"
    and up: "call_up CreatePendingTransactionC e2" "call_up DepositFundsC e2"
  shows "\<exists>w3. Handle (wallet_dispatcher R e2) (Some v) w2 = (Inr (), w3)
    \<and> balance_of (w_db w3) (pd_AccountId req) = Some (b + pd_Amount req)
    \<and> (\<forall>a. a \<noteq> pd_AccountId req \<longrightarrow> balance_of (w_db w3) a = balance_of (w_db w2) a)
    \<and> status_of (w_db w3) tid = Some TransactionStatusCompleted"
proof -
  obtain t w3 where d: "deposit R e2 tid (pd_UserId req) (pd_AccountId req) (pd_Currency req)
      (pd_Amount req) w2 = (Inr t, w3)"
    using deposit_succeeds [OF ok books aw amt(1) b up] by blast
  have "fits_signed 64 (pd_Amount req)" using amt by (auto simp: fits_signed_def)
  note eff = deposit_effect [OF ok books aw this d]
  have "Handle (wallet_dispatcher R e2) (Some v) w2 = (Inr (), w3)"
    using handle_deposit_message [OF _ _ v, of tid req R e2 w2] Grpc_Deposit_row [OF acc row] amt d
    by simp
  with eff b(1) show ?thesis by auto
qed

theorem accepted_deposit_is_credited_witness:
  "\<exists>reply w1 row v w3.
     Grpc_Deposit sample_relay (healthy 7) ''o1'' ''t1'' sample_deposit sample = (Inr reply, w1)
     \<and> row \<in> set (transaction_outbox (w_db w1)) \<and> marshal_envelope (batch_model row) = Some v
     \<and> Handle (wallet_dispatcher redis_ref (healthy 9)) (Some v) w1 = (Inr (), w3)
     \<and> balance_of (w_db w3) ''a1'' = Some 1500"
proof -
  have "\<not> isl (fst (Grpc_Deposit sample_relay (healthy 7) ''o1'' ''t1'' sample_deposit sample))"
    by code_simp
  then obtain reply w1 where acc:
    "Grpc_Deposit sample_relay (healthy 7) ''o1'' ''t1'' sample_deposit sample = (Inr reply, w1)"
    by (rule run_Inr)
  have db1: "\<exists>row. w_db w1 = sample_db\<lparr>transaction_outbox := [row]\<rparr> \<and> om_AggregateId row = ''t1''
      \<and> om_CreatedAt row = 7 \<and> om_Status row = OutboxStatusPending"
    using acc insert_appended
    by (fastforce simp: Grpc_Deposit_def InsertOutboxRelay_def new_outbox_row_def fixture_defs Let_def
        split: prod.splits sum.splits)
  then obtain row where db1: "w_db w1 = sample_db\<lparr>transaction_outbox := [row]\<rparr>"
    and row: "om_AggregateId row = ''t1''" "om_CreatedAt row = 7" "om_Status row = OutboxStatusPending"
    by blast
  obtain v where v: "marshal_envelope (batch_model row) = Some v"
    by (auto simp: marshal_envelope_def marshal_time_def batch_model_def row)
  have same: "balance_of (w_db w1) = balance_of sample_db" "books_balanced (w_db w1) = books_balanced sample_db"
    "awaits ''t1'' ty fr to amt (w_db w1) = awaits ''t1'' ty fr to amt sample_db" for ty fr to amt
    by (simp_all add: db1 balance_of_def [abs_def] books_balanced_def awaits_def)
  have ok: "schema_ok (w_db w1)"
    using sample_schema row by (simp add: db1 schema_ok_def outbox_ok_def)
  have req: "pd_Amount sample_deposit = 500" "pd_AccountId sample_deposit = ''a1''"
    by (simp_all add: sample_deposit_def)
  have "\<exists>w3. Handle (wallet_dispatcher redis_ref (healthy 9)) (Some v) w1 = (Inr (), w3)
      \<and> balance_of (w_db w3) (pd_AccountId sample_deposit) = Some (1000 + pd_Amount sample_deposit)
      \<and> (\<forall>a. a \<noteq> pd_AccountId sample_deposit \<longrightarrow> balance_of (w_db w3) a = balance_of (w_db w1) a)
      \<and> status_of (w_db w3) ''t1'' = Some TransactionStatusCompleted"
    by (rule accepted_deposit_is_credited [OF acc, where row = row])
      (simp_all add: db1 [THEN arg_cong [where f = transaction_outbox]] row v req ok same sample_awaits
        sample_balances fits_signed_def call_up_def)
  with acc v db1 show ?thesis by (auto simp: req)
qed

end
