(* ===== verification/Provenance.thy ===== *)
theory Provenance
  imports Delivery
begin

text \<open>
  Where the entries of the ledger come from, and what bounds a balance. An entry is what never
  changes of a transaction row. The locale \<open>ledger_invariant\<close> collects what a predicate on the
  database must satisfy to survive a movement of money in any circumstances, redelivery included:
  that the insertion of the pending row, a settlement and a change of status keep it.
\<close>

section \<open>Entries and credits\<close>

type_synonym entry = "string \<times> string \<times> string \<times> string \<times> int"
  \<comment> \<open>identifier, kind, from, to, amount\<close>

definition entry_of :: "transaction_row \<Rightarrow> entry" where
  "entry_of t = (tm_ID t, transaction_type t, tm_FromAccount t, tm_ToAccount t, tm_Amount t)"

definition entries :: "database \<Rightarrow> entry list" where
  "entries db = map entry_of (transactions db)"

fun credit :: "string \<Rightarrow> entry \<Rightarrow> int" where
  "credit a (tid, kind, fr, to, amt) =
     (if kind = ''deposit'' \<and> (fr = a \<or> to = a) \<or> kind = ''transfer'' \<and> to = a then max 0 amt else 0)"

definition credits :: "string \<Rightarrow> entry list \<Rightarrow> int" where
  "credits a es = sum_list (map (credit a) es)"

text \<open>No balance is larger than everything that was ever to be credited to its account.\<close>

definition balances_covered :: "database \<Rightarrow> bool" where
  "balances_covered db \<longleftrightarrow> (\<forall>r \<in> set (accounts db). am_Balance r \<le> credits (am_ID r) (entries db))"

primrec req_entry :: "request \<Rightarrow> entry" where
  "req_entry (DepositReq tid uid acc cur amt) = (tid, ''deposit'', acc, acc, amt)"
| "req_entry (WithdrawReq tid uid acc amt) = (tid, ''withdrawal'', acc, acc, amt)"
| "req_entry (TransferReq tid uid fr to cur amt) = (tid, ''transfer'', fr, to, amt)"

text \<open>The request a row of the outbox stands for, as the consumer will decode it.\<close>

definition request_of :: "OutboxModel \<Rightarrow> request option" where
  "request_of m =
     (let payload = Some (JObj (om_Payload m)) in
      if om_EventType m = TransactionDepositRequested then
        (case decode_payload True payload of
           Inl _ \<Rightarrow> None
         | Inr p \<Rightarrow> Some (DepositReq (rp_ID p) (rp_UserId p) (rp_ToAccount p) (rp_Currency p) (rp_Amount p)))
      else if om_EventType m = TransactionWithdrawalRequested then
        (case decode_payload False payload of
           Inl _ \<Rightarrow> None
         | Inr p \<Rightarrow> Some (WithdrawReq (rp_ID p) (rp_UserId p) (rp_ToAccount p) (rp_Amount p)))
      else if om_EventType m = TransactionTransferRequested then
        (case decode_payload True payload of
           Inl _ \<Rightarrow> None
         | Inr p \<Rightarrow> Some (TransferReq (rp_ID p) (rp_UserId p) (rp_FromAccount p) (rp_ToAccount p)
               (rp_Currency p) (rp_Amount p)))
      else None)"

text \<open>The amount a payload carries, before it is scanned into a map and rounded to a float64. The payloads of the
  handlers have one field that can be read as the amount.\<close>

definition is_amount :: "string \<times> json \<Rightarrow> bool" where
  "is_amount kv \<longleftrightarrow> fold_eq (fst kv) ''Amount''"

definition payload_amount :: "(string \<times> json) list \<Rightarrow> int option" where
  "payload_amount kvs =
     (case List.find is_amount kvs of Some (k, v) \<Rightarrow> (case v of JInt i \<Rightarrow> Some i | _ \<Rightarrow> None) | None \<Rightarrow> None)"

definition one_amount :: "(string \<times> json) list \<Rightarrow> bool" where
  "one_amount kvs \<longleftrightarrow> length (filter is_amount kvs) = 1"

lemma one_amount_scan [simp]: "one_amount (scan_payload kvs) = one_amount kvs"
proof -
  have "filter is_amount (scan_payload kvs) = scan_payload (filter is_amount kvs)"
    by (induction kvs) (auto simp: scan_payload_def is_amount_def)
  then show ?thesis by (simp add: one_amount_def scan_payload_def)
qed

lemma decode_int64_absent:
  "filter is_amount kvs = [] \<Longrightarrow> decode_int64 ''Amount'' acc (scan_payload kvs) = Inr acc"
  by (induction kvs) (auto simp: scan_payload_def is_amount_def split: if_splits)

lemma decode_scanned_amount:
  assumes "one_amount kvs" and "decode_int64 ''Amount'' 0 (scan_payload kvs) = Inr j"
  shows "j = (case payload_amount kvs of None \<Rightarrow> 0 | Some i \<Rightarrow> float64_trip i)"
  using assms
proof (induction kvs)
  case Nil
  then show ?case by (simp add: one_amount_def)
next
  case (Cons kv kvs)
  obtain k v where kv: "kv = (k, v)" by (cases kv)
  have scan: "scan_payload (kv # kvs) = (k, scan_json v) # scan_payload kvs" by (simp add: scan_payload_def kv)
  show ?case
  proof (cases "is_amount kv")
    case True
    then have rest: "decode_int64 ''Amount'' acc (scan_payload kvs) = Inr acc" for acc
      using Cons.prems(1) by (intro decode_int64_absent) (simp add: one_amount_def)
    have "payload_amount (kv # kvs) = (case v of JInt i \<Rightarrow> Some i | _ \<Rightarrow> None)" using True by (simp add: payload_amount_def kv)
    then show ?thesis
      using Cons.prems(2) True rest unfolding scan by (cases v) (auto simp: is_amount_def kv split: if_splits)
  next
    case False
    then have "payload_amount (kv # kvs) = payload_amount kvs" "one_amount kvs"
      using Cons.prems(1) by (simp_all add: payload_amount_def one_amount_def)
    then show ?thesis using Cons False unfolding scan by (simp add: is_amount_def kv)
  qed
qed

lemma request_amount:
  assumes "request_of m = Some rq" and "om_Payload m = scan_payload kvs" and "one_amount kvs"
  shows "req_amount rq = (case payload_amount kvs of None \<Rightarrow> 0 | Some i \<Rightarrow> float64_trip i)"
proof -
  obtain b p where p: "decode_payload b (Some (JObj (scan_payload kvs))) = Inr p" "req_amount rq = rp_Amount p"
    using assms(1,2) by (auto simp: request_of_def Let_def split: if_splits sum.splits)
  then have "decode_int64 ''Amount'' 0 (scan_payload kvs) = Inr (rp_Amount p)"
    by (auto simp: decode_payload_def decode_fields_def split: sum.splits)
  then show ?thesis using decode_scanned_amount [OF assms(3)] p(2) by simp
qed

lemma credit_nonneg [simp]: "0 \<le> credit a x"
  by (cases x) simp

lemma credits_append [simp]: "credits a (xs @ ys) = credits a xs + credits a ys"
  by (simp add: credits_def)

lemma credits_nonneg: "0 \<le> credits a xs"
  unfolding credits_def by (rule sum_list_nonneg) auto

lemma contribution_le_credit:
  assumes "involves a t"
  shows "0 < tm_Amount t \<Longrightarrow> contribution a t \<le> credit a (entry_of t)"
  using assms by (auto simp: contribution_def entry_of_def involves_def)

lemma ledger_sum_le_credits:
  assumes "\<forall>t \<in> set ts. 0 < tm_Amount t"
  shows "ledger_sum a ts \<le> credits a (map entry_of ts)"
  using assms
proof (induction ts)
  case Nil
  then show ?case by (simp add: ledger_sum_def credits_def)
next
  case (Cons t ts)
  have "(if involves a t \<and> tm_Status t = TransactionStatusCompleted then contribution a t else 0)
      \<le> credit a (entry_of t)"
    using contribution_le_credit [of a t] Cons.prems by simp
  moreover have "credits a (map entry_of (t # ts)) = credit a (entry_of t) + credits a (map entry_of ts)"
    by (simp add: credits_def)
  ultimately show ?case using Cons by (simp add: ledger_sum_Cons)
qed

lemma schema_amounts: "schema_ok db \<Longrightarrow> t \<in> set (transactions db) \<Longrightarrow> 0 < tm_Amount t"
  using schema_okD(5) by (auto simp: transaction_row_ok_def)

section \<open>Invariants that survive every movement\<close>

locale ledger_invariant =
  fixes P :: "database \<Rightarrow> bool"
    and x :: entry
  assumes keep_insert: "\<lbrakk>schema_ok db; P db; x = (tid, kind, fr, to, amt);
        sql_insert_pending tid kind fr to cur amt now db = (Inr (), db')\<rbrakk> \<Longrightarrow> P db'"
    and keep_settle: "\<lbrakk>schema_ok db; P db; settle_spec i ids now db = Some db'\<rbrakk> \<Longrightarrow> P db'"
    and keep_status: "\<lbrakk>schema_ok db; P db\<rbrakk> \<Longrightarrow> P (status_set i s now db)"
begin

lemma status_update_keeps:
  assumes "schema_ok (w_db w)" and "P (w_db w)" and "transaction_status_enum s"
  shows "P (w_db (snd (UpdateTransactionStatus R e i uid acc s w)))"
  using status_update_db [OF assms(3), of R e i uid acc w] keep_status [OF assms(1,2)] assms(2) by auto

lemma record_keeps:
  assumes ok: "schema_ok (w_db w)" and p: "P (w_db w)"
    and mv: "snd (move (w_db w)) = w_db w \<or> settle_spec i ids now (w_db w) = Some (snd (move (w_db w)))"
  shows "P (w_db (snd (settle_and_record R e j uid acc msg move w)))"
proof -
  let ?w1 = "w\<lparr>w_db := snd (move (w_db w))\<rparr>"
  have "schema_ok (w_db ?w1)" "P (w_db ?w1)"
    using mv ok p settle_spec_schema [OF ok] keep_settle [OF ok p] by auto
  then show ?thesis
    by (simp add: settle_and_record_eq Let_def status_update_keeps split: sum.splits)
qed

lemma pend_record_keeps:
  assumes ok: "schema_ok (w_db w)" and p: "P (w_db w)" and x: "x = (tid, kind, fr, to, amt)"
    and amt: "fits_signed 64 amt"
    and mv: "\<And>db. schema_ok db \<Longrightarrow>
      snd (move db) = db \<or> settle_spec i ids now db = Some (snd (move db))"
  shows "P (w_db (snd (pend_then e tid kind fr to cur amt pmsg (settle_and_record R e j uid acc msg move) w)))"
proof (rule pend_then_inv [where P = P, OF p])
  fix db1
  assume ins: "insert_pending e tid kind fr to cur amt (w_db w) = (Inr (), db1)"
  show p1: "P db1" by (rule keep_insert [OF ok p x ins])
  have "schema_ok db1" by (rule insert_pending_schema [OF ok ins amt])
  with p1 mv show "P (w_db (snd (settle_and_record R e j uid acc msg move (w\<lparr>w_db := db1\<rparr>))))"
    by (intro record_keeps) auto
qed

lemma withdraw_keeps:
  assumes ok: "schema_ok (w_db w)" and p: "P (w_db w)" and x: "x = (tid, ''withdrawal'', acc, acc, amt)"
    and amt: "fits_signed 64 amt"
  shows "P (w_db (snd (withdraw R e tid uid acc amt w)))"
proof (rule withdraw_inv [where P = P, OF p])
  fix cur db1 account
  assume ins: "insert_pending e tid ''withdrawal'' acc acc cur amt (w_db w) = (Inr (), db1)"
  show p1: "P db1" by (rule keep_insert [OF ok p x ins])
  have ok1: "schema_ok db1" by (rule insert_pending_schema [OF ok ins amt])
  have "P (w_db (snd (settle_and_record R e tid uid acc msg (WithdrawFunds e tid acc amt) (w\<lparr>w_db := db1\<rparr>))))" for msg
    using ok1 p1 wdr.move_state [OF ok1] by (intro record_keeps) auto
  then show "P (w_db (snd (withdraw_tail R e tid uid account acc amt (w\<lparr>w_db := db1\<rparr>))))"
    using ok1 p1 by (simp add: withdraw_tail_def split_beta status_update_keeps)
qed

lemma request_keeps:
  assumes "schema_ok (w_db w)" and "P (w_db w)" and "x = req_entry rq" and "fits_signed 64 (req_amount rq)"
  shows "P (w_db (snd (run_request R e rq w)))"
proof (cases rq)
  case (DepositReq tid uid acc cur amt)
  then show ?thesis
    using assms pend_record_keeps [OF assms(1,2) _ _ dep.move_state] by (simp add: deposit_pend)
next
  case (WithdrawReq tid uid acc amt)
  then show ?thesis
    using withdraw_keeps [OF assms(1,2), of tid acc amt R e uid] assms(3,4) by simp
next
  case (TransferReq tid uid fr to cur amt)
  then show ?thesis
    using assms pend_record_keeps [OF assms(1,2) _ _ trf.move_state] by (simp add: transfer_pend)
qed

end

text \<open>The entries stay among the given ones and that of the request, no balance outgrows its
  credits, and the outbox and the users are not touched.\<close>

definition accounted :: "entry set \<Rightarrow> outbox_row list \<Rightarrow> entry \<Rightarrow> database \<Rightarrow> bool" where
  "accounted S rows x db \<longleftrightarrow> set (entries db) \<subseteq> insert x S \<and> balances_covered db \<and> transaction_outbox db = rows"

lemma status_set_entries [simp]: "entries (status_set i s now db) = entries db"
  by (simp add: status_set_def entries_def update_where_def entry_of_def)

lemma complete_pending_entries [simp]: "map entry_of (complete_pending i now ts) = map entry_of ts"
  by (simp add: complete_pending_def update_where_def entry_of_def)

lemma settle_spec_covered:
  assumes ok: "schema_ok db" and c: "balances_covered db" and s: "settle_spec i ids now db = Some db'"
  shows "entries db' = entries db \<and> balances_covered db' \<and> transaction_outbox db' = transaction_outbox db"
proof (cases "\<exists>t \<in> set (transactions db). pending_row i t")
  case True
  let ?ts = "complete_pending i now (transactions db)"
  have db': "db' = db\<lparr>transactions := ?ts, accounts := rebalance ?ts ids now (accounts db)\<rparr>"
    using True s by (auto simp: settle_spec_def Let_def split: if_splits)
  have e: "entries db' = entries db" by (simp add: db' entries_def)
  have "\<forall>t \<in> set ?ts. 0 < tm_Amount t"
    using schema_amounts [OF ok] by (auto simp: complete_pending_def set_update_where)
  then have "ledger_sum a ?ts \<le> credits a (entries db')" for a
    using ledger_sum_le_credits [of ?ts a] unfolding e by (simp add: entries_def)
  moreover have "accounts db' = rebalance ?ts ids now (accounts db)" by (simp add: db')
  ultimately have "balances_covered db'"
    using c by (auto simp: balances_covered_def e rebalance_def set_update_where)
  with e show ?thesis by (simp add: db')
next
  case False
  with s c show ?thesis by (simp add: settle_spec_def)
qed

interpretation acct: ledger_invariant "accounted S rows x" x
  for S rows x
proof
  fix db tid kind fr to amt cur now db' i ids s
  assume a: "accounted S rows x db"
  { assume "x = (tid, kind, fr, to, amt)"
      and "sql_insert_pending tid kind fr to cur amt now db = (Inr (), db')"
    then show "accounted S rows x db'"
      using a by (force simp: accounted_def balances_covered_def entries_def sql_insert_pending_Inr
          new_transaction_def entry_of_def credits_def split: if_splits) }
  { assume "schema_ok db" and "settle_spec i ids now db = Some db'"
    then show "accounted S rows x db'" using a settle_spec_covered by (simp add: accounted_def) }
  show "accounted S rows x (status_set i s now db)"
    using a by (simp add: accounted_def balances_covered_def) (simp add: status_set_def)
qed

section \<open>What a delivered message does\<close>

lemma decode_int64_fits:
  assumes "decode_int64 name acc kvs = Inr i" and "fits_signed 64 acc"
  shows "fits_signed 64 i"
  using assms by (induction name acc kvs rule: decode_int64.induct) (auto split: if_splits json.splits)

lemma decode_payload_fits:
  assumes "decode_payload b payload = Inr p"
  shows "fits_signed 64 (rp_Amount p)"
proof -
  have "decode_fields b kvs = Inr p \<Longrightarrow> fits_signed 64 (rp_Amount p)" for kvs
    using decode_int64_fits [of "''Amount''" 0 kvs]
    by (auto simp: decode_fields_def fits_signed_def split: sum.splits)
  then show ?thesis using assms by (auto simp: decode_payload_def split: option.splits json.splits)
qed

lemma request_of_fits: "request_of m = Some rq \<Longrightarrow> fits_signed 64 (req_amount rq)"
  using decode_payload_fits by (auto simp: request_of_def Let_def split: if_splits sum.splits)

lemma event_types_distinct:
  "TransactionDepositRequested \<noteq> TransactionWithdrawalRequested"
  "TransactionDepositRequested \<noteq> TransactionTransferRequested"
  "TransactionWithdrawalRequested \<noteq> TransactionTransferRequested"
  by (simp_all add: go_consts)

text \<open>The dispatcher runs the request of the row the message was made from, and nothing else.\<close>

lemma Handle_request:
  assumes "marshal_envelope m = Some v"
  shows "snd (Handle (wallet_dispatcher R e) (Some v) w) =
    (case request_of m of None \<Rightarrow> w | Some rq \<Rightarrow> snd (run_request R e rq w))"
proof -
  have h: "snd (Handle (wallet_dispatcher R e) (Some v) w) =
      snd (h (om_AggregateId m) (Some (JObj (om_Payload m))) w)"
    if "wallet_dispatcher R e (om_EventType m) = Some h" for h
    using Handle_marshalled [of m v "wallet_dispatcher R e" h w] assms that
    by (auto split: prod.splits sum.splits)
  consider "om_EventType m = TransactionDepositRequested" | "om_EventType m = TransactionWithdrawalRequested"
    | "om_EventType m = TransactionTransferRequested" | "wallet_dispatcher R e (om_EventType m) = None"
    by (cases "om_EventType m \<in> {TransactionDepositRequested, TransactionWithdrawalRequested,
        TransactionTransferRequested}")
      (auto simp: wallet_dispatcher_def Register_def NewEventDispatcherService_def)
  then show ?thesis
  proof cases
    case 1
    then show ?thesis using h
      by (simp add: request_of_def HandleDepositDispatched_def split: sum.splits prod.splits)
  next
    case 2
    then show ?thesis using h event_types_distinct
      by (simp add: request_of_def HandleWithdrawalDispatched_def split: sum.splits prod.splits)
  next
    case 3
    then show ?thesis using h event_types_distinct
      by (simp add: request_of_def HandleTransferDispatched_def split: sum.splits prod.splits)
  next
    case 4
    then have "request_of m = None" by (auto simp: request_of_def Let_def)
    with 4 show ?thesis by (simp add: Handle_def decode_marshalled [OF assms])
  qed
qed

end
