(* ===== verification/AccountProps.thy ===== *)
theory AccountProps
  imports MovementProps WalletGrpc
begin

text \<open>
  Opening accounts and listing transactions: the limit of three accounts per user and currency,
  the invariants of the ledger when an account is opened, and the pages of a listing.
\<close>

section \<open>Opening an account\<close>

definition opened :: "string \<Rightarrow> string \<Rightarrow> database \<Rightarrow> nat" where
  "opened uid cur db = length (filter (\<lambda>a. am_UserID a = uid \<and> am_Currency a = cur) (accounts db))"

definition new_account :: "string \<Rightarrow> string \<Rightarrow> string \<Rightarrow> time \<Rightarrow> AccountModel" where
  "new_account newId uid cur now =
     \<lparr>am_ID = newId, am_UserID = uid, am_CreatedAt = now, am_UpdatedAt = now,
      am_Transactions = [], am_Balance = 0, am_Currency = cur\<rparr>"

definition list_page :: "db_env \<Rightarrow> string \<Rightarrow> int \<Rightarrow> nat \<Rightarrow> database \<Rightarrow> Transaction list" where
  "list_page e acc psize i db =
     (case Svc_ListTransactions e \<lparr>lr_AccountID = acc, lr_Page = int i, lr_PageSize = psize\<rparr> db of
        (Inr resp, _) \<Rightarrow> ls_Transactions resp
      | (Inl err, _) \<Rightarrow> [])"

definition busy_db :: database where
  "busy_db = sample_db\<lparr>transactions :=
     map (\<lambda>i. mk_row (Itoa (int i)) ''deposit'' ''a1'' ''a1'' 1 TransactionStatusFailed) [0..<9]\<rparr>"

lemma count_currency_length:
  "count_currency cur n as = n + length (filter (\<lambda>a. am_Currency a = cur) as)"
  by (induction as arbitrary: n) auto

lemma canOpen_opened:
  "canOpenNewAccounts (filter (\<lambda>a. am_UserID a = uid) (accounts db)) cur \<longleftrightarrow> opened uid cur db < 3"
  by (simp add: canOpenNewAccounts_def count_currency_length opened_def conj_commute)

lemma open_account_state:
  "snd (OpenAccount e newId uid cur db) = db \<or>
   (opened uid cur db < 3 \<and> newId \<notin> set (keys am_ID (accounts db)) \<and> uid \<in> set (keys um_ID (users db)) \<and>
    snd (OpenAccount e newId uid cur db) =
      db\<lparr>accounts := accounts db @ [new_account newId uid cur (env_now e InsertAccountC)]\<rparr>)"
  by (auto simp: OpenAccount_def FindAccountsByUserId_def InsertAccount_def autocommit_def
      sql_insert_account_def canOpen_opened new_account_def Let_def
      split: io.splits if_splits prod.splits sum.splits)

text \<open>As long as accounts are opened one after the other, no user ever has more than three
  accounts in one currency, whatever fails while one is opened.\<close>

theorem at_most_three_accounts:
  assumes "\<forall>u c. opened u c db \<le> 3"
  shows "opened u c (snd (OpenAccount e newId uid cur db)) \<le> 3"
proof -
  have "opened u c (db\<lparr>accounts := accounts db @ [new_account newId uid cur (env_now e InsertAccountC)]\<rparr>) =
      (if u = uid \<and> c = cur then opened u c db + 1 else opened u c db)"
    by (auto simp: opened_def new_account_def)
  then show ?thesis
    using open_account_state [of e newId uid cur db] assms [rule_format, of u c]
    by (elim disjE conjE) (simp_all split: if_splits)
qed

theorem at_most_three_accounts_witness:
  "opened ''u1'' ''USD'' (snd (OpenAccount (healthy 5) ''a3'' ''u1'' ''USD'' sample_db)) \<le> 3"
proof -
  have "opened u c sample_db \<le> length (accounts sample_db)" for u c by (simp add: opened_def)
  then have "opened u c sample_db \<le> 3" for u c by (rule order_trans) (simp add: fixture_defs)
  then show ?thesis by (intro at_most_three_accounts) blast
qed

lemma new_account_ledger:
  assumes ok: "schema_ok db" and books: "books_balanced db"
    and new: "newId \<notin> set (keys am_ID (accounts db))" and u: "uid \<in> set (keys um_ID (users db))"
  shows "schema_ok (db\<lparr>accounts := accounts db @ [new_account newId uid cur now]\<rparr>)"
    and "books_balanced (db\<lparr>accounts := accounts db @ [new_account newId uid cur now]\<rparr>)"
proof -
  show "schema_ok (db\<lparr>accounts := accounts db @ [new_account newId uid cur now]\<rparr>)"
    using ok new u
    by (auto simp: schema_ok_def accounts_ok_def account_row_ok_def transactions_ok_def
        transaction_row_ok_def new_account_def fits_signed_def)
  show "books_balanced (db\<lparr>accounts := accounts db @ [new_account newId uid cur now]\<rparr>)"
    using books ledger_sum_unknown [OF ok new] by (simp add: books_balanced_def new_account_def)
qed

text \<open>Opening an account keeps the constraints of the schema and the agreement of
  balances and ledger, and changes no existing account, whatever fails.\<close>

theorem open_account_keeps_ledger:
  assumes ok: "schema_ok db" and books: "books_balanced db"
  shows "schema_ok (snd (OpenAccount e newId uid cur db))
    \<and> books_balanced (snd (OpenAccount e newId uid cur db))
    \<and> set (accounts db) \<subseteq> set (accounts (snd (OpenAccount e newId uid cur db)))"
proof (cases "snd (OpenAccount e newId uid cur db) = db")
  case True
  with assms show ?thesis by simp
next
  case False
  let ?a = "new_account newId uid cur (env_now e InsertAccountC)"
  have new: "newId \<notin> set (keys am_ID (accounts db))" and u: "uid \<in> set (keys um_ID (users db))"
    and db': "snd (OpenAccount e newId uid cur db) = db\<lparr>accounts := accounts db @ [?a]\<rparr>"
    using open_account_state [of e newId uid cur db] False by auto
  show ?thesis using new_account_ledger [OF ok books new u, of cur "env_now e InsertAccountC"] by (auto simp: db')
qed

theorem open_account_keeps_ledger_witness:
  "schema_ok (snd (OpenAccount (healthy 5) ''a3'' ''u1'' ''USD'' sample_db))
    \<and> books_balanced (snd (OpenAccount (healthy 5) ''a3'' ''u1'' ''USD'' sample_db))"
  using open_account_keeps_ledger [OF sample_schema sample_books] by blast

section \<open>Pages of a listing\<close>

abbreviation page_rows :: "int \<Rightarrow> nat" where
  "page_rows psize \<equiv> nat (max 8 psize)"

lemma list_page_eq:
  assumes "call_up ListTransactionsC e" and "acc \<noteq> []" and "fits_signed 8 psize" and "int i < 2 ^ 31"
  shows "list_page e acc psize i db = map (transaction_of_model \<circ> TransactionModel.truncate)
    (take (page_rows psize) (drop (i * page_rows psize) (history acc db)))"
proof -
  let ?ps = "max 8 psize"
  have ps: "0 < ?ps" "?ps \<le> 127" using assms(3) by (auto simp: fits_signed_def)
  then have "int i * ?ps \<le> 2 ^ 31 * 127"
    using assms(4) by (intro mult_mono) auto
  then have off: "to_int64 (int i * ?ps) = int i * ?ps"
    using ps by (intro wrap_signed_id) (auto simp: fits_signed_def intro: order_trans [of _ 0])
  have n: "nat (int i * ?ps) = i * nat ?ps" by (simp add: nat_mult_distrib)
  have eq: "(if psize < 8 then 8 else psize) = ?ps" "(if int i < 0 then 0 else int i) = int i"
    by (simp_all add: max_def)
  have "ListTransactions e acc (int i * ?ps) ?ps db = (Inr (map TransactionModel.truncate
      (take (nat ?ps) (drop (i * nat ?ps) (history acc db)))), db)"
    using assms(1) ps n mult_nonneg_nonneg [of "int i" ?ps]
    by (simp add: ListTransactions_def call_up_def autocommit_def not_less)
  then show ?thesis
    using assms(2)
    unfolding list_page_def Svc_ListTransactions_def Let_def ListTransactionsRequest.select_convs eq off
    by simp
qed

lemma concat_pages:
  "concat (map (\<lambda>i. take n (drop (i * n) xs)) [0..<k]) = take (k * n) xs"
proof (induction k)
  case (Suc k)
  then show ?case by (simp add: take_add [symmetric] add.commute)
qed simp

text \<open>The first \<open>k\<close> pages of a listing, put together, are the first \<open>k\<close> page sizes of the
  account's transactions, newest first: no transaction is shown twice and none is left out.\<close>

theorem pages_cover_history:
  assumes "call_up ListTransactionsC e" and "acc \<noteq> []" and "fits_signed 8 psize" and "int k < 2 ^ 31"
  shows "concat (map (\<lambda>i. list_page e acc psize i db) [0..<k]) =
    map (transaction_of_model \<circ> TransactionModel.truncate) (take (k * page_rows psize) (history acc db))"
proof -
  have "concat (map (\<lambda>i. list_page e acc psize i db) [0..<k]) =
      map (transaction_of_model \<circ> TransactionModel.truncate)
        (concat (map (\<lambda>i. take (page_rows psize) (drop (i * page_rows psize) (history acc db))) [0..<k]))"
  proof -
    have "list_page e acc psize i db = map (transaction_of_model \<circ> TransactionModel.truncate)
        (take (page_rows psize) (drop (i * page_rows psize) (history acc db)))" if "i \<in> set [0..<k]" for i
      using that assms(4) by (intro list_page_eq [OF assms(1-3)]) simp
    then have "map (\<lambda>i. list_page e acc psize i db) [0..<k] =
        map (\<lambda>i. map (transaction_of_model \<circ> TransactionModel.truncate)
          (take (page_rows psize) (drop (i * page_rows psize) (history acc db)))) [0..<k]"
      by (rule map_cong [OF refl])
    then show ?thesis by (simp only: map_concat map_map) (simp only: comp_def)
  qed
  then show ?thesis by (simp only: concat_pages)
qed

theorem pages_cover_history_witness:
  "concat (map (\<lambda>i. list_page (healthy 5) ''a1'' 10 i sample_db) [0..<2]) =
    map (transaction_of_model \<circ> TransactionModel.truncate) (take 20 (history ''a1'' sample_db))"
  using pages_cover_history [of "healthy 5" "''a1''" 10 2 sample_db]
  by (simp add: call_up_def fits_signed_def)

text \<open>The token a full page ends with, sent back by the client, asks for the next page.\<close>

theorem next_page_token_roundtrip:
  assumes "Svc_ListTransactions e \<lparr>lr_AccountID = acc, lr_Page = page, lr_PageSize = psize\<rparr> db = (Inr resp, db')"
    and "ls_NextPageToken resp \<noteq> []" and "0 \<le> page" and "page + 1 < 2 ^ 31"
  shows "map_option lr_Page (ToListTransactionsDomain
    (Some \<lparr>pl_AccountId = acc, pl_PageSize = psize, pl_Page = ls_NextPageToken resp\<rparr>)) = Some (page + 1)"
proof -
  have t: "ls_NextPageToken resp = Itoa (page + 1)"
    using assms(1-3)
    by (auto simp: Svc_ListTransactions_def Let_def split: if_splits prod.splits sum.splits)
  have "fits_signed 64 (page + 1)" "fits_signed 32 (page + 1)"
    using assms(3,4) by (auto simp: fits_signed_def)
  then show ?thesis
    by (simp add: ToListTransactionsDomain_def t Atoi_def ParseInt_Itoa wrap_signed_id)
qed

theorem next_page_token_roundtrip_witness:
  "\<exists>resp. Svc_ListTransactions (healthy 5) \<lparr>lr_AccountID = ''a1'', lr_Page = 0, lr_PageSize = 8\<rparr> busy_db
       = (Inr resp, busy_db)
     \<and> map_option lr_Page (ToListTransactionsDomain
         (Some \<lparr>pl_AccountId = ''a1'', pl_PageSize = 8, pl_Page = ls_NextPageToken resp\<rparr>)) = Some 1"
proof -
  let ?s = "Svc_ListTransactions (healthy 5) \<lparr>lr_AccountID = ''a1'', lr_Page = 0, lr_PageSize = 8\<rparr> busy_db"
  have "(case ?s of (Inr r, _) \<Rightarrow> ls_NextPageToken r = ''1'' | _ \<Rightarrow> False)" by code_simp
  moreover have "snd ?s = busy_db"
    by (auto simp: Svc_ListTransactions_def ListTransactions_def autocommit_def Let_def split: prod.splits sum.splits)
  ultimately obtain resp where s: "?s = (Inr resp, busy_db)" and t: "ls_NextPageToken resp = ''1''"
    by (cases ?s; cases "fst ?s") auto
  from next_page_token_roundtrip [OF s] s t show ?thesis by simp
qed

text \<open>C37. Whatever page and page size a client sends, a listing has at most 127 entries.\<close>

theorem listing_is_bounded:
  assumes "Grpc_ListTransactions e req db = (Inr (Some resp), db')"
  shows "length (pls_Transactions resp) \<le> 127"
proof -
  let ?psize = "to_int8 (pl_PageSize req)"
  have fit: "fits_signed 8 ?psize" by (rule wrap_signed_fits) simp
  let ?req = "\<lparr>lr_AccountID = pl_AccountId req, lr_Page = to_int32 (fst (Atoi (pl_Page req))),
      lr_PageSize = ?psize\<rparr>"
  obtain res db1 where s0: "Svc_ListTransactions e ?req db = (res, db1)"
    by (cases "Svc_ListTransactions e ?req db")
  obtain r where s: "Svc_ListTransactions e ?req db = (Inr r, db1)"
    and r: "length (pls_Transactions resp) = length (ls_Transactions r)"
    using assms s0
    by (cases res) (auto simp: Grpc_ListTransactions_def ToListTransactionsDomain_def
        ToListTransactionsProto_def split_beta)
  have "length (ls_Transactions r) \<le> page_rows ?psize"
    using s
    by (auto simp: Svc_ListTransactions_def ListTransactions_def autocommit_def Let_def max_def
        split: if_splits prod.splits sum.splits io.splits)
  moreover have "page_rows ?psize \<le> 127" using fit by (auto simp: fits_signed_def)
  ultimately show ?thesis using r by simp
qed

lemma some_response:
  assumes "case x of Inr (Some r) \<Rightarrow> True | _ \<Rightarrow> False"
  obtains r where "x = Inr (Some r)"
  using assms by (auto split: sum.splits option.splits)

theorem listing_is_bounded_witness:
  "\<exists>resp db'. Grpc_ListTransactions (healthy 5) \<lparr>pl_AccountId = ''a1'', pl_PageSize = 200, pl_Page = []\<rparr> busy_db
       = (Inr (Some resp), db') \<and> length (pls_Transactions resp) \<le> 127"
proof -
  let ?s = "Grpc_ListTransactions (healthy 5) \<lparr>pl_AccountId = ''a1'', pl_PageSize = 200, pl_Page = []\<rparr> busy_db"
  have "(case fst ?s of Inr (Some r) \<Rightarrow> True | _ \<Rightarrow> False)" by code_simp
  then obtain resp where "fst ?s = Inr (Some resp)" by (rule some_response)
  then have s: "?s = (Inr (Some resp), snd ?s)" by (simp add: prod_eq_iff)
  from listing_is_bounded [OF s] s show ?thesis by blast
qed

end
