(* ===== verification/Session.thy ===== *)
theory Session
  imports Cache
begin

text \<open>
  \<^verbatim>\<open>shared/pkg/session/session.go\<close> and the shared user struct: signing and validating access
  and refresh tokens. The JWT library is a parameter, a record with its two calls: signing with
  HS256 under a key, and parsing, which is given the key function of the source (from whether
  the token names an HMAC method) and the time at which it runs. The locale \<open>jwt_laws\<close> states
  what the library documents, for claims in ASCII. The claims of both kinds of token are the
  same struct.
\<close>

record User =
  us_ID :: string
  us_Name :: string
  us_Username :: string
  us_Email :: string
  us_Password :: string
  us_CreatedAt :: time
  us_UpdatedAt :: time

record token_claims =
  tc_UserId :: string
  tc_Username :: string
  tc_Email :: string
  tc_Subject :: string
  tc_IssuedAt :: int \<comment> \<open>seconds\<close>
  tc_ExpiresAt :: int \<comment> \<open>seconds\<close>

record jwt_lib =
  jw_SignedString :: "string \<Rightarrow> token_claims \<Rightarrow> string result"
  jw_ParseWithClaims :: "(bool \<Rightarrow> string result) \<Rightarrow> time \<Rightarrow> string \<Rightarrow> (token_claims \<times> bool) result"

definition jwtSecret :: "os_env \<Rightarrow> string" where
  "jwtSecret env = GetString env ''JWT_SECRET'' ''dev-secret-change-me''"

definition session_accessTokenTTL :: "os_env \<Rightarrow> time" where
  "session_accessTokenTTL env = minutes (GetInt env ''ACCESS_TOKEN_TTL_MINUTES'' 15)"

definition refreshTokenTTL :: "os_env \<Rightarrow> time" where
  "refreshTokenTTL env = hours (GetInt env ''REFRESH_TOKEN_TTL_MINUTES'' 48)"

definition NumericDate :: "time \<Rightarrow> int" where
  "NumericDate t = t div 1000000"

definition claims_of :: "User \<Rightarrow> time \<Rightarrow> time \<Rightarrow> token_claims" where
  "claims_of user now ttl =
     \<lparr>tc_UserId = us_ID user, tc_Username = us_Username user, tc_Email = us_Email user,
      tc_Subject = us_ID user, tc_IssuedAt = NumericDate now, tc_ExpiresAt = NumericDate (now + ttl)\<rparr>"

definition GenerateAccessToken :: "jwt_lib \<Rightarrow> os_env \<Rightarrow> time \<Rightarrow> User option \<Rightarrow> string result" where
  "GenerateAccessToken J env now user =
     (case user of
        None \<Rightarrow> Inl (errorf ''cannot generate an access token for a nil user'')
      | Some user \<Rightarrow>
          (case jw_SignedString J (jwtSecret env) (claims_of user now (session_accessTokenTTL env)) of
             Inl err \<Rightarrow> Inl (wrapf ''failed to sign access token: %w'' err)
           | Inr token \<Rightarrow> Inr token))"

definition GenerateRefreshToken :: "jwt_lib \<Rightarrow> os_env \<Rightarrow> time \<Rightarrow> User option \<Rightarrow> string result" where
  "GenerateRefreshToken J env now user =
     (case user of
        None \<Rightarrow> Inl (errorf ''cannot generate a refresh token for a nil user'')
      | Some user \<Rightarrow>
          (case jw_SignedString J (jwtSecret env) (claims_of user now (refreshTokenTTL env)) of
             Inl err \<Rightarrow> Inl (wrapf ''failed to sign refresh token: %w'' err)
           | Inr token \<Rightarrow> Inr token))"

definition hmac_keyfunc :: "os_env \<Rightarrow> bool \<Rightarrow> string result" where
  "hmac_keyfunc env isHMAC =
     (if \<not> isHMAC then Inl (errorf ''unexpected signing method: %v'') else Inr (jwtSecret env))"

definition ValidateAccessToken :: "jwt_lib \<Rightarrow> os_env \<Rightarrow> time \<Rightarrow> string \<Rightarrow> token_claims result" where
  "ValidateAccessToken J env now tokenString =
     (case jw_ParseWithClaims J (hmac_keyfunc env) now tokenString of
        Inl err \<Rightarrow> Inl (wrapf ''failed to validate access token: %w'' err)
      | Inr (claims, valid) \<Rightarrow>
          if \<not> valid then Inl (errorf ''access token is invalid'') else Inr claims)"

definition ValidateRefreshToken :: "jwt_lib \<Rightarrow> os_env \<Rightarrow> time \<Rightarrow> string \<Rightarrow> token_claims result" where
  "ValidateRefreshToken J env now tokenString =
     (case jw_ParseWithClaims J (hmac_keyfunc env) now tokenString of
        Inl err \<Rightarrow> Inl (wrapf ''failed to validate refresh token: %w'' err)
      | Inr (claims, valid) \<Rightarrow>
          if \<not> valid then Inl (errorf ''refresh token is invalid'') else Inr claims)"

section \<open>What the JWT library promises\<close>

text \<open>A token signed under a key parses to its claims under the same key strictly before it
  expires, and is refused from then on.\<close>

locale jwt_laws =
  fixes J :: jwt_lib
  assumes parse_signed: "\<lbrakk>jw_SignedString J key c = Inr t; kf True = Inr key; now < 1000000 * tc_ExpiresAt c\<rbrakk>
      \<Longrightarrow> jw_ParseWithClaims J kf now t = Inr (c, True)"
    and parse_expired: "\<lbrakk>jw_SignedString J key c = Inr t; kf True = Inr key; 1000000 * tc_ExpiresAt c \<le> now\<rbrakk>
      \<Longrightarrow> \<exists>err. jw_ParseWithClaims J kf now t = Inl err"
begin

lemma keyfunc_key: "hmac_keyfunc env True = Inr (jwtSecret env)"
  by (simp add: hmac_keyfunc_def)

lemma access_token_signed:
  assumes "GenerateAccessToken J env now (Some u) = Inr t"
  shows "jw_SignedString J (jwtSecret env) (claims_of u now (session_accessTokenTTL env)) = Inr t"
  using assms by (simp add: GenerateAccessToken_def split: sum.splits)

lemma refresh_token_signed:
  assumes "GenerateRefreshToken J env now (Some u) = Inr t"
  shows "jw_SignedString J (jwtSecret env) (claims_of u now (refreshTokenTTL env)) = Inr t"
  using assms by (simp add: GenerateRefreshToken_def split: sum.splits)

lemma access_token_valid:
  assumes "GenerateAccessToken J env now (Some u) = Inr t"
    and "later < 1000000 * NumericDate (now + session_accessTokenTTL env)"
  shows "ValidateAccessToken J env later t = Inr (claims_of u now (session_accessTokenTTL env))"
proof -
  have "later < 1000000 * tc_ExpiresAt (claims_of u now (session_accessTokenTTL env))"
    using assms(2) by (simp add: claims_of_def)
  from parse_signed [where kf = "hmac_keyfunc env", OF access_token_signed [OF assms(1)] keyfunc_key this]
  show ?thesis by (simp add: ValidateAccessToken_def)
qed

lemma access_token_expires:
  assumes "GenerateAccessToken J env now (Some u) = Inr t"
    and "1000000 * NumericDate (now + session_accessTokenTTL env) \<le> later"
  shows "\<exists>err. ValidateAccessToken J env later t = Inl err"
proof -
  have "1000000 * tc_ExpiresAt (claims_of u now (session_accessTokenTTL env)) \<le> later"
    using assms(2) by (simp add: claims_of_def)
  from parse_expired [where kf = "hmac_keyfunc env", OF access_token_signed [OF assms(1)] keyfunc_key this]
  show ?thesis by (auto simp: ValidateAccessToken_def)
qed

text \<open>Nothing in a refresh token says what it is for.\<close>

lemma refresh_token_as_access_token:
  assumes "GenerateRefreshToken J env now (Some u) = Inr t"
    and "later < 1000000 * NumericDate (now + refreshTokenTTL env)"
  shows "ValidateAccessToken J env later t = Inr (claims_of u now (refreshTokenTTL env))"
proof -
  have "later < 1000000 * tc_ExpiresAt (claims_of u now (refreshTokenTTL env))"
    using assms(2) by (simp add: claims_of_def)
  from parse_signed [where kf = "hmac_keyfunc env", OF refresh_token_signed [OF assms(1)] keyfunc_key this]
  show ?thesis by (simp add: ValidateAccessToken_def)
qed

end

text \<open>A reference library: the fields of the token one after the other, the key in front, each
  character marked so that the separator cannot be mistaken for one.\<close>

definition frame :: "string \<Rightarrow> string" where
  "frame s = concat (map (\<lambda>c. [CHR ''x'', c]) s) @ ''.''"

fun unframe :: "string \<Rightarrow> string \<Rightarrow> string list" where
  "unframe acc [] = []"
| "unframe acc [m] = (if m = CHR ''.'' then [rev acc] else [])"
| "unframe acc (m # c # s) = (if m = CHR ''.'' then rev acc # unframe [] (c # s) else unframe (c # acc) s)"

definition unary :: "int \<Rightarrow> string" where
  "unary i = (if i < 0 then CHR ''-'' else CHR ''+'') # replicate (nat \<bar>i\<bar>) CHR ''1''"

fun of_unary :: "string \<Rightarrow> int" where
  "of_unary [] = 0"
| "of_unary (c # s) = (if c = CHR ''-'' then - int (length s) else int (length s))"

definition jwt_ref :: jwt_lib where
  "jwt_ref = \<lparr>
     jw_SignedString = (\<lambda>key c. Inr (concat (map frame [key, tc_UserId c, tc_Username c, tc_Email c,
       tc_Subject c, unary (tc_IssuedAt c), unary (tc_ExpiresAt c)]))),
     jw_ParseWithClaims = (\<lambda>kf now t.
       case kf True of
         Inl err \<Rightarrow> Inl err
       | Inr key \<Rightarrow>
           (case unframe [] t of
              [key', uid, name, email, subject, issued, expires] \<Rightarrow>
                if key' \<noteq> key then Inl (errorf ''signature is invalid'')
                else if 1000000 * of_unary expires \<le> now then Inl (errorf ''token is expired'')
                else Inr (\<lparr>tc_UserId = uid, tc_Username = name, tc_Email = email, tc_Subject = subject,
                  tc_IssuedAt = of_unary issued, tc_ExpiresAt = of_unary expires\<rparr>, True)
            | _ \<Rightarrow> Inl (errorf ''token is malformed'')))\<rparr>"

lemma unframe_frame: "unframe acc (frame s @ t) = (rev acc @ s) # unframe [] t"
proof (induction s arbitrary: acc)
  case Nil
  then show ?case by (cases t) (simp_all add: frame_def)
next
  case (Cons c s)
  then have "unframe (c # acc) (frame s @ t) = (rev acc @ c # s) # unframe [] t" by simp
  then show ?case by (simp add: frame_def)
qed

lemma of_unary_unary: "of_unary (unary i) = i"
  by (simp add: unary_def)

lemma jwt_ref_parse:
  assumes "jw_SignedString jwt_ref key c = Inr t" and "kf True = Inr key"
  shows "jw_ParseWithClaims jwt_ref kf now t =
    (if 1000000 * tc_ExpiresAt c \<le> now then Inl (errorf ''token is expired'') else Inr (c, True))"
proof -
  have "unframe [] t = [key, tc_UserId c, tc_Username c, tc_Email c, tc_Subject c,
      unary (tc_IssuedAt c), unary (tc_ExpiresAt c)]"
    using assms(1) unframe_frame [of "[]" "unary (tc_ExpiresAt c)" "[]"]
    by (auto simp: jwt_ref_def unframe_frame)
  then show ?thesis using assms(2) by (simp add: jwt_ref_def of_unary_unary)
qed

interpretation jref: jwt_laws jwt_ref
  by unfold_locales (simp_all add: jwt_ref_parse)

end
