(* ===== verification/AuthService.thy ===== *)
theory AuthService
  imports WalletRepository Session
begin

text \<open>
  The auth service: \<^verbatim>\<open>auth-service/internal/repository/auth-repository.go\<close>, the validations and
  password functions of \<^verbatim>\<open>auth-service/internal/utils\<close>,
  \<^verbatim>\<open>auth-service/internal/services/auth_service.go\<close>, the mappers and the gRPC handlers. The
  library \<^verbatim>\<open>bcrypt\<close> is a parameter. Strings are ASCII here: the validations of the source work
  on Unicode code points and agree with the model on ASCII input. The repository's state is the
  world of the wallet repository, since both services share one database and one cache.
\<close>

section \<open>Repository\<close>

definition UserModel_zero :: UserModel where
  "UserModel_zero = \<lparr>um_ID = [], um_Name = [], um_Username = [], um_Password = [], um_Email = [],
     um_CreatedAt = zero_time, um_UpdatedAt = zero_time\<rparr>"

definition FindByUserId :: "db_env \<Rightarrow> string \<Rightarrow> (database, UserModel option) operation" where
  "FindByUserId e userId db =
     (case autocommit (env_io e FindByUserIdC (Stmt 0))
             (\<lambda>db. (Inr (List.find (\<lambda>u. um_ID u = userId) (users db)), db)) db of
        (Inl err, db) \<Rightarrow> (Inl (wrapf ''failed to find user %s in DB: %w'' err), db)
      | (Inr None, db) \<Rightarrow> (Inr None, db)
      | (Inr (Some u), db) \<Rightarrow> (Inr (Some (u\<lparr>um_Password := []\<rparr>)), db))"

definition FindByUsername :: "db_env \<Rightarrow> string \<Rightarrow> (database, UserModel option) operation" where
  "FindByUsername e username db =
     (case autocommit (env_io e FindByUsernameC (Stmt 0))
             (\<lambda>db. (Inr (List.find (\<lambda>u. um_Username u = username) (users db)), db)) db of
        (Inl err, db) \<Rightarrow> (Inl (wrapf ''failed to find username %s in DB: %w'' err), db)
      | (Inr found, db) \<Rightarrow> (Inr found, db))"

definition sql_insert_user :: "string \<Rightarrow> string \<Rightarrow> string \<Rightarrow> string \<Rightarrow> string \<Rightarrow> time \<Rightarrow>
    (database, UserModel) operation" where
  "sql_insert_user userId name email username password now db =
     (if userId \<in> set (keys um_ID (users db)) then (Inl (sql_error ''users_pkey''), db)
      else if username \<in> set (keys um_Username (users db)) then (Inl (sql_error ''idx_users_username''), db)
      else if email \<in> set (keys um_Email (users db)) then (Inl (sql_error ''idx_users_email''), db)
      else (Inr (UserModel_zero\<lparr>um_ID := userId, um_Name := name, um_Username := username, um_Email := email\<rparr>),
            db\<lparr>users := users db @ [\<lparr>um_ID = userId, um_Name = name, um_Username = username,
                 um_Password = password, um_Email = email, um_CreatedAt = now, um_UpdatedAt = now\<rparr>]\<rparr>))"

definition InsertUser :: "'r redis_client \<Rightarrow> os_env \<Rightarrow> db_env \<Rightarrow> time \<Rightarrow> string \<Rightarrow> string \<Rightarrow> string \<Rightarrow>
    string \<Rightarrow> string \<Rightarrow> string \<Rightarrow> ('r world, UserModel) operation" where
  "InsertUser R env e clock name email username userId password refreshToken w =
     (case on_db (autocommit (env_io e InsertUserC (Stmt 0))
             (sql_insert_user userId name email username password (env_now e InsertUserC))) w of
        (Inl err, w) \<Rightarrow> (Inl (wrapf ''failed to insert user in DB: %w'' err), w)
      | (Inr user, w) \<Rightarrow>
          (let (_, w) = on_ch (StoreToken R env clock userId refreshToken) w in (Inr user, w)))"

definition sql_update_user :: "string \<Rightarrow> string \<Rightarrow> string \<Rightarrow> string \<Rightarrow> (database, unit) operation" where
  "sql_update_user userId name email username db =
     (if userId \<notin> set (keys um_ID (users db)) then (Inl ErrNoRows, db)
      else if \<exists>u \<in> set (users db). um_ID u \<noteq> userId \<and> um_Username u = username
      then (Inl (sql_error ''idx_users_username''), db)
      else if \<exists>u \<in> set (users db). um_ID u \<noteq> userId \<and> um_Email u = email
      then (Inl (sql_error ''idx_users_email''), db)
      else (Inr (), db\<lparr>users := update_where (\<lambda>u. um_ID u = userId)
              (\<lambda>u. u\<lparr>um_Email := email, um_Username := username, um_Name := name\<rparr>) (users db)\<rparr>))"

definition UpdateUser :: "db_env \<Rightarrow> string \<Rightarrow> string \<Rightarrow> string \<Rightarrow> string \<Rightarrow>
    (database, UserModel option) operation" where
  "UpdateUser e name email username userId db =
     (case autocommit (env_io e UpdateUserC (Stmt 0)) (sql_update_user userId name email username) db of
        (Inl err, db) \<Rightarrow> (Inl (wrapf ''failed to update user: %s in DB: %w'' err), db)
      | (Inr _, db) \<Rightarrow> (Inr None, db))"

definition GetTokenByUserId :: "db_env \<Rightarrow> string \<Rightarrow> (database, UserAuthModel option) operation" where
  "GetTokenByUserId e userId db =
     (case autocommit (env_io e GetTokenByUserIdC (Stmt 0))
             (\<lambda>db. (Inr (List.find (\<lambda>s. ua_UserId s = userId) (user_auth db)), db)) db of
        (Inl err, db) \<Rightarrow> (Inl (wrapf ''failed to retrieve userAuth: %s in DB: %w'' err), db)
      | (Inr found, db) \<Rightarrow> (Inr found, db))"

text \<open>\<open>None\<close> is the empty result of \<^verbatim>\<open>RETURNING\<close>: the conflicting row is logged in.\<close>

definition sql_insert_token :: "string \<Rightarrow> string \<Rightarrow> string \<Rightarrow> time \<Rightarrow> (database, string option) operation" where
  "sql_insert_token newId userId refreshToken now db =
     (case List.find (\<lambda>s. ua_UserId s = userId) (user_auth db) of
        Some s \<Rightarrow>
          if ua_IsCurrentlyLoggedIn s then (Inr None, db)
          else (Inr (Some (ua_ID s)), db\<lparr>user_auth := update_where (\<lambda>s. ua_UserId s = userId)
                 (\<lambda>s. s\<lparr>ua_RefreshToken := refreshToken, ua_CreatedAt := now,
                        ua_IsCurrentlyLoggedIn := True\<rparr>) (user_auth db)\<rparr>)
      | None \<Rightarrow>
          if newId \<in> set (keys ua_ID (user_auth db)) then (Inl (sql_error ''user_auth_pkey''), db)
          else if userId \<notin> set (keys um_ID (users db)) then (Inl (sql_error ''user_auth_user_id_fkey''), db)
          else (Inr (Some newId), db\<lparr>user_auth := user_auth db @
                 [\<lparr>ua_ID = newId, ua_RefreshToken = refreshToken, ua_UserId = userId,
                   ua_IsCurrentlyLoggedIn = True, ua_CreatedAt = now, ua_UpdatedAt = now\<rparr>]\<rparr>))"

definition InsertToken :: "'r redis_client \<Rightarrow> os_env \<Rightarrow> db_env \<Rightarrow> time \<Rightarrow> string \<Rightarrow> string \<Rightarrow> string \<Rightarrow>
    ('r world, bool) operation" where
  "InsertToken R env e clock newId userId refreshToken w =
     (case on_db (autocommit (env_io e InsertTokenC (Stmt 0))
             (sql_insert_token newId userId refreshToken (env_now e InsertTokenC))) w of
        (Inl err, w) \<Rightarrow> (Inl (wrapf ''failed to insert token for user %s: %w'' err), w)
      | (Inr None, w) \<Rightarrow> (Inr False, w)
      | (Inr (Some insertedId), w) \<Rightarrow>
          (let (_, w) = on_ch (StoreToken R env clock userId refreshToken) w in (Inr True, w)))"

definition DeleteToken :: "db_env \<Rightarrow> string \<Rightarrow> (database, unit) operation" where
  "DeleteToken e userId db =
     (case autocommit (env_io e DeleteTokenC (Stmt 0))
             (\<lambda>db. (Inr (), db\<lparr>user_auth := filter (\<lambda>s. ua_UserId s \<noteq> userId) (user_auth db)\<rparr>)) db of
        (Inl err, db) \<Rightarrow> (Inl (wrapf ''failed to delete token for user %s: %w'' err), db)
      | (Inr _, db) \<Rightarrow> (Inr (), db))"

section \<open>Validation\<close>

definition is_upper :: "char \<Rightarrow> bool" where
  "is_upper c \<longleftrightarrow> (let n = (of_char c :: nat) in 65 \<le> n \<and> n \<le> 90)"

definition is_lower :: "char \<Rightarrow> bool" where
  "is_lower c \<longleftrightarrow> (let n = (of_char c :: nat) in 97 \<le> n \<and> n \<le> 122)"

definition is_special :: "char \<Rightarrow> bool" where \<comment> \<open>\<open>unicode.IsPunct\<close> or \<open>unicode.IsSymbol\<close>\<close>
  "is_special c \<longleftrightarrow> (let n = (of_char c :: nat) in
     (33 \<le> n \<and> n \<le> 47) \<or> (58 \<le> n \<and> n \<le> 64) \<or> (91 \<le> n \<and> n \<le> 96) \<or> (123 \<le> n \<and> n \<le> 126))"

definition is_space :: "char \<Rightarrow> bool" where
  "is_space c \<longleftrightarrow> (let n = (of_char c :: nat) in (9 \<le> n \<and> n \<le> 13) \<or> n = 32)"

definition TrimSpace :: "string \<Rightarrow> string" where
  "TrimSpace s = rev (dropWhile is_space (rev (dropWhile is_space s)))"

definition ToLower :: "string \<Rightarrow> string" where
  "ToLower s = map lower_char s"

definition usernameRegex :: "string \<Rightarrow> bool" where
  "usernameRegex s \<longleftrightarrow> 3 \<le> length s \<and> length s \<le> 20 \<and>
     list_all (\<lambda>c. is_upper c \<or> is_lower c \<or> is_digit c \<or> c = CHR ''_'') s"

definition local_char :: "char \<Rightarrow> bool" where
  "local_char c \<longleftrightarrow> is_upper c \<or> is_lower c \<or> is_digit c \<or> c \<in> set ''._%+-''"

definition domain_char :: "char \<Rightarrow> bool" where
  "domain_char c \<longleftrightarrow> is_upper c \<or> is_lower c \<or> is_digit c \<or> c \<in> set ''.-''"

text \<open>The address is cut at its first \<open>@\<close> and the rest at its last dot.\<close>

definition emailRegex :: "string \<Rightarrow> bool" where
  "emailRegex s =
     (let name = takeWhile (\<lambda>c. c \<noteq> CHR ''@'') s;
          rest = dropWhile (\<lambda>c. c \<noteq> CHR ''@'') s
      in case rest of
           [] \<Rightarrow> False
         | _ # host \<Rightarrow>
             (let tld = rev (takeWhile (\<lambda>c. c \<noteq> CHR ''.'') (rev host))
              in case dropWhile (\<lambda>c. c \<noteq> CHR ''.'') (rev host) of
                   [] \<Rightarrow> False
                 | _ # labels \<Rightarrow>
                     name \<noteq> [] \<and> list_all local_char name \<and> labels \<noteq> [] \<and> list_all domain_char labels \<and>
                     2 \<le> length tld \<and> list_all (\<lambda>c. is_upper c \<or> is_lower c) tld))"

definition ErrNameRequired :: error where "ErrNameRequired = Sentinel ''name is required''"
definition ErrUsernameRequired :: error where "ErrUsernameRequired = Sentinel ''username is required''"
definition ErrUsernameInvalid :: error where
  "ErrUsernameInvalid = Sentinel ''username must be 3-20 characters, alphanumeric and underscores only''"
definition ErrEmailRequired :: error where "ErrEmailRequired = Sentinel ''email is required''"
definition ErrEmailInvalid :: error where "ErrEmailInvalid = Sentinel ''email format is invalid''"
definition ErrPasswordTooShort :: error where
  "ErrPasswordTooShort = Sentinel ''password must be at least 8 characters''"
definition ErrPasswordWeak :: error where
  "ErrPasswordWeak = Sentinel ''password must contain at least one uppercase letter, one lowercase letter, one number, and one special character''"

record classes =
  hasUpper :: bool
  hasLower :: bool
  hasNumber :: bool
  hasSpecial :: bool

fun scan_password :: "classes \<Rightarrow> string \<Rightarrow> classes" where
  "scan_password f [] = f"
| "scan_password f (r # rs) =
     scan_password
       (if is_upper r then f\<lparr>hasUpper := True\<rparr>
        else if is_lower r then f\<lparr>hasLower := True\<rparr>
        else if is_digit r then f\<lparr>hasNumber := True\<rparr>
        else if is_special r then f\<lparr>hasSpecial := True\<rparr>
        else f) rs"

definition validatePassword :: "string \<Rightarrow> error option" where
  "validatePassword password =
     (if length password < 8 then Some ErrPasswordTooShort
      else
        let f = scan_password \<lparr>hasUpper = False, hasLower = False, hasNumber = False, hasSpecial = False\<rparr> password
        in if \<not> hasUpper f \<or> \<not> hasLower f \<or> \<not> hasNumber f \<or> \<not> hasSpecial f
           then Some ErrPasswordWeak else None)"

definition ValidateUser :: "User \<Rightarrow> error option \<times> User" where
  "ValidateUser user =
     (let user = user\<lparr>us_Name := TrimSpace (us_Name user), us_Username := TrimSpace (us_Username user),
                      us_Email := TrimSpace (ToLower (us_Email user))\<rparr>
      in (if us_Name user = [] then Some ErrNameRequired
          else if us_Username user = [] then Some ErrUsernameRequired
          else if \<not> usernameRegex (us_Username user) then Some ErrUsernameInvalid
          else if us_Email user = [] then Some ErrEmailRequired
          else if \<not> emailRegex (us_Email user) then Some ErrEmailInvalid
          else validatePassword (us_Password user), user))"

section \<open>Passwords\<close>

record bcrypt =
  bc_GenerateFromPassword :: "string \<Rightarrow> int \<Rightarrow> string result"
  bc_CompareHashAndPassword :: "string \<Rightarrow> string \<Rightarrow> error option"

definition bcryptCost :: int where "bcryptCost = 12"

definition bcrypt_mismatch :: string where
  "bcrypt_mismatch = ''crypto/bcrypt: hashedPassword is not the hash of the given password''"

definition HashPassword :: "bcrypt \<Rightarrow> string \<Rightarrow> string result" where
  "HashPassword B password =
     (if password = [] then Inl (errorf ''password cannot be empty'')
      else case bc_GenerateFromPassword B password bcryptCost of
        Inl err \<Rightarrow> Inl (wrapf ''failed to hash password: %w'' err)
      | Inr hashed \<Rightarrow> Inr hashed)"

definition ComparePassword :: "bcrypt \<Rightarrow> string \<Rightarrow> string \<Rightarrow> error option" where
  "ComparePassword B hashedPassword password =
     (case bc_CompareHashAndPassword B hashedPassword password of
        None \<Rightarrow> None
      | Some err \<Rightarrow>
          if errors_Is err bcrypt_mismatch then Some (errorf ''incorrect password'')
          else Some (wrapf ''failed to compare password: %w'' err))"

section \<open>Service\<close>

record AuthenticateUserResponse =
  ar_AccessToken :: string
  ar_UserId :: string

record UserSessionTokens =
  ut_RefreshToken :: string
  ut_SessionToken :: string

text \<open>The libraries, the process environment and the clocks of one call.\<close>

record 'r auth_env =
  ae_redis :: "'r redis_client"
  ae_bcrypt :: bcrypt
  ae_jwt :: jwt_lib
  ae_os :: os_env
  ae_db :: db_env
  ae_clock :: time

definition generateSessionTokens :: "'r auth_env \<Rightarrow> User \<Rightarrow> UserSessionTokens result" where
  "generateSessionTokens a user =
     (case GenerateAccessToken (ae_jwt a) (ae_os a) (ae_clock a) (Some user) of
        Inl err \<Rightarrow> Inl (wrapf ''failed to generate access token: %w'' err)
      | Inr accessToken \<Rightarrow>
          (case GenerateRefreshToken (ae_jwt a) (ae_os a) (ae_clock a) (Some user) of
             Inl err \<Rightarrow> Inl (wrapf ''failed to generate refresh token: %w'' err)
           | Inr refreshToken \<Rightarrow> Inr \<lparr>ut_RefreshToken = refreshToken, ut_SessionToken = accessToken\<rparr>))"

definition RegisterUser :: "'r auth_env \<Rightarrow> string \<Rightarrow> User \<Rightarrow>
    ('r world, AuthenticateUserResponse) operation" where
  "RegisterUser a newId user w =
     (case ValidateUser user of
        (Some err, user) \<Rightarrow> (Inl (wrapf ''validation failed: %w'' err), w)
      | (None, user) \<Rightarrow>
          (let user = user\<lparr>us_ID := newId\<rparr> in
           case on_db (FindByUserId (ae_db a) (us_ID user)) w of
             (Inl err, w) \<Rightarrow> (Inl (wrapf ''failed to check existing user: %w'' err), w)
           | (Inr (Some existing), w) \<Rightarrow> (Inl (errorf ''user already exists''), w)
           | (Inr None, w) \<Rightarrow>
               (case HashPassword (ae_bcrypt a) (us_Password user) of
                  Inl err \<Rightarrow> (Inl (wrapf ''failed to hash password: %w'' err), w)
                | Inr hashedPassword \<Rightarrow>
                    (let user = user\<lparr>us_Password := hashedPassword\<rparr> in
                     case generateSessionTokens a user of
                       Inl err \<Rightarrow> (Inl (wrapf ''failed to generate session tokens: %w'' err), w)
                     | Inr tokens \<Rightarrow>
                         (case InsertUser (ae_redis a) (ae_os a) (ae_db a) (ae_clock a) (us_Name user)
                                 (us_Email user) (us_Username user) (us_ID user) (us_Password user)
                                 (ut_RefreshToken tokens) w of
                            (Inl err, w) \<Rightarrow> (Inl (wrapf ''failed to insert user: %w'' err), w)
                          | (Inr inserted, w) \<Rightarrow>
                              (Inr \<lparr>ar_AccessToken = ut_SessionToken tokens, ar_UserId = um_ID inserted\<rparr>, w))))))"

definition LoginUser :: "'r auth_env \<Rightarrow> string \<Rightarrow> string \<Rightarrow> string \<Rightarrow>
    ('r world, AuthenticateUserResponse) operation" where
  "LoginUser a newId username password w =
     (case on_db (FindByUsername (ae_db a) username) w of
        (Inl err, w) \<Rightarrow> (Inl (wrapf ''failed to retrieve user: %w'' err), w)
      | (Inr None, w) \<Rightarrow> (Inl (errorf ''invalid username or password''), w)
      | (Inr (Some user), w) \<Rightarrow>
          (case ComparePassword (ae_bcrypt a) (um_Password user) password of
             Some err \<Rightarrow> (Inl (errorf ''invalid password for username: %s''), w)
           | None \<Rightarrow>
               (case on_db (GetTokenByUserId (ae_db a) (um_ID user)) w of
                  (Inl err, w) \<Rightarrow> (Inl (wrapf ''failed to retrieve session: %w'' err), w)
                | (Inr existingAuth, w) \<Rightarrow>
                    if existingAuth \<noteq> None \<and> ua_IsCurrentlyLoggedIn (the existingAuth)
                    then (Inl (errorf ''user %s is already logged in''), w)
                    else
                      (let domainUser = \<lparr>us_ID = um_ID user, us_Name = [], us_Username = um_Username user,
                             us_Email = um_Email user, us_Password = [], us_CreatedAt = zero_time,
                             us_UpdatedAt = zero_time\<rparr>
                       in case generateSessionTokens a domainUser of
                            Inl err \<Rightarrow> (Inl (wrapf ''failed to generate session tokens: %w'' err), w)
                          | Inr tokens \<Rightarrow>
                              (case InsertToken (ae_redis a) (ae_os a) (ae_db a) (ae_clock a) newId
                                      (us_ID domainUser) (ut_RefreshToken tokens) w of
                                 (Inl err, w) \<Rightarrow> (Inl (wrapf ''failed to insert user: %w'' err), w)
                               | (Inr inserted, w) \<Rightarrow>
                                   if \<not> inserted then (Inl (errorf ''user %s is already logged in''), w)
                                   else (Inr \<lparr>ar_AccessToken = ut_SessionToken tokens,
                                             ar_UserId = us_ID domainUser\<rparr>, w))))))"

definition Auth_AuthorizeUser :: "string \<Rightarrow> unit result" where
  "Auth_AuthorizeUser userId = Inl (errorf ''something has gone wrong'')"

definition Auth_RefreshToken :: "string \<Rightarrow> string" where
  "Auth_RefreshToken userId = []"

section \<open>What bcrypt promises\<close>

text \<open>A password matches the hash that was generated from it, at any cost.\<close>

locale bcrypt_laws =
  fixes B :: bcrypt
  assumes compare_generated:
    "bc_GenerateFromPassword B password cost = Inr hashed \<Longrightarrow> bc_CompareHashAndPassword B hashed password = None"
begin

lemma compare_hashed:
  assumes "HashPassword B password = Inr hashed"
  shows "ComparePassword B hashed password = None"
  using assms compare_generated
  by (auto simp: HashPassword_def ComparePassword_def split: if_splits sum.splits)

end

text \<open>A reference library that refuses what bcrypt refuses, passwords of more than 72 bytes.\<close>

definition bcrypt_ref :: bcrypt where
  "bcrypt_ref = \<lparr>
     bc_GenerateFromPassword = (\<lambda>password cost.
       if length password > 72 then Inl (errorf ''bcrypt: password length exceeds 72 bytes'')
       else Inr (CHR ''$'' # password)),
     bc_CompareHashAndPassword = (\<lambda>hashed password.
       if hashed = CHR ''$'' # password then None else Some (Sentinel bcrypt_mismatch))\<rparr>"

interpretation bref: bcrypt_laws bcrypt_ref
  by unfold_locales (simp add: bcrypt_ref_def split: if_splits)

end
