(* ===== verification/AuthGrpc.thy ===== *)
theory AuthGrpc
  imports AuthService
begin

text \<open>
  The gRPC surface of the auth service: \<^verbatim>\<open>auth-service/internal/mapping/mapper.go\<close> and
  \<^verbatim>\<open>auth-service/internal/infra/grpc/grpc.go\<close>, with the messages of \<^verbatim>\<open>auth.proto\<close>.
\<close>

record pb_RegisterUserRequest =
  pg_Name :: string
  pg_Username :: string
  pg_Email :: string
  pg_Password :: string
  pg_Id :: string

record pb_AuthResponse = \<comment> \<open>\<open>RegisterUserResponse\<close> and \<open>LoginUserResponse\<close>\<close>
  pg_RespId :: string
  pg_AccessToken :: string

record pb_LoginUserRequest =
  pn_Username :: string
  pn_Password :: string

record pb_RefreshToken = \<comment> \<open>\<open>RefreshTokenRequest\<close> and \<open>RefreshTokenResponse\<close>\<close>
  pf_RefreshToken :: string
  pf_UserId :: string

record UserAuth =
  du_ID :: string
  du_AccessToken :: string
  du_UserId :: string
  du_IsCurrentlyLoggedIn :: bool
  du_CreatedAt :: time
  du_UpdatedAt :: time

definition User_zero :: User where
  "User_zero = \<lparr>us_ID = [], us_Name = [], us_Username = [], us_Email = [], us_Password = [],
     us_CreatedAt = zero_time, us_UpdatedAt = zero_time\<rparr>"

definition UserAuth_zero :: UserAuth where
  "UserAuth_zero = \<lparr>du_ID = [], du_AccessToken = [], du_UserId = [], du_IsCurrentlyLoggedIn = False,
     du_CreatedAt = zero_time, du_UpdatedAt = zero_time\<rparr>"

section \<open>Mappers\<close>

definition ToRegisterUserDomain :: "pb_RegisterUserRequest option \<Rightarrow> User option" where
  "ToRegisterUserDomain req =
     map_option (\<lambda>req. User_zero\<lparr>us_ID := pg_Id req, us_Name := pg_Name req,
       us_Username := pg_Username req, us_Email := pg_Email req, us_Password := pg_Password req\<rparr>) req"

definition ToRegisterUserProto :: "AuthenticateUserResponse option \<Rightarrow> pb_AuthResponse option" where
  "ToRegisterUserProto resp =
     map_option (\<lambda>r. \<lparr>pg_RespId = ar_UserId r, pg_AccessToken = ar_AccessToken r\<rparr>) resp"

definition ToLoginUserDomain :: "pb_LoginUserRequest option \<Rightarrow> User option" where
  "ToLoginUserDomain req =
     map_option (\<lambda>req. User_zero\<lparr>us_Username := pn_Username req, us_Password := pn_Password req\<rparr>) req"

definition ToLoginUserProto :: "AuthenticateUserResponse option \<Rightarrow> pb_AuthResponse option" where
  "ToLoginUserProto auth =
     map_option (\<lambda>r. \<lparr>pg_RespId = ar_UserId r, pg_AccessToken = ar_AccessToken r\<rparr>) auth"

definition ToRefreshTokenDomain :: "pb_RefreshToken option \<Rightarrow> UserAuth option" where
  "ToRefreshTokenDomain req =
     map_option (\<lambda>req. UserAuth_zero\<lparr>du_AccessToken := pf_RefreshToken req, du_UserId := pf_UserId req\<rparr>) req"

definition ToRefreshTokenProto :: "UserAuth option \<Rightarrow> pb_RefreshToken option" where
  "ToRefreshTokenProto auth =
     map_option (\<lambda>a. \<lparr>pf_RefreshToken = du_AccessToken a, pf_UserId = du_UserId a\<rparr>) auth"

section \<open>Handlers\<close>

definition Grpc_RegisterUser :: "'r auth_env \<Rightarrow> string \<Rightarrow> pb_RegisterUserRequest \<Rightarrow>
    ('r world, pb_AuthResponse option) operation" where
  "Grpc_RegisterUser a newId req w =
     (case ToRegisterUserDomain (Some req) of
        None \<Rightarrow> (Inl (errorf ''nil pointer''), w)
      | Some domainUser \<Rightarrow>
          (case RegisterUser a newId domainUser w of
             (Inl err, w) \<Rightarrow> (Inl err, w)
           | (Inr resp, w) \<Rightarrow> (Inr (ToRegisterUserProto (Some resp)), w)))"

definition Grpc_LoginUser :: "'r auth_env \<Rightarrow> string \<Rightarrow> pb_LoginUserRequest \<Rightarrow>
    ('r world, pb_AuthResponse option) operation" where
  "Grpc_LoginUser a newId req w =
     (case ToLoginUserDomain (Some req) of
        None \<Rightarrow> (Inl (errorf ''nil pointer''), w)
      | Some domainUser \<Rightarrow>
          (case LoginUser a newId (us_Username domainUser) (us_Password domainUser) w of
             (Inl err, w) \<Rightarrow> (Inl err, w)
           | (Inr resp, w) \<Rightarrow> (Inr (ToLoginUserProto (Some resp)), w)))"

definition Grpc_RefreshToken :: "pb_RefreshToken \<Rightarrow> pb_RefreshToken result" where
  "Grpc_RefreshToken req = Inl (errorf ''something has gone wrong'')"

end
