(* ===== verification/AuthProps.thy ===== *)
theory AuthProps
  imports AuthGrpc Movements Fixtures
begin

text \<open>
  Properties of the auth service: which registrations the validation lets through, that a
  registered user can log in, that registration and login keep the constraints of the schema,
  and that a login is never followed by another one, because nothing ends a session.
\<close>

section \<open>Sequences of calls\<close>

datatype auth_call = RegisterCall string User | LoginCall string string string

primrec run_auth_call :: "'r auth_env \<Rightarrow> auth_call \<Rightarrow> 'r world \<Rightarrow> 'r world" where
  "run_auth_call a (RegisterCall newId user) w = snd (RegisterUser a newId user w)"
| "run_auth_call a (LoginCall newId username password) w = snd (LoginUser a newId username password w)"

fun run_auth :: "('r auth_env \<times> auth_call) list \<Rightarrow> 'r world \<Rightarrow> 'r world" where
  "run_auth [] w = w"
| "run_auth ((a, c) # cs) w = run_auth cs (run_auth_call a c w)"

section \<open>Validation\<close>

text \<open>An address: a name, an at sign, a host, a dot and a top level domain of letters.\<close>

definition email_shape :: "string \<Rightarrow> bool" where
  "email_shape s \<longleftrightarrow> (\<exists>name labels tld. s = name @ ''@'' @ labels @ ''.'' @ tld \<and>
     name \<noteq> [] \<and> list_all local_char name \<and> labels \<noteq> [] \<and> list_all domain_char labels \<and>
     2 \<le> length tld \<and> list_all (\<lambda>c. is_upper c \<or> is_lower c) tld)"

lemma no_at: "local_char c \<Longrightarrow> c \<noteq> CHR ''@''" "domain_char c \<Longrightarrow> c \<noteq> CHR ''@''"
  by (auto simp: local_char_def domain_char_def is_upper_def is_lower_def is_digit_def Let_def)

lemma no_dot: "is_upper c \<or> is_lower c \<Longrightarrow> c \<noteq> CHR ''.''"
  by (auto simp: is_upper_def is_lower_def Let_def)

lemma takeWhile_split:
  assumes "\<And>c. c \<in> set xs \<Longrightarrow> c \<noteq> y"
  shows "takeWhile (\<lambda>c. c \<noteq> y) (xs @ y # zs) = xs" "dropWhile (\<lambda>c. c \<noteq> y) (xs @ y # zs) = y # zs"
  using assms by (induction xs) auto

lemma dropWhile_Cons_split:
  assumes "dropWhile (\<lambda>c. c \<noteq> y) xs = z # zs"
  shows "z = y" and "xs = takeWhile (\<lambda>c. c \<noteq> y) xs @ y # zs"
proof -
  have "\<not> hd (dropWhile (\<lambda>c. c \<noteq> y) xs) \<noteq> y" using assms by (intro hd_dropWhile) auto
  then show z: "z = y" using assms by simp
  show "xs = takeWhile (\<lambda>c. c \<noteq> y) xs @ y # zs"
    using takeWhile_dropWhile_id [of "\<lambda>c. c \<noteq> y" xs] assms z by simp
qed

lemma emailRegex_shape: "emailRegex s \<longleftrightarrow> email_shape s"
proof
  assume m: "emailRegex s"
  obtain x host where h: "dropWhile (\<lambda>c. c \<noteq> CHR ''@'') s = x # host"
    using m by (cases "dropWhile (\<lambda>c. c \<noteq> CHR ''@'') s") (simp_all add: emailRegex_def Let_def)
  obtain y labels where d: "dropWhile (\<lambda>c. c \<noteq> CHR ''.'') (rev host) = y # labels"
    using m h by (cases "dropWhile (\<lambda>c. c \<noteq> CHR ''.'') (rev host)") (simp_all add: emailRegex_def Let_def)
  let ?name = "takeWhile (\<lambda>c. c \<noteq> CHR ''@'') s"
  let ?tld = "rev (takeWhile (\<lambda>c. c \<noteq> CHR ''.'') (rev host))"
  have "s = ?name @ CHR ''@'' # host" by (rule dropWhile_Cons_split(2) [OF h])
  moreover have "host = rev labels @ CHR ''.'' # ?tld"
    using arg_cong [OF dropWhile_Cons_split(2) [OF d], of rev] by simp
  moreover have "?name \<noteq> [] \<and> list_all local_char ?name \<and> rev labels \<noteq> [] \<and>
      list_all domain_char (rev labels) \<and> 2 \<le> length ?tld \<and> list_all (\<lambda>c. is_upper c \<or> is_lower c) ?tld"
    using m h d by (simp add: emailRegex_def Let_def)
  ultimately show "email_shape s" unfolding email_shape_def
    by (intro exI [of _ ?name] exI [of _ "rev labels"] exI [of _ ?tld]) simp
next
  assume "email_shape s"
  then obtain name labels tld where s: "s = name @ CHR ''@'' # labels @ CHR ''.'' # tld"
    and p: "name \<noteq> []" "list_all local_char name" "labels \<noteq> []" "list_all domain_char labels"
      "2 \<le> length tld" "list_all (\<lambda>c. is_upper c \<or> is_lower c) tld"
    by (auto simp: email_shape_def)
  have n: "takeWhile (\<lambda>c. c \<noteq> CHR ''@'') s = name"
    "dropWhile (\<lambda>c. c \<noteq> CHR ''@'') s = CHR ''@'' # labels @ CHR ''.'' # tld"
    unfolding s using p(2) no_at by (intro takeWhile_split; auto simp: list_all_iff)+
  have r: "rev (labels @ CHR ''.'' # tld) = rev tld @ CHR ''.'' # rev labels" by simp
  have t: "takeWhile (\<lambda>c. c \<noteq> CHR ''.'') (rev (labels @ CHR ''.'' # tld)) = rev tld"
    "dropWhile (\<lambda>c. c \<noteq> CHR ''.'') (rev (labels @ CHR ''.'' # tld)) = CHR ''.'' # rev labels"
    unfolding r using p(6) no_dot by (intro takeWhile_split; auto simp: list_all_iff)+
  show "emailRegex s" using p by (simp add: emailRegex_def Let_def n t [simplified])
qed

lemma char_classes:
  "is_upper c \<Longrightarrow> \<not> is_lower c \<and> \<not> is_digit c \<and> \<not> is_special c"
  "is_lower c \<Longrightarrow> \<not> is_digit c \<and> \<not> is_special c"
  "is_digit c \<Longrightarrow> \<not> is_special c"
  by (auto simp: is_upper_def is_lower_def is_digit_def is_special_def Let_def)

lemma scan_password_classes:
  "hasUpper (scan_password f s) \<longleftrightarrow> hasUpper f \<or> list_ex is_upper s"
  "hasLower (scan_password f s) \<longleftrightarrow> hasLower f \<or> list_ex is_lower s"
  "hasNumber (scan_password f s) \<longleftrightarrow> hasNumber f \<or> list_ex is_digit s"
  "hasSpecial (scan_password f s) \<longleftrightarrow> hasSpecial f \<or> list_ex is_special s"
  by (induction s arbitrary: f) (auto dest: char_classes)

text \<open>A registration passes validation exactly if, after trimming and lower-casing, the
  name is not empty, the user name has three to twenty letters, digits and underscores, the
  address has the shape of an address, and the password has at least eight characters with an
  upper case letter, a lower case letter, a digit and a special character among them.\<close>

theorem validation_accepts:
  "fst (ValidateUser user) = None \<longleftrightarrow>
     TrimSpace (us_Name user) \<noteq> [] \<and> usernameRegex (TrimSpace (us_Username user)) \<and>
     email_shape (TrimSpace (ToLower (us_Email user))) \<and>
     8 \<le> length (us_Password user) \<and> list_ex is_upper (us_Password user) \<and>
     list_ex is_lower (us_Password user) \<and> list_ex is_digit (us_Password user) \<and>
     list_ex is_special (us_Password user)"
proof -
  have u: "usernameRegex [] = False" by (simp add: usernameRegex_def)
  have e: "email_shape [] = False" by (simp add: email_shape_def)
  show ?thesis
    by (auto simp: ValidateUser_def validatePassword_def Let_def scan_password_classes
        emailRegex_shape u e not_less)
qed

section \<open>The state after a call\<close>

lemma find_state [simp]:
  "snd (FindByUserId e u db) = db" "snd (FindByUsername e n db) = db" "snd (GetTokenByUserId e u db) = db"
  by (auto simp: FindByUserId_def FindByUsername_def GetTokenByUserId_def autocommit_def
      split: io.splits option.splits)

text \<open>A registration adds at most one row, new in every unique column.\<close>

definition fresh_user :: "UserModel \<Rightarrow> database \<Rightarrow> bool" where
  "fresh_user u db \<longleftrightarrow> um_ID u \<notin> set (keys um_ID (users db)) \<and>
     um_Username u \<notin> set (keys um_Username (users db)) \<and> um_Email u \<notin> set (keys um_Email (users db))"

definition adds_user :: "database \<Rightarrow> database \<Rightarrow> bool" where
  "adds_user db db' \<longleftrightarrow> db' = db \<or> (\<exists>u. fresh_user u db \<and> db' = db\<lparr>users := users db @ [u]\<rparr>)"

definition adds_token :: "string \<Rightarrow> database \<Rightarrow> database \<Rightarrow> bool" where
  "adds_token newId db db' \<longleftrightarrow>
     db' = db \<or> (\<exists>uid token now. db' = snd (sql_insert_token newId uid token now db))"

lemma adds_same [simp]: "adds_user db db" "adds_token newId db db"
  by (simp_all add: adds_user_def adds_token_def)

lemma sql_insert_token_adds [simp]: "adds_token newId db (snd (sql_insert_token newId uid token now db))"
  unfolding adds_token_def by blast

lemma sql_insert_user_adds: "adds_user db (snd (sql_insert_user userId name email username password now db))"
  by (auto simp: adds_user_def sql_insert_user_def fresh_user_def
      intro!: exI [of _ "\<lparr>um_ID = userId, um_Name = name, um_Username = username, um_Password = password,
        um_Email = email, um_CreatedAt = now, um_UpdatedAt = now\<rparr>"])

lemma insert_user_adds:
  assumes "InsertUser R env e clock name email username userId password token w = (r, w')"
  shows "adds_user (w_db w) (w_db w')"
proof -
  have "w_db w' = snd (autocommit (env_io e InsertUserC (Stmt 0))
      (sql_insert_user userId name email username password (env_now e InsertUserC)) (w_db w))"
    using assms by (auto simp: InsertUser_def on_db_eq on_ch_eq Let_def split: sum.splits)
  then show ?thesis
    using sql_insert_user_adds [of "w_db w"] by (auto simp: autocommit_def adds_user_def split: io.splits)
qed

lemma insert_token_adds:
  assumes "InsertToken R env e clock newId uid token w = (r, w')"
  shows "adds_token newId (w_db w) (w_db w')"
  using assms
  by (auto simp: InsertToken_def on_db_eq on_ch_eq autocommit_def Let_def
      split: sum.splits option.splits io.splits)

lemma register_adds: "adds_user (w_db w) (w_db (snd (RegisterUser a newId user w)))"
  by (cases "ValidateUser user"; cases "fst (ValidateUser user)")
    (auto simp: RegisterUser_def on_db_eq Let_def
      split: prod.splits sum.splits option.splits dest!: insert_user_adds)

lemma login_adds: "adds_token newId (w_db w) (w_db (snd (LoginUser a newId username password w)))"
  by (auto simp: LoginUser_def on_db_eq Let_def
      split: prod.splits sum.splits option.splits dest!: insert_token_adds)

section \<open>Schema\<close>

lemma adds_user_schema:
  assumes "adds_user db db'" and "schema_ok db"
  shows "schema_ok db'"
  using assms
  by (auto simp: adds_user_def fresh_user_def schema_ok_def users_ok_def accounts_ok_def account_row_ok_def
      user_auth_ok_def keys_def)

lemma sql_insert_token_sessions:
  assumes ok: "user_auth_ok (keys um_ID (users db)) (user_auth db)"
  shows "user_auth_ok (keys um_ID (users db)) (user_auth (snd (sql_insert_token newId uid token now db)))"
proof (cases "List.find (\<lambda>s. ua_UserId s = uid) (user_auth db)")
  case None
  then have "uid \<notin> set (keys ua_UserId (user_auth db))" by (auto simp: find_None_iff set_keys)
  then show ?thesis using ok None by (auto simp: sql_insert_token_def user_auth_ok_def)
next
  case (Some s)
  show ?thesis using ok by (auto simp: sql_insert_token_def user_auth_ok_def Some table_simps)
qed

lemma sql_insert_token_schema:
  assumes "schema_ok db"
  shows "schema_ok (snd (sql_insert_token newId uid token now db))"
proof -
  let ?db = "snd (sql_insert_token newId uid token now db)"
  have "users ?db = users db" "accounts ?db = accounts db" "transactions ?db = transactions db"
    "transaction_outbox ?db = transaction_outbox db"
    by (simp_all add: sql_insert_token_def split: option.splits)
  then show ?thesis using assms sql_insert_token_sessions [of db newId uid token now]
    by (simp add: schema_ok_def)
qed

lemma auth_call_schema:
  assumes "schema_ok (w_db w)"
  shows "schema_ok (w_db (run_auth_call a c w))"
proof (cases c)
  case (RegisterCall newId user)
  then show ?thesis using adds_user_schema [OF register_adds assms] by simp
next
  case (LoginCall newId username password)
  then show ?thesis using login_adds [of newId w a username password] assms sql_insert_token_schema
    by (auto simp: adds_token_def)
qed

text \<open>Registrations and logins, in any order and under any faults of the database and of the
  cache, keep the constraints of the schema: identifiers, user names and addresses stay unique,
  a user has at most one session, and every session belongs to a user.\<close>

theorem auth_keeps_schema:
  assumes "schema_ok (w_db w)"
  shows "schema_ok (w_db (run_auth cs w))"
  using assms by (induction cs w rule: run_auth.induct) (simp_all add: auth_call_schema)

section \<open>Sessions\<close>

definition logged_in :: "string \<Rightarrow> database \<Rightarrow> bool" where
  "logged_in username db \<longleftrightarrow> (\<exists>u \<in> set (users db). um_Username u = username \<and>
     (\<exists>s \<in> set (user_auth db). ua_UserId s = um_ID u \<and> ua_IsCurrentlyLoggedIn s))"

lemma sql_insert_token_logged_in:
  assumes "logged_in username db"
  shows "logged_in username (snd (sql_insert_token newId uid token now db))"
proof -
  obtain u s where u: "u \<in> set (users db)" "um_Username u = username"
    and s: "s \<in> set (user_auth db)" "ua_UserId s = um_ID u" "ua_IsCurrentlyLoggedIn s"
    using assms by (auto simp: logged_in_def)
  let ?upd = "\<lambda>s. s\<lparr>ua_RefreshToken := token, ua_CreatedAt := now, ua_IsCurrentlyLoggedIn := True\<rparr>"
  have upd: "(if ua_UserId s = uid then ?upd s else s) \<in> set (update_where (\<lambda>s. ua_UserId s = uid) ?upd (user_auth db))"
    using s(1) by (auto simp: update_where_def)
  have "s \<in> set (user_auth (snd (sql_insert_token newId uid token now db))) \<or>
      (if ua_UserId s = uid then ?upd s else s) \<in> set (user_auth (snd (sql_insert_token newId uid token now db)))"
    using s(1) upd by (simp add: sql_insert_token_def split: option.splits del: if_split) (simp split: if_splits)
  then have "\<exists>s' \<in> set (user_auth (snd (sql_insert_token newId uid token now db))).
      ua_UserId s' = um_ID u \<and> ua_IsCurrentlyLoggedIn s'"
    using s(2,3) by (elim disjE) (rule bexI [rotated], assumption, simp)+
  moreover have "users (snd (sql_insert_token newId uid token now db)) = users db"
    by (simp add: sql_insert_token_def split: option.splits)
  ultimately show ?thesis using u by (auto simp: logged_in_def)
qed

lemma logged_in_append:
  assumes "logged_in username db"
  shows "logged_in username (db\<lparr>users := users db @ us\<rparr>)"
  using assms by (force simp: logged_in_def)

lemma auth_call_logged_in:
  assumes "logged_in username (w_db w)"
  shows "logged_in username (w_db (run_auth_call a c w))"
proof (cases c)
  case (RegisterCall newId user)
  then show ?thesis using register_adds [of w a newId user] assms logged_in_append
    by (auto simp: adds_user_def)
next
  case (LoginCall newId name password)
  then show ?thesis using login_adds [of newId w a name password] assms sql_insert_token_logged_in
    by (auto simp: adds_token_def)
qed

lemma run_auth_invariants:
  assumes "logged_in username (w_db w)" and "schema_ok (w_db w)"
  shows "logged_in username (w_db (run_auth cs w)) \<and> schema_ok (w_db (run_auth cs w))"
  using assms by (induction cs w rule: run_auth.induct) (simp_all add: auth_call_schema auth_call_logged_in)

text \<open>The row a lookup finds is the one with the key.\<close>

lemma find_by_key:
  assumes "distinct (keys k rows)" and "r \<in> set rows" and "k r = x"
  shows "List.find (\<lambda>r. k r = x) rows = Some r"
  using assms by (induction rows) (auto simp: set_keys)

lemma login_refused:
  assumes "logged_in username (w_db w)" and "schema_ok (w_db w)"
  shows "\<exists>err. fst (LoginUser a newId username password w) = Inl err"
proof -
  obtain u s where u: "u \<in> set (users (w_db w))" "um_Username u = username"
    and s: "s \<in> set (user_auth (w_db w))" "ua_UserId s = um_ID u" "ua_IsCurrentlyLoggedIn s"
    using assms(1) by (auto simp: logged_in_def)
  have "List.find (\<lambda>u. um_Username u = username) (users (w_db w)) = Some u"
    by (rule find_by_key) (use assms(2) u in \<open>auto simp: schema_ok_def users_ok_def\<close>)
  moreover have "List.find (\<lambda>s. ua_UserId s = um_ID u) (user_auth (w_db w)) = Some s"
    by (rule find_by_key) (use assms(2) s in \<open>auto simp: schema_ok_def user_auth_ok_def\<close>)
  ultimately show ?thesis using s(3)
    by (auto simp: LoginUser_def on_db_eq FindByUsername_def GetTokenByUserId_def autocommit_def Let_def
        split: io.splits option.splits)
qed

text \<open>What a login that succeeds has checked and done.\<close>

lemma insert_token_ok:
  assumes "InsertToken R env e clock newId uid token w = (Inr True, w')"
  shows "\<exists>x. sql_insert_token newId uid token (env_now e InsertTokenC) (w_db w) = (Inr (Some x), w_db w')"
  using assms
  by (cases "sql_insert_token newId uid token (env_now e InsertTokenC) (w_db w)")
    (auto simp: InsertToken_def on_db_eq on_ch_eq autocommit_def Let_def split: sum.splits option.splits io.splits)

lemma sql_insert_token_ok:
  assumes "sql_insert_token newId uid token now db = (Inr (Some x), db')"
  shows "users db' = users db \<and> (\<exists>s \<in> set (user_auth db'). ua_UserId s = uid \<and>
    ua_IsCurrentlyLoggedIn s \<and> ua_RefreshToken s = token)"
proof (cases "List.find (\<lambda>s. ua_UserId s = uid) (user_auth db)")
  case None
  then show ?thesis using assms by (auto simp: sql_insert_token_def split: if_splits)
next
  case (Some s)
  then have "s \<in> set (user_auth db)" "ua_UserId s = uid" by (auto simp: find_Some_iff)
  then show ?thesis using assms unfolding sql_insert_token_def Some
    by (auto simp: update_where_def split: if_splits intro!: bexI [of _ "s\<lparr>ua_RefreshToken := token,
        ua_CreatedAt := now, ua_IsCurrentlyLoggedIn := True\<rparr>"])
qed

lemma login_ok:
  assumes "LoginUser a newId username password w = (Inr r, w')"
  shows "\<exists>u token. List.find (\<lambda>u. um_Username u = username) (users (w_db w)) = Some u \<and>
    ComparePassword (ae_bcrypt a) (um_Password u) password = None \<and> ar_UserId r = um_ID u \<and>
    (\<forall>s. List.find (\<lambda>s. ua_UserId s = um_ID u) (user_auth (w_db w)) = Some s \<longrightarrow> \<not> ua_IsCurrentlyLoggedIn s) \<and>
    InsertToken (ae_redis a) (ae_os a) (ae_db a) (ae_clock a) newId (um_ID u) token w = (Inr True, w')"
  using assms
  by (auto simp: LoginUser_def on_db_eq FindByUsername_def GetTokenByUserId_def autocommit_def Let_def
      split: io.splits option.splits sum.splits prod.splits if_splits)

lemma login_logs_in:
  assumes "LoginUser a newId username password w = (Inr r, w')"
  shows "logged_in username (w_db w')"
proof -
  from login_ok [OF assms] obtain u token
    where u: "List.find (\<lambda>u. um_Username u = username) (users (w_db w)) = Some u"
      and i: "InsertToken (ae_redis a) (ae_os a) (ae_db a) (ae_clock a) newId (um_ID u) token w = (Inr True, w')"
    by auto
  from insert_token_ok [OF i] sql_insert_token_ok
  have "users (w_db w') = users (w_db w) \<and> (\<exists>s \<in> set (user_auth (w_db w')). ua_UserId s = um_ID u \<and> ua_IsCurrentlyLoggedIn s)"
    by blast
  moreover have "u \<in> set (users (w_db w))" "um_Username u = username" using u by (auto simp: find_Some_iff)
  ultimately show ?thesis by (auto simp: logged_in_def)
qed

text \<open>A login that succeeds was made with the password of the user it names, who had no
  session, and leaves that user with a session that is marked logged in.\<close>

theorem login_exact:
  assumes "schema_ok (w_db w)"
    and "LoginUser a newId username password w = (Inr r, w')"
  shows "\<exists>u \<in> set (users (w_db w)). um_Username u = username \<and> um_ID u = ar_UserId r \<and>
    bc_CompareHashAndPassword (ae_bcrypt a) (um_Password u) password = None \<and>
    \<not> logged_in username (w_db w) \<and> logged_in username (w_db w')"
proof -
  from login_ok [OF assms(2)] obtain u
    where u: "List.find (\<lambda>u. um_Username u = username) (users (w_db w)) = Some u"
      and c: "ComparePassword (ae_bcrypt a) (um_Password u) password = None" and r: "ar_UserId r = um_ID u"
    by auto
  have "u \<in> set (users (w_db w))" "um_Username u = username" using u by (auto simp: find_Some_iff)
  moreover have "bc_CompareHashAndPassword (ae_bcrypt a) (um_Password u) password = None"
    using c by (simp add: ComparePassword_def split: option.splits if_splits)
  moreover have "\<not> logged_in username (w_db w)"
    using login_refused [OF _ assms(1), of username a newId password] assms(2) by auto
  ultimately show ?thesis using r login_logs_in [OF assms(2)] by auto
qed

text \<open>After a login that succeeded, every further login of that user is refused, whatever
  registrations and logins come in between and whenever it is made: no operation of the service
  ends a session, and its expiry is not looked at.\<close>

theorem login_is_final:
  assumes "schema_ok (w_db w)"
    and "LoginUser a newId username password w = (Inr r, w')"
  shows "\<exists>err. fst (LoginUser a' newId' username password' (run_auth cs w')) = Inl err"
proof -
  have "schema_ok (w_db w')"
    using auth_call_schema [OF assms(1), of a "LoginCall newId username password"] assms(2) by simp
  then show ?thesis using run_auth_invariants [OF login_logs_in [OF assms(2)]] login_refused by blast
qed

section \<open>Registration then login\<close>

definition auth_up :: "'r auth_env \<Rightarrow> bool" where
  "auth_up a \<longleftrightarrow> (\<forall>c s. env_io (ae_db a) c s = IoOk)"

lemma register_ok:
  assumes "RegisterUser a newId user w = (Inr r, w')"
  shows "\<exists>hashed. HashPassword (ae_bcrypt a) (us_Password user) = Inr hashed \<and> ar_UserId r = newId \<and>
    newId \<notin> set (keys um_ID (users (w_db w))) \<and>
    w_db w' = (w_db w)\<lparr>users := users (w_db w) @ [\<lparr>um_ID = newId, um_Name = TrimSpace (us_Name user),
      um_Username = TrimSpace (us_Username user), um_Password = hashed,
      um_Email = TrimSpace (ToLower (us_Email user)), um_CreatedAt = env_now (ae_db a) InsertUserC,
      um_UpdatedAt = env_now (ae_db a) InsertUserC\<rparr>]\<rparr>"
  using assms
  by (auto simp: RegisterUser_def ValidateUser_def InsertUser_def on_db_eq on_ch_eq sql_insert_user_def
      autocommit_def Let_def UserModel_zero_def
      split: option.splits sum.splits prod.splits if_splits io.splits)

lemma tokens_signed:
  assumes "\<forall>key c. \<exists>t. jw_SignedString (ae_jwt a) key c = Inr t"
  shows "\<exists>tokens. generateSessionTokens a user = Inr tokens"
proof -
  obtain sign where "\<forall>key c. jw_SignedString (ae_jwt a) key c = Inr (sign key c)" using assms by metis
  then show ?thesis by (simp add: generateSessionTokens_def GenerateAccessToken_def GenerateRefreshToken_def)
qed

lemma login_succeeds:
  assumes up: "auth_up a" and ok: "schema_ok (w_db w)"
    and sign: "\<forall>key c. \<exists>t. jw_SignedString (ae_jwt a) key c = Inr t"
    and u: "u \<in> set (users (w_db w))" "um_Username u = username"
    and psw: "ComparePassword (ae_bcrypt a) (um_Password u) password = None"
    and new: "um_ID u \<notin> set (keys ua_UserId (user_auth (w_db w)))" "sid \<notin> set (keys ua_ID (user_auth (w_db w)))"
  shows "\<exists>r w'. LoginUser a sid username password w = (Inr r, w') \<and> ar_UserId r = um_ID u"
proof -
  have f: "List.find (\<lambda>u. um_Username u = username) (users (w_db w)) = Some u"
    by (rule find_by_key) (use ok u in \<open>auto simp: schema_ok_def users_ok_def\<close>)
  have n: "List.find (\<lambda>s. ua_UserId s = um_ID u) (user_auth (w_db w)) = None"
    using new(1) by (auto simp: find_None_iff set_keys)
  have k: "um_ID u \<in> set (keys um_ID (users (w_db w)))" using u(1) by (auto simp: set_keys)
  obtain tokens where t: "generateSessionTokens a \<lparr>us_ID = um_ID u, us_Name = [], us_Username = um_Username u,
      us_Email = um_Email u, us_Password = [], us_CreatedAt = zero_time, us_UpdatedAt = zero_time\<rparr> = Inr tokens"
    using tokens_signed [OF sign] by blast
  show ?thesis using up
    by (simp add: auth_up_def LoginUser_def on_db_eq on_ch_eq FindByUsername_def GetTokenByUserId_def
        InsertToken_def sql_insert_token_def op_simps f n k t psw new(2))
qed

text \<open>A user who has registered can log in with the same password and gets the identifier
  of the registration, while the database answers and tokens can be signed, given that bcrypt
  accepts the password a hash was generated from.\<close>

theorem register_then_login:
  assumes "schema_ok (w_db w)" and reg: "RegisterUser a newId user w = (Inr r, w')"
    and "bcrypt_laws (ae_bcrypt a)" and "ae_bcrypt a' = ae_bcrypt a"
    and "auth_up a'" and "\<forall>key c. \<exists>t. jw_SignedString (ae_jwt a') key c = Inr t"
    and sid: "sid \<notin> set (keys ua_ID (user_auth (w_db w)))"
  shows "\<exists>r' w''. LoginUser a' sid (TrimSpace (us_Username user)) (us_Password user) w' = (Inr r', w'') \<and>
    ar_UserId r' = newId \<and> ar_UserId r = newId"
proof -
  from register_ok [OF reg] obtain hashed u where h: "HashPassword (ae_bcrypt a) (us_Password user) = Inr hashed"
    and r: "ar_UserId r = newId" and new: "newId \<notin> set (keys um_ID (users (w_db w)))"
    and db: "w_db w' = (w_db w)\<lparr>users := users (w_db w) @ [u]\<rparr>"
    and u: "um_ID u = newId" "um_Username u = TrimSpace (us_Username user)" "um_Password u = hashed"
    by auto
  have ok: "schema_ok (w_db w')"
    using auth_call_schema [OF assms(1), of a "RegisterCall newId user"] reg by simp
  have "newId \<notin> set (keys ua_UserId (user_auth (w_db w)))"
    using assms(1) new by (auto simp: schema_ok_def user_auth_ok_def set_keys)
  moreover have "ComparePassword (ae_bcrypt a') (um_Password u) (us_Password user) = None"
    using bcrypt_laws.compare_hashed [OF assms(3) h] assms(4) u by simp
  ultimately have "\<exists>r' w''. LoginUser a' sid (TrimSpace (us_Username user)) (us_Password user) w' = (Inr r', w'') \<and>
      ar_UserId r' = um_ID u"
    using sid u db by (intro login_succeeds [OF assms(5) ok assms(6)]) auto
  then show ?thesis using r u by simp
qed

text \<open>An access token validates to the claims of its user strictly before the second its
  lifetime ends, and is refused from then on.\<close>

theorem access_token_lifetime:
  assumes "jwt_laws J" and "GenerateAccessToken J env now (Some user) = Inr token"
  shows "ValidateAccessToken J env later token = Inr c \<longleftrightarrow>
    later < 1000000 * NumericDate (now + session_accessTokenTTL env) \<and>
    c = claims_of user now (session_accessTokenTTL env)"
proof (cases "later < 1000000 * NumericDate (now + session_accessTokenTTL env)")
  case True
  then show ?thesis using jwt_laws.access_token_valid [OF assms True] by auto
next
  case False
  then have "\<exists>err. ValidateAccessToken J env later token = Inl err"
    by (intro jwt_laws.access_token_expires [OF assms]) simp
  then show ?thesis using False by auto
qed

section \<open>Concrete runs\<close>

lemma register_succeeds:
  assumes up: "auth_up a" and sign: "\<forall>key c. \<exists>t. jw_SignedString (ae_jwt a) key c = Inr t"
    and v: "ValidateUser user = (None, user')"
    and h: "HashPassword (ae_bcrypt a) (us_Password user') = Inr hashed"
    and new: "newId \<notin> set (keys um_ID (users (w_db w)))"
      "us_Username user' \<notin> set (keys um_Username (users (w_db w)))"
      "us_Email user' \<notin> set (keys um_Email (users (w_db w)))"
  shows "\<exists>r w'. RegisterUser a newId user w = (Inr r, w')"
proof -
  have f: "List.find (\<lambda>u. um_ID u = newId) (users (w_db w)) = None"
    using new(1) by (auto simp: find_None_iff set_keys)
  obtain tokens where t: "generateSessionTokens a (user'\<lparr>us_ID := newId, us_Password := hashed\<rparr>) = Inr tokens"
    using tokens_signed [OF sign] by blast
  show ?thesis using up
    by (simp add: auth_up_def RegisterUser_def v h t f new on_db_eq on_ch_eq FindByUserId_def InsertUser_def
        sql_insert_user_def op_simps)
qed

definition sample_auth :: "ref_redis auth_env" where
  "sample_auth = \<lparr>ae_redis = redis_ref, ae_bcrypt = bcrypt_ref, ae_jwt = jwt_ref, ae_os = (\<lambda>_. None),
     ae_db = healthy 5, ae_clock = 0\<rparr>"

definition sample_user :: User where
  "sample_user = User_zero\<lparr>us_Name := ''Ann'', us_Username := ''ann_1'', us_Email := ''Ann@mail.com '',
     us_Password := ''Secret-12''\<rparr>"

lemma sample_auth_simps [simp]:
  "auth_up sample_auth" "\<forall>key c. \<exists>t. jw_SignedString (ae_jwt sample_auth) key c = Inr t"
  "ae_bcrypt sample_auth = bcrypt_ref" "user_auth sample_db = []"
  by (simp_all add: auth_up_def sample_auth_def jwt_ref_def healthy_def sample_db_def)

lemma sample_registered: "\<exists>r w'. RegisterUser sample_auth ''u3'' sample_user sample = (Inr r, w')"
proof -
  have "fst (ValidateUser sample_user) = None" by code_simp
  then obtain user' where v: "ValidateUser sample_user = (None, user')"
    by (cases "ValidateUser sample_user") simp
  then have u: "user' = snd (ValidateUser sample_user)" by simp
  have "us_Password user' = ''Secret-12''" "us_Username user' = ''ann_1''" "us_Email user' = ''ann@mail.com''"
    unfolding u by code_simp+
  then show ?thesis
    by (intro register_succeeds [OF _ _ v, where hashed = "''$Secret-12''"])
      (simp_all add: HashPassword_def bcrypt_ref_def sample_db_def mk_user_def)
qed

theorem register_then_login_witness:
  "\<exists>r w' r' w''. RegisterUser sample_auth ''u3'' sample_user sample = (Inr r, w') \<and>
     LoginUser sample_auth ''s1'' (TrimSpace (us_Username sample_user)) (us_Password sample_user) w' = (Inr r', w'') \<and>
     ar_UserId r' = ''u3'' \<and> ar_UserId r = ''u3''"
proof -
  obtain r w' where r: "RegisterUser sample_auth ''u3'' sample_user sample = (Inr r, w')"
    using sample_registered by blast
  from register_then_login [OF _ r, of sample_auth "''s1''"] r bref.bcrypt_laws_axioms show ?thesis by simp
qed

text \<open>The sample world with the hash of a password for its first user.\<close>

definition sample_member :: "ref_redis world" where
  "sample_member = sample\<lparr>w_db := sample_db\<lparr>users := [(mk_user ''u1'')\<lparr>um_Password := ''$Secret-12''\<rparr>, mk_user ''u2'']\<rparr>\<rparr>"

lemma sample_member_schema [simp]: "schema_ok (w_db sample_member)"
  using sample_schema
  by (simp add: sample_member_def schema_ok_def sample_db_def mk_user_def users_ok_def)

lemma sample_login: "\<exists>r w'. LoginUser sample_auth ''s1'' ''u1'' ''Secret-12'' sample_member = (Inr r, w')"
proof -
  let ?u = "(mk_user ''u1'')\<lparr>um_Password := ''$Secret-12''\<rparr>"
  have "?u \<in> set (users (w_db sample_member))" by (simp add: sample_member_def)
  then have "\<exists>r w'. LoginUser sample_auth ''s1'' ''u1'' ''Secret-12'' sample_member = (Inr r, w') \<and> ar_UserId r = um_ID ?u"
    by (rule login_succeeds [OF sample_auth_simps(1) sample_member_schema sample_auth_simps(2)])
      (simp_all add: sample_member_def mk_user_def ComparePassword_def bcrypt_ref_def)
  then show ?thesis by blast
qed

theorem login_exact_witness:
  "\<exists>r w'. LoginUser sample_auth ''s1'' ''u1'' ''Secret-12'' sample_member = (Inr r, w') \<and>
     (\<exists>u \<in> set (users (w_db sample_member)). um_Username u = ''u1'' \<and> um_ID u = ar_UserId r \<and>
       bc_CompareHashAndPassword (ae_bcrypt sample_auth) (um_Password u) ''Secret-12'' = None \<and>
       \<not> logged_in ''u1'' (w_db sample_member) \<and> logged_in ''u1'' (w_db w'))"
  using login_exact [of sample_member sample_auth "''s1''" "''u1''" "''Secret-12''"] sample_login
  by fastforce

theorem login_is_final_witness:
  "\<exists>r w'. LoginUser sample_auth ''s1'' ''u1'' ''Secret-12'' sample_member = (Inr r, w') \<and>
     (\<exists>err. fst (LoginUser sample_auth ''s2'' ''u1'' ''Secret-12''
       (run_auth [(sample_auth, RegisterCall ''u3'' sample_user)] w')) = Inl err)"
  using login_is_final [of sample_member sample_auth "''s1''" "''u1''" "''Secret-12''"] sample_login
  by fastforce

theorem auth_keeps_schema_witness:
  "schema_ok (w_db (run_auth [(sample_auth, RegisterCall ''u3'' sample_user),
     (sample_auth, LoginCall ''s1'' ''ann_1'' ''Secret-12'')] sample))"
  by (rule auth_keeps_schema) simp

theorem access_token_lifetime_witness:
  "\<exists>token. GenerateAccessToken jwt_ref (\<lambda>_. None) 0 (Some sample_user) = Inr token \<and>
     ValidateAccessToken jwt_ref (\<lambda>_. None) 899999999 token =
       Inr (claims_of sample_user 0 (session_accessTokenTTL (\<lambda>_. None)))"
proof -
  have ttl: "session_accessTokenTTL (\<lambda>_. None) = 900000000" by code_simp
  obtain token where g: "GenerateAccessToken jwt_ref (\<lambda>_. None) 0 (Some sample_user) = Inr token"
    by (simp add: GenerateAccessToken_def jwt_ref_def)
  from access_token_lifetime [OF jref.jwt_laws_axioms g, of 899999999
      "claims_of sample_user 0 (session_accessTokenTTL (\<lambda>_. None))"] g show ?thesis
    by (auto simp: ttl NumericDate_def)
qed

end
