(* ===== verification/Interleaving.thy ===== *)
theory Interleaving
  imports Provenance AccountProps AuthProps
begin

text \<open>
  The whole application as a transition system. A step is one run of a handler, one poll of a
  relay, one delivery of a message of the topic, or something that happens outside the program
  (a cache entry that expires, a message put on the dead-letter topic, offsets that move). Steps come in any order
  and each under its own faults; a message can be delivered any number of times and long after
  others. Shown are invariants of every state that can be reached.
\<close>

section \<open>Steps\<close>

inductive wallet_step :: "('r, 'k) OutboxRelay \<Rightarrow> ('k \<Rightarrow> kmessage list) \<Rightarrow> ('r, 'k) plant \<Rightarrow>
    ('r, 'k) plant \<Rightarrow> bool"
  for o' :: "('r, 'k) OutboxRelay" and log :: "'k \<Rightarrow> kmessage list" where
  Deposit: "wallet_step o' log p (snd (on_world (Grpc_Deposit o' e oid newId dreq) p))"
| Withdraw: "wallet_step o' log p (snd (on_world (Grpc_Withdraw o' e oid newId wreq) p))"
| Transfer: "wallet_step o' log p (snd (on_world (Grpc_Transfer o' e oid newId xreq) p))"
| OpenAccount: "wallet_step o' log p (snd (on_world (on_db (Grpc_CreateAccount e newId user currency)) p))"
| Balance: "wallet_step o' log p (snd (on_world (Grpc_GetBalance (or_redis o') env e user account) p))"
| Listing: "wallet_step o' log p (snd (on_world (on_db (Grpc_ListTransactions e lreq)) p))"
| RegisterUser: "wallet_step o' log p (snd (on_world (Grpc_RegisterUser a newId rreq) p))"
| Login: "wallet_step o' log p (snd (on_world (Grpc_LoginUser a newId greq) p))"
| Poll: "(\<And>rows. set (po_order po rows) \<subseteq> set rows) \<Longrightarrow> wallet_step o' log p (snd (readAndRelay o' po p))"
| Deliver: "m \<in> set (log (pl_kafka p)) \<Longrightarrow> km_Topic m = pr_topic (or_publisher o') \<Longrightarrow>
    wallet_step o' log p (snd (on_world (Handle (wallet_dispatcher (or_redis o') e) (km_Value m)) p))"
| DeadLetter: "wallet_step o' log p (snd (on_kafka
    (AppendToDlq (pr_messaging (or_publisher o')) (pr_topic (or_publisher o')) key v reason) p))"
| Offsets: "log k = log (pl_kafka p) \<Longrightarrow> wallet_step o' log p (p\<lparr>pl_kafka := k\<rparr>)"
| Expire: "wallet_step o' log p (p\<lparr>pl_world := (pl_world p)\<lparr>w_ch := r\<rparr>\<rparr>)"

section \<open>What holds in every state\<close>

abbreviation db_of :: "('r, 'k) plant \<Rightarrow> database" where
  "db_of p \<equiv> w_db (pl_world p)"

text \<open>Every entry is that of a request in the outbox, under the identifier of its row; a payload has one amount.\<close>

definition requested :: "outbox_row list \<Rightarrow> entry \<Rightarrow> bool" where
  "requested rows x \<longleftrightarrow> (\<exists>r \<in> set rows. \<exists>rq. request_of (batch_model r) = Some rq \<and> x = req_entry rq)"

definition rows_named :: "outbox_row list \<Rightarrow> bool" where
  "rows_named rows \<longleftrightarrow>
     (\<forall>r \<in> set rows. one_amount (om_Payload r) \<and>
        (\<forall>rq. request_of (batch_model r) = Some rq \<longrightarrow> req_id rq = om_AggregateId r))"

definition books_inv :: "database \<Rightarrow> bool" where
  "books_inv db \<longleftrightarrow> schema_ok db \<and> rows_named (transaction_outbox db) \<and>
     (\<forall>x \<in> set (entries db). requested (transaction_outbox db) x) \<and> balances_covered db"

definition topic_inv :: "string \<Rightarrow> kmessage list \<Rightarrow> outbox_row list \<Rightarrow> bool" where
  "topic_inv topic msgs rows \<longleftrightarrow>
     (\<forall>m \<in> set msgs. km_Topic m = topic \<longrightarrow>
        (\<exists>r \<in> set rows. \<exists>v. marshal_envelope (batch_model r) = Some v \<and> km_Value m = Some v)) \<and>
     published_logged topic msgs rows"

definition system_inv :: "string \<Rightarrow> ('k \<Rightarrow> kmessage list) \<Rightarrow> ('r, 'k) plant \<Rightarrow> bool" where
  "system_inv topic log p \<longleftrightarrow> books_inv (db_of p) \<and> topic_inv topic (log (pl_kafka p)) (outbox_of p)"

section \<open>Handlers\<close>

text \<open>A change of the outbox that keeps what its rows say.\<close>

definition outbox_evolves :: "database \<Rightarrow> database \<Rightarrow> bool" where
  "outbox_evolves db db' \<longleftrightarrow> db' = db\<lparr>transaction_outbox := transaction_outbox db'\<rparr> \<and>
     map batch_model (transaction_outbox db') = map batch_model (transaction_outbox db) \<and>
     (\<forall>r \<in> set (transaction_outbox db'). outbox_status_enum (om_Status r))"

lemma request_of_deposit:
  "request_of (batch_model (new_outbox_row oid \<lparr>oc_AggregateType = ty, oc_AggregateId = tid,
      oc_EventType = TransactionDepositRequested, oc_Payload = [(''ID'', JStr tid), (''FromAccount'', JStr f),
      (''ToAccount'', JStr t), (''Amount'', JInt a), (''Currency'', JStr c), (''UserId'', JStr u)],
      oc_UserId = u', oc_Topic = topic, oc_Partition_key = k\<rparr> key now)) =
   (if fits_signed 64 (float64_trip a) then Some (DepositReq tid u t c (float64_trip a)) else None)"
  by (simp add: request_of_def batch_model_def new_outbox_row_def decode_deposit_payload)

lemma request_of_withdrawal:
  "request_of (batch_model (new_outbox_row oid \<lparr>oc_AggregateType = ty, oc_AggregateId = tid,
      oc_EventType = TransactionWithdrawalRequested, oc_Payload = [(''ID'', JStr tid), (''FromAccount'', JStr f),
      (''ToAccount'', JStr t), (''Amount'', JInt a), (''UserId'', JStr u)],
      oc_UserId = u', oc_Topic = topic, oc_Partition_key = k\<rparr> key now)) =
   (if fits_signed 64 (float64_trip a) then Some (WithdrawReq tid u t (float64_trip a)) else None)"
  using event_types_distinct
  by (simp add: request_of_def batch_model_def new_outbox_row_def decode_withdraw_payload)

lemma request_of_transfer:
  "request_of (batch_model (new_outbox_row oid \<lparr>oc_AggregateType = ty, oc_AggregateId = tid,
      oc_EventType = TransactionTransferRequested, oc_Payload = [(''ID'', JStr tid), (''FromAccount'', JStr f),
      (''ToAccount'', JStr t), (''Amount'', JInt a), (''Currency'', JStr c), (''UserId'', JStr u)],
      oc_UserId = u', oc_Topic = topic, oc_Partition_key = k\<rparr> key now)) =
   (if fits_signed 64 (float64_trip a) then Some (TransferReq tid u f t c (float64_trip a)) else None)"
  using event_types_distinct
  by (simp add: request_of_def batch_model_def new_outbox_row_def decode_deposit_payload)

lemmas request_of_new = request_of_deposit request_of_withdrawal request_of_transfer

lemma outbox_insert_db:
  "w_db (snd (OutboxInsert R e oid cfg w)) = w_db w \<or>
   (oid \<notin> set (keys om_ID (transaction_outbox (w_db w))) \<and>
    oc_AggregateId cfg \<notin> set (keys om_AggregateId (transaction_outbox (w_db w))) \<and>
    w_db (snd (OutboxInsert R e oid cfg w)) = (w_db w)\<lparr>transaction_outbox := transaction_outbox (w_db w) @
      [new_outbox_row oid cfg (request_key cfg) (env_now e OutboxInsertC)]\<rparr>)"
proof -
  have "w_db (snd (outbox_write R e oid cfg key w)) = w_db w \<or>
    (oid \<notin> set (keys om_ID (transaction_outbox (w_db w))) \<and>
     oc_AggregateId cfg \<notin> set (keys om_AggregateId (transaction_outbox (w_db w))) \<and>
     w_db (snd (outbox_write R e oid cfg key w)) = (w_db w)\<lparr>transaction_outbox :=
       transaction_outbox (w_db w) @ [new_outbox_row oid cfg key (env_now e OutboxInsertC)]\<rparr>)" for key w
    by (auto simp: outbox_write_def on_db_eq on_ch_eq autocommit_def sql_insert_outbox_def Let_def
        new_outbox_row_def split: io.splits sum.splits)
  from this [of "request_key cfg" "w\<lparr>w_ch := snd (TransactionIdempotencyCheck R (request_key cfg) (w_ch w))\<rparr>"]
  show ?thesis
    by (auto simp: OutboxInsert_def on_db_eq on_ch_eq Let_def split: sum.splits)
qed

lemma requested_models:
  "map batch_model rows' = map batch_model rows \<Longrightarrow> requested rows' x = requested rows x"
  unfolding requested_def by (metis (no_types, lifting) image_iff set_map)

lemma requested_append: "requested rows x \<Longrightarrow> requested (rows @ rows') x"
  by (auto simp: requested_def)

lemma rows_named_models:
  assumes "map batch_model rows' = map batch_model rows" and "rows_named rows"
  shows "rows_named rows'"
proof -
  have "rows_named xs \<longleftrightarrow> (\<forall>m \<in> set (map batch_model xs). one_amount (om_Payload m) \<and>
      (\<forall>rq. request_of m = Some rq \<longrightarrow> req_id rq = om_AggregateId m))" for xs
    by (auto simp: rows_named_def batch_model_def)
  with assms show ?thesis by metis
qed

lemma models_keys:
  assumes "map batch_model rows' = map batch_model rows"
  shows "keys om_ID rows' = keys om_ID rows" "keys om_AggregateId rows' = keys om_AggregateId rows"
proof -
  have "keys om_ID xs = map om_ID (map batch_model xs)"
    "keys om_AggregateId xs = map om_AggregateId (map batch_model xs)" for xs :: "outbox_row list"
    by (simp_all add: keys_def batch_model_def)
  with assms show "keys om_ID rows' = keys om_ID rows" "keys om_AggregateId rows' = keys om_AggregateId rows"
    by metis+
qed

lemma evolves_books:
  assumes "books_inv db" and e: "outbox_evolves db db'"
  shows "books_inv db'"
proof -
  obtain rows where db': "db' = db\<lparr>transaction_outbox := rows\<rparr>"
    and m: "map batch_model rows = map batch_model (transaction_outbox db)"
    and s: "\<forall>r \<in> set rows. outbox_status_enum (om_Status r)"
    using e unfolding outbox_evolves_def by (metis database.select_convs(5) database.update_convs(5) database.surjective)
  have "schema_ok db'"
    using assms(1) s models_keys [OF m] by (simp add: books_inv_def schema_ok_def outbox_ok_def db')
  then show ?thesis
    using assms(1) rows_named_models [OF m] requested_models [OF m]
    by (simp add: books_inv_def db' entries_def balances_covered_def)
qed

lemma append_books:
  assumes "books_inv db" and "om_ID r \<notin> set (keys om_ID (transaction_outbox db))"
    and "om_AggregateId r \<notin> set (keys om_AggregateId (transaction_outbox db))"
    and "outbox_status_enum (om_Status r)" and "rows_named [r]"
  shows "books_inv (db\<lparr>transaction_outbox := transaction_outbox db @ [r]\<rparr>)"
  using assms
  by (auto simp: books_inv_def schema_ok_def outbox_ok_def rows_named_def entries_def balances_covered_def
      intro!: requested_append)

lemma append_topic:
  assumes "topic_inv topic msgs rows" and "om_Status r = OutboxStatusPending"
  shows "topic_inv topic msgs (rows @ [r])"
  using assms by (auto simp: topic_inv_def published_logged_def)

text \<open>What is left of a handler's effect on the two invariants.\<close>

definition harmless :: "database \<Rightarrow> database \<Rightarrow> bool" where
  "harmless db db' \<longleftrightarrow> (books_inv db \<longrightarrow> books_inv db') \<and>
     batch_model ` set (transaction_outbox db) \<subseteq> batch_model ` set (transaction_outbox db') \<and>
     (\<forall>topic msgs. topic_inv topic msgs (transaction_outbox db) \<longrightarrow> topic_inv topic msgs (transaction_outbox db'))"

lemma harmless_refl [simp]: "harmless db db"
  by (simp add: harmless_def)

lemma outbox_insert_harmless:
  assumes "\<And>now. rows_named [new_outbox_row oid cfg (request_key cfg) now]"
  shows "harmless (w_db w) (w_db (snd (OutboxInsert R e oid cfg w)))"
  using outbox_insert_db [of R e oid cfg w] assms
  by (auto simp: harmless_def intro!: append_books append_topic simp: new_outbox_row_def)

lemma handlers_harmless:
  "harmless (w_db w) (w_db (snd (Grpc_Deposit o' e oid newId dreq w)))"
  "harmless (w_db w) (w_db (snd (Grpc_Withdraw o' e oid newId wreq w)))"
  "harmless (w_db w) (w_db (snd (Grpc_Transfer o' e oid newId xreq w)))"
proof -
  have named: "rows_named [new_outbox_row oid cfg key now] \<longleftrightarrow>
      one_amount (oc_Payload cfg) \<and>
      (\<forall>rq. request_of (batch_model (new_outbox_row oid cfg key now)) = Some rq \<longrightarrow> req_id rq = oc_AggregateId cfg)"
    for cfg key now by (simp add: rows_named_def new_outbox_row_def)
  have db: "w_db (snd (case x of (Inl err, w) \<Rightarrow> (Inl err, w) | (Inr _, w) \<Rightarrow> (Inr y, w))) = w_db (snd x)"
    for x :: "unit result \<times> 'a world" and y :: "pb_Transaction option"
    by (auto split: prod.splits sum.splits)
  show "harmless (w_db w) (w_db (snd (Grpc_Deposit o' e oid newId dreq w)))"
    unfolding Grpc_Deposit_def Let_def db InsertOutboxRelay_def
    by (rule outbox_insert_harmless) (simp add: named request_of_new one_amount_def is_amount_def)
  show "harmless (w_db w) (w_db (snd (Grpc_Withdraw o' e oid newId wreq w)))"
    unfolding Grpc_Withdraw_def Let_def db InsertOutboxRelay_def
    by (rule outbox_insert_harmless) (simp add: named request_of_new one_amount_def is_amount_def)
  show "harmless (w_db w) (w_db (snd (Grpc_Transfer o' e oid newId xreq w)))"
    unfolding Grpc_Transfer_def Let_def db InsertOutboxRelay_def
    by (rule outbox_insert_harmless) (simp add: named request_of_new one_amount_def is_amount_def)
qed

section \<open>The relay\<close>

lemma evolves_same:
  "\<forall>r \<in> set (transaction_outbox db). outbox_status_enum (om_Status r) \<Longrightarrow> outbox_evolves db db"
  by (simp add: outbox_evolves_def)

lemma evolves_trans: "outbox_evolves a b \<Longrightarrow> outbox_evolves b c \<Longrightarrow> outbox_evolves a c"
  unfolding outbox_evolves_def by (metis database.update_convs(5) database.surjective)

lemma evolves_update:
  assumes "\<forall>r \<in> set rows. outbox_status_enum (om_Status r)" and "transaction_outbox db = rows"
    and "\<And>r. batch_model (f r) = batch_model r" and "\<And>r. outbox_status_enum (om_Status (f r))"
  shows "outbox_evolves db (db\<lparr>transaction_outbox := update_where q f rows\<rparr>)"
  using assms by (auto simp: outbox_evolves_def models_update set_update_where)

lemma outbox_update_evolves:
  assumes "\<forall>r \<in> set (transaction_outbox db). outbox_status_enum (om_Status r)"
  shows "outbox_evolves db (snd (OutboxUpdate e a s db))"
proof -
  have "snd (OutboxUpdate e a s db) = db \<or> (outbox_status_enum s \<and> snd (OutboxUpdate e a s db) =
      db\<lparr>transaction_outbox := update_where (\<lambda>r. om_AggregateId r = a)
        (set_outbox_status s (env_now e OutboxUpdateC)) (transaction_outbox db)\<rparr>)"
    by (auto simp: OutboxUpdate_def autocommit_def split: io.splits)
  moreover have "outbox_evolves db (db\<lparr>transaction_outbox := update_where q (set_outbox_status s now)
      (transaction_outbox db)\<rparr>)" if "outbox_status_enum s" for q now
    using that by (intro evolves_update [OF assms refl] batch_model_update) (simp add: set_outbox_status_def)
  ultimately show ?thesis using evolves_same [OF assms] by auto
qed

lemma mark_failure_evolves:
  assumes "\<forall>r \<in> set (transaction_outbox db). outbox_status_enum (om_Status r)"
  shows "outbox_evolves db (snd (OutboxMarkPublishFailure e env a msg db))"
proof -
  have "snd (OutboxMarkPublishFailure e env a msg db) = db \<or> (\<exists>lim cap.
      snd (OutboxMarkPublishFailure e env a msg db) =
      db\<lparr>transaction_outbox := update_where (\<lambda>r. om_AggregateId r = a)
        (mark_failure msg lim cap (env_now e OutboxMarkPublishFailureC)) (transaction_outbox db)\<rparr>)"
    by (auto simp: OutboxMarkPublishFailure_def autocommit_def Let_def split: io.splits option.splits)
  moreover have "outbox_evolves db (db\<lparr>transaction_outbox := update_where q (mark_failure msg lim cap now)
      (transaction_outbox db)\<rparr>)" for q lim cap now
    by (intro evolves_update [OF assms refl] batch_model_update) (simp add: mark_failure_def)
  ultimately show ?thesis using evolves_same [OF assms] by auto
qed

lemma batch_evolves:
  assumes "\<forall>r \<in> set (transaction_outbox db). outbox_status_enum (om_Status r)"
  shows "outbox_evolves db (snd (OutboxPendingGetBatch e locked limit db))"
  using batch_state [of e locked limit db] assms
  by (auto simp: outbox_evolves_def claim_rows_def reclaim_stale_def models_update set_update_where
      batch_model_def)

lemma evolves_status:
  "outbox_evolves db db' \<Longrightarrow> \<forall>r \<in> set (transaction_outbox db'). outbox_status_enum (om_Status r)"
  by (simp add: outbox_evolves_def)

lemma relay_row_evolves:
  assumes "\<forall>r \<in> set (outbox_of p). outbox_status_enum (om_Status r)"
  shows "outbox_evolves (db_of p) (db_of (relay_row o' e m p))"
  using assms outbox_update_evolves [OF assms] mark_failure_evolves [OF assms]
  by (auto simp: relay_row_def markFailed_def Let_def on_world_eq on_kafka_eq on_db_eq split_beta
      releaseIdempotency_other outbox_evolves_def [of "db_of p" "db_of p"]
      split: option.splits sum.splits)

lemma relay_rows_evolves:
  assumes "\<forall>r \<in> set (outbox_of p). outbox_status_enum (om_Status r)"
  shows "outbox_evolves (db_of p) (db_of (fold (\<lambda>m. relay_row o' (es (om_AggregateId m)) m) ms p))"
  using assms
proof (induction ms arbitrary: p)
  case Nil
  then show ?case by (simp add: outbox_evolves_def)
next
  case (Cons m ms)
  note step = relay_row_evolves [OF Cons.prems, of o' "es (om_AggregateId m)" m]
  show ?case using evolves_trans [OF step Cons.IH [OF evolves_status [OF step]]] by simp
qed

lemma poll_evolves:
  assumes "schema_ok (db_of p)"
  shows "outbox_evolves (db_of p) (db_of (snd (readAndRelay o' po p)))"
proof -
  let ?get = "OutboxPendingGetBatch (po_env po) (po_locked po) (or_batchSize o')"
  let ?p1 = "p\<lparr>pl_world := (pl_world p)\<lparr>w_db := snd (?get (db_of p))\<rparr>\<rparr>"
  have g: "outbox_evolves (db_of p) (db_of ?p1)"
    using batch_evolves [of "db_of p"] schema_okD(6) [OF assms] by simp
  have "outbox_evolves (db_of p) (db_of (fold (\<lambda>m. relay_row o' (po_row_env po (om_AggregateId m)) m) ms ?p1))" for ms
    by (rule evolves_trans [OF g relay_rows_evolves [OF evolves_status [OF g]]])
  then show ?thesis using g by (simp add: readAndRelay_def on_world_eq on_db_eq split: sum.splits)
qed

context kafka_laws
begin

lemma write_log: "set (log (snd (W m b))) \<subseteq> insert m (set (log b))"
  by (cases "W m b"; cases "fst (W m b)") (auto dest: write_ok write_err)

lemma relay_row_log:
  assumes "mk_writer (pr_messaging (or_publisher o')) = Some W" and "x \<in> set (log (pl_kafka (relay_row o' e m p)))"
  shows "x \<in> set (log (pl_kafka p)) \<or> (\<exists>v. marshal_envelope m = Some v \<and> km_Value x = Some v)"
proof (cases "marshal_envelope m")
  case None
  then show ?thesis using assms(2)
    by (simp add: relay_row_def markFailed_def Let_def on_world_eq split_beta releaseIdempotency_other)
next
  case (Some v)
  let ?m = "\<lparr>km_Topic = pr_topic (or_publisher o'), km_Key = om_PartitionKey m, km_Value = Some v, km_Headers = []\<rparr>"
  have "pl_kafka (relay_row o' e m p) = snd (Publish (or_publisher o') (om_PartitionKey m) (Some v) (pl_kafka p))"
    using Some by (simp add: relay_row_def on_kafka_eq on_world_eq releaseIdempotency_other Let_def split: sum.splits)
  moreover have "snd (Publish (or_publisher o') (om_PartitionKey m) (Some v) (pl_kafka p)) = snd (W ?m (pl_kafka p))"
    using assms(1) by (auto simp: Publish_def PublishMessage_def split: prod.splits sum.splits)
  ultimately have "x \<in> insert ?m (set (log (pl_kafka p)))" using assms(2) write_log by auto
  with Some show ?thesis by auto
qed

lemma relay_rows_log:
  assumes "mk_writer (pr_messaging (or_publisher o')) = Some W"
    and "x \<in> set (log (pl_kafka (fold (\<lambda>m. relay_row o' (es (om_AggregateId m)) m) ms p)))"
  shows "x \<in> set (log (pl_kafka p)) \<or> (\<exists>m \<in> set ms. \<exists>v. marshal_envelope m = Some v \<and> km_Value x = Some v)"
  using assms(2) relay_row_log [OF assms(1)] by (induction ms arbitrary: p) fastforce+

lemma poll_log:
  assumes "mk_writer (pr_messaging (or_publisher o')) = Some W"
    and "\<And>rows. set (po_order po rows) \<subseteq> set rows"
    and "x \<in> set (log (pl_kafka (snd (readAndRelay o' po p))))"
  shows "x \<in> set (log (pl_kafka p)) \<or>
    (\<exists>r \<in> set (outbox_of p). \<exists>v. marshal_envelope (batch_model r) = Some v \<and> km_Value x = Some v)"
proof -
  let ?get = "OutboxPendingGetBatch (po_env po) (po_locked po) (or_batchSize o')"
  show ?thesis
  proof (cases "?get (db_of p)")
    case (Pair res db')
    show ?thesis
    proof (cases res)
      case (Inl err)
      with Pair assms(3) show ?thesis by (simp add: readAndRelay_def on_world_def on_db_def)
    next
      case (Inr rows)
      have "x \<in> set (log (pl_kafka p)) \<or>
          (\<exists>m \<in> set (po_order po rows). \<exists>v. marshal_envelope m = Some v \<and> km_Value x = Some v)"
        using relay_rows_log [OF assms(1), of x "po_row_env po" "po_order po rows"] Pair Inr assms(3)
        by (fastforce simp: readAndRelay_def on_world_def on_db_def)
      moreover have "m \<in> batch_model ` set (outbox_of p)" if "m \<in> set (po_order po rows)" for m
        using claimed_in_batch [of "po_env po" "po_locked po" "or_batchSize o'" "db_of p" rows db'] Pair Inr
          assms(2) that by blast
      ultimately show ?thesis by blast
    qed
  qed
qed

end

section \<open>Other handlers\<close>

lemma read_handlers_db:
  "snd (Grpc_ListTransactions e lreq db) = db"
  "w_db (snd (Grpc_GetBalance R env e user account w)) = w_db w"
proof -
  have "snd (ListTransactions e a o' l db) = db" for a o' l
    by (auto simp: ListTransactions_def autocommit_def split: io.splits sum.splits)
  then have "snd (Svc_ListTransactions e r db) = db" for r
    by (auto simp: Svc_ListTransactions_def Let_def split: sum.splits prod.splits) (metis snd_conv)+
  then show "snd (Grpc_ListTransactions e lreq db) = db"
    by (auto simp: Grpc_ListTransactions_def split: option.splits prod.splits sum.splits) (metis snd_conv)+
  have "w_db (snd (GetOrStoreAccountBalance R env a b w)) = w_db w" for a b
    by (auto simp: GetOrStoreAccountBalance_def on_ch_eq split: sum.splits)
  then have "w_db (snd (GetBalance R env e user account w)) = w_db w"
    by (auto simp: GetBalance_def check_account split: sum.splits prod.splits option.splits) (metis snd_conv)+
  then show "w_db (snd (Grpc_GetBalance R env e user account w)) = w_db w"
    by (auto simp: Grpc_GetBalance_def split: sum.splits prod.splits)
qed

lemma grpc_open_state:
  "snd (Grpc_CreateAccount e newId user currency db) = snd (OpenAccount e newId user currency db)"
  by (auto simp: Grpc_CreateAccount_def split: prod.splits sum.splits)

lemma grpc_auth_adds:
  "adds_user (w_db w) (w_db (snd (Grpc_RegisterUser a newId rreq w)))"
  "adds_token newId (w_db w) (w_db (snd (Grpc_LoginUser a newId greq w)))"
proof -
  have "w_db (snd (Grpc_RegisterUser a newId rreq w)) = w_db (snd (RegisterUser a newId (the (ToRegisterUserDomain (Some rreq))) w))"
    by (auto simp: Grpc_RegisterUser_def ToRegisterUserDomain_def split: prod.splits sum.splits)
  then show "adds_user (w_db w) (w_db (snd (Grpc_RegisterUser a newId rreq w)))" using register_adds by simp
  have "w_db (snd (Grpc_LoginUser a newId greq w)) = w_db (snd (LoginUser a newId (pn_Username greq) (pn_Password greq) w))"
    by (auto simp: Grpc_LoginUser_def ToLoginUserDomain_def split: prod.splits sum.splits)
  then show "adds_token newId (w_db w) (w_db (snd (Grpc_LoginUser a newId greq w)))" using login_adds by simp
qed

lemma insert_token_tables:
  "transactions (snd (sql_insert_token i u k n db)) = transactions db"
  "accounts (snd (sql_insert_token i u k n db)) = accounts db"
  "transaction_outbox (snd (sql_insert_token i u k n db)) = transaction_outbox db"
  by (simp_all add: sql_insert_token_def split: option.splits)

lemma open_account_harmless: "harmless db (snd (Grpc_CreateAccount e newId user currency db))"
  using open_account_state [of e newId user currency db]
  by (auto simp: grpc_open_state harmless_def books_inv_def schema_ok_def accounts_ok_def account_row_ok_def
      fits_signed_def transactions_ok_def transaction_row_ok_def new_account_def balances_covered_def entries_def
      credits_nonneg)

lemma auth_harmless:
  "harmless (w_db w) (w_db (snd (Grpc_RegisterUser a newId rreq w)))"
  "harmless (w_db w) (w_db (snd (Grpc_LoginUser a newId greq w)))"
proof -
  have u: "harmless db db'" if "adds_user db db'" for db db'
    using that adds_user_schema [OF that]
    by (auto simp: harmless_def books_inv_def adds_user_def entries_def balances_covered_def)
  have t: "harmless db (snd (sql_insert_token i u k n db))" for db i u k n
    using sql_insert_token_schema
    by (simp add: harmless_def books_inv_def entries_def balances_covered_def insert_token_tables)
  show "harmless (w_db w) (w_db (snd (Grpc_RegisterUser a newId rreq w)))" by (rule u [OF grpc_auth_adds(1)])
  show "harmless (w_db w) (w_db (snd (Grpc_LoginUser a newId greq w)))"
    using grpc_auth_adds(2) [of newId w a greq] t by (auto simp: adds_token_def)
qed

section \<open>Every step keeps the invariants\<close>

lemma on_world_inv:
  assumes "system_inv topic log p" and "harmless (db_of p) (w_db (snd (m (pl_world p))))"
  shows "system_inv topic log (snd (on_world m p))"
  using assms by (auto simp: system_inv_def harmless_def on_world_eq)

lemma topic_models:
  assumes "map batch_model rows' = map batch_model rows"
    and "\<exists>r \<in> set rows. \<exists>v. marshal_envelope (batch_model r) = Some v \<and> y = Some v"
  shows "\<exists>r \<in> set rows'. \<exists>v. marshal_envelope (batch_model r) = Some v \<and> y = Some v"
  using assms by (metis (no_types, lifting) image_iff set_map)

lemma deliver_books:
  assumes b: "books_inv (w_db w)" and r: "r \<in> set (transaction_outbox (w_db w))"
    and v: "marshal_envelope (batch_model r) = Some v"
  shows "books_inv (w_db (snd (Handle (wallet_dispatcher R e) (Some v) w))) \<and>
    transaction_outbox (w_db (snd (Handle (wallet_dispatcher R e) (Some v) w))) = transaction_outbox (w_db w)"
proof (cases "request_of (batch_model r)")
  case None
  then show ?thesis using b Handle_request [OF v, of R e w] by simp
next
  case (Some rq)
  let ?S = "{x. requested (transaction_outbox (w_db w)) x}"
  have ok: "schema_ok (w_db w)" using b by (simp add: books_inv_def)
  have "accounted ?S (transaction_outbox (w_db w)) (req_entry rq) (w_db w)"
    using b by (auto simp: accounted_def books_inv_def)
  then have a: "accounted ?S (transaction_outbox (w_db w)) (req_entry rq) (w_db (snd (run_request R e rq w)))"
    by (rule acct.request_keeps [OF ok _ refl request_of_fits [OF Some]])
  have x: "req_entry rq \<in> ?S" using r Some by (auto simp: requested_def)
  have "schema_ok (w_db (snd (run_request R e rq w)))"
    by (rule request_schema [OF ok request_of_fits [OF Some]])
  then have "books_inv (w_db (snd (run_request R e rq w)))"
    using a x b by (auto simp: accounted_def books_inv_def)
  with a show ?thesis using Handle_request [OF v, of R e w] Some by (simp add: accounted_def)
qed

lemma wallet_step_inv:
  assumes laws: "kafka_laws W log" and w: "mk_writer (pr_messaging (or_publisher o')) = Some W"
    and step: "wallet_step o' log p p'" and inv: "system_inv (pr_topic (or_publisher o')) log p"
  shows "system_inv (pr_topic (or_publisher o')) log p'"
  using step inv
proof (induction rule: wallet_step.induct)
  case (Poll po p)
  have ok: "schema_ok (db_of p)" using Poll.prems by (simp add: system_inv_def books_inv_def)
  note ev = poll_evolves [OF ok, of o' po]
  have m: "map batch_model (outbox_of (snd (readAndRelay o' po p))) = map batch_model (outbox_of p)"
    using ev by (simp add: outbox_evolves_def)
  have "published_logged (pr_topic (or_publisher o')) (log (pl_kafka p)) (outbox_of p)"
    using Poll.prems by (simp add: system_inv_def topic_inv_def)
  note pub = poll_published [OF laws w refl ok Poll.hyps this]
  have "topic_inv (pr_topic (or_publisher o')) (log (pl_kafka (snd (readAndRelay o' po p))))
      (outbox_of (snd (readAndRelay o' po p)))"
    using pub kafka_laws.poll_log [OF laws w Poll.hyps] topic_models [OF m] Poll.prems
    unfolding topic_inv_def system_inv_def by blast
  moreover have "books_inv (db_of (snd (readAndRelay o' po p)))"
    using Poll.prems by (intro evolves_books [OF _ ev]) (simp add: system_inv_def)
  ultimately show ?case by (simp add: system_inv_def)
next
  case (Deliver m p e)
  then obtain r v where r: "r \<in> set (outbox_of p)" "marshal_envelope (batch_model r) = Some v" "km_Value m = Some v"
    by (auto simp: system_inv_def topic_inv_def)
  have "books_inv (db_of p)" using Deliver.prems by (simp add: system_inv_def)
  note d = deliver_books [OF this r(1,2), of "or_redis o'" e]
  have "harmless (db_of p) (w_db (snd (Handle (wallet_dispatcher (or_redis o') e) (km_Value m) (pl_world p))))"
    using d r(3) by (simp add: harmless_def)
  then show ?case by (rule on_world_inv [OF Deliver.prems])
next
  case (DeadLetter p key v reason)
  let ?t = "pr_topic (or_publisher o')"
  let ?m = "\<lparr>km_Topic = ?t @ DlqTopicSuffix, km_Key = key, km_Value = v,
    km_Headers = [(''x-failure-reason'', reason), (''x-source-topic'', ?t)]\<rparr>"
  let ?b = "snd (W ?m (pl_kafka p))"
  have s: "snd (AppendToDlq (pr_messaging (or_publisher o')) ?t key v reason (pl_kafka p)) = ?b"
    using w by (auto simp: AppendToDlq_def split: prod.splits sum.splits)
  have "set (log ?b) \<subseteq> insert ?m (set (log (pl_kafka p)))" by (rule kafka_laws.write_log [OF laws])
  moreover have "set (log (pl_kafka p)) \<subseteq> set (log ?b)" using kafka_laws.write_keeps [OF laws] by blast
  moreover have "km_Topic ?m \<noteq> ?t" by (simp add: DlqTopicSuffix_def)
  ultimately have "topic_inv ?t (log ?b) (outbox_of p)"
    using DeadLetter.prems by (fastforce simp: system_inv_def topic_inv_def published_logged_def in_log_def)
  then show ?case using DeadLetter.prems s by (simp add: system_inv_def on_kafka_eq)
next
  case (Offsets k p)
  then show ?case by (simp add: system_inv_def)
next
  case (Expire p r)
  then show ?case by (simp add: system_inv_def)
qed (auto intro!: on_world_inv handlers_harmless auth_harmless
    simp: on_db_eq open_account_harmless read_handlers_db)

lemma wallet_run_inv:
  assumes "(wallet_step o' log)\<^sup>*\<^sup>* p p'" and "kafka_laws W log"
    and "mk_writer (pr_messaging (or_publisher o')) = Some W"
    and "system_inv (pr_topic (or_publisher o')) log p"
  shows "system_inv (pr_topic (or_publisher o')) log p'"
  using assms by (induction rule: rtranclp_induct) (auto intro: wallet_step_inv)

end
