(* ===== verification/Consumer.thy ===== *)
theory Consumer
  imports EventDispatcher Fixtures
begin

text \<open>
  The consumer loop: which messages it commits, what becomes of a message nobody can read, and
  what becomes of a message whose handler failed. The laws of the broker are those of the
  producer together with the offsets of the partitions, while they stay assigned to the reader: a fetch gives the
  next message of one of them and moves the position there, a commit of a place sets what is committed of its
  partition, and so covers every earlier offset of it.
\<close>

definition consumer_handler :: "'s EventDispatcher \<Rightarrow> json option \<Rightarrow> 's guarded" where
  "consumer_handler d v s = (case Handle d v s of (r, s) \<Rightarrow> (Some r, s))"

text \<open>A reference cluster with any number of partitions; \<open>rc_answers\<close> says which of them answers each fetch.\<close>

record ref_cluster =
  rc_partitions :: "kmessage list list"
  rc_answers :: "nat list"
  rc_pos :: "nat \<Rightarrow> nat"
  rc_committed :: "nat \<Rightarrow> nat"
  rc_out :: "kmessage list"

definition cluster_writer :: "ref_cluster kafka_writer" where
  "cluster_writer m b = (Inr (), b\<lparr>rc_out := rc_out b @ [m]\<rparr>)"

definition cluster_fetch :: "(ref_cluster, place \<times> kmessage) operation" where
  "cluster_fetch b =
     (case rc_answers b of
        [] \<Rightarrow> (Inl (Sentinel io_EOF), b)
      | q # qs \<Rightarrow>
          if q < length (rc_partitions b) \<and> rc_pos b q < length (rc_partitions b ! q)
          then (Inr ((q, rc_pos b q), rc_partitions b ! q ! rc_pos b q),
                b\<lparr>rc_answers := qs, rc_pos := (rc_pos b)(q := rc_pos b q + 1)\<rparr>)
          else (Inl (Sentinel io_EOF), b))"

definition cluster_reader :: "ref_cluster kafka_reader" where
  "cluster_reader = \<lparr>rd_FetchMessage = cluster_fetch,
     rd_CommitMessages = (\<lambda>(q, off) b. (Inr (), b\<lparr>rc_committed := (rc_committed b)(q := off + 1)\<rparr>))\<rparr>"

definition poison :: kmessage where
  "poison = \<lparr>km_Topic = WalletEventsTopic, km_Key = ''a1'', km_Value = None, km_Headers = []\<rparr>"

definition cluster_client :: "ref_cluster KafkaMessaging" where
  "cluster_client = \<lparr>mk_brokers = [''localhost:9092''], mk_groupID = ''wallet-service'',
     mk_writer = Some cluster_writer\<rparr>"

definition cluster_of :: "kmessage list list \<Rightarrow> nat list \<Rightarrow> ref_cluster" where
  "cluster_of parts answers =
     \<lparr>rc_partitions = parts, rc_answers = answers, rc_pos = (\<lambda>_. 0), rc_committed = (\<lambda>_. 0), rc_out = []\<rparr>"

section \<open>The contract with the broker\<close>

locale broker_laws = kafka_laws W log
  for W :: "'k kafka_writer" and log :: "'k \<Rightarrow> kmessage list" +
  fixes rd :: "'k kafka_reader"
    and pos :: "'k \<Rightarrow> nat \<Rightarrow> nat"
    and committed :: "'k \<Rightarrow> nat \<Rightarrow> nat"
  assumes fetch_ok: "rd_FetchMessage rd b = (Inr ((q, off), m), b') \<Longrightarrow>
        pos b q \<le> off \<and> pos b' = (pos b)(q := off + 1) \<and> committed b' = committed b \<and> log b' = log b"
    and fetch_err: "rd_FetchMessage rd b = (Inl err, b') \<Longrightarrow>
        pos b' = pos b \<and> committed b' = committed b \<and> log b' = log b"
    and commit_ok: "rd_CommitMessages rd (q, off) b = (Inr u, b') \<Longrightarrow>
        committed b' = (committed b)(q := off + 1) \<and> pos b' = pos b \<and> log b' = log b"
    and commit_err: "rd_CommitMessages rd (q, off) b = (Inl err, b') \<Longrightarrow> pos b' = pos b \<and> log b' = log b"
    and write_offsets: "pos (snd (W m b)) = pos b \<and> committed (snd (W m b)) = committed b"
begin

lemma commit_keeps: "pos (snd (rd_CommitMessages rd at b)) = pos b \<and> log (snd (rd_CommitMessages rd at b)) = log b"
proof -
  obtain q off r b' where "at = (q, off)" "rd_CommitMessages rd (q, off) b = (r, b')" by (metis surj_pair)
  then show ?thesis using commit_ok commit_err by (cases r) fastforce+
qed

lemma dlq_offsets:
  assumes "mk_writer k = Some W" and "AppendToDlq k topic key v reason b = (res, b')"
  shows "pos b' = pos b \<and> committed b' = committed b"
  using assms write_offsets
  by (auto simp: AppendToDlq_def split: prod.splits sum.splits) (metis snd_conv)+

lemma unread_message_turn:
  assumes k: "mk_writer k = Some W"
    and fetch: "rd_FetchMessage rd (cs_kafka c) = (Inr ((q, off), msg), b1)"
    and h: "dispatch handler msg (cs_app c) = (Inl err, s)" "errors_Is err ErrInvalidMessage"
    and dlq: "AppendToDlq k topic (km_Key msg) (km_Value msg) (error_text err) b1 = (Inr (), b2)"
    and commit: "rd_CommitMessages rd (q, off) b2 = (Inr (), b3)"
  shows "\<exists>c'. consume_turn k rd topic handler d c = Some c' \<and> cs_app c' = s
    \<and> log (cs_kafka c') = log (cs_kafka c) @
        [\<lparr>km_Topic = topic @ DlqTopicSuffix, km_Key = km_Key msg, km_Value = km_Value msg,
          km_Headers = [(''x-failure-reason'', error_text err), (''x-source-topic'', topic)]\<rparr>]
    \<and> committed (cs_kafka c') = (committed (cs_kafka c))(q := off + 1)"
proof -
  have "consume_turn k rd topic handler d c =
      Some \<lparr>cs_app = s, cs_kafka = b3, cs_backoff = initialBackoff\<rparr>"
    by (simp add: consume_turn_def fetch h dlq commit)
  then show ?thesis
    using fetch_ok [OF fetch] commit_ok [OF commit] dlq_logged [OF k dlq] dlq_offsets [OF k dlq]
    by simp
qed

lemma failed_message_turn:
  assumes fetch: "rd_FetchMessage rd (cs_kafka c) = (Inr ((q, off), msg), b1)"
    and h: "dispatch handler msg (cs_app c) = (Inl err, s)" "\<not> errors_Is err ErrInvalidMessage"
  shows "consume_turn k rd topic handler d c =
      Some \<lparr>cs_app = s, cs_kafka = b1, cs_backoff = initialBackoff\<rparr>
    \<and> committed b1 = committed (cs_kafka c) \<and> log b1 = log (cs_kafka c) \<and> pos b1 q = off + 1"
  using fetch_ok [OF fetch] by (simp add: consume_turn_def fetch h)

lemma handled_message_turn:
  assumes fetch: "rd_FetchMessage rd (cs_kafka c) = (Inr ((q, off), msg), b1)"
    and h: "dispatch handler msg (cs_app c) = (Inr u, s)"
    and commit: "rd_CommitMessages rd (q, off) b1 = (Inr (), b2)"
  shows "consume_turn k rd topic handler d c =
      Some \<lparr>cs_app = s, cs_kafka = b2, cs_backoff = initialBackoff\<rparr>
    \<and> committed b2 = (committed (cs_kafka c))(q := off + 1) \<and> pos b2 q = off + 1"
proof
  show "consume_turn k rd topic handler d c =
      Some \<lparr>cs_app = s, cs_kafka = b2, cs_backoff = initialBackoff\<rparr>"
    by (simp add: consume_turn_def fetch h commit)
qed (use fetch_ok [OF fetch] commit_ok [OF commit] in simp)

text \<open>No turn moves a position back.\<close>

lemma turn_pos:
  assumes k: "mk_writer k = Some W" and turn: "consume_turn k rd topic handler d c = Some c'"
  shows "pos (cs_kafka c) q \<le> pos (cs_kafka c') q"
proof (cases "rd_FetchMessage rd (cs_kafka c)")
  case (Pair res b)
  show ?thesis
  proof (cases res)
    case (Inl err)
    then have "cs_kafka c' = b" using turn Pair by (auto simp: consume_turn_def Let_def split: if_splits)
    then show ?thesis using fetch_err [OF Pair [unfolded Inl]] by simp
  next
    case (Inr at_m)
    obtain p off m where at_m: "at_m = ((p, off), m)" by (metis surj_pair)
    have "pos (cs_kafka c) q \<le> pos b q" using fetch_ok [OF Pair [unfolded Inr at_m]] by (simp add: fun_upd_def)
    moreover have "pos (cs_kafka c') = pos b"
      using turn Pair Inr at_m commit_keeps dlq_offsets [OF k]
      by (auto simp: consume_turn_def Let_def split_beta split: sum.splits prod.splits if_splits)
    ultimately show ?thesis by simp
  qed
qed

lemma turns_pos:
  assumes "mk_writer k = Some W"
  shows "ConsumeMessage k rd topic handler ds c = (r, c') \<Longrightarrow> pos (cs_kafka c) q \<le> pos (cs_kafka c') q"
proof (induction ds arbitrary: c)
  case (Cons d ds)
  show ?case
  proof (cases "consume_turn k rd topic handler d c")
    case (Some c1)
    then show ?thesis using Cons turn_pos [OF assms Some, of q] by (fastforce intro: order_trans)
  qed (use Cons.prems in simp)
qed simp

end

interpretation cluster: broker_laws cluster_writer rc_out cluster_reader rc_pos rc_committed
  by unfold_locales (auto simp: cluster_writer_def cluster_reader_def cluster_fetch_def split: list.splits if_splits)

section \<open>Messages nobody can read\<close>

lemma Handle_undecodable:
  assumes "decode_envelope v = Inl err"
  shows "Handle d v s = (Inl (invalid_message ''%w: Event dispatcher: failed to decode envelope: %v''), s)"
  using assms by (simp add: Handle_def)

lemma Handle_unregistered:
  assumes "decode_envelope v = Inr env" and "d (ev_EventType env) = None"
  shows "Handle d v s =
    (Inl (invalid_message ''%w: Event dispatcher: no handler registered for event_type=%s''), s)"
  using assms by (simp add: Handle_def)

lemma invalid_message_is [simp]: "errors_Is (invalid_message m) ErrInvalidMessage"
  by (simp add: invalid_message_def)

text \<open>C33. A message that is not an envelope, or whose event type nobody registered, changes
  nothing in the wallet, is written to the dead-letter topic under its own key with its own
  bytes and the reason, and only then committed, in its partition, when the broker accepts both.\<close>

theorem unreadable_message_to_dlq:
  assumes laws: "broker_laws W log rd pos committed" and k: "mk_writer k = Some W"
    and fetch: "rd_FetchMessage rd (cs_kafka c) = (Inr ((q, off), msg), b1)"
    and bad: "case decode_envelope (km_Value msg) of Inl err \<Rightarrow> True | Inr env \<Rightarrow> disp (ev_EventType env) = None"
    and dlq: "\<And>reason. AppendToDlq k topic (km_Key msg) (km_Value msg) reason b1 = (Inr (), b2 reason)"
    and commit: "\<And>reason. rd_CommitMessages rd (q, off) (b2 reason) = (Inr (), b3 reason)"
  shows "\<exists>c' reason. consume_turn k rd topic (consumer_handler disp) d c = Some c' \<and> cs_app c' = cs_app c
    \<and> log (cs_kafka c') = log (cs_kafka c) @
        [\<lparr>km_Topic = topic @ DlqTopicSuffix, km_Key = km_Key msg, km_Value = km_Value msg,
          km_Headers = [(''x-failure-reason'', reason), (''x-source-topic'', topic)]\<rparr>]
    \<and> committed (cs_kafka c') = (committed (cs_kafka c))(q := off + 1)"
proof -
  obtain why where h: "Handle disp (km_Value msg) (cs_app c) = (Inl (invalid_message why), cs_app c)"
    using bad by (cases "decode_envelope (km_Value msg)") (auto simp: Handle_def)
  then have "dispatch (consumer_handler disp) msg (cs_app c) = (Inl (invalid_message why), cs_app c)"
    by (simp add: dispatch_def consumer_handler_def)
  from broker_laws.unread_message_turn [OF laws k fetch this invalid_message_is dlq commit]
  show ?thesis by blast
qed

theorem unreadable_message_to_dlq_witness:
  "\<exists>c'. consume_turn cluster_client cluster_reader WalletEventsTopic
       (consumer_handler (wallet_dispatcher redis_ref (healthy 5))) False
       (consumer_start sample (cluster_of [[], [poison]] [1])) = Some c'
     \<and> cs_app c' = sample \<and> length (rc_out (cs_kafka c')) = 1 \<and> rc_committed (cs_kafka c') 1 = 1"
proof -
  let ?c = "consumer_start sample (cluster_of [[], [poison]] [1])"
  let ?b1 = "(cluster_of [[], [poison]] [1])\<lparr>rc_answers := [], rc_pos := (\<lambda>_. 0)(1 := 1)\<rparr>"
  let ?b2 = "\<lambda>reason. ?b1\<lparr>rc_out := [\<lparr>km_Topic = WalletEventsTopic @ DlqTopicSuffix, km_Key = ''a1'',
      km_Value = None, km_Headers = [(''x-failure-reason'', reason), (''x-source-topic'', WalletEventsTopic)]\<rparr>]\<rparr>"
  have f: "rd_FetchMessage cluster_reader (cs_kafka ?c) = (Inr ((1, 0), poison), ?b1)"
    by (simp add: cluster_reader_def cluster_fetch_def consumer_start_def cluster_of_def)
  have d: "AppendToDlq cluster_client WalletEventsTopic (km_Key poison) (km_Value poison) reason ?b1 =
      (Inr (), ?b2 reason)" for reason
    by (simp add: AppendToDlq_def cluster_client_def cluster_writer_def poison_def cluster_of_def)
  have m: "rd_CommitMessages cluster_reader (1, 0) (?b2 reason) = (Inr (), (?b2 reason)\<lparr>rc_committed := (\<lambda>_. 0)(1 := 1)\<rparr>)" for reason
    by (simp add: cluster_reader_def cluster_of_def)
  have w: "mk_writer cluster_client = Some cluster_writer" by (simp add: cluster_client_def)
  have bad: "case decode_envelope (km_Value poison) of Inl err \<Rightarrow> True
      | Inr env \<Rightarrow> wallet_dispatcher redis_ref (healthy 5) (ev_EventType env) = None"
    by (simp add: poison_def decode_envelope_def)
  from unreadable_message_to_dlq [OF cluster.broker_laws_axioms w f bad d m, of False]
  show ?thesis by (auto simp: consumer_start_def cluster_of_def)
qed

section \<open>Messages whose handler failed\<close>

text \<open>C34. When a handler fails for another reason its message is not committed, but the loop goes on, over any number
  of messages of any partitions. As soon as a later message of the same partition is handled and committed, the
  commit covers the failed one too: it lies before what is committed of its partition and before the position of the
  reader, and nobody will be given it again. The comments of the loop speak of an offset that is not
  committed, as if the message were kept.\<close>

theorem failed_message_is_skipped:
  assumes laws: "broker_laws W log rd pos committed" and k: "mk_writer k = Some W"
    and f1: "rd_FetchMessage rd (cs_kafka c) = (Inr ((q, o1), m1), b1)"
    and h1: "dispatch handler m1 (cs_app c) = (Inl err, s1)" "\<not> errors_Is err ErrInvalidMessage"
    and t1: "consume_turn k rd topic handler d1 c = Some c1"
    and run: "ConsumeMessage k rd topic handler ds c1 = (False, c2)"
    and f2: "rd_FetchMessage rd (cs_kafka c2) = (Inr ((q, o2), m2), b2)"
    and h2: "dispatch handler m2 (cs_app c2) = (Inr (), s2)"
    and commit: "rd_CommitMessages rd (q, o2) b2 = (Inr (), b3)"
  shows "committed (cs_kafka c1) = committed (cs_kafka c) \<and>
    (\<exists>c3. consume_turn k rd topic handler d2 c2 = Some c3 \<and>
       o1 < committed (cs_kafka c3) q \<and> o1 < pos (cs_kafka c3) q)"
proof -
  have c1: "committed (cs_kafka c1) = committed (cs_kafka c)" "pos (cs_kafka c1) q = o1 + 1"
    using broker_laws.failed_message_turn [OF laws f1 h1, of k topic d1] t1 by auto
  then have "o1 < o2"
    using broker_laws.turns_pos [OF laws k run, of q] broker_laws.fetch_ok [OF laws f2] by simp
  with c1(1) broker_laws.handled_message_turn [OF laws f2 h2 commit, of k topic d2] show ?thesis by auto
qed

text \<open>Two partitions: the first message of the first one fails, then a message of the other is handled, then the
  second message of the first.\<close>

definition failing_once :: "json option \<Rightarrow> nat guarded" where
  "failing_once v n = (Some (if n = 0 then Inl (errorf ''down'') else Inr ()), n + 1)"

theorem failed_message_is_skipped_witness:
  "\<exists>c1 c2 c3. consume_turn cluster_client cluster_reader WalletEventsTopic failing_once False
       (consumer_start 0 (cluster_of [[poison, poison], [poison]] [0, 1, 0])) = Some c1 \<and>
     ConsumeMessage cluster_client cluster_reader WalletEventsTopic failing_once [False] c1 = (False, c2) \<and>
     consume_turn cluster_client cluster_reader WalletEventsTopic failing_once False c2 = Some c3 \<and>
     rc_committed (cs_kafka c1) 0 = 0 \<and> 0 < rc_committed (cs_kafka c3) 0"
proof -
  let ?c = "consumer_start (0::nat) (cluster_of [[poison, poison], [poison]] [0, 1, 0])"
  let ?b1 = "(cs_kafka ?c)\<lparr>rc_answers := [1, 0], rc_pos := (\<lambda>_. 0)(0 := 1)\<rparr>"
  let ?c1 = "\<lparr>cs_app = 1, cs_kafka = ?b1, cs_backoff = initialBackoff\<rparr>"
  let ?b2 = "?b1\<lparr>rc_answers := [0], rc_pos := (\<lambda>_. 0)(0 := 1, 1 := 1), rc_committed := (\<lambda>_. 0)(1 := 1)\<rparr>"
  let ?c2 = "\<lparr>cs_app = 2, cs_kafka = ?b2, cs_backoff = initialBackoff\<rparr>"
  let ?b3 = "?b2\<lparr>rc_answers := [], rc_pos := (\<lambda>_. 0)(0 := 2, 1 := 1)\<rparr>"
  note eval = cluster_reader_def cluster_fetch_def consumer_start_def cluster_of_def dispatch_def failing_once_def
    consume_turn_def
  have f1: "rd_FetchMessage cluster_reader (cs_kafka ?c) = (Inr ((0, 0), poison), ?b1)" by (simp add: eval)
  have h1: "dispatch failing_once poison (cs_app ?c) = (Inl (errorf ''down''), 1)" by (simp add: eval)
  have t1: "consume_turn cluster_client cluster_reader WalletEventsTopic failing_once False ?c = Some ?c1" by (simp add: eval)
  have run: "ConsumeMessage cluster_client cluster_reader WalletEventsTopic failing_once [False] ?c1 = (False, ?c2)"
    by (simp add: eval)
  have f2: "rd_FetchMessage cluster_reader (cs_kafka ?c2) = (Inr ((0, 1), poison), ?b3)"
    by (simp add: eval fun_upd_twist numeral_2_eq_2)
  have h2: "dispatch failing_once poison (cs_app ?c2) = (Inr (), 3)" by (simp add: eval)
  have cm: "rd_CommitMessages cluster_reader (0, 1) ?b3 = (Inr (), ?b3\<lparr>rc_committed := (\<lambda>_. 0)(1 := 1, 0 := 2)\<rparr>)"
    by (simp add: eval numeral_2_eq_2)
  have k: "mk_writer cluster_client = Some cluster_writer" by (simp add: cluster_client_def)
  from failed_message_is_skipped [OF cluster.broker_laws_axioms k f1 h1 _ t1 run f2 h2 cm, of False] t1 run
  show ?thesis by (auto simp: consumer_start_def cluster_of_def)
qed

section \<open>Waiting for the broker\<close>

text \<open>The wait after a failed fetch stays between one and thirty seconds.\<close>

theorem consumer_backoff_bounds:
  assumes "initialBackoff \<le> cs_backoff c" and "cs_backoff c \<le> maxBackoff"
    and "consume_turn k rd topic handler d c = Some c'"
  shows "initialBackoff \<le> cs_backoff c' \<and> cs_backoff c' \<le> maxBackoff"
proof -
  have "to_int64 (cs_backoff c * 2) = cs_backoff c * 2"
    using assms(1,2)
    by (intro wrap_signed_id) (auto simp: fits_signed_def initialBackoff_def maxBackoff_def Second_def)
  then show ?thesis
    using assms
    by (auto simp: consume_turn_def initialBackoff_def maxBackoff_def Second_def Let_def
        split: prod.splits sum.splits if_splits)
qed

theorem consumer_backoff_bounds_witness:
  "\<exists>c'. consume_turn cluster_client
       (cluster_reader\<lparr>rd_FetchMessage := \<lambda>b. (Inl (Sentinel ''dial tcp''), b)\<rparr>) WalletEventsTopic
       (\<lambda>v s. (Some (Inr ()), s)) False (consumer_start () (cluster_of [] [])) = Some c'
     \<and> cs_backoff c' \<le> maxBackoff"
proof -
  let ?t = "consume_turn cluster_client
       (cluster_reader\<lparr>rd_FetchMessage := \<lambda>b. (Inl (Sentinel ''dial tcp''), b)\<rparr>) WalletEventsTopic
       (\<lambda>v s. (Some (Inr ()), s)) False (consumer_start () (cluster_of [] []))"
  obtain c' where c: "?t = Some c'"
    by (simp add: consume_turn_def io_EOF_def io_ErrClosedPipe_def context_Canceled_def Let_def)
  from consumer_backoff_bounds [OF _ _ c] c show ?thesis
    by (simp add: consumer_start_def initialBackoff_def maxBackoff_def Second_def)
qed

end
