(* ===== verification/Reachable.thy ===== *)
theory Reachable
  imports Interleaving Consumer
begin

text \<open>
  What holds in every state the application can reach, with a concrete run on which the theorems
  are tried, and the consumer loop as a refinement of the steps.
\<close>

section \<open>Reachable states\<close>

text \<open>A deployment starts with whatever users and accounts there are, no money and no traffic.\<close>

definition fresh_start :: "string \<Rightarrow> ('k \<Rightarrow> kmessage list) \<Rightarrow> ('r, 'k) plant \<Rightarrow> bool" where
  "fresh_start topic log p \<longleftrightarrow> schema_ok (db_of p) \<and> transactions (db_of p) = [] \<and> outbox_of p = [] \<and>
     (\<forall>a \<in> set (accounts (db_of p)). am_Balance a = 0) \<and> (\<forall>m \<in> set (log (pl_kafka p)). km_Topic m \<noteq> topic)"

definition requested_credit :: "string \<Rightarrow> outbox_row \<Rightarrow> int" where
  "requested_credit a r =
     (case request_of (batch_model r) of None \<Rightarrow> 0 | Some rq \<Rightarrow> credit a (req_entry rq))"

text \<open>The same with the amount as it was accepted, before it is rounded on the way to the relay.\<close>

definition accepted_credit :: "string \<Rightarrow> outbox_row \<Rightarrow> int" where
  "accepted_credit a r =
     (case (request_of (batch_model r), payload_amount (om_Payload r)) of
        (Some rq, Some i) \<Rightarrow> (case req_entry rq of (tid, kind, fr, to, amt) \<Rightarrow> credit a (tid, kind, fr, to, i))
      | _ \<Rightarrow> 0)"

text \<open>The amounts a float64 represents exactly.\<close>

definition exact_amounts :: "outbox_row list \<Rightarrow> bool" where
  "exact_amounts rows \<longleftrightarrow> (\<forall>r \<in> set rows. \<forall>i. payload_amount (om_Payload r) = Some i \<longrightarrow> \<bar>i\<bar> < 2 ^ 53)"

lemma fresh_start_inv: "fresh_start topic log p \<Longrightarrow> system_inv topic log p"
  by (auto simp: fresh_start_def system_inv_def books_inv_def topic_inv_def rows_named_def entries_def
      balances_covered_def published_logged_def credits_nonneg)

lemma reachable_inv:
  assumes "kafka_laws W log" and "mk_writer (pr_messaging (or_publisher o')) = Some W"
    and "fresh_start (pr_topic (or_publisher o')) log p0" and "(wallet_step o' log)\<^sup>*\<^sup>* p0 p"
  shows "system_inv (pr_topic (or_publisher o')) log p"
  by (rule wallet_run_inv [OF assms(4,1,2) fresh_start_inv [OF assms(3)]])

lemma req_entry_id: "fst (req_entry rq) = req_id rq"
  by (cases rq) simp_all

text \<open>A sum over entries is bounded by a sum over the rows they can be charged to.\<close>

lemma sum_list_charge:
  fixes f :: "'a \<Rightarrow> int" and g :: "'b \<Rightarrow> int"
  assumes "distinct (map k xs)" and "distinct (map l ys)" and "\<forall>y \<in> set ys. 0 \<le> g y"
    and "\<forall>x \<in> set xs. \<exists>y \<in> set ys. l y = k x \<and> f x \<le> g y"
  shows "sum_list (map f xs) \<le> sum_list (map g ys)"
proof -
  obtain h where h: "\<forall>x \<in> set xs. h x \<in> set ys \<and> l (h x) = k x \<and> f x \<le> g (h x)"
    using assms(4) by metis
  have d: "distinct xs" "distinct ys" "inj_on k (set xs)" using assms(1,2) by (simp_all add: distinct_map)
  have inj: "inj_on h (set xs)" using h d(3) by (metis (no_types, lifting) inj_on_def)
  have "sum_list (map f xs) = sum f (set xs)" using d(1) by (simp add: sum_list_distinct_conv_sum_set)
  also have "\<dots> \<le> sum (g \<circ> h) (set xs)" using h by (intro sum_mono) simp
  also have "\<dots> = sum g (h ` set xs)" using inj by (simp add: sum.reindex)
  also have "\<dots> \<le> sum g (set ys)" using h assms(3) by (intro sum_mono2) auto
  also have "\<dots> = sum_list (map g ys)" using d(2) by (simp add: sum_list_distinct_conv_sum_set)
  finally show ?thesis .
qed

lemma credits_requested:
  assumes "books_inv db"
  shows "credits a (entries db) \<le> sum_list (map (requested_credit a) (transaction_outbox db))"
  unfolding credits_def
proof (rule sum_list_charge [where k = fst and l = om_AggregateId])
  have ok: "schema_ok db" using assms by (simp add: books_inv_def)
  show "distinct (map fst (entries db))"
    using schema_okD(2) [OF ok] by (simp add: entries_def keys_def comp_def entry_of_def)
  show "distinct (map om_AggregateId (transaction_outbox db))"
    using schema_okD(3) [OF ok] by (simp add: keys_def)
  show "\<forall>r \<in> set (transaction_outbox db). 0 \<le> requested_credit a r"
    by (simp add: requested_credit_def split: option.splits)
  show "\<forall>x \<in> set (entries db). \<exists>r \<in> set (transaction_outbox db). om_AggregateId r = fst x \<and> credit a x \<le> requested_credit a r"
  proof
    fix x assume "x \<in> set (entries db)"
    then obtain r rq where r: "r \<in> set (transaction_outbox db)" "request_of (batch_model r) = Some rq" "x = req_entry rq"
      using assms by (auto simp: books_inv_def requested_def)
    then have "om_AggregateId r = fst x"
      using assms by (simp add: books_inv_def rows_named_def req_entry_id)
    with r show "\<exists>r \<in> set (transaction_outbox db). om_AggregateId r = fst x \<and> credit a x \<le> requested_credit a r"
      by (auto simp: requested_credit_def)
  qed
qed

text \<open>Rounding changes no credit when every amount is exact.\<close>

lemma entry_amount: "req_entry rq = (tid, kind, fr, to, amt) \<Longrightarrow> req_amount rq = amt"
  by (cases rq) auto

lemma row_amount:
  assumes "rows_named rows" and "r \<in> set rows" and "request_of (batch_model r) = Some rq"
  shows "req_amount rq = (case payload_amount (om_Payload r) of None \<Rightarrow> 0 | Some i \<Rightarrow> float64_trip i)"
  using assms by (intro request_amount [of "batch_model r"]) (auto simp: rows_named_def batch_model_def)

lemma exact_credits:
  assumes "rows_named rows" and "exact_amounts rows"
  shows "map (requested_credit a) rows = map (accepted_credit a) rows"
proof (rule map_cong [OF refl])
  fix r assume r: "r \<in> set rows"
  show "requested_credit a r = accepted_credit a r"
  proof (cases "request_of (batch_model r)")
    case (Some rq)
    obtain tid kind fr to amt where e: "req_entry rq = (tid, kind, fr, to, amt)" by (metis prod_cases5)
    show ?thesis
    proof (cases "payload_amount (om_Payload r)")
      case None
      then have "amt = 0" using row_amount [OF assms(1) r Some] entry_amount [OF e] by simp
      then show ?thesis using Some None e by (simp add: requested_credit_def accepted_credit_def)
    next
      case i: (Some i)
      then have "\<bar>i\<bar> < 2 ^ 53" using assms(2) r by (simp add: exact_amounts_def)
      then have "amt = i" using row_amount [OF assms(1) r Some] entry_amount [OF e] i by (simp add: float64_trip_exact)
      then show ?thesis using Some i e by (simp add: requested_credit_def accepted_credit_def)
    qed
  qed (simp add: requested_credit_def accepted_credit_def)
qed

text \<open>What the invariant says of the ledger, the balances and the topic.\<close>

lemma ledger_of_requests:
  assumes "system_inv topic log p" and "t \<in> set (transactions (db_of p))"
  shows "\<exists>r \<in> set (outbox_of p). \<exists>rq. om_AggregateId r = tm_ID t \<and> request_of (batch_model r) = Some rq \<and>
    req_entry rq = (tm_ID t, transaction_type t, tm_FromAccount t, tm_ToAccount t, tm_Amount t) \<and>
    map_option float64_trip (payload_amount (om_Payload r)) = Some (tm_Amount t)"
proof -
  have inv: "books_inv (db_of p)" using assms(1) by (simp add: system_inv_def)
  have "entry_of t \<in> set (entries (db_of p))" using assms(2) by (simp add: entries_def)
  then obtain r rq where r: "r \<in> set (outbox_of p)" "request_of (batch_model r) = Some rq" "entry_of t = req_entry rq"
    using inv by (auto simp: books_inv_def requested_def)
  moreover have "fst (entry_of t) = tm_ID t" by (simp add: entry_of_def)
  ultimately have "om_AggregateId r = tm_ID t"
    using inv by (simp add: books_inv_def rows_named_def req_entry_id)
  moreover have "map_option float64_trip (payload_amount (om_Payload r)) = Some (tm_Amount t)"
  proof -
    have "rows_named (outbox_of p)" "schema_ok (db_of p)" using inv by (simp_all add: books_inv_def)
    then have "0 < tm_Amount t" "req_amount rq = (case payload_amount (om_Payload r) of None \<Rightarrow> 0 | Some i \<Rightarrow> float64_trip i)"
      using schema_amounts assms(2) row_amount r(1,2) by blast+
    moreover have "req_amount rq = tm_Amount t" by (rule entry_amount [OF r(3) [unfolded entry_of_def, symmetric]])
    ultimately show ?thesis by (auto split: option.splits)
  qed
  ultimately show ?thesis using r by (intro bexI [of _ r] exI [of _ rq]) (simp_all add: entry_of_def)
qed

lemma balance_of_requests:
  assumes "system_inv topic log p" and "a \<in> set (accounts (db_of p))"
  shows "0 \<le> am_Balance a \<and> am_Balance a \<le> sum_list (map (requested_credit (am_ID a)) (outbox_of p)) \<and>
    (exact_amounts (outbox_of p) \<longrightarrow> am_Balance a \<le> sum_list (map (accepted_credit (am_ID a)) (outbox_of p)))"
proof -
  have inv: "books_inv (db_of p)" using assms(1) by (simp add: system_inv_def)
  then have "0 \<le> am_Balance a"
    using schema_okD(4) [of "db_of p" a] assms(2) by (simp add: books_inv_def account_row_ok_def)
  moreover have "am_Balance a \<le> credits (am_ID a) (entries (db_of p))"
    using inv assms(2) by (simp add: books_inv_def balances_covered_def)
  ultimately show ?thesis
    using credits_requested [OF inv, of "am_ID a"] exact_credits [of "outbox_of p" "am_ID a"] inv
    unfolding books_inv_def by (metis order_trans)
qed

lemma inv_well_formed:
  assumes "system_inv topic log p"
  shows "schema_ok (db_of p) \<and> published_logged topic (log (pl_kafka p)) (outbox_of p) \<and>
    (\<forall>m \<in> set (log (pl_kafka p)). km_Topic m = topic \<longrightarrow>
       (\<exists>r \<in> set (outbox_of p). km_Value m = marshal_envelope (batch_model r)))"
proof -
  have inv: "books_inv (db_of p)" "topic_inv topic (log (pl_kafka p)) (outbox_of p)"
    using assms by (simp_all add: system_inv_def)
  then have "\<exists>r \<in> set (outbox_of p). km_Value m = marshal_envelope (batch_model r)"
    if "m \<in> set (log (pl_kafka p))" "km_Topic m = topic" for m
    using that unfolding topic_inv_def by metis
  with inv show ?thesis by (simp add: books_inv_def topic_inv_def)
qed

text \<open>However requests, polls, deliveries, redeliveries and faults interleave, every row of
  the ledger was asked for: its identifier, kind, accounts and amount are those of a request that
  was accepted into the outbox.\<close>

theorem ledger_is_requested:
  assumes "kafka_laws W log" and "mk_writer (pr_messaging (or_publisher o')) = Some W"
    and "fresh_start (pr_topic (or_publisher o')) log p0" and "(wallet_step o' log)\<^sup>*\<^sup>* p0 p"
    and "t \<in> set (transactions (db_of p))"
  shows "\<exists>r \<in> set (outbox_of p). \<exists>rq. om_AggregateId r = tm_ID t \<and> request_of (batch_model r) = Some rq \<and>
    req_entry rq = (tm_ID t, transaction_type t, tm_FromAccount t, tm_ToAccount t, tm_Amount t)"
  using ledger_of_requests [OF reachable_inv [OF assms(1-4)] assms(5)] by blast

text \<open>In every reachable state a balance is at least zero and at most what the accepted
  requests to credit the account add up to, each request counted once however often its message
  was delivered: no interleaving creates money.\<close>

theorem balance_within_requests:
  assumes "kafka_laws W log" and "mk_writer (pr_messaging (or_publisher o')) = Some W"
    and "fresh_start (pr_topic (or_publisher o')) log p0" and "(wallet_step o' log)\<^sup>*\<^sup>* p0 p"
    and "a \<in> set (accounts (db_of p))"
  shows "0 \<le> am_Balance a \<and> am_Balance a \<le> sum_list (map (requested_credit (am_ID a)) (outbox_of p))"
  using balance_of_requests [OF reachable_inv [OF assms(1-4)] assms(5)] by blast

text \<open>Every reachable state is well formed: the tables satisfy the constraints of the schema,
  every row marked published has its message in the topic, and every message of the topic is the
  envelope of a row of the outbox.\<close>

theorem reachable_well_formed:
  assumes "kafka_laws W log" and "mk_writer (pr_messaging (or_publisher o')) = Some W"
    and "fresh_start (pr_topic (or_publisher o')) log p0" and "(wallet_step o' log)\<^sup>*\<^sup>* p0 p"
  shows "schema_ok (db_of p) \<and> published_logged (pr_topic (or_publisher o')) (log (pl_kafka p)) (outbox_of p) \<and>
    (\<forall>m \<in> set (log (pl_kafka p)). km_Topic m = pr_topic (or_publisher o') \<longrightarrow>
       (\<exists>r \<in> set (outbox_of p). km_Value m = marshal_envelope (batch_model r)))"
  by (rule inv_well_formed [OF reachable_inv [OF assms]])

section \<open>A concrete run\<close>

definition day_zero :: "(ref_redis, ref_broker) plant" where
  "day_zero = \<lparr>pl_world = \<lparr>w_db = sample_db\<lparr>accounts := [mk_account ''a1'' ''u1'' 0, mk_account ''a2'' ''u2'' 0],
      transactions := []\<rparr>, w_ch = rr_empty\<rparr>, pl_kafka = \<lparr>rb_log = [], rb_faults = []\<rparr>\<rparr>"

definition day_one :: "(ref_redis, ref_broker) plant" where
  "day_one = snd (on_world (Grpc_Deposit sample_relay (healthy 7) ''o1'' ''t1'' sample_deposit) day_zero)"

definition day_two :: "(ref_redis, ref_broker) plant" where
  "day_two = snd (readAndRelay sample_relay (sample_poll 9) day_one)"

definition day_three :: "(ref_redis, ref_broker) plant" where
  "day_three = snd (on_world (Handle (wallet_dispatcher redis_ref (healthy 11))
     (km_Value (hd (rb_log (pl_kafka day_two))))) day_two)"

lemma day_three_books:
  "map entry_of (transactions (db_of day_three)) = [(''t1'', ''deposit'', ''a1'', ''a1'', 500)]"
  by code_simp

lemma day_three_reached: "(wallet_step sample_relay rb_log)\<^sup>*\<^sup>* day_zero day_three"
proof -
  have "wallet_step sample_relay rb_log day_zero day_one"
    unfolding day_one_def by (rule wallet_step.Deposit)
  moreover have "wallet_step sample_relay rb_log day_one day_two"
    unfolding day_two_def by (rule wallet_step.Poll) (simp add: sample_poll_def)
  moreover have "rb_log (pl_kafka day_two) \<noteq> [] \<and> km_Topic (hd (rb_log (pl_kafka day_two))) = WalletEventsTopic"
    by code_simp
  then have "wallet_step sample_relay rb_log day_two day_three"
    unfolding day_three_def
    using wallet_step.Deliver [of "hd (rb_log (pl_kafka day_two))" rb_log day_two sample_relay "healthy 11"]
    by (simp add: sample_relay_def)
  ultimately show ?thesis by simp
qed

lemma day_zero_fresh: "fresh_start WalletEventsTopic rb_log day_zero"
  by (simp add: fresh_start_def day_zero_def fixture_defs schema_ok_def users_ok_def accounts_ok_def
      account_row_ok_def transactions_ok_def user_auth_ok_def outbox_ok_def fits_signed_def)

lemma sample_relay_writer [simp]:
  "mk_writer (pr_messaging (or_publisher sample_relay)) = Some kafka_ref"
  "pr_topic (or_publisher sample_relay) = WalletEventsTopic"
  by (simp_all add: sample_relay_def)

lemma day_three_row: "\<exists>t \<in> set (transactions (db_of day_three)). tm_ID t = ''t1'' \<and> tm_Amount t = 500"
  using day_three_books by (auto simp: entry_of_def)

theorem ledger_is_requested_witness:
  "\<exists>t \<in> set (transactions (db_of day_three)). tm_Amount t = 500 \<and>
     (\<exists>r \<in> set (outbox_of day_three). \<exists>rq. om_AggregateId r = ''t1'' \<and> request_of (batch_model r) = Some rq \<and>
        snd (snd (snd (snd (req_entry rq)))) = 500)"
  using day_three_row
    ledger_is_requested [OF kref.kafka_laws_axioms sample_relay_writer(1) _ day_three_reached] day_zero_fresh
  by (fastforce simp del: split_paired_Ex)

lemma day_three_account: "\<exists>a \<in> set (accounts (db_of day_three)). am_ID a = ''a1'' \<and> am_Balance a = 500"
  by code_simp

theorem balance_within_requests_witness:
  "\<exists>a \<in> set (accounts (db_of day_three)). am_Balance a = 500 \<and>
     500 \<le> sum_list (map (requested_credit ''a1'') (outbox_of day_three))"
  using balance_within_requests [OF kref.kafka_laws_axioms sample_relay_writer(1) _ day_three_reached]
    day_zero_fresh day_three_account by fastforce

theorem reachable_well_formed_witness:
  "schema_ok (db_of day_three) \<and> published_logged WalletEventsTopic (rb_log (pl_kafka day_three)) (outbox_of day_three)"
  using reachable_well_formed [OF kref.kafka_laws_axioms sample_relay_writer(1) _ day_three_reached]
    day_zero_fresh by simp

section \<open>The consumer loop refines the steps\<close>

locale delivery_laws = broker_laws W log rd pos committed
  for W :: "'k kafka_writer" and log :: "'k \<Rightarrow> kmessage list" and rd :: "'k kafka_reader"
    and pos :: "'k \<Rightarrow> nat \<Rightarrow> nat" and committed :: "'k \<Rightarrow> nat \<Rightarrow> nat" +
  fixes topic :: string
  assumes fetch_logged: "rd_FetchMessage rd b = (Inr (at, m), b') \<Longrightarrow> m \<in> set (log b) \<and> km_Topic m = topic"
begin

lemma offsets_step:
  assumes "log k = log b"
  shows "wallet_step o' log \<lparr>pl_world = w, pl_kafka = b\<rparr> \<lparr>pl_world = w, pl_kafka = k\<rparr>"
  using wallet_step.Offsets [of log k "\<lparr>pl_world = w, pl_kafka = b\<rparr>" o'] assms by simp

lemma deliver_step:
  assumes "m \<in> set (log b)" and "km_Topic m = pr_topic (or_publisher o')"
    and "dispatch (consumer_handler (wallet_dispatcher (or_redis o') e)) m w = (r, w')"
  shows "wallet_step o' log \<lparr>pl_world = w, pl_kafka = b\<rparr> \<lparr>pl_world = w', pl_kafka = b\<rparr>"
  using wallet_step.Deliver [of m log "\<lparr>pl_world = w, pl_kafka = b\<rparr>" o' e] assms
  by (auto simp: dispatch_def consumer_handler_def on_world_eq split: prod.splits)

lemma dead_letter_step:
  assumes "AppendToDlq (pr_messaging (or_publisher o')) (pr_topic (or_publisher o')) key v reason b = (r, b')"
  shows "wallet_step o' log \<lparr>pl_world = w, pl_kafka = b\<rparr> \<lparr>pl_world = w, pl_kafka = b'\<rparr>"
  using wallet_step.DeadLetter [of o' log "\<lparr>pl_world = w, pl_kafka = b\<rparr>" key v reason] assms
  by (simp add: on_kafka_eq)

lemma consume_turn_steps:
  assumes t: "pr_topic (or_publisher o') = topic"
    and turn: "consume_turn (pr_messaging (or_publisher o')) rd topic
      (consumer_handler (wallet_dispatcher (or_redis o') e)) d c = Some c'"
  shows "(wallet_step o' log)\<^sup>*\<^sup>* \<lparr>pl_world = cs_app c, pl_kafka = cs_kafka c\<rparr>
    \<lparr>pl_world = cs_app c', pl_kafka = cs_kafka c'\<rparr>"
proof (cases "rd_FetchMessage rd (cs_kafka c)")
  case (Pair res b)
  show ?thesis
  proof (cases res)
    case (Inl err)
    then have "cs_app c' = cs_app c" "cs_kafka c' = b"
      using turn Pair by (auto simp: consume_turn_def Let_def split: if_splits)
    then show ?thesis using offsets_step [of b "cs_kafka c" o' "cs_app c"] fetch_err [OF Pair [unfolded Inl]] by auto
  next
    case (Inr om)
    obtain q n m where om: "om = ((q, n), m)" by (metis surj_pair)
    note fetch = Pair [unfolded Inr om]
    obtain r w1 where d: "dispatch (consumer_handler (wallet_dispatcher (or_redis o') e)) m (cs_app c) = (r, w1)"
      by fastforce
    have same: "log b = log (cs_kafka c)" using fetch_ok [OF fetch] by simp
    have m: "m \<in> set (log b)" "km_Topic m = pr_topic (or_publisher o')"
      using fetch_logged [OF fetch] same t by auto
    let ?p = "\<lparr>pl_world = cs_app c, pl_kafka = cs_kafka c\<rparr>"
    have run: "(wallet_step o' log)\<^sup>*\<^sup>* ?p \<lparr>pl_world = w1, pl_kafka = b\<rparr>"
      using offsets_step [OF same, of o' "cs_app c"] deliver_step [OF m d] by (meson converse_rtranclp_into_rtranclp r_into_rtranclp)
    have commit: "wallet_step o' log \<lparr>pl_world = w1, pl_kafka = k\<rparr> \<lparr>pl_world = w1, pl_kafka = snd (rd_CommitMessages rd (q, n) k)\<rparr>" for k
      using commit_keeps [of "(q, n)" k] by (intro offsets_step) simp
    consider (keep) "cs_app c' = w1" "cs_kafka c' = b"
      | (ack) "cs_app c' = w1" "cs_kafka c' = snd (rd_CommitMessages rd (q, n) b)"
      | (dlq) reason x b' where "AppendToDlq (pr_messaging (or_publisher o')) topic (km_Key m) (km_Value m) reason b = (x, b')"
          "cs_app c' = w1" "cs_kafka c' = b' \<or> cs_kafka c' = snd (rd_CommitMessages rd (q, n) b')"
      using turn fetch d by (auto simp: consume_turn_def Let_def split: sum.splits prod.splits if_splits)
    then show ?thesis
    proof cases
      case keep
      then show ?thesis using run by simp
    next
      case ack
      then show ?thesis using run commit [of b] by (metis rtranclp.rtrancl_into_rtrancl)
    next
      case (dlq reason x b')
      have "(wallet_step o' log)\<^sup>*\<^sup>* ?p \<lparr>pl_world = w1, pl_kafka = b'\<rparr>"
        using run dead_letter_step [of o' "km_Key m" "km_Value m" reason b x b'] dlq(1) t
        by (metis rtranclp.rtrancl_into_rtrancl)
      then show ?thesis using dlq(2,3) commit [of b'] by (metis rtranclp.rtrancl_into_rtrancl)
    qed
  qed
qed

end

text \<open>A reference cluster: one log, three partitions chosen by the key, as the script that creates the topic
  does, and a reader that gives the next message of the first partition that has one.\<close>

record topic_cluster =
  tc_log :: "kmessage list"
  tc_pos :: "nat \<Rightarrow> nat"
  tc_committed :: "nat \<Rightarrow> nat"

definition topic_writer :: "topic_cluster kafka_writer" where
  "topic_writer m b = (Inr (), b\<lparr>tc_log := tc_log b @ [m]\<rparr>)"

definition topic_partition :: "nat \<Rightarrow> kmessage list \<Rightarrow> kmessage list" where
  "topic_partition q ms = filter (\<lambda>m. km_Topic m = WalletEventsTopic \<and> length (km_Key m) mod 3 = q) ms"

definition topic_fetch :: "(topic_cluster, place \<times> kmessage) operation" where
  "topic_fetch b =
     (case List.find (\<lambda>q. tc_pos b q < length (topic_partition q (tc_log b))) [0, 1, 2] of
        None \<Rightarrow> (Inl (Sentinel ''no message''), b)
      | Some q \<Rightarrow> (Inr ((q, tc_pos b q), topic_partition q (tc_log b) ! tc_pos b q),
                   b\<lparr>tc_pos := (tc_pos b)(q := tc_pos b q + 1)\<rparr>))"

definition topic_reader :: "topic_cluster kafka_reader" where
  "topic_reader = \<lparr>rd_FetchMessage = topic_fetch,
     rd_CommitMessages = (\<lambda>(q, off) b. (Inr (), b\<lparr>tc_committed := (tc_committed b)(q := off + 1)\<rparr>))\<rparr>"

lemma topic_reader_fetch:
  assumes "rd_FetchMessage topic_reader b = (Inr (at, m), b')"
  shows "m \<in> set (tc_log b) \<and> km_Topic m = WalletEventsTopic"
proof -
  obtain q where q: "tc_pos b q < length (topic_partition q (tc_log b))" "m = topic_partition q (tc_log b) ! tc_pos b q"
    using assms by (auto simp: topic_reader_def topic_fetch_def simp del: find.simps split: option.splits dest!: find_SomeD)
  then have "m \<in> set (topic_partition q (tc_log b))" using nth_mem by blast
  then show ?thesis by (simp add: topic_partition_def)
qed

interpretation tcl: delivery_laws topic_writer tc_log topic_reader tc_pos tc_committed WalletEventsTopic
proof unfold_locales
  fix b "at" m b'
  assume f: "rd_FetchMessage topic_reader b = (Inr (at, m), b')"
  show "m \<in> set (tc_log b) \<and> km_Topic m = WalletEventsTopic" by (rule topic_reader_fetch [OF f])
qed (auto simp: topic_writer_def topic_reader_def topic_fetch_def split: option.splits)

text \<open>C21. One turn of the consumer loop, whatever it fetches and whatever fails in it, is a
  sequence of steps of the application: it delivers a message of the topic, may put it on the
  dead-letter topic, and moves offsets. So what holds along the steps holds of the loop.\<close>

theorem consumer_refines_steps:
  assumes "delivery_laws W log rd pos committed (pr_topic (or_publisher o'))"
    and "consume_turn (pr_messaging (or_publisher o')) rd (pr_topic (or_publisher o'))
      (consumer_handler (wallet_dispatcher (or_redis o') e)) ctx_done c = Some c'"
  shows "(wallet_step o' log)\<^sup>*\<^sup>* \<lparr>pl_world = cs_app c, pl_kafka = cs_kafka c\<rparr>
    \<lparr>pl_world = cs_app c', pl_kafka = cs_kafka c'\<rparr>"
  by (rule delivery_laws.consume_turn_steps [OF assms(1) refl assms(2)])

definition cluster_relay :: "(ref_redis, topic_cluster) OutboxRelay" where
  "cluster_relay = \<lparr>or_redis = redis_ref,
     or_publisher = \<lparr>pr_messaging = \<lparr>mk_brokers = [''localhost:9092''], mk_groupID = ''wallet-service'',
         mk_writer = Some topic_writer\<rparr>, pr_topic = WalletEventsTopic\<rparr>,
     or_topic = WalletEventsTopic, or_batchSize = 100, or_osenv = (\<lambda>_. None)\<rparr>"

definition poisoned_consumer :: "(ref_redis world, topic_cluster) consumer" where
  "poisoned_consumer = consumer_start sample \<lparr>tc_log = [poison], tc_pos = (\<lambda>_. 0), tc_committed = (\<lambda>_. 0)\<rparr>"

theorem consumer_refines_steps_witness:
  "\<exists>c'. consume_turn (pr_messaging (or_publisher cluster_relay)) topic_reader WalletEventsTopic
      (consumer_handler (wallet_dispatcher redis_ref (healthy 5))) False poisoned_consumer = Some c' \<and>
    length (tc_log (cs_kafka c')) = 2 \<and>
    (wallet_step cluster_relay tc_log)\<^sup>*\<^sup>* \<lparr>pl_world = cs_app poisoned_consumer, pl_kafka = cs_kafka poisoned_consumer\<rparr>
      \<lparr>pl_world = cs_app c', pl_kafka = cs_kafka c'\<rparr>"
proof -
  let ?turn = "consume_turn (pr_messaging (or_publisher cluster_relay)) topic_reader WalletEventsTopic
      (consumer_handler (wallet_dispatcher redis_ref (healthy 5))) False poisoned_consumer"
  have "map_option (\<lambda>c. length (tc_log (cs_kafka c))) ?turn = Some 2" by code_simp
  then obtain c' where c: "?turn = Some c'" "length (tc_log (cs_kafka c')) = 2" by auto
  have r: "or_redis cluster_relay = redis_ref" "pr_topic (or_publisher cluster_relay) = WalletEventsTopic"
    by (simp_all add: cluster_relay_def)
  show ?thesis
    using consumer_refines_steps [of topic_writer tc_log topic_reader tc_pos tc_committed cluster_relay "healthy 5"
        False poisoned_consumer c'] tcl.delivery_laws_axioms c r by auto
qed

end
