(* ===== verification/HttpTypes.thy ===== *)
theory HttpTypes
  imports WalletGrpc AuthGrpc
begin

text \<open>
  The data of the gateway: \<^verbatim>\<open>api-gateway/internal/domain/domain.go\<close>, the request and response
  structs of \<^verbatim>\<open>api-gateway/internal/infra/http/http.go\<close> with their JSON keys, and
  \<^verbatim>\<open>api-gateway/internal/utils\<close>.

  A request is what \<^verbatim>\<open>net/http\<close> hands to a handler: the method, the cleaned path, the header
  by canonical name, the parsed query in order, and the first JSON value of the body (\<open>None\<close>
  when there is none or it is malformed). A handler replies, ends the process
  (\<^verbatim>\<open>log.Fatalf\<close>), or panics, in which case \<^verbatim>\<open>net/http\<close> drops the connection. As everywhere, an
  error text is its format literal.
\<close>

section \<open>HTTP\<close>

record http_request =
  hr_Method :: string
  hr_Path :: string
  hr_Header :: "string \<Rightarrow> string"
  hr_Query :: "(string \<times> string) list"
  hr_Body :: "json option"

datatype http_body = JsonBody json | TextBody string | NoBody

record http_response =
  hs_Status :: nat
  hs_ContentType :: "string option"
  hs_Body :: http_body

datatype http_reply = Reply http_response | ProcessExit | Panic

definition query_Get :: "(string \<times> string) list \<Rightarrow> string \<Rightarrow> string" where
  "query_Get q key = (case List.find (\<lambda>(k, v). k = key) q of None \<Rightarrow> [] | Some (k, v) \<Rightarrow> v)"

text \<open>\<^verbatim>\<open>json.NewEncoder(w).Encode\<close> writes nothing when a value cannot be encoded; the status is then
  the default 200.\<close>

definition write_json :: "string option \<Rightarrow> nat \<Rightarrow> json option \<Rightarrow> http_reply" where
  "write_json ctype status v =
     Reply \<lparr>hs_Status = status, hs_ContentType = ctype,
       hs_Body = (case v of None \<Rightarrow> NoBody | Some j \<Rightarrow> JsonBody j)\<rparr>"

abbreviation app_json :: "string option" where
  "app_json \<equiv> Some ''application/json''"

definition WriteError :: "nat \<Rightarrow> json \<Rightarrow> http_reply" where
  "WriteError status payload = write_json app_json status (Some payload)"

definition ErrorResponse :: "string \<Rightarrow> string \<Rightarrow> json" where
  "ErrorResponse err reason = JObj [(''Error'', JStr err), (''Reason'', JStr reason)]"

definition ConvertStringToInt :: "string \<Rightarrow> nat \<Rightarrow> int \<times> error option" where
  "ConvertStringToInt s bitSize =
     (case ParseInt bitSize s of
        (converted, Some err) \<Rightarrow> (0, Some err)
      | (converted, None) \<Rightarrow> (converted, None))"

section \<open>Domain\<close>

record Gw_Transaction =
  gt_ID :: string
  gt_FromAccount :: string
  gt_ToAccount :: string
  gt_Amount :: int
  gt_Currency :: string
  gt_Status :: string
  gt_CreatedAt :: time
  gt_UpdatedAt :: time

record Gw_Account =
  ga_ID :: string
  ga_Balance :: int
  ga_Currency :: string
  ga_OwnerUser :: string
  ga_Transactions :: "Gw_Transaction list"
  ga_CreatedAt :: time
  ga_UpdatedAt :: time

record Gw_User =
  gu_ID :: string
  gu_Name :: string
  gu_Username :: string
  gu_Email :: string
  gu_Password :: string
  gu_CreatedAt :: time
  gu_UpdatedAt :: time

record Gw_UserAuth =
  gx_ID :: string
  gx_AccessToken :: string
  gx_UserId :: string
  gx_IsCurrentlyLoggedIn :: bool
  gx_CreatedAt :: time
  gx_UpdatedAt :: time

record Gw_ListTransactionsResponse =
  gl_Transactions :: "Gw_Transaction list"
  gl_NextPageToken :: string

record Gw_Balance =
  gb_AccountID :: string
  gb_Balance :: int
  gb_Currency :: string

definition Gw_User_zero :: Gw_User where
  "Gw_User_zero = \<lparr>gu_ID = [], gu_Name = [], gu_Username = [], gu_Email = [], gu_Password = [],
     gu_CreatedAt = zero_time, gu_UpdatedAt = zero_time\<rparr>"

definition Gw_UserAuth_zero :: Gw_UserAuth where
  "Gw_UserAuth_zero = \<lparr>gx_ID = [], gx_AccessToken = [], gx_UserId = [], gx_IsCurrentlyLoggedIn = False,
     gx_CreatedAt = zero_time, gx_UpdatedAt = zero_time\<rparr>"

definition Gw_Account_zero :: Gw_Account where
  "Gw_Account_zero = \<lparr>ga_ID = [], ga_Balance = 0, ga_Currency = [], ga_OwnerUser = [],
     ga_Transactions = [], ga_CreatedAt = zero_time, ga_UpdatedAt = zero_time\<rparr>"

definition ErrCurrencyRequired :: error where
  "ErrCurrencyRequired = Sentinel ''currency is required''"

definition ErrOwnerUserRequired :: error where
  "ErrOwnerUserRequired = Sentinel ''owner user is required''"

definition ValidateAccount :: "Gw_Account \<Rightarrow> error option" where
  "ValidateAccount account =
     (if ga_Currency account = [] then Some ErrCurrencyRequired
      else if ga_OwnerUser account = [] then Some ErrOwnerUserRequired
      else None)"

section \<open>Decoding bodies\<close>

definition and_then :: "'a result \<Rightarrow> ('a \<Rightarrow> 'b result) \<Rightarrow> 'b result" where
  "and_then x f = (case x of Inl err \<Rightarrow> Inl err | Inr a \<Rightarrow> f a)"

lemma and_then_simps [simp]: "and_then (Inr a) f = f a" "and_then (Inl err) f = Inl err"
  by (simp_all add: and_then_def)

lemma and_then_Inr: "and_then x f = Inr b \<longleftrightarrow> (\<exists>a. x = Inr a \<and> f a = Inr b)"
  by (cases x) simp_all

definition decode_object :: "((string \<times> json) list \<Rightarrow> 'a result) \<Rightarrow> json option \<Rightarrow> 'a result" where
  "decode_object f body =
     (case body of
        Some (JObj kvs) \<Rightarrow> f kvs
      | Some JNull \<Rightarrow> f []
      | _ \<Rightarrow> Inl json_error)"

fun decode_time :: "string \<Rightarrow> time \<Rightarrow> (string \<times> json) list \<Rightarrow> time result" where
  "decode_time name acc [] = Inr acc"
| "decode_time name acc ((k, v) # kvs) =
     (if fold_eq k name then
        (case v of
           JTime t \<Rightarrow> decode_time name t kvs
         | JNull \<Rightarrow> decode_time name acc kvs
         | _ \<Rightarrow> Inl json_error)
      else decode_time name acc kvs)"

fun decode_all :: "(json \<Rightarrow> 'a result) \<Rightarrow> json list \<Rightarrow> 'a list result" where
  "decode_all f [] = Inr []"
| "decode_all f (j # js) = and_then (f j) (\<lambda>x. and_then (decode_all f js) (\<lambda>xs. Inr (x # xs)))"

fun decode_slice :: "(json \<Rightarrow> 'a result) \<Rightarrow> string \<Rightarrow> 'a list \<Rightarrow> (string \<times> json) list \<Rightarrow> 'a list result" where
  "decode_slice f name acc [] = Inr acc"
| "decode_slice f name acc ((k, v) # kvs) =
     (if fold_eq k name then
        (case v of
           JArr js \<Rightarrow> and_then (decode_all f js) (\<lambda>xs. decode_slice f name xs kvs)
         | JNull \<Rightarrow> decode_slice f name [] kvs
         | _ \<Rightarrow> Inl json_error)
      else decode_slice f name acc kvs)"

definition decode_Transaction :: "(string \<times> json) list \<Rightarrow> Gw_Transaction result" where
  "decode_Transaction kvs =
     and_then (decode_string ''id'' [] kvs) (\<lambda>i.
     and_then (decode_string ''from_account'' [] kvs) (\<lambda>f.
     and_then (decode_string ''to_account'' [] kvs) (\<lambda>t.
     and_then (decode_int64 ''amount'' 0 kvs) (\<lambda>a.
     and_then (decode_string ''currency'' [] kvs) (\<lambda>c.
     and_then (decode_string ''status'' [] kvs) (\<lambda>s.
     and_then (decode_time ''created_at'' zero_time kvs) (\<lambda>ca.
     and_then (decode_time ''updated_at'' zero_time kvs) (\<lambda>ua.
       Inr \<lparr>gt_ID = i, gt_FromAccount = f, gt_ToAccount = t, gt_Amount = a, gt_Currency = c,
            gt_Status = s, gt_CreatedAt = ca, gt_UpdatedAt = ua\<rparr>))))))))"

definition decode_Account :: "(string \<times> json) list \<Rightarrow> Gw_Account result" where
  "decode_Account kvs =
     and_then (decode_string ''id'' [] kvs) (\<lambda>i.
     and_then (decode_int64 ''balance'' 0 kvs) (\<lambda>b.
     and_then (decode_string ''currency'' [] kvs) (\<lambda>c.
     and_then (decode_string ''owner_user'' [] kvs) (\<lambda>u.
     and_then (decode_slice (\<lambda>j. decode_object decode_Transaction (Some j)) ''transactions'' [] kvs) (\<lambda>ts.
     and_then (decode_time ''created_at'' zero_time kvs) (\<lambda>ca.
     and_then (decode_time ''updated_at'' zero_time kvs) (\<lambda>ua.
       Inr \<lparr>ga_ID = i, ga_Balance = b, ga_Currency = c, ga_OwnerUser = u, ga_Transactions = ts,
            ga_CreatedAt = ca, ga_UpdatedAt = ua\<rparr>)))))))"

record CreateUserRequest =
  cu_Name :: string
  cu_Username :: string
  cu_Email :: string
  cu_Password :: string

definition decode_CreateUserRequest :: "(string \<times> json) list \<Rightarrow> CreateUserRequest result" where
  "decode_CreateUserRequest kvs =
     and_then (decode_string ''name'' [] kvs) (\<lambda>n.
     and_then (decode_string ''username'' [] kvs) (\<lambda>u.
     and_then (decode_string ''email'' [] kvs) (\<lambda>e.
     and_then (decode_string ''password'' [] kvs) (\<lambda>p.
       Inr \<lparr>cu_Name = n, cu_Username = u, cu_Email = e, cu_Password = p\<rparr>))))"

record LoginUserRequest =
  lu_Email :: string
  lu_Username :: string
  lu_Password :: string

definition decode_LoginUserRequest :: "(string \<times> json) list \<Rightarrow> LoginUserRequest result" where
  "decode_LoginUserRequest kvs =
     and_then (decode_string ''email'' [] kvs) (\<lambda>e.
     and_then (decode_string ''username'' [] kvs) (\<lambda>u.
     and_then (decode_string ''password'' [] kvs) (\<lambda>p.
       Inr \<lparr>lu_Email = e, lu_Username = u, lu_Password = p\<rparr>)))"

record RefreshTokenRequest =
  rt_RefreshToken :: string

definition decode_RefreshTokenRequest :: "(string \<times> json) list \<Rightarrow> RefreshTokenRequest result" where
  "decode_RefreshTokenRequest kvs =
     and_then (decode_string ''refresh_token'' [] kvs) (\<lambda>t. Inr \<lparr>rt_RefreshToken = t\<rparr>)"

record UpdateAccountRequest =
  up_AccountID :: string
  up_OwnerAccountId :: string

definition decode_UpdateAccountRequest :: "(string \<times> json) list \<Rightarrow> UpdateAccountRequest result" where
  "decode_UpdateAccountRequest kvs =
     and_then (decode_string ''account_id'' [] kvs) (\<lambda>a.
     and_then (decode_string ''owner_account_id'' [] kvs) (\<lambda>u.
       Inr \<lparr>up_AccountID = a, up_OwnerAccountId = u\<rparr>))"

record TransferFundsRequest =
  tf_FromAccountID :: string
  tf_ToAccountID :: string
  tf_Currency :: string
  tf_Amount :: int

definition decode_TransferFundsRequest :: "(string \<times> json) list \<Rightarrow> TransferFundsRequest result" where
  "decode_TransferFundsRequest kvs =
     and_then (decode_string ''from_account_id'' [] kvs) (\<lambda>f.
     and_then (decode_string ''to_account_id'' [] kvs) (\<lambda>t.
     and_then (decode_string ''currency'' [] kvs) (\<lambda>c.
     and_then (decode_int64 ''amount'' 0 kvs) (\<lambda>a.
       Inr \<lparr>tf_FromAccountID = f, tf_ToAccountID = t, tf_Currency = c, tf_Amount = a\<rparr>))))"

record DepositFundsRequest =
  df_AccountID :: string
  df_Currency :: string
  df_Amount :: int

definition decode_DepositFundsRequest :: "(string \<times> json) list \<Rightarrow> DepositFundsRequest result" where
  "decode_DepositFundsRequest kvs =
     and_then (decode_string ''account_id'' [] kvs) (\<lambda>i.
     and_then (decode_string ''currency'' [] kvs) (\<lambda>c.
     and_then (decode_int64 ''amount'' 0 kvs) (\<lambda>a.
       Inr \<lparr>df_AccountID = i, df_Currency = c, df_Amount = a\<rparr>)))"

record WithdrawFundsRequest =
  wf_AccountID :: string
  wf_Amount :: int

definition decode_WithdrawFundsRequest :: "(string \<times> json) list \<Rightarrow> WithdrawFundsRequest result" where
  "decode_WithdrawFundsRequest kvs =
     and_then (decode_string ''account_id'' [] kvs) (\<lambda>i.
     and_then (decode_int64 ''amount'' 0 kvs) (\<lambda>a. Inr \<lparr>wf_AccountID = i, wf_Amount = a\<rparr>))"

section \<open>Encoding responses\<close>

definition encode_AuthenticateUserResponse :: "string \<Rightarrow> string \<Rightarrow> json" where
  "encode_AuthenticateUserResponse status accessToken =
     JObj [(''status'', JStr status), (''acccess_token'', JStr accessToken)]"

definition encode_RefreshTokenResponse :: "string \<Rightarrow> json" where
  "encode_RefreshTokenResponse token = JObj [(''token'', JStr token)]"

definition encode_CreateAccountResponse :: "string \<Rightarrow> string \<Rightarrow> int \<Rightarrow> string \<Rightarrow> json" where
  "encode_CreateAccountResponse status accountID balance currency =
     JObj [(''status'', JStr status), (''account_id'', JStr accountID), (''balance'', JInt balance),
       (''currency'', JStr currency)]"

definition encode_UpdateAccountResponse :: "string \<Rightarrow> json" where
  "encode_UpdateAccountResponse status = JObj [(''status'', JStr status)]"

definition encode_Transaction :: "Gw_Transaction \<Rightarrow> json option" where
  "encode_Transaction t =
     (case (marshal_time (gt_CreatedAt t), marshal_time (gt_UpdatedAt t)) of
        (Some ca, Some ua) \<Rightarrow>
          Some (JObj [(''id'', JStr (gt_ID t)), (''from_account'', JStr (gt_FromAccount t)),
            (''to_account'', JStr (gt_ToAccount t)), (''amount'', JInt (gt_Amount t)),
            (''currency'', JStr (gt_Currency t)), (''status'', JStr (gt_Status t)),
            (''created_at'', ca), (''updated_at'', ua)])
      | _ \<Rightarrow> None)"

text \<open>\<^verbatim>\<open>TransferFundsResponse\<close>, \<^verbatim>\<open>DepositFundsResponse\<close> and \<^verbatim>\<open>WithdrawFundsResponse\<close>.\<close>

definition encode_FundsResponse :: "Gw_Transaction \<Rightarrow> json option" where
  "encode_FundsResponse t = map_option (\<lambda>j. JObj [(''transaction'', j)]) (encode_Transaction t)"

definition encode_GetBalanceResponse :: "string \<Rightarrow> int \<Rightarrow> string \<Rightarrow> json" where
  "encode_GetBalanceResponse accountID balance currency =
     JObj [(''account_id'', JStr accountID), (''balance'', JInt balance), (''currency'', JStr currency)]"

definition encode_ListTransactionsResponse :: "Gw_Transaction list \<Rightarrow> string \<Rightarrow> json option" where
  "encode_ListTransactionsResponse ts nextPage =
     (if list_all (\<lambda>t. encode_Transaction t \<noteq> None) ts
      then Some (JObj [(''transactions'', JArr (map (\<lambda>t. the (encode_Transaction t)) ts)),
             (''next_page'', JStr nextPage)])
      else None)"

end
