(* ===== verification/GatewayServices.thy ===== *)
theory GatewayServices
  imports HttpTypes
begin

text \<open>
  \<^verbatim>\<open>api-gateway/internal/mapping/mapper.go\<close> and \<^verbatim>\<open>api-gateway/internal/services\<close>: the gateway calls the
  auth and the wallet service over gRPC. A remote call runs the handler of the service on the
  shared world; the network may lose the request, or the reply after the handler ran
  (\<open>gw_rpc\<close>). An error of a handler arrives as a gRPC status.
\<close>

section \<open>Mappers\<close>

definition Gw_ToRegisterUserProto :: "Gw_User option \<Rightarrow> pb_RegisterUserRequest option" where
  "Gw_ToRegisterUserProto user =
     map_option (\<lambda>u. \<lparr>pg_Name = gu_Name u, pg_Username = gu_Username u, pg_Email = gu_Email u,
       pg_Password = gu_Password u, pg_Id = gu_ID u\<rparr>) user"

definition Gw_ToRegisterUserAuthDomain :: "pb_AuthResponse option \<Rightarrow> Gw_UserAuth option" where
  "Gw_ToRegisterUserAuthDomain resp =
     map_option (\<lambda>r. Gw_UserAuth_zero\<lparr>gx_ID := pg_RespId r, gx_AccessToken := pg_AccessToken r\<rparr>) resp"

definition Gw_ToLoginUserProto :: "Gw_User option \<Rightarrow> pb_LoginUserRequest option" where
  "Gw_ToLoginUserProto user =
     map_option (\<lambda>u. \<lparr>pn_Username = gu_Username u, pn_Password = gu_Password u\<rparr>) user"

definition Gw_ToLoginUserDomain :: "pb_AuthResponse option \<Rightarrow> Gw_UserAuth option" where
  "Gw_ToLoginUserDomain resp =
     map_option (\<lambda>r. Gw_UserAuth_zero\<lparr>gx_ID := pg_RespId r, gx_AccessToken := pg_AccessToken r\<rparr>) resp"

record pb_CreateAccountRequest =
  pc_OwnerUser :: string
  pc_Currency :: string

definition Gw_ToCreateAccountProto :: "Gw_Account option \<Rightarrow> pb_CreateAccountRequest option" where
  "Gw_ToCreateAccountProto account =
     map_option (\<lambda>a. \<lparr>pc_OwnerUser = ga_OwnerUser a, pc_Currency = ga_Currency a\<rparr>) account"

definition Gw_ToAccountDomain :: "pb_Account option \<Rightarrow> Gw_Account option" where
  "Gw_ToAccountDomain a =
     map_option (\<lambda>a.
       (let account = Gw_Account_zero\<lparr>ga_ID := pa_Id a, ga_Balance := pa_Balance a,
              ga_Currency := pa_Currency a, ga_OwnerUser := pa_OwnerUser a\<rparr>
        in case pa_CreatedAt a of None \<Rightarrow> account | Some t \<Rightarrow> account\<lparr>ga_CreatedAt := t\<rparr>)) a"

definition Gw_ToTransactionDomain :: "pb_Transaction option \<Rightarrow> Gw_Transaction option" where
  "Gw_ToTransactionDomain t =
     map_option (\<lambda>t.
       \<lparr>gt_ID = pt_Id t, gt_FromAccount = pt_FromAccount t, gt_ToAccount = pt_ToAccount t,
        gt_Amount = pt_Amount t, gt_Currency = pt_Currency t, gt_Status = pt_Status t,
        gt_CreatedAt = (case pt_CreatedAt t of None \<Rightarrow> zero_time | Some c \<Rightarrow> c),
        gt_UpdatedAt = (case pt_UpdatedAt t of None \<Rightarrow> zero_time | Some u \<Rightarrow> u)\<rparr>) t"

definition Gw_ToDepositFundsProto :: "string \<Rightarrow> string \<Rightarrow> string \<Rightarrow> int \<Rightarrow> pb_DepositRequest" where
  "Gw_ToDepositFundsProto userId accountID currency amount =
     \<lparr>pd_AccountId = accountID, pd_Amount = amount, pd_UserId = userId, pd_Currency = currency\<rparr>"

definition Gw_ToWithdrawFundsProto :: "string \<Rightarrow> string \<Rightarrow> int \<Rightarrow> string \<Rightarrow> pb_WithdrawRequest" where
  "Gw_ToWithdrawFundsProto userId accountID amount idemKey =
     \<lparr>pw_AccountId = accountID, pw_Amount = amount, pw_TransactionId = idemKey, pw_UserId = userId\<rparr>"

definition Gw_ToTransferFundsProto :: "string \<Rightarrow> string \<Rightarrow> string \<Rightarrow> string \<Rightarrow> int \<Rightarrow> string \<Rightarrow>
    pb_TransferRequest" where
  "Gw_ToTransferFundsProto userId fromAccountID toAccountID currency amount idemKey =
     \<lparr>px_FromAccountId = fromAccountID, px_ToAccountId = toAccountID, px_Currency = currency,
      px_Amount = amount, px_IdempotencyKey = idemKey, px_UserId = userId\<rparr>"

record pb_GetBalanceRequest =
  pq_AccountId :: string
  pq_UserId :: string

definition Gw_ToGetBalanceProto :: "string \<Rightarrow> string \<Rightarrow> pb_GetBalanceRequest" where
  "Gw_ToGetBalanceProto userId accountID = \<lparr>pq_AccountId = accountID, pq_UserId = userId\<rparr>"

definition Gw_ToListTransactionsProto :: "string \<Rightarrow> int \<Rightarrow> int \<Rightarrow> pb_ListTransactionsRequest" where
  "Gw_ToListTransactionsProto accountID page pageSize =
     \<lparr>pl_AccountId = accountID, pl_PageSize = to_int32 pageSize, pl_Page = Itoa page\<rparr>"

definition Gw_ToListTransactionsDomain :: "pb_ListTransactionsResponse option \<Rightarrow>
    Gw_ListTransactionsResponse option" where
  "Gw_ToListTransactionsDomain resp =
     map_option (\<lambda>r. \<lparr>gl_Transactions = List.map_filter Gw_ToTransactionDomain (pls_Transactions r),
       gl_NextPageToken = pls_NextPageToken r\<rparr>) resp"

section \<open>The gateway's environment\<close>

text \<open>The libraries and the process environment of the gateway, the two services behind it, and
  what happens during one request: the clock, the network, the identifiers that are made and the
  environment of the database.\<close>

record ('r, 'k) gateway =
  gw_jwt :: jwt_lib
  gw_os :: os_env
  gw_auth :: "'r auth_env"
  gw_relay :: "('r, 'k) OutboxRelay"
  gw_now :: time
  gw_rpc :: io
  gw_uuid :: string
  gw_newId :: string
  gw_oid :: string
  gw_db :: db_env

definition grpc_status :: error where
  "grpc_status = errorf ''rpc error: code = %s desc = %s''"

definition rpc :: "('r, 'k) gateway \<Rightarrow> ('s, 'a) operation \<Rightarrow> ('s, 'a) operation" where
  "rpc g handler s =
     (case autocommit (gw_rpc g) handler s of
        (Inl err, s) \<Rightarrow> (Inl grpc_status, s)
      | (Inr x, s) \<Rightarrow> (Inr x, s))"

section \<open>Services\<close>

definition Gw_CreateAccount :: "('r, 'k) gateway \<Rightarrow> Gw_Account \<Rightarrow> ('r world, Gw_Account) operation" where
  "Gw_CreateAccount g account w =
     (case Gw_ToCreateAccountProto (Some account) of
        None \<Rightarrow> (Inl (errorf ''nil pointer''), w)
      | Some req \<Rightarrow>
          (case rpc g (on_db (Grpc_CreateAccount (gw_db g) (gw_newId g) (pc_OwnerUser req) (pc_Currency req))) w of
             (Inl err, w) \<Rightarrow> (Inl (wrapf ''failed to create account for user %s: %w'' err), w)
           | (Inr resp, w) \<Rightarrow>
               (case Gw_ToAccountDomain resp of
                  None \<Rightarrow> (Inr account, w)
                | Some created \<Rightarrow> (Inr created, w))))"

definition Gw_UpdateAccount :: "Gw_Account \<Rightarrow> unit result" where
  "Gw_UpdateAccount account = Inr ()"

text \<open>\<^verbatim>\<open>RegisterUser\<close> checks the credentials only after the remote call was made.\<close>

definition Gw_RegisterUser :: "('r, 'k) gateway \<Rightarrow> Gw_User \<Rightarrow> ('r world, Gw_UserAuth option) operation" where
  "Gw_RegisterUser g user w =
     (case Gw_ToRegisterUserProto (Some user) of
        None \<Rightarrow> (Inl (errorf ''nil pointer''), w)
      | Some req \<Rightarrow>
          (let (resp, w) = rpc g (Grpc_RegisterUser (gw_auth g) (gw_newId g) req) w in
           if gu_Username user = [] \<or> gu_Password user = [] then (Inl (errorf ''Invalid credentials''), w)
           else if length (gu_Password user) < 6
           then (Inl (errorf ''Provided password is too short - %s''), w)
           else case resp of
             Inl err \<Rightarrow> (Inl err, w)
           | Inr registeredUser \<Rightarrow> (Inr (Gw_ToRegisterUserAuthDomain registeredUser), w)))"

definition Gw_LoginUser :: "('r, 'k) gateway \<Rightarrow> Gw_User \<Rightarrow> ('r world, Gw_UserAuth option) operation" where
  "Gw_LoginUser g user w =
     (case Gw_ToLoginUserProto (Some user) of
        None \<Rightarrow> (Inl (errorf ''nil pointer''), w)
      | Some req \<Rightarrow>
          (if gu_Username user = [] \<or> gu_Password user = [] then (Inl (errorf ''Invalid credentials''), w)
           else if length (gu_Password user) < 6 then (Inl (errorf ''Invalid Credentials''), w)
           else case rpc g (Grpc_LoginUser (gw_auth g) (gw_newId g) req) w of
             (Inl err, w) \<Rightarrow> (Inl err, w)
           | (Inr loggedInUser, w) \<Rightarrow> (Inr (Gw_ToLoginUserDomain loggedInUser), w)))"

definition Gw_RefreshToken :: "string \<Rightarrow> string result" where
  "Gw_RefreshToken refreshToken = Inl (errorf ''Something has gone terribly wrong'')"

text \<open>The wallet calls dereference the transaction of the response when they log it: a missing one
  is a panic, here \<open>Inr None\<close>.\<close>

definition Gw_TransferFunds :: "('r, 'k) gateway \<Rightarrow> string \<Rightarrow> string \<Rightarrow> string \<Rightarrow> string \<Rightarrow> int \<Rightarrow>
    ('r world, Gw_Transaction option) operation" where
  "Gw_TransferFunds g userId fromAccountID toAccountID currency amount w =
     (let idemKey = gw_uuid g;
          req = Gw_ToTransferFundsProto userId fromAccountID toAccountID currency amount idemKey
      in case rpc g (Grpc_Transfer (gw_relay g) (gw_db g) (gw_oid g) (gw_newId g) req) w of
           (Inl err, w) \<Rightarrow> (Inl err, w)
         | (Inr resp, w) \<Rightarrow> (Inr (Gw_ToTransactionDomain resp), w))"

definition TransferFundsWithEmailNotification :: "string \<Rightarrow> string \<Rightarrow> string \<Rightarrow> int \<Rightarrow> unit result" where
  "TransferFundsWithEmailNotification fromEmail toEmail currency amount = Inr ()"

definition Gw_DepositFunds :: "('r, 'k) gateway \<Rightarrow> string \<Rightarrow> string \<Rightarrow> string \<Rightarrow> int \<Rightarrow>
    ('r world, Gw_Transaction option) operation" where
  "Gw_DepositFunds g userId accountID currency amount w =
     (let req = Gw_ToDepositFundsProto userId accountID currency amount
      in case rpc g (Grpc_Deposit (gw_relay g) (gw_db g) (gw_oid g) (gw_newId g) req) w of
           (Inl err, w) \<Rightarrow> (Inl err, w)
         | (Inr resp, w) \<Rightarrow> (Inr (Gw_ToTransactionDomain resp), w))"

definition Gw_WithdrawFunds :: "('r, 'k) gateway \<Rightarrow> string \<Rightarrow> string \<Rightarrow> int \<Rightarrow>
    ('r world, Gw_Transaction option) operation" where
  "Gw_WithdrawFunds g userId accountID amount w =
     (let transactionId = gw_uuid g;
          req = Gw_ToWithdrawFundsProto userId accountID amount transactionId
      in case rpc g (Grpc_Withdraw (gw_relay g) (gw_db g) (gw_oid g) (gw_newId g) req) w of
           (Inl err, w) \<Rightarrow> (Inl err, w)
         | (Inr resp, w) \<Rightarrow> (Inr (Gw_ToTransactionDomain resp), w))"

definition Gw_GetBalance :: "('r, 'k) gateway \<Rightarrow> string \<Rightarrow> string \<Rightarrow> ('r world, Gw_Balance) operation" where
  "Gw_GetBalance g userId accountID w =
     (let req = Gw_ToGetBalanceProto userId accountID
      in case rpc g (Grpc_GetBalance (or_redis (gw_relay g)) (or_osenv (gw_relay g)) (gw_db g)
                (pq_UserId req) (pq_AccountId req)) w of
           (Inl err, w) \<Rightarrow> (Inl err, w)
         | (Inr (balance, currency), w) \<Rightarrow>
             (Inr \<lparr>gb_AccountID = accountID, gb_Balance = balance, gb_Currency = currency\<rparr>, w))"

definition Gw_ListTransactions :: "('r, 'k) gateway \<Rightarrow> string \<Rightarrow> int \<Rightarrow> int \<Rightarrow>
    ('r world, Gw_ListTransactionsResponse option) operation" where
  "Gw_ListTransactions g accountID page pageSize w =
     (let req = Gw_ToListTransactionsProto accountID page pageSize
      in case rpc g (on_db (Grpc_ListTransactions (gw_db g) req)) w of
           (Inl err, w) \<Rightarrow> (Inl err, w)
         | (Inr resp, w) \<Rightarrow> (Inr (Gw_ToListTransactionsDomain resp), w))"

end
