(* ===== verification/Gateway.thy ===== *)
theory Gateway
  imports GatewayServices
begin

text \<open>
  The HTTP side of the gateway: \<^verbatim>\<open>api-gateway/internal/middlewares/middleware.go\<close>, the controllers of
  \<^verbatim>\<open>api-gateway/controllers\<close> and the routes of \<^verbatim>\<open>api-gateway/cmd/main.go\<close>. A handler takes a request
  and the world behind the services to a reply and the world after it.
\<close>

type_synonym 'r handler = "http_request \<Rightarrow> 'r world \<Rightarrow> http_reply \<times> 'r world"

section \<open>Middleware\<close>

definition authorize :: "('r, 'k) gateway \<Rightarrow> string \<Rightarrow> string \<Rightarrow> json option" where
  "authorize g token userId =
     (case ValidateAccessToken (gw_jwt g) (gw_os g) (gw_now g) token of
        Inl err \<Rightarrow> Some (ErrorResponse ''Unauthorized'' ''User with userId: %s, is not authorized on this route'')
      | Inr claims \<Rightarrow>
          if tc_UserId claims \<noteq> userId
          then Some (ErrorResponse ''Unauthorized'' ''User with userId: %s, is not authorized on this route'')
          else None)"

definition unauthorized :: http_reply where
  "unauthorized = WriteError 401 (ErrorResponse ''Unauthorized'' ''Unauthorized to access this route'')"

definition AuthorizeUser :: "('r, 'k) gateway \<Rightarrow> 'r handler \<Rightarrow> 'r handler" where
  "AuthorizeUser g handler r w =
     (let authorization = hr_Header r ''Authorization'' in
      if authorization = [] then (unauthorized, w)
      else if \<not> HasPrefix authorization ''Bearer '' then (unauthorized, w)
      else
        let token = TrimPrefix authorization ''Bearer '';
            userId = query_Get (hr_Query r) ''userId''
        in if userId = [] then (unauthorized, w)
           else if authorize g token userId \<noteq> None then (unauthorized, w)
           else handler r w)"

text \<open>\<^verbatim>\<open>services.Authorize\<close> repeats \<^verbatim>\<open>authorize\<close> and has no caller.\<close>

definition Gw_Authorize :: "('r, 'k) gateway \<Rightarrow> string \<Rightarrow> string \<Rightarrow> json option" where
  "Gw_Authorize g token userId =
     (case ValidateAccessToken (gw_jwt g) (gw_os g) (gw_now g) token of
        Inl err \<Rightarrow> Some (ErrorResponse ''Unauthorized'' ''User with userId: %s, is not authorized on this route'')
      | Inr claims \<Rightarrow>
          if tc_UserId claims \<noteq> userId
          then Some (ErrorResponse ''Unauthorized'' ''User with userId: %s, is not authorized on this route'')
          else None)"

section \<open>Controllers\<close>

abbreviation bad_json :: http_reply where
  "bad_json \<equiv> WriteError 400 (JStr ''failed to parse JSON data'')"

definition HandleUserRegister :: "('r, 'k) gateway \<Rightarrow> 'r handler" where
  "HandleUserRegister g r w =
     (case decode_object decode_CreateUserRequest (hr_Body r) of
        Inl err \<Rightarrow> (bad_json, w)
      | Inr req \<Rightarrow>
          (let domainUser = Gw_User_zero\<lparr>gu_Name := cu_Name req, gu_Username := cu_Username req,
                 gu_Email := cu_Email req, gu_Password := cu_Password req\<rparr>
           in case Gw_RegisterUser g domainUser w of
                (Inl err, w) \<Rightarrow>
                  (WriteError 400 (ErrorResponse ''User Registration Failed'' (error_text err)), w)
              | (Inr None, w) \<Rightarrow> (Panic, w)
              | (Inr (Some userAuth), w) \<Rightarrow>
                  (write_json app_json 200
                     (Some (encode_AuthenticateUserResponse ''user registered'' (gx_AccessToken userAuth))), w)))"

definition HandleUserLogin :: "('r, 'k) gateway \<Rightarrow> 'r handler" where
  "HandleUserLogin g r w =
     (case decode_object decode_LoginUserRequest (hr_Body r) of
        Inl err \<Rightarrow> (bad_json, w)
      | Inr req \<Rightarrow>
          (let domainUser = Gw_User_zero\<lparr>gu_Username := lu_Username req, gu_Password := lu_Password req\<rparr>
           in case Gw_LoginUser g domainUser w of
                (Inl err, w) \<Rightarrow> (WriteError 400 (ErrorResponse ''Login Failed'' ''Invalid Credentials''), w)
              | (Inr None, w) \<Rightarrow> (Panic, w)
              | (Inr (Some resp), w) \<Rightarrow>
                  (write_json app_json 200
                     (Some (encode_AuthenticateUserResponse ''user authenticated'' (gx_AccessToken resp))), w)))"

definition HandleRefreshToken :: "'r handler" where
  "HandleRefreshToken r w =
     (case decode_object decode_RefreshTokenRequest (hr_Body r) of
        Inl err \<Rightarrow> (bad_json, w)
      | Inr req \<Rightarrow>
          if rt_RefreshToken req = [] then (WriteError 400 (JStr ''refresh_token is required''), w)
          else (case Gw_RefreshToken (rt_RefreshToken req) of
             Inl err \<Rightarrow> (WriteError 401 (JStr ''invalid refresh token''), w)
           | Inr token \<Rightarrow> (write_json app_json 200 (Some (encode_RefreshTokenResponse token)), w)))"

definition HandleAccountCreate :: "('r, 'k) gateway \<Rightarrow> 'r handler" where
  "HandleAccountCreate g r w =
     (case decode_object decode_Account (hr_Body r) of
        Inl err \<Rightarrow> (bad_json, w)
      | Inr domainAccount \<Rightarrow>
          (let domainAccount = domainAccount\<lparr>ga_OwnerUser := query_Get (hr_Query r) ''userId''\<rparr>
           in case ValidateAccount domainAccount of
                Some err \<Rightarrow> (WriteError 400 (JStr (error_text err)), w)
              | None \<Rightarrow>
                  (case Gw_CreateAccount g domainAccount w of
                     (Inl err, w) \<Rightarrow>
                       (WriteError 400 (ErrorResponse ''Account creation failed'' (error_text err)), w)
                   | (Inr domainAccount, w) \<Rightarrow>
                       (write_json app_json 200
                          (Some (encode_CreateAccountResponse ''account created'' (ga_ID domainAccount)
                             (ga_Balance domainAccount) (ga_Currency domainAccount))), w))))"

definition HandleAccountUpdate :: "'r handler" where
  "HandleAccountUpdate r w =
     (case decode_object decode_UpdateAccountRequest (hr_Body r) of
        Inl err \<Rightarrow> (bad_json, w)
      | Inr req \<Rightarrow>
          (let domainAccount = Gw_Account_zero\<lparr>ga_ID := up_AccountID req,
                 ga_OwnerUser := up_OwnerAccountId req\<rparr>
           in case Gw_UpdateAccount domainAccount of
                Inl err \<Rightarrow> (WriteError 500 (JStr ''account update failed''), w)
              | Inr _ \<Rightarrow> (write_json app_json 200 (Some (encode_UpdateAccountResponse ''account updated'')), w)))"

definition funds_reply :: "string \<Rightarrow> Gw_Transaction option result \<times> 'r world \<Rightarrow> http_reply \<times> 'r world" where
  "funds_reply msg x =
     (case x of
        (Inl err, w) \<Rightarrow> (WriteError 400 (JStr msg), w)
      | (Inr None, w) \<Rightarrow> (Panic, w)
      | (Inr (Some transaction), w) \<Rightarrow> (write_json app_json 200 (encode_FundsResponse transaction), w))"

abbreviation no_user :: http_reply where
  "no_user \<equiv> WriteError 400 (JStr ''Invalid Request, missing userId'')"

definition HandleDeposit :: "('r, 'k) gateway \<Rightarrow> 'r handler" where
  "HandleDeposit g r w =
     (case decode_object decode_DepositFundsRequest (hr_Body r) of
        Inl err \<Rightarrow> (bad_json, w)
      | Inr req \<Rightarrow>
          (let ownerUserId = query_Get (hr_Query r) ''userId'' in
           if ownerUserId = [] then (no_user, w)
           else funds_reply ''Failed to deposit funds, reason: %v''
             (Gw_DepositFunds g ownerUserId (df_AccountID req) (df_Currency req) (df_Amount req) w)))"

definition HandleWithdraw :: "('r, 'k) gateway \<Rightarrow> 'r handler" where
  "HandleWithdraw g r w =
     (case decode_object decode_WithdrawFundsRequest (hr_Body r) of
        Inl err \<Rightarrow> (bad_json, w)
      | Inr req \<Rightarrow>
          (let ownerUserId = query_Get (hr_Query r) ''userId'' in
           if ownerUserId = [] then (no_user, w)
           else funds_reply ''Failed to withdraw funds, reason: %v''
             (Gw_WithdrawFunds g ownerUserId (wf_AccountID req) (wf_Amount req) w)))"

definition HandleTransferFunds :: "('r, 'k) gateway \<Rightarrow> 'r handler" where
  "HandleTransferFunds g r w =
     (case decode_object decode_TransferFundsRequest (hr_Body r) of
        Inl err \<Rightarrow> (bad_json, w)
      | Inr req \<Rightarrow>
          (let ownerUserId = query_Get (hr_Query r) ''userId'' in
           if ownerUserId = [] then (no_user, w)
           else funds_reply ''Failed to transfer funds, reason: %v''
             (Gw_TransferFunds g ownerUserId (tf_FromAccountID req) (tf_ToAccountID req) (tf_Currency req)
                (tf_Amount req) w)))"

definition HandleGetBalance :: "('r, 'k) gateway \<Rightarrow> 'r handler" where
  "HandleGetBalance g r w =
     (let accountID = query_Get (hr_Query r) ''accountId'';
          ownerUserId = query_Get (hr_Query r) ''userId''
      in if accountID = [] \<or> ownerUserId = []
         then (WriteError 400 (JStr ''Invalid Request, missing accountId or userId''), w)
         else case Gw_GetBalance g ownerUserId accountID w of
           (Inl err, w) \<Rightarrow> (WriteError 400 (JStr ''Failed to retrieve balance, reason: %v''), w)
         | (Inr balance, w) \<Rightarrow>
             (write_json app_json 200 (Some (encode_GetBalanceResponse (gb_AccountID balance)
                (gb_Balance balance) (gb_Currency balance))), w))"

definition HandleListTransactions :: "('r, 'k) gateway \<Rightarrow> 'r handler" where
  "HandleListTransactions g r w =
     (let ownerAccount = query_Get (hr_Query r) ''accountId'';
          page = query_Get (hr_Query r) ''page'';
          pageSize = query_Get (hr_Query r) ''pageSize'';
          (pageToInt, err) = ConvertStringToInt page 16
      in if err \<noteq> None then (ProcessExit, w)
         else
           let (pageSizeInt, _) = ConvertStringToInt pageSize 8
           in if ownerAccount = [] \<or> page = []
              then (WriteError 400
                      (JStr ''Please provide required request data: owner accounts id, current page''), w)
              else case Gw_ListTransactions g ownerAccount (to_int32 pageToInt) (to_int8 pageSizeInt) w of
                (Inl err, w) \<Rightarrow> (WriteError 400 (JStr ''Failed to retrieve transactions, reason: %v''), w)
              | (Inr None, w) \<Rightarrow> (Panic, w)
              | (Inr (Some resp), w) \<Rightarrow>
                  (write_json None 200
                     (encode_ListTransactionsResponse (gl_Transactions resp) (gl_NextPageToken resp)), w))"

definition HandleHealthLiveness :: "'r handler" where
  "HandleHealthLiveness r w = (write_json app_json 200 (Some (JObj [(''status'', JStr ''live'')])), w)"

definition HandleHealthReadiness :: "'r handler" where
  "HandleHealthReadiness r w = (write_json app_json 200 (Some (JObj [(''status'', JStr ''ready'')])), w)"

section \<open>Routes\<close>

definition routes :: "('r, 'k) gateway \<Rightarrow> (string \<times> string \<times> 'r handler) list" where
  "routes g =
     [(''POST'', ''/user/register'', HandleUserRegister g),
      (''POST'', ''/user/login'', HandleUserLogin g),
      (''POST'', ''/user/refresh'', HandleRefreshToken),
      (''POST'', ''/account/create'', AuthorizeUser g (HandleAccountCreate g)),
      (''UPDATE'', ''/account/update'', AuthorizeUser g HandleAccountUpdate),
      (''POST'', ''/wallet/deposit'', AuthorizeUser g (HandleDeposit g)),
      (''POST'', ''/wallet/withdraw'', AuthorizeUser g (HandleWithdraw g)),
      (''POST'', ''/wallet/transfer'', AuthorizeUser g (HandleTransferFunds g)),
      (''GET'', ''/wallet/transactions'', AuthorizeUser g (HandleListTransactions g)),
      (''GET'', ''/wallet/balance'', AuthorizeUser g (HandleGetBalance g)),
      (''GET'', ''/health/liveness'', HandleHealthLiveness),
      (''GET'', ''/health/readiness'', HandleHealthReadiness)]"

text \<open>\<^verbatim>\<open>http.ServeMux\<close>: the path selects the pattern, \<^verbatim>\<open>GET\<close> also answers \<^verbatim>\<open>HEAD\<close>; another method on a
  known path is 405, an unknown path is 404.\<close>

definition method_matches :: "string \<Rightarrow> string \<Rightarrow> bool" where
  "method_matches pattern m \<longleftrightarrow> pattern = m \<or> pattern = ''GET'' \<and> m = ''HEAD''"

definition text_reply :: "nat \<Rightarrow> string \<Rightarrow> http_reply" where
  "text_reply status msg =
     Reply \<lparr>hs_Status = status, hs_ContentType = Some ''text/plain; charset=utf-8'', hs_Body = TextBody msg\<rparr>"

definition ServeHTTP :: "('r, 'k) gateway \<Rightarrow> 'r handler" where
  "ServeHTTP g r w =
     (case List.find (\<lambda>(m, path, h). path = hr_Path r \<and> method_matches m (hr_Method r)) (routes g) of
        Some (m, path, handler) \<Rightarrow> handler r w
      | None \<Rightarrow>
          if hr_Path r \<in> (\<lambda>(m, path, h). path) ` set (routes g)
          then (text_reply 405 ''Method Not Allowed'', w)
          else (text_reply 404 ''404 page not found'', w))"

end
