(* ===== verification/GatewayProps.thy ===== *)
theory GatewayProps
  imports Reachable Gateway
begin

text \<open>
  Properties of the gateway: which requests are let through and for whom, what a request can do to
  the services behind it, and when it takes the process down.
\<close>

section \<open>Who is admitted\<close>

text \<open>The user a request is authenticated as: the one its bearer token was issued to.\<close>

definition bearer_user :: "('r, 'k) gateway \<Rightarrow> http_request \<Rightarrow> string option" where
  "bearer_user g r =
     (if HasPrefix (hr_Header r ''Authorization'') ''Bearer ''
      then case ValidateAccessToken (gw_jwt g) (gw_os g) (gw_now g)
                  (TrimPrefix (hr_Header r ''Authorization'') ''Bearer '') of
             Inl err \<Rightarrow> None
           | Inr claims \<Rightarrow> Some (tc_UserId claims)
      else None)"

abbreviation claimed_user :: "http_request \<Rightarrow> string" where
  "claimed_user r \<equiv> query_Get (hr_Query r) ''userId''"

definition admitted :: "('r, 'k) gateway \<Rightarrow> http_request \<Rightarrow> bool" where
  "admitted g r \<longleftrightarrow> claimed_user r \<noteq> [] \<and> bearer_user g r = Some (claimed_user r)"

lemma AuthorizeUser_eq:
  "AuthorizeUser g handler r w = (if admitted g r then handler r w else (unauthorized, w))"
  by (auto simp: AuthorizeUser_def admitted_def bearer_user_def authorize_def Let_def HasPrefix_def
      split: sum.splits)

lemma authorize_same: "Gw_Authorize g = authorize g"
  by (simp add: fun_eq_iff Gw_Authorize_def authorize_def)

text \<open>The routes a request can take, by path and method.\<close>

definition takes :: "http_request \<Rightarrow> string \<Rightarrow> string \<Rightarrow> bool" where
  "takes r m path \<longleftrightarrow> hr_Path r = path \<and> method_matches m (hr_Method r)"

lemma ServeHTTP_cases:
  obtains
    (no_route) "ServeHTTP g r w = (text_reply 404 ''404 page not found'', w)"
  | (no_method) "ServeHTTP g r w = (text_reply 405 ''Method Not Allowed'', w)"
  | (register) "takes r ''POST'' ''/user/register''" and "ServeHTTP g r w = HandleUserRegister g r w"
  | (login) "takes r ''POST'' ''/user/login''" and "ServeHTTP g r w = HandleUserLogin g r w"
  | (refresh) "takes r ''POST'' ''/user/refresh''" and "ServeHTTP g r w = HandleRefreshToken r w"
  | (create) "takes r ''POST'' ''/account/create''" and "ServeHTTP g r w = AuthorizeUser g (HandleAccountCreate g) r w"
  | (update) "takes r ''UPDATE'' ''/account/update''" and "ServeHTTP g r w = AuthorizeUser g HandleAccountUpdate r w"
  | (deposit) "takes r ''POST'' ''/wallet/deposit''" and "ServeHTTP g r w = AuthorizeUser g (HandleDeposit g) r w"
  | (withdraw) "takes r ''POST'' ''/wallet/withdraw''" and "ServeHTTP g r w = AuthorizeUser g (HandleWithdraw g) r w"
  | (transfer) "takes r ''POST'' ''/wallet/transfer''" and "ServeHTTP g r w = AuthorizeUser g (HandleTransferFunds g) r w"
  | (listing) "takes r ''GET'' ''/wallet/transactions''" and "ServeHTTP g r w = AuthorizeUser g (HandleListTransactions g) r w"
  | (balance) "takes r ''GET'' ''/wallet/balance''" and "ServeHTTP g r w = AuthorizeUser g (HandleGetBalance g) r w"
  | (live) "takes r ''GET'' ''/health/liveness''" and "ServeHTTP g r w = HandleHealthLiveness r w"
  | (ready) "takes r ''GET'' ''/health/readiness''" and "ServeHTTP g r w = HandleHealthReadiness r w"
proof -
  have "ServeHTTP g r w = (text_reply 405 ''Method Not Allowed'', w)
     \<or> ServeHTTP g r w = (text_reply 404 ''404 page not found'', w)
     \<or> takes r ''POST'' ''/user/register'' \<and> ServeHTTP g r w = HandleUserRegister g r w
     \<or> takes r ''POST'' ''/user/login'' \<and> ServeHTTP g r w = HandleUserLogin g r w
     \<or> takes r ''POST'' ''/user/refresh'' \<and> ServeHTTP g r w = HandleRefreshToken r w
     \<or> takes r ''POST'' ''/account/create'' \<and> ServeHTTP g r w = AuthorizeUser g (HandleAccountCreate g) r w
     \<or> takes r ''UPDATE'' ''/account/update'' \<and> ServeHTTP g r w = AuthorizeUser g HandleAccountUpdate r w
     \<or> takes r ''POST'' ''/wallet/deposit'' \<and> ServeHTTP g r w = AuthorizeUser g (HandleDeposit g) r w
     \<or> takes r ''POST'' ''/wallet/withdraw'' \<and> ServeHTTP g r w = AuthorizeUser g (HandleWithdraw g) r w
     \<or> takes r ''POST'' ''/wallet/transfer'' \<and> ServeHTTP g r w = AuthorizeUser g (HandleTransferFunds g) r w
     \<or> takes r ''GET'' ''/wallet/transactions'' \<and> ServeHTTP g r w = AuthorizeUser g (HandleListTransactions g) r w
     \<or> takes r ''GET'' ''/wallet/balance'' \<and> ServeHTTP g r w = AuthorizeUser g (HandleGetBalance g) r w
     \<or> takes r ''GET'' ''/health/liveness'' \<and> ServeHTTP g r w = HandleHealthLiveness r w
     \<or> takes r ''GET'' ''/health/readiness'' \<and> ServeHTTP g r w = HandleHealthReadiness r w"
    unfolding ServeHTTP_def routes_def takes_def by simp
  then show thesis by (elim disjE conjE) (erule that; assumption)+
qed

text \<open>C12. The account and wallet routes need a token: a request to a path under \<^verbatim>\<open>/account/\<close> or
  \<^verbatim>\<open>/wallet/\<close> that does not carry a bearer token that is valid now and was issued to the user named
  in the query is answered with 401 (404 or 405 when there is no such route) and reaches
  neither service, so the world behind the gateway stays as it was.\<close>

theorem protected_needs_token:
  assumes "HasPrefix (hr_Path r) ''/account/'' \<or> HasPrefix (hr_Path r) ''/wallet/''" and "\<not> admitted g r"
  shows "snd (ServeHTTP g r w) = w \<and> fst (ServeHTTP g r w) \<in>
    {unauthorized, text_reply 404 ''404 page not found'', text_reply 405 ''Method Not Allowed''}"
  using assms by (cases rule: ServeHTTP_cases [of g r w]) (auto simp: AuthorizeUser_eq takes_def HasPrefix_def)

section \<open>The user of a movement is the user of the token\<close>

lemma rpc_state: "snd (rpc g h s) = s \<or> snd (rpc g h s) = snd (h s)"
  by (auto simp: rpc_def autocommit_def split: io.splits prod.splits sum.splits)

lemma service_worlds:
  "snd (Gw_DepositFunds g u acc cur amt w) = snd (rpc g (Grpc_Deposit (gw_relay g) (gw_db g) (gw_oid g)
     (gw_newId g) (Gw_ToDepositFundsProto u acc cur amt)) w)"
  "snd (Gw_WithdrawFunds g u acc amt w) = snd (rpc g (Grpc_Withdraw (gw_relay g) (gw_db g) (gw_oid g)
     (gw_newId g) (Gw_ToWithdrawFundsProto u acc amt (gw_uuid g))) w)"
  "snd (Gw_TransferFunds g u fr to cur amt w) = snd (rpc g (Grpc_Transfer (gw_relay g) (gw_db g) (gw_oid g)
     (gw_newId g) (Gw_ToTransferFundsProto u fr to cur amt (gw_uuid g))) w)"
  "snd (Gw_GetBalance g u acc w) = snd (rpc g (Grpc_GetBalance (or_redis (gw_relay g)) (or_osenv (gw_relay g))
     (gw_db g) u acc) w)"
  "snd (Gw_ListTransactions g acc pg sz w) =
     snd (rpc g (on_db (Grpc_ListTransactions (gw_db g) (Gw_ToListTransactionsProto acc pg sz))) w)"
  "snd (Gw_CreateAccount g account w) = snd (rpc g (on_db (Grpc_CreateAccount (gw_db g) (gw_newId g)
     (ga_OwnerUser account) (ga_Currency account))) w)"
  by (simp_all add: Gw_DepositFunds_def Gw_WithdrawFunds_def Gw_TransferFunds_def Gw_GetBalance_def
      Gw_ListTransactions_def Gw_CreateAccount_def Gw_ToCreateAccountProto_def Gw_ToGetBalanceProto_def
      Let_def split: prod.splits sum.splits option.splits)

lemma funds_reply_world [simp]: "snd (funds_reply msg x) = snd x"
  by (simp add: funds_reply_def split: prod.splits sum.splits option.splits)

lemma auth_worlds:
  "snd (Gw_RegisterUser g u w) = snd (rpc g (Grpc_RegisterUser (gw_auth g) (gw_newId g)
     (the (Gw_ToRegisterUserProto (Some u)))) w)"
  "snd (Gw_LoginUser g u w) = w \<or> snd (Gw_LoginUser g u w) = snd (rpc g (Grpc_LoginUser (gw_auth g) (gw_newId g)
     (the (Gw_ToLoginUserProto (Some u)))) w)"
  by (simp_all add: Gw_RegisterUser_def Gw_LoginUser_def Gw_ToRegisterUserProto_def Gw_ToLoginUserProto_def
      Let_def split: prod.splits sum.splits option.splits)

lemma handler_worlds:
  "snd (HandleUserRegister g r w) = w \<or> (\<exists>u. snd (HandleUserRegister g r w) = snd (Gw_RegisterUser g u w))"
  "snd (HandleUserLogin g r w) = w \<or> (\<exists>u. snd (HandleUserLogin g r w) = snd (Gw_LoginUser g u w))"
  "snd (HandleAccountCreate g r w) = w \<or> (\<exists>account. ga_OwnerUser account = claimed_user r \<and>
     snd (HandleAccountCreate g r w) = snd (Gw_CreateAccount g account w))"
  "snd (HandleDeposit g r w) = w \<or> (\<exists>acc cur amt. snd (HandleDeposit g r w) =
     snd (Gw_DepositFunds g (claimed_user r) acc cur amt w))"
  "snd (HandleWithdraw g r w) = w \<or> (\<exists>acc amt. snd (HandleWithdraw g r w) =
     snd (Gw_WithdrawFunds g (claimed_user r) acc amt w))"
  "snd (HandleTransferFunds g r w) = w \<or> (\<exists>fr to cur amt. snd (HandleTransferFunds g r w) =
     snd (Gw_TransferFunds g (claimed_user r) fr to cur amt w))"
  "snd (HandleGetBalance g r w) = w \<or> (\<exists>acc. snd (HandleGetBalance g r w) =
     snd (Gw_GetBalance g (claimed_user r) acc w))"
  "snd (HandleListTransactions g r w) = w \<or> (\<exists>acc pg sz. snd (HandleListTransactions g r w) =
     snd (Gw_ListTransactions g acc pg sz w))"
  "snd (HandleRefreshToken r w) = w" "snd (HandleAccountUpdate r w) = w"
  "snd (HandleHealthLiveness r w) = w" "snd (HandleHealthReadiness r w) = w"
proof -
  show "snd (HandleAccountCreate g r w) = w \<or> (\<exists>account. ga_OwnerUser account = claimed_user r \<and>
     snd (HandleAccountCreate g r w) = snd (Gw_CreateAccount g account w))"
  proof (cases "decode_object decode_Account (hr_Body r)")
    case (Inr account)
    let ?a = "account\<lparr>ga_OwnerUser := claimed_user r\<rparr>"
    have "snd (HandleAccountCreate g r w) = w \<or> ga_OwnerUser ?a = claimed_user r \<and>
        snd (HandleAccountCreate g r w) = snd (Gw_CreateAccount g ?a w)"
      by (simp add: HandleAccountCreate_def Inr Let_def case_prod_beta split: sum.splits option.splits)
    then show ?thesis by blast
  qed (simp add: HandleAccountCreate_def)
qed (auto simp: HandleUserRegister_def HandleUserLogin_def HandleDeposit_def HandleWithdraw_def
    HandleTransferFunds_def HandleGetBalance_def HandleListTransactions_def HandleRefreshToken_def
    HandleAccountUpdate_def HandleHealthLiveness_def HandleHealthReadiness_def Let_def case_prod_beta
    split: sum.splits option.splits)

text \<open>What a request does to the world: nothing, or one call of a service.\<close>

inductive serves :: "('r, 'k) gateway \<Rightarrow> http_request \<Rightarrow> 'r world \<Rightarrow> 'r world \<Rightarrow> bool"
  for g :: "('r, 'k) gateway" and r :: http_request and w :: "'r world" where
  same: "serves g r w w"
| register: "serves g r w (snd (Grpc_RegisterUser (gw_auth g) (gw_newId g) rreq w))"
| login: "serves g r w (snd (Grpc_LoginUser (gw_auth g) (gw_newId g) greq w))"
| create: "admitted g r \<Longrightarrow>
    serves g r w (snd (on_db (Grpc_CreateAccount (gw_db g) (gw_newId g) (claimed_user r) cur) w))"
| deposit: "admitted g r \<Longrightarrow> pd_UserId dreq = claimed_user r \<Longrightarrow>
    serves g r w (snd (Grpc_Deposit (gw_relay g) (gw_db g) (gw_oid g) (gw_newId g) dreq w))"
| withdraw: "admitted g r \<Longrightarrow> pw_UserId wreq = claimed_user r \<Longrightarrow>
    serves g r w (snd (Grpc_Withdraw (gw_relay g) (gw_db g) (gw_oid g) (gw_newId g) wreq w))"
| transfer: "admitted g r \<Longrightarrow> px_UserId xreq = claimed_user r \<Longrightarrow>
    serves g r w (snd (Grpc_Transfer (gw_relay g) (gw_db g) (gw_oid g) (gw_newId g) xreq w))"
| balance: "admitted g r \<Longrightarrow> serves g r w (snd (Grpc_GetBalance (or_redis (gw_relay g))
    (or_osenv (gw_relay g)) (gw_db g) (claimed_user r) acc w))"
| listing: "admitted g r \<Longrightarrow> serves g r w (snd (on_db (Grpc_ListTransactions (gw_db g) lreq) w))"

lemma serves_rpc:
  assumes "serves g r w (snd (h w))"
  shows "serves g r w (snd (rpc g h w))"
  using rpc_state [of g h w] assms serves.same by metis

lemma rpc_serves:
  "serves g r w (snd (rpc g (Grpc_RegisterUser (gw_auth g) (gw_newId g) rreq) w))"
  "serves g r w (snd (rpc g (Grpc_LoginUser (gw_auth g) (gw_newId g) greq) w))"
  by (rule serves_rpc, rule serves.intros)+

lemma rpc_serves_admitted:
  assumes "admitted g r"
  shows "serves g r w (snd (rpc g (on_db (Grpc_CreateAccount (gw_db g) (gw_newId g) (claimed_user r) cur)) w))"
    "pd_UserId dreq = claimed_user r \<Longrightarrow>
       serves g r w (snd (rpc g (Grpc_Deposit (gw_relay g) (gw_db g) (gw_oid g) (gw_newId g) dreq) w))"
    "pw_UserId wreq = claimed_user r \<Longrightarrow>
       serves g r w (snd (rpc g (Grpc_Withdraw (gw_relay g) (gw_db g) (gw_oid g) (gw_newId g) wreq) w))"
    "px_UserId xreq = claimed_user r \<Longrightarrow>
       serves g r w (snd (rpc g (Grpc_Transfer (gw_relay g) (gw_db g) (gw_oid g) (gw_newId g) xreq) w))"
    "serves g r w (snd (rpc g (Grpc_GetBalance (or_redis (gw_relay g)) (or_osenv (gw_relay g)) (gw_db g)
       (claimed_user r) acc) w))"
    "serves g r w (snd (rpc g (on_db (Grpc_ListTransactions (gw_db g) lreq)) w))"
  by (rule serves_rpc, rule serves.intros, (rule assms)?, assumption?)+

lemma user_handlers_serve:
  "serves g r w (snd (HandleUserRegister g r w))" "serves g r w (snd (HandleUserLogin g r w))"
proof -
  show "serves g r w (snd (HandleUserRegister g r w))"
    using handler_worlds(1) [of g r w] by (auto simp: auth_worlds(1) rpc_serves serves.same)
  have "serves g r w (snd (Gw_LoginUser g u w))" for u
    using auth_worlds(2) [of g u w] by (auto simp: rpc_serves serves.same)
  then show "serves g r w (snd (HandleUserLogin g r w))"
    using handler_worlds(2) [of g r w] by (auto simp: serves.same)
qed

lemma wallet_handlers_serve:
  assumes "admitted g r"
  shows "serves g r w (snd (HandleAccountCreate g r w))" "serves g r w (snd (HandleDeposit g r w))"
    "serves g r w (snd (HandleWithdraw g r w))" "serves g r w (snd (HandleTransferFunds g r w))"
    "serves g r w (snd (HandleGetBalance g r w))" "serves g r w (snd (HandleListTransactions g r w))"
proof -
  note s = serves.same rpc_serves_admitted [OF assms] service_worlds Gw_ToDepositFundsProto_def
    Gw_ToWithdrawFundsProto_def Gw_ToTransferFundsProto_def
  show "serves g r w (snd (HandleAccountCreate g r w))"
    using handler_worlds(3) [of g r w] by (auto simp: s)
  show "serves g r w (snd (HandleDeposit g r w))"
    using handler_worlds(4) [of g r w] by (auto simp: s)
  show "serves g r w (snd (HandleWithdraw g r w))"
    using handler_worlds(5) [of g r w] by (auto simp: s)
  show "serves g r w (snd (HandleTransferFunds g r w))"
    using handler_worlds(6) [of g r w] by (auto simp: s)
  show "serves g r w (snd (HandleGetBalance g r w))"
    using handler_worlds(7) [of g r w] by (auto simp: s)
  show "serves g r w (snd (HandleListTransactions g r w))"
    using handler_worlds(8) [of g r w] by (auto simp: s)
qed

lemma ServeHTTP_serves: "serves g r w (snd (ServeHTTP g r w))"
  by (cases rule: ServeHTTP_cases [of g r w])
    (simp_all add: AuthorizeUser_eq user_handlers_serve wallet_handlers_serve serves.same handler_worlds(9-))

lemma movement_outbox:
  "\<lbrakk>m = Grpc_Deposit o' e oid newId dreq \<and> u = pd_UserId dreq \<or> m = Grpc_Withdraw o' e oid newId wreq \<and> u = pw_UserId wreq
      \<or> m = Grpc_Transfer o' e oid newId xreq \<and> u = px_UserId xreq\<rbrakk> \<Longrightarrow>
   transaction_outbox (w_db (snd (m w))) = transaction_outbox (w_db w) \<or>
   (\<exists>row. transaction_outbox (w_db (snd (m w))) = transaction_outbox (w_db w) @ [row]
      \<and> (''UserId'', JStr u) \<in> set (om_Payload row))"
proof -
  have ins: "transaction_outbox (w_db (snd (OutboxInsert R e oid cfg w))) = transaction_outbox (w_db w) \<or>
     (\<exists>row. transaction_outbox (w_db (snd (OutboxInsert R e oid cfg w))) = transaction_outbox (w_db w) @ [row]
        \<and> om_Payload row = oc_Payload cfg)" for R cfg
    using outbox_insert_db [of R e oid cfg w] by (auto simp: new_outbox_row_def)
  have db: "snd (case x of (Inl err, w) \<Rightarrow> (Inl err, w) | (Inr _, w) \<Rightarrow> (Inr y, w)) = snd x"
    for x :: "unit result \<times> 'a world" and y :: "pb_Transaction option"
    by (auto split: prod.splits sum.splits)
  assume "m = Grpc_Deposit o' e oid newId dreq \<and> u = pd_UserId dreq \<or> m = Grpc_Withdraw o' e oid newId wreq \<and> u = pw_UserId wreq
      \<or> m = Grpc_Transfer o' e oid newId xreq \<and> u = px_UserId xreq"
  then obtain R cfg where "snd (m w) = snd (OutboxInsert R e oid cfg w)" "(''UserId'', JStr u) \<in> set (oc_Payload cfg)"
    unfolding Grpc_Deposit_def Grpc_Withdraw_def Grpc_Transfer_def InsertOutboxRelay_def Let_def
    by (elim disjE) (auto simp: db)
  with ins [of R cfg] show ?thesis by metis
qed

lemma other_outbox:
  "transaction_outbox (w_db (snd (Grpc_RegisterUser a newId rreq w))) = transaction_outbox (w_db w)"
  "transaction_outbox (w_db (snd (Grpc_LoginUser a newId greq w))) = transaction_outbox (w_db w)"
  "transaction_outbox (w_db (snd (on_db (Grpc_CreateAccount e newId user cur) w))) = transaction_outbox (w_db w)"
  using grpc_auth_adds(1) [of w a newId rreq] grpc_auth_adds(2) [of newId w a greq]
    open_account_state [of e newId user cur "w_db w"]
  by (auto simp: adds_user_def adds_token_def insert_token_tables on_db_eq grpc_open_state)

lemma serves_outbox:
  assumes "serves g r w w'"
  shows "transaction_outbox (w_db w') = transaction_outbox (w_db w) \<or>
    (\<exists>row. transaction_outbox (w_db w') = transaction_outbox (w_db w) @ [row]
       \<and> admitted g r \<and> (''UserId'', JStr (claimed_user r)) \<in> set (om_Payload row))"
  using assms
proof cases
  case (deposit dreq)
  then show ?thesis using movement_outbox [OF disjI1, of _ "gw_relay g" "gw_db g" "gw_oid g" "gw_newId g" dreq] by metis
next
  case (withdraw wreq)
  then show ?thesis using movement_outbox [OF disjI2 [OF disjI1], of _ "gw_relay g" "gw_db g" "gw_oid g" "gw_newId g" wreq] by metis
next
  case (transfer xreq)
  then show ?thesis using movement_outbox [OF disjI2 [OF disjI2], of _ "gw_relay g" "gw_db g" "gw_oid g" "gw_newId g" xreq] by metis
qed (simp_all add: other_outbox read_handlers_db, simp add: on_db_eq read_handlers_db)

text \<open>C7. Whatever request arrives, and whatever fails on the way, the outbox stays as it was or gains
  one row, and then the request was authenticated: its bearer token is valid now, and the user
  the row asks the movement for is the user the token was issued to.\<close>

theorem movement_is_authenticated:
  "transaction_outbox (w_db (snd (ServeHTTP g r w))) = transaction_outbox (w_db w) \<or>
   (\<exists>row claims. transaction_outbox (w_db (snd (ServeHTTP g r w))) = transaction_outbox (w_db w) @ [row]
      \<and> ValidateAccessToken (gw_jwt g) (gw_os g) (gw_now g)
          (TrimPrefix (hr_Header r ''Authorization'') ''Bearer '') = Inr claims
      \<and> (''UserId'', JStr (tc_UserId claims)) \<in> set (om_Payload row))"
  using serves_outbox [OF ServeHTTP_serves, of g r w]
  by (auto simp: admitted_def bearer_user_def split: if_splits sum.splits)

section \<open>Requests are steps of the application\<close>

lemma serves_step:
  assumes "serves g r w w'"
  shows "(wallet_step (gw_relay g) log)\<^sup>=\<^sup>= \<lparr>pl_world = w, pl_kafka = k\<rparr> \<lparr>pl_world = w', pl_kafka = k\<rparr>"
  using assms
proof cases
  case (register rreq)
  then show ?thesis using wallet_step.RegisterUser [of "gw_relay g" log "\<lparr>pl_world = w, pl_kafka = k\<rparr>"] by (simp add: on_world_eq)
next
  case (login greq)
  then show ?thesis using wallet_step.Login [of "gw_relay g" log "\<lparr>pl_world = w, pl_kafka = k\<rparr>"] by (simp add: on_world_eq)
next
  case (create cur)
  then show ?thesis using wallet_step.OpenAccount [of "gw_relay g" log "\<lparr>pl_world = w, pl_kafka = k\<rparr>"] by (simp add: on_world_eq)
next
  case (deposit dreq)
  then show ?thesis using wallet_step.Deposit [of "gw_relay g" log "\<lparr>pl_world = w, pl_kafka = k\<rparr>"] by (simp add: on_world_eq)
next
  case (withdraw wreq)
  then show ?thesis using wallet_step.Withdraw [of "gw_relay g" log "\<lparr>pl_world = w, pl_kafka = k\<rparr>"] by (simp add: on_world_eq)
next
  case (transfer xreq)
  then show ?thesis using wallet_step.Transfer [of "gw_relay g" log "\<lparr>pl_world = w, pl_kafka = k\<rparr>"] by (simp add: on_world_eq)
next
  case (balance acc)
  then show ?thesis using wallet_step.Balance [of "gw_relay g" log "\<lparr>pl_world = w, pl_kafka = k\<rparr>"] by (simp add: on_world_eq)
next
  case (listing lreq)
  then show ?thesis using wallet_step.Listing [of "gw_relay g" log "\<lparr>pl_world = w, pl_kafka = k\<rparr>"] by (simp add: on_world_eq)
qed simp

text \<open>C20. Every request to the gateway, whatever fails, is at most one step of the application; so
  what holds in every state the steps reach also holds under any sequence of HTTP requests.\<close>

theorem gateway_refines_steps:
  "(wallet_step (gw_relay g) log)\<^sup>=\<^sup>= p (p\<lparr>pl_world := snd (ServeHTTP g r (pl_world p))\<rparr>)"
  using serves_step [OF ServeHTTP_serves [of g r "pl_world p"], of log "pl_kafka p"] by (cases p) simp

section \<open>A gateway for the witnesses\<close>

definition sample_gateway :: "time \<Rightarrow> (ref_redis, ref_broker) gateway" where
  "sample_gateway now = \<lparr>gw_jwt = jwt_ref, gw_os = (\<lambda>_. None), gw_auth = sample_auth, gw_relay = sample_relay,
     gw_now = now, gw_rpc = IoOk, gw_uuid = ''t9'', gw_newId = ''u3'', gw_oid = ''o9'', gw_db = healthy 5\<rparr>"

definition sample_http :: "string \<Rightarrow> string \<Rightarrow> string \<Rightarrow> (string \<times> string) list \<Rightarrow> json option \<Rightarrow> http_request" where
  "sample_http m path auth query body = \<lparr>hr_Method = m, hr_Path = path,
     hr_Header = (\<lambda>k. if k = ''Authorization'' then auth else []), hr_Query = query, hr_Body = body\<rparr>"

theorem protected_needs_token_witness:
  "snd (ServeHTTP (sample_gateway 0) (sample_http ''POST'' ''/wallet/withdraw'' ''Bearer x''
     [(''userId'', ''u1'')] (Some (JObj [(''account_id'', JStr ''a1''), (''amount'', JInt 300)]))) sample) = sample"
proof -
  let ?r = "sample_http ''POST'' ''/wallet/withdraw'' ''Bearer x'' [(''userId'', ''u1'')]
     (Some (JObj [(''account_id'', JStr ''a1''), (''amount'', JInt 300)]))"
  have "\<not> admitted (sample_gateway 0) ?r" by code_simp
  moreover have "HasPrefix (hr_Path ?r) ''/wallet/''" by code_simp
  ultimately show ?thesis using protected_needs_token [of ?r "sample_gateway 0" sample] by simp
qed

end
