(* ===== verification/GatewayFlows.thy ===== *)
theory GatewayFlows
  imports GatewayProps
begin

text \<open>
  What a client sees: which requests end the process, the page it asked for, registration and
  login, and who may move whose money.
\<close>

section \<open>Replies\<close>

lemma write_json_Reply [simp]: "write_json c s v \<noteq> ProcessExit" "write_json c s v \<noteq> Panic"
  by (simp_all add: write_json_def)

lemma WriteError_Reply [simp]: "WriteError s v \<noteq> ProcessExit" "WriteError s v \<noteq> Panic"
  by (simp_all add: WriteError_def)

lemma other_replies [simp]: "unauthorized \<noteq> ProcessExit" "unauthorized \<noteq> Panic"
  "text_reply s m \<noteq> ProcessExit" "text_reply s m \<noteq> Panic"
  by (simp_all add: unauthorized_def text_reply_def)

lemma rpc_Inr: "rpc g h s = (Inr x, s') \<longleftrightarrow> gw_rpc g = IoOk \<and> h s = (Inr x, s')"
  by (auto simp: rpc_def autocommit_def split: io.splits prod.splits sum.splits)

lemma rpc_not_None:
  assumes "\<And>s'. h s \<noteq> (Inr None, s')"
  shows "rpc g h s \<noteq> (Inr None, s')"
  using assms by (simp add: rpc_Inr)

text \<open>The services always fill in the response the gateway dereferences.\<close>

lemma responses_filled:
  "Grpc_Deposit o' e oid newId dreq w \<noteq> (Inr None, w')"
  "Grpc_Withdraw o' e oid newId wreq w \<noteq> (Inr None, w')"
  "Grpc_Transfer o' e oid newId xreq w \<noteq> (Inr None, w')"
  "on_db (Grpc_ListTransactions e lreq) w \<noteq> (Inr None, w')"
  "Grpc_RegisterUser a newId rreq w \<noteq> (Inr None, w')"
  "Grpc_LoginUser a newId greq w \<noteq> (Inr None, w')"
  by (auto simp: Grpc_Deposit_def Grpc_Withdraw_def Grpc_Transfer_def Grpc_ListTransactions_def Grpc_RegisterUser_def
      Grpc_LoginUser_def ToTransactionProto_def ToListTransactionsProto_def ToRegisterUserProto_def ToLoginUserProto_def
      Let_def on_db_eq split: prod.splits sum.splits option.splits)

lemma Gw_responses_filled:
  "Gw_DepositFunds g u acc cur amt w \<noteq> (Inr None, w')"
  "Gw_WithdrawFunds g u acc amt w \<noteq> (Inr None, w')"
  "Gw_TransferFunds g u fr to cur amt w \<noteq> (Inr None, w')"
  "Gw_ListTransactions g acc pg sz w \<noteq> (Inr None, w')"
  "Gw_RegisterUser g user w \<noteq> (Inr None, w')"
  "Gw_LoginUser g user w \<noteq> (Inr None, w')"
  by (auto simp: Gw_DepositFunds_def Gw_WithdrawFunds_def Gw_TransferFunds_def Gw_ListTransactions_def
      Gw_RegisterUser_def Gw_LoginUser_def Gw_ToTransactionDomain_def Gw_ToListTransactionsDomain_def
      Gw_ToRegisterUserAuthDomain_def Gw_ToLoginUserDomain_def Gw_ToRegisterUserProto_def Gw_ToLoginUserProto_def
      Let_def rpc_Inr responses_filled split: prod.splits sum.splits if_splits)

definition replies :: "http_reply \<Rightarrow> bool" where
  "replies x \<longleftrightarrow> x \<noteq> ProcessExit \<and> x \<noteq> Panic"

lemma replies_simps [simp]:
  "replies (write_json c s v)" "replies (WriteError s j)" "replies unauthorized" "replies (text_reply s m)"
  by (simp_all add: replies_def)

lemma funds_reply_replies: "(\<And>w'. x \<noteq> (Inr None, w')) \<Longrightarrow> replies (fst (funds_reply msg x))"
  by (auto simp: funds_reply_def split: prod.splits sum.splits option.splits)

lemma handlers_reply:
  "replies (fst (HandleUserRegister g r w))" "replies (fst (HandleUserLogin g r w))"
  "replies (fst (HandleRefreshToken r w))" "replies (fst (HandleAccountCreate g r w))"
  "replies (fst (HandleAccountUpdate r w))" "replies (fst (HandleDeposit g r w))"
  "replies (fst (HandleWithdraw g r w))" "replies (fst (HandleTransferFunds g r w))"
  "replies (fst (HandleGetBalance g r w))" "replies (fst (HandleHealthLiveness r w))"
  "replies (fst (HandleHealthReadiness r w))"
  by (auto simp: HandleUserRegister_def HandleUserLogin_def HandleRefreshToken_def HandleAccountCreate_def
      HandleAccountUpdate_def HandleDeposit_def HandleWithdraw_def HandleTransferFunds_def HandleGetBalance_def
      HandleHealthLiveness_def HandleHealthReadiness_def Gw_responses_filled Let_def
      intro!: funds_reply_replies split: prod.splits sum.splits option.splits)

lemma listing_replies:
  "fst (HandleListTransactions g r w) = ProcessExit \<longleftrightarrow> snd (ParseInt 16 (query_Get (hr_Query r) ''page'')) \<noteq> None"
  "fst (HandleListTransactions g r w) \<noteq> Panic"
  by (auto simp: HandleListTransactions_def ConvertStringToInt_def Gw_responses_filled Let_def
      split: prod.splits sum.splits option.splits)

text \<open>C39. No request makes a handler panic, and exactly one kind ends the whole gateway process: a
  listing, by any authenticated user, whose page is not a decimal number of 16 bits.\<close>

theorem gateway_exits:
  "fst (ServeHTTP g r w) \<noteq> Panic \<and>
   (fst (ServeHTTP g r w) = ProcessExit \<longleftrightarrow>
      takes r ''GET'' ''/wallet/transactions'' \<and> admitted g r \<and>
      snd (ParseInt 16 (query_Get (hr_Query r) ''page'')) \<noteq> None)"
proof -
  have "replies x \<Longrightarrow> x \<noteq> ProcessExit \<and> x \<noteq> Panic" for x by (simp add: replies_def)
  note h = handlers_reply [THEN this]
  have no: "path \<noteq> ''/wallet/transactions'' \<Longrightarrow> takes r m path \<Longrightarrow> \<not> takes r ''GET'' ''/wallet/transactions''" for m path
    by (auto simp: takes_def)
  have yes: "takes r ''GET'' ''/wallet/transactions'' \<Longrightarrow>
      ServeHTTP g r w = AuthorizeUser g (HandleListTransactions g) r w"
    by (simp add: takes_def ServeHTTP_def routes_def)
  show ?thesis
  proof (cases "takes r ''GET'' ''/wallet/transactions''")
    case True
    then show ?thesis by (simp add: yes AuthorizeUser_eq listing_replies)
  next
    case False
    then show ?thesis by (cases rule: ServeHTTP_cases [of g r w]) (simp_all add: AuthorizeUser_eq h)
  qed
qed

section \<open>Listing\<close>

lemma fits_signed_mono: "fits_signed m x \<Longrightarrow> 0 < m \<Longrightarrow> m \<le> n \<Longrightarrow> fits_signed n x"
proof -
  assume a: "fits_signed m x" "0 < m" "m \<le> n"
  have "(2::int) ^ (m - 1) \<le> 2 ^ (n - 1)" using a by (intro power_increasing) auto
  with a(1) show ?thesis unfolding fits_signed_def by linarith
qed

definition Gw_transaction_of :: "Transaction \<Rightarrow> Gw_Transaction" where
  "Gw_transaction_of t =
     \<lparr>gt_ID = dt_ID t, gt_FromAccount = dt_FromAccount t, gt_ToAccount = dt_ToAccount t, gt_Amount = dt_Amount t,
      gt_Currency = dt_Currency t, gt_Status = dt_Status t, gt_CreatedAt = dt_CreatedAt t,
      gt_UpdatedAt = dt_UpdatedAt t\<rparr>"

lemma list_transactions_trip:
  "Gw_ToListTransactionsDomain (ToListTransactionsProto (Some resp)) =
     Some \<lparr>gl_Transactions = map Gw_transaction_of (ls_Transactions resp), gl_NextPageToken = ls_NextPageToken resp\<rparr>"
  by (simp add: Gw_ToListTransactionsDomain_def ToListTransactionsProto_def List.map_filter_def comp_def
      Gw_ToTransactionDomain_def ToTransactionProto_def Gw_transaction_of_def)

lemma list_request_trip:
  assumes "fits_signed 16 p" and "fits_signed 8 s"
  shows "ToListTransactionsDomain (Some (Gw_ToListTransactionsProto acc (to_int32 p) (to_int8 s))) =
    Some \<lparr>lr_AccountID = acc, lr_Page = p, lr_PageSize = s\<rparr>"
proof -
  have f: "fits_signed 32 p" "fits_signed 64 p" "fits_signed 32 s"
    using fits_signed_mono [OF assms(1), of 32] fits_signed_mono [OF assms(1), of 64]
      fits_signed_mono [OF assms(2), of 32] by simp_all
  then show ?thesis using assms
    by (simp add: ToListTransactionsDomain_def Gw_ToListTransactionsProto_def Atoi_def ParseInt_Itoa wrap_signed_id)
qed

text \<open>A listing goes through unchanged: the page and the page size a client writes in decimal, within
  16 and 8 bits, are the ones the wallet service is asked for, and the client is sent exactly the
  transactions and the next page the wallet service returned, whatever user it is.\<close>

theorem gateway_listing:
  assumes "takes r ''GET'' ''/wallet/transactions''" and "admitted g r" and "gw_rpc g = IoOk"
    and "query_Get (hr_Query r) ''accountId'' = acc" and "acc \<noteq> []"
    and "query_Get (hr_Query r) ''page'' = Itoa p" and "fits_signed 16 p"
    and "query_Get (hr_Query r) ''pageSize'' = Itoa s" and "fits_signed 8 s"
  shows "ServeHTTP g r w =
    (case Svc_ListTransactions (gw_db g) \<lparr>lr_AccountID = acc, lr_Page = p, lr_PageSize = s\<rparr> (w_db w) of
       (Inl err, db) \<Rightarrow> (WriteError 400 (JStr ''Failed to retrieve transactions, reason: %v''), w\<lparr>w_db := db\<rparr>)
     | (Inr resp, db) \<Rightarrow>
         (write_json None 200 (encode_ListTransactionsResponse (map Gw_transaction_of (ls_Transactions resp))
            (ls_NextPageToken resp)), w\<lparr>w_db := db\<rparr>))"
proof -
  have "ServeHTTP g r w = HandleListTransactions g r w"
    using assms(1,2) by (simp add: takes_def ServeHTTP_def routes_def AuthorizeUser_eq)
  moreover have "Itoa p \<noteq> []" by (simp add: Itoa_def)
  ultimately show ?thesis
    using assms(3-9) list_request_trip [OF assms(7,9), of acc]
    by (simp add: HandleListTransactions_def ConvertStringToInt_def ParseInt_Itoa Gw_ListTransactions_def rpc_def
        op_simps on_db_eq Grpc_ListTransactions_def list_transactions_trip Let_def split: prod.splits sum.splits)
qed

section \<open>Registration and login\<close>

lemma register_passed:
  assumes "Grpc_RegisterUser (gw_auth g) (gw_newId g) (the (Gw_ToRegisterUserProto (Some user))) w = (Inr resp, w')"
    and "gw_rpc g = IoOk"
  shows "Gw_RegisterUser g user w = (Inr (Gw_ToRegisterUserAuthDomain resp), w')"
proof -
  let ?u = "User_zero\<lparr>us_ID := gu_ID user, us_Name := gu_Name user, us_Username := gu_Username user,
     us_Email := gu_Email user, us_Password := gu_Password user\<rparr>"
  have "fst (ValidateUser ?u) = None"
    using assms(1) by (auto simp: Grpc_RegisterUser_def ToRegisterUserDomain_def Gw_ToRegisterUserProto_def
        RegisterUser_def split: prod.splits sum.splits option.splits)
  then have "gu_Username user \<noteq> []" "8 \<le> length (gu_Password user)"
    by (auto simp: ValidateUser_def validatePassword_def Let_def TrimSpace_def split: if_splits)
  moreover have "rpc g (Grpc_RegisterUser (gw_auth g) (gw_newId g) (the (Gw_ToRegisterUserProto (Some user)))) w = (Inr resp, w')"
    using assms by (simp add: rpc_Inr)
  ultimately show ?thesis by (auto simp: Gw_RegisterUser_def Gw_ToRegisterUserProto_def)
qed

text \<open>The gateway checks the credentials of a registration only after it has called the auth
  service; still no user is created behind an error of these checks: whenever the auth service
  accepted the registration, the checks pass and the gateway returns its answer.\<close>

theorem late_checks_are_redundant:
  assumes "Grpc_RegisterUser (gw_auth g) (gw_newId g) (the (Gw_ToRegisterUserProto (Some user))) w = (Inr resp, w')"
    and "gw_rpc g = IoOk"
  shows "Gw_RegisterUser g user w = (Inr (Gw_ToRegisterUserAuthDomain resp), w')"
  by (rule register_passed [OF assms])

text \<open>The access token of a session, and the user it is for.\<close>

abbreviation session_token :: "'r auth_env \<Rightarrow> User \<Rightarrow> string result" where
  "session_token a u \<equiv> GenerateAccessToken (ae_jwt a) (ae_os a) (ae_clock a) (Some u)"

lemma generated_token:
  "generateSessionTokens a u = Inr tokens \<Longrightarrow> session_token a u = Inr (ut_SessionToken tokens)"
  by (auto simp: generateSessionTokens_def split: sum.splits)

lemma register_token:
  assumes "RegisterUser a newId user w = (Inr r, w')"
  shows "\<exists>hashed. session_token a ((snd (ValidateUser user))\<lparr>us_ID := newId, us_Password := hashed\<rparr>) = Inr (ar_AccessToken r)"
  using assms
  by (auto simp: RegisterUser_def Let_def split: option.splits sum.splits prod.splits)
    (metis generated_token)

lemma login_token:
  assumes "LoginUser a newId username password w = (Inr r, w')"
  shows "\<exists>name mail. session_token a \<lparr>us_ID = ar_UserId r, us_Name = [], us_Username = name, us_Email = mail,
    us_Password = [], us_CreatedAt = zero_time, us_UpdatedAt = zero_time\<rparr> = Inr (ar_AccessToken r)"
  using assms
  by (auto simp: LoginUser_def Let_def split: option.splits sum.splits prod.splits if_splits)
    (metis generated_token)+

lemma issued_token:
  assumes laws: "jwt_laws (gw_jwt g)" and lib: "ae_jwt a = gw_jwt g" and key: "jwtSecret (gw_os g) = jwtSecret (ae_os a)"
    and tok: "session_token a u = Inr token"
    and time: "gw_now g < 1000000 * NumericDate (ae_clock a + session_accessTokenTTL (ae_os a))"
    and header: "hr_Header r ''Authorization'' = ''Bearer '' @ token"
  shows "bearer_user g r = Some (us_ID u)"
proof -
  let ?c = "claims_of u (ae_clock a) (session_accessTokenTTL (ae_os a))"
  have "jw_SignedString (gw_jwt g) (jwtSecret (ae_os a)) ?c = Inr token"
    using jwt_laws.access_token_signed [OF laws] tok lib by simp
  then have "jw_ParseWithClaims (gw_jwt g) (hmac_keyfunc (gw_os g)) (gw_now g) token = Inr (?c, True)"
    using time key by (intro jwt_laws.parse_signed [OF laws]) (simp_all add: hmac_keyfunc_def claims_of_def)
  then show ?thesis using header
    by (simp add: bearer_user_def HasPrefix_def TrimPrefix_def ValidateAccessToken_def claims_of_def)
qed

lemma Gw_RegisterUser_ok:
  assumes "Gw_RegisterUser g user w = (Inr (Some auth), w')"
  shows "\<exists>resp. RegisterUser (gw_auth g) (gw_newId g) (User_zero\<lparr>us_ID := gu_ID user, us_Name := gu_Name user,
      us_Username := gu_Username user, us_Email := gu_Email user, us_Password := gu_Password user\<rparr>) w = (Inr resp, w')
    \<and> ar_AccessToken resp = gx_AccessToken auth"
  using assms
  by (auto simp: Gw_RegisterUser_def Gw_ToRegisterUserProto_def Grpc_RegisterUser_def ToRegisterUserDomain_def
      ToRegisterUserProto_def Gw_ToRegisterUserAuthDomain_def rpc_Inr Let_def
      split: prod.splits sum.splits if_splits)

lemma Gw_LoginUser_ok:
  assumes "Gw_LoginUser g user w = (Inr (Some auth), w')"
  shows "\<exists>resp. LoginUser (gw_auth g) (gw_newId g) (gu_Username user) (gu_Password user) w = (Inr resp, w')
    \<and> ar_AccessToken resp = gx_AccessToken auth"
  using assms
  by (auto simp: Gw_LoginUser_def Gw_ToLoginUserProto_def Grpc_LoginUser_def ToLoginUserDomain_def
      ToLoginUserProto_def Gw_ToLoginUserDomain_def rpc_Inr Let_def
      split: prod.splits sum.splits if_splits)

lemma register_reply:
  assumes "HandleUserRegister g r w = (write_json app_json 200 (Some (encode_AuthenticateUserResponse status token)), w')"
  shows "\<exists>u \<in> set (users (w_db w')). \<exists>name t. decode_object (decode_string ''username'' []) (hr_Body r) = Inr name \<and>
    um_Username u = TrimSpace name \<and> us_ID t = um_ID u \<and> session_token (gw_auth g) t = Inr token"
proof -
  obtain req where req: "decode_object decode_CreateUserRequest (hr_Body r) = Inr req"
    using assms by (auto simp: HandleUserRegister_def WriteError_def write_json_def split: sum.splits)
  let ?u = "User_zero\<lparr>us_Name := cu_Name req, us_Username := cu_Username req, us_Email := cu_Email req,
     us_Password := cu_Password req\<rparr>"
  have name: "decode_object (decode_string ''username'' []) (hr_Body r) = Inr (cu_Username req)"
    using req by (auto simp: decode_object_def decode_CreateUserRequest_def and_then_Inr split: option.splits json.splits)
  have "\<exists>resp. RegisterUser (gw_auth g) (gw_newId g) ?u w = (Inr resp, w') \<and> ar_AccessToken resp = token"
    using assms req Gw_RegisterUser_ok [of g "Gw_User_zero\<lparr>gu_Name := cu_Name req, gu_Username := cu_Username req,
        gu_Email := cu_Email req, gu_Password := cu_Password req\<rparr>" w _ w']
    by (auto simp: HandleUserRegister_def WriteError_def write_json_def encode_AuthenticateUserResponse_def
        Gw_User_zero_def User_zero_def split: sum.splits prod.splits option.splits)
  then obtain resp where resp: "RegisterUser (gw_auth g) (gw_newId g) ?u w = (Inr resp, w')" "ar_AccessToken resp = token"
    by blast
  obtain hashed where tok: "session_token (gw_auth g)
      ((snd (ValidateUser ?u))\<lparr>us_ID := gw_newId g, us_Password := hashed\<rparr>) = Inr token"
    using register_token [OF resp(1)] resp(2) by auto
  obtain u where u: "u \<in> set (users (w_db w'))" "um_Username u = TrimSpace (cu_Username req)" "um_ID u = gw_newId g"
    using register_ok [OF resp(1)] by fastforce
  let ?t = "(snd (ValidateUser ?u))\<lparr>us_ID := gw_newId g, us_Password := hashed\<rparr>"
  show ?thesis
    using tok u name by (intro bexI [of _ u] exI [of _ "cu_Username req"] exI [of _ ?t] conjI) simp_all
qed

lemma login_reply:
  assumes "HandleUserLogin g r w = (write_json app_json 200 (Some (encode_AuthenticateUserResponse status token)), w')"
  shows "\<exists>u \<in> set (users (w_db w')). \<exists>name t. decode_object (decode_string ''username'' []) (hr_Body r) = Inr name \<and>
    um_Username u = name \<and> us_ID t = um_ID u \<and> session_token (gw_auth g) t = Inr token"
proof -
  obtain req where req: "decode_object decode_LoginUserRequest (hr_Body r) = Inr req"
    using assms by (auto simp: HandleUserLogin_def WriteError_def write_json_def split: sum.splits)
  have name: "decode_object (decode_string ''username'' []) (hr_Body r) = Inr (lu_Username req)"
    using req by (auto simp: decode_object_def decode_LoginUserRequest_def and_then_Inr split: option.splits json.splits)
  have "\<exists>resp. LoginUser (gw_auth g) (gw_newId g) (lu_Username req) (lu_Password req) w = (Inr resp, w') \<and>
      ar_AccessToken resp = token"
    using assms req Gw_LoginUser_ok [of g "Gw_User_zero\<lparr>gu_Username := lu_Username req, gu_Password := lu_Password req\<rparr>" w _ w']
    by (auto simp: HandleUserLogin_def WriteError_def write_json_def encode_AuthenticateUserResponse_def
        split: sum.splits prod.splits option.splits)
  then obtain resp where resp: "LoginUser (gw_auth g) (gw_newId g) (lu_Username req) (lu_Password req) w = (Inr resp, w')"
    "ar_AccessToken resp = token" by blast
  obtain n m where tok: "session_token (gw_auth g) \<lparr>us_ID = ar_UserId resp, us_Name = [], us_Username = n, us_Email = m,
      us_Password = [], us_CreatedAt = zero_time, us_UpdatedAt = zero_time\<rparr> = Inr token"
    using login_token [OF resp(1)] resp(2) by auto
  obtain u where u: "u \<in> set (users (w_db w))" "um_Username u = lu_Username req" "ar_UserId resp = um_ID u"
    using login_ok [OF resp(1)] by (auto dest: find_SomeD)
  have "users (w_db w') = users (w_db w)"
    using login_adds [of "gw_newId g" w "gw_auth g" "lu_Username req" "lu_Password req"] resp(1)
    by (auto simp: adds_token_def sql_insert_token_def split: option.splits)
  with tok u name show ?thesis
    by (intro bexI [of _ u] exI [of _ "lu_Username req"] exI [of _ "\<lparr>us_ID = ar_UserId resp, us_Name = [],
      us_Username = n, us_Email = m, us_Password = [], us_CreatedAt = zero_time, us_UpdatedAt = zero_time\<rparr>"] conjI)
      simp_all
qed

text \<open>No other route answers with a token.\<close>

definition is_session :: "http_reply \<Rightarrow> bool" where
  "is_session x \<longleftrightarrow> (\<exists>status token. x = write_json app_json 200 (Some (encode_AuthenticateUserResponse status token)))"

lemma no_session:
  "s \<noteq> 200 \<Longrightarrow> \<not> is_session (WriteError s j)" "\<not> is_session unauthorized" "\<not> is_session (text_reply n m)"
  "\<not> is_session Panic" "\<not> is_session ProcessExit" "\<not> is_session (write_json None n v)"
  "\<not> is_session (write_json c n (Some (JObj [x])))" "\<not> is_session (write_json c n (Some (JObj [x, y, z])))"
  "\<not> is_session (write_json c n (Some (JObj [x, y, z, u])))" "\<not> is_session (write_json c n (encode_FundsResponse t))"
  by (auto simp: is_session_def write_json_def WriteError_def unauthorized_def text_reply_def
      encode_AuthenticateUserResponse_def encode_FundsResponse_def split: option.splits)

lemma handlers_no_session:
  "\<not> is_session (fst (HandleRefreshToken r w))" "\<not> is_session (fst (HandleAccountCreate g r w))"
  "\<not> is_session (fst (HandleAccountUpdate r w))" "\<not> is_session (fst (HandleDeposit g r w))"
  "\<not> is_session (fst (HandleWithdraw g r w))" "\<not> is_session (fst (HandleTransferFunds g r w))"
  "\<not> is_session (fst (HandleGetBalance g r w))" "\<not> is_session (fst (HandleListTransactions g r w))"
  "\<not> is_session (fst (HandleHealthLiveness r w))" "\<not> is_session (fst (HandleHealthReadiness r w))"
  by (auto simp: HandleRefreshToken_def HandleAccountCreate_def HandleAccountUpdate_def HandleDeposit_def
      HandleWithdraw_def HandleTransferFunds_def HandleGetBalance_def HandleListTransactions_def
      HandleHealthLiveness_def HandleHealthReadiness_def funds_reply_def Let_def no_session
      encode_RefreshTokenResponse_def encode_CreateAccountResponse_def encode_UpdateAccountResponse_def
      encode_GetBalanceResponse_def split: prod.splits sum.splits option.splits)

lemma session_reply:
  assumes "is_session (fst (ServeHTTP g r w))"
  shows "ServeHTTP g r w = HandleUserRegister g r w \<or> ServeHTTP g r w = HandleUserLogin g r w"
  using assms
  by (cases rule: ServeHTTP_cases [of g r w])
    (simp_all add: AuthorizeUser_eq handlers_no_session no_session split: if_splits)

text \<open>C19. The token a client gets from a registration or a login identifies exactly the user who
  registered or logged in: as long as the gateway and the auth service share the signing key and
  the token has not expired, a request that carries it is authenticated as the user with the
  name that was sent, who is in the database.\<close>

theorem session_token_identifies:
  assumes laws: "jwt_laws (gw_jwt g)" and lib: "ae_jwt (gw_auth g0) = gw_jwt g"
    and key: "jwtSecret (gw_os g) = jwtSecret (ae_os (gw_auth g0))"
    and reply: "ServeHTTP g0 r0 w =
      (write_json app_json 200 (Some (encode_AuthenticateUserResponse status token)), w')"
    and time: "gw_now g < 1000000 *
      NumericDate (ae_clock (gw_auth g0) + session_accessTokenTTL (ae_os (gw_auth g0)))"
    and header: "hr_Header r ''Authorization'' = ''Bearer '' @ token"
  shows "\<exists>u \<in> set (users (w_db w')). \<exists>name.
    decode_object (decode_string ''username'' []) (hr_Body r0) = Inr name \<and>
    (um_Username u = name \<or> um_Username u = TrimSpace name) \<and> bearer_user g r = Some (um_ID u)"
proof -
  have "is_session (fst (ServeHTTP g0 r0 w))"
    unfolding reply is_session_def by auto
  from session_reply [OF this] reply obtain u name t where u: "u \<in> set (users (w_db w'))"
    "decode_object (decode_string ''username'' []) (hr_Body r0) = Inr name"
    "um_Username u = name \<or> um_Username u = TrimSpace name"
    and t: "us_ID t = um_ID u" "session_token (gw_auth g0) t = Inr token"
    using register_reply [of g0 r0 w status token w'] login_reply [of g0 r0 w status token w'] by metis
  from issued_token [OF laws lib key t(2) time header] t(1) u show ?thesis by auto
qed

section \<open>Whose money\<close>

lemma status_update_user:
  "w_db (snd (UpdateTransactionStatus R e tid uid acc s w)) = w_db (snd (UpdateTransactionStatus R e tid uid' acc s w))"
  by (simp add: UpdateTransactionStatus_def on_db_eq on_ch_eq Let_def split: sum.splits)

text \<open>C40. A transfer does not look at the user it is made for: with any two users, owner of the account
  or not, it reports the same result and leaves the same database. Together with the gateway,
  which only checks that the user is who he says he is, any registered user can transfer the money
  of any account; a withdrawal compares the owner.\<close>

theorem transfer_ignores_owner:
  "fst (transfer R e tid uid fr to cur amt w) = fst (transfer R e tid uid' fr to cur amt w) \<and>
   w_db (snd (transfer R e tid uid fr to cur amt w)) = w_db (snd (transfer R e tid uid' fr to cur amt w))"
  using status_update_user [of R e tid uid fr _ _ uid']
  by (auto simp: transfer_def split_beta split: sum.splits)

section \<open>Witnesses\<close>

definition sample_gw_user :: Gw_User where
  "sample_gw_user = Gw_User_zero\<lparr>gu_Name := ''Ann'', gu_Username := ''ann_1'', gu_Email := ''Ann@mail.com '',
     gu_Password := ''Secret-12''\<rparr>"

definition register_http :: http_request where
  "register_http = sample_http ''POST'' ''/user/register'' [] [] (Some (JObj [(''name'', JStr ''Ann''),
     (''username'', JStr ''ann_1''), (''email'', JStr ''Ann@mail.com ''), (''password'', JStr ''Secret-12'')]))"

lemma sample_grpc_register:
  "\<exists>token w'. Grpc_RegisterUser (gw_auth (sample_gateway t)) (gw_newId (sample_gateway t))
     (the (Gw_ToRegisterUserProto (Some sample_gw_user))) sample =
       (Inr (Some \<lparr>pg_RespId = ''u3'', pg_AccessToken = token\<rparr>), w')"
proof -
  obtain r w' where r: "RegisterUser sample_auth ''u3'' sample_user sample = (Inr r, w')"
    using sample_registered by blast
  moreover have "ar_UserId r = ''u3''" using register_ok [OF r] by blast
  ultimately show ?thesis
    by (simp add: Grpc_RegisterUser_def ToRegisterUserDomain_def ToRegisterUserProto_def Gw_ToRegisterUserProto_def
        sample_gw_user_def sample_user_def Gw_User_zero_def User_zero_def sample_gateway_def)
qed

theorem late_checks_are_redundant_witness:
  "\<exists>auth w'. Gw_RegisterUser (sample_gateway 0) sample_gw_user sample = (Inr auth, w') \<and>
     map_option gx_ID auth = Some ''u3''"
proof -
  obtain token w' where "Grpc_RegisterUser (gw_auth (sample_gateway 0)) (gw_newId (sample_gateway 0))
     (the (Gw_ToRegisterUserProto (Some sample_gw_user))) sample =
       (Inr (Some \<lparr>pg_RespId = ''u3'', pg_AccessToken = token\<rparr>), w')"
    using sample_grpc_register by blast
  from late_checks_are_redundant [OF this] show ?thesis
    by (simp add: sample_gateway_def Gw_ToRegisterUserAuthDomain_def)
qed

lemma register_http_ok:
  "\<exists>token w'. ServeHTTP (sample_gateway 0) register_http sample =
     (write_json app_json 200 (Some (encode_AuthenticateUserResponse ''user registered'' token)), w')"
proof -
  obtain token w' where "Grpc_RegisterUser (gw_auth (sample_gateway 0)) (gw_newId (sample_gateway 0))
     (the (Gw_ToRegisterUserProto (Some sample_gw_user))) sample =
       (Inr (Some \<lparr>pg_RespId = ''u3'', pg_AccessToken = token\<rparr>), w')"
    using sample_grpc_register by blast
  note reg = register_passed [OF this]
  have body: "decode_object decode_CreateUserRequest (hr_Body register_http) =
      Inr \<lparr>cu_Name = ''Ann'', cu_Username = ''ann_1'', cu_Email = ''Ann@mail.com '', cu_Password = ''Secret-12''\<rparr>"
    by code_simp
  have "ServeHTTP (sample_gateway 0) register_http sample = HandleUserRegister (sample_gateway 0) register_http sample"
    by (simp add: ServeHTTP_def routes_def register_http_def sample_http_def method_matches_def)
  with reg show ?thesis
    by (auto simp: HandleUserRegister_def body sample_gw_user_def Gw_ToRegisterUserAuthDomain_def sample_gateway_def)
qed

theorem session_token_identifies_witness:
  "\<exists>token w'. ServeHTTP (sample_gateway 0) register_http sample =
       (write_json app_json 200 (Some (encode_AuthenticateUserResponse ''user registered'' token)), w') \<and>
     (\<exists>u \<in> set (users (w_db w')). um_Username u = ''ann_1'' \<and>
        bearer_user (sample_gateway (seconds 600)) (sample_http ''GET'' ''/wallet/balance'' (''Bearer '' @ token) [] None)
          = Some (um_ID u))"
proof -
  obtain token w' where reply: "ServeHTTP (sample_gateway 0) register_http sample =
      (write_json app_json 200 (Some (encode_AuthenticateUserResponse ''user registered'' token)), w')"
    using register_http_ok by blast
  have name: "decode_object (decode_string ''username'' []) (hr_Body register_http) = Inr ''ann_1''"
    "TrimSpace ''ann_1'' = ''ann_1''" "session_accessTokenTTL (\<lambda>_. None) = seconds 900" by code_simp+
  have "\<exists>u \<in> set (users (w_db w')). \<exists>name.
    decode_object (decode_string ''username'' []) (hr_Body register_http) = Inr name \<and>
    (um_Username u = name \<or> um_Username u = TrimSpace name) \<and>
    bearer_user (sample_gateway (seconds 600)) (sample_http ''GET'' ''/wallet/balance'' (''Bearer '' @ token) [] None)
      = Some (um_ID u)"
    by (rule session_token_identifies [OF _ _ _ reply])
      (simp_all add: sample_gateway_def sample_auth_def sample_http_def jref.jwt_laws_axioms name seconds_def NumericDate_def)
  with reply name show ?thesis by auto
qed

definition list_http :: "string \<Rightarrow> http_request" where
  "list_http token = sample_http ''GET'' ''/wallet/transactions'' (''Bearer '' @ token)
     [(''userId'', ''u2''), (''accountId'', ''a1''), (''page'', ''0''), (''pageSize'', ''10'')] None"

theorem gateway_listing_witness:
  "\<exists>token (resp :: ListTransactionsResponse) w'. ServeHTTP (sample_gateway 0) (list_http token) sample =
       (write_json None 200 (encode_ListTransactionsResponse (map Gw_transaction_of (ls_Transactions resp))
          (ls_NextPageToken resp)), w')
     \<and> map dt_ID (ls_Transactions resp) = [''t0'']"
proof -
  let ?u = "User_zero\<lparr>us_ID := ''u2''\<rparr>" and ?g = "sample_gateway 0"
  let ?req = "\<lparr>lr_AccountID = ''a1'', lr_Page = 0, lr_PageSize = 10\<rparr>"
  obtain token where "session_token sample_auth ?u = Inr token"
    by (simp add: GenerateAccessToken_def sample_auth_def jwt_ref_def)
  then have "bearer_user ?g (list_http token) = Some (us_ID ?u)"
    using jref.jwt_laws_axioms
    by (intro issued_token [where a = sample_auth and token = token])
      (simp_all add: sample_gateway_def sample_auth_def list_http_def sample_http_def session_accessTokenTTL_def
        GetInt_def minutes_def wrap_signed_def NumericDate_def)
  then have adm: "admitted ?g (list_http token)"
    by (simp add: admitted_def list_http_def sample_http_def query_Get_def)
  have "case fst (Svc_ListTransactions (gw_db ?g) ?req (w_db sample)) of
      Inl err \<Rightarrow> False | Inr resp \<Rightarrow> map dt_ID (ls_Transactions resp) = [''t0'']" by code_simp
  then obtain resp db where r: "Svc_ListTransactions (gw_db ?g) ?req (w_db sample) = (Inr resp, db)"
    "map dt_ID (ls_Transactions resp) = [''t0'']"
    by (cases "Svc_ListTransactions (gw_db ?g) ?req (w_db sample)") (auto split: sum.splits)
  have "Itoa 0 = ''0''" "Itoa 10 = ''10''"
    by code_simp+
  then have "ServeHTTP ?g (list_http token) sample =
      (case Svc_ListTransactions (gw_db ?g) ?req (w_db sample) of
         (Inl err, db) \<Rightarrow> (WriteError 400 (JStr ''Failed to retrieve transactions, reason: %v''), sample\<lparr>w_db := db\<rparr>)
       | (Inr resp, db) \<Rightarrow> (write_json None 200 (encode_ListTransactionsResponse (map Gw_transaction_of (ls_Transactions resp))
            (ls_NextPageToken resp)), sample\<lparr>w_db := db\<rparr>))"
    by (intro gateway_listing [OF _ adm])
      (simp_all add: takes_def method_matches_def list_http_def sample_http_def query_Get_def sample_gateway_def fits_signed_def)
  then show ?thesis
    using r by (intro exI [of _ token] exI [of _ resp] exI [of _ "sample\<lparr>w_db := db\<rparr>"] conjI) simp_all
qed

end
