(* ===== verification/Lifecycle.thy ===== *)
theory Lifecycle
  imports Connections
begin

text \<open>
  The \<^verbatim>\<open>main\<close> functions: how the wallet service (\<^verbatim>\<open>wallet-service/cmd/main.go\<close>), the auth
  service (\<^verbatim>\<open>auth-service/cmd/main.go\<close>) and the gateway (\<^verbatim>\<open>api-gateway/cmd/main.go\<close> with
  \<^verbatim>\<open>internal/infra/grpc/grpc.go\<close>) come up, and what they give back when they are told to stop;
  and the script \<^verbatim>\<open>scripts/topic/main.go\<close> that prepares the broker. What a service does between
  its start and the signal is the subject of the other theories and here one function on the
  network. \<^verbatim>\<open>LogFatal\<close> ends the process by \<^verbatim>\<open>os.Exit(1)\<close>, which runs no deferred call.
\<close>

datatype exit = Returned | Fatal string error

definition exit_code :: "exit \<Rightarrow> int" where
  "exit_code x = (case x of Returned \<Rightarrow> 0 | Fatal _ _ \<Rightarrow> 1)"

type_synonym 'a start = "(string \<times> error) + 'a"

text \<open>\<^verbatim>\<open>strings.Split\<close> with a separator of one character.\<close>

fun Split :: "string \<Rightarrow> char \<Rightarrow> string list" where
  "Split [] sep = [[]]"
| "Split (c # cs) sep =
     (if c = sep then [] # Split cs sep
      else case Split cs sep of [] \<Rightarrow> [[c]] | x # xs \<Rightarrow> (c # x) # xs)"

record startup_env =
  se_env :: os_env
  se_pgctx :: "int \<Rightarrow> error option"
  se_kafkactx :: "int \<Rightarrow> error option"

section \<open>Postgres and Redis, the same lines in both services\<close>

record stores =
  st_dbInstance :: PostgreSqlInstance
  st_dbClient :: DBClient
  st_redisInstance :: RedisInstance
  st_cacheClient :: CacheClient

definition connect_stores :: "'n runtime \<Rightarrow> startup_env \<Rightarrow> 'n \<Rightarrow> stores start \<times> 'n" where
  "connect_stores R se n =
     (case Pg_Connect R (se_env se) (se_pgctx se) (NewPostgreSqlInstance, n) of
        (Inl err, _, n) \<Rightarrow> (Inl (''An error has occurred when connecting to postgres: %v'', err), n)
      | (Inr _, dbInstance, n) \<Rightarrow>
          (case NewDBClient dbInstance of
             Inl err \<Rightarrow> (Inl (''An error has occurred when building the postgres client: %v'', err), n)
           | Inr dbClient \<Rightarrow>
               (case Redis_Connect R (se_env se) (NewRedisInstance, n) of
                  (Inl err, _, n) \<Rightarrow> (Inl (''An error has occurred when connecting to redis: %v'', err), n)
                | (Inr _, redisInstance, n) \<Rightarrow>
                    (case NewCacheClient redisInstance of
                       Inl err \<Rightarrow>
                         (Inl (''An error has occurred when building the redis cache client: %v'', err), n)
                     | Inr cacheClient \<Rightarrow>
                         (Inr \<lparr>st_dbInstance = dbInstance, st_dbClient = dbClient,
                               st_redisInstance = redisInstance, st_cacheClient = cacheClient\<rparr>, n)))))"

definition close_stores :: "'n runtime \<Rightarrow> stores \<Rightarrow> 'n \<Rightarrow> 'n" where
  "close_stores R st n =
     (let (_, n) = Redis_Close R (st_redisInstance st) n;
          (_, n) = Pg_Close R (st_dbInstance st) n
      in n)"

text \<open>A graceful stop that takes longer than thirty seconds is followed by a forced one.\<close>

definition stop_server :: "'n runtime \<Rightarrow> nat \<Rightarrow> 'n \<Rightarrow> 'n" where
  "stop_server R lis n =
     (let (stopped, n) = rt_GracefulStop R lis n in if stopped then n else rt_Stop R lis n)"

section \<open>The wallet service\<close>

definition outboxBatchSize :: int where
  "outboxBatchSize = 100"

definition walletEventsTopic :: "os_env \<Rightarrow> string" where
  "walletEventsTopic env = GetString env ''KAFKA_WALLET_EVENTS_TOPIC'' ''wallet.events.v1''"

definition kafkaBrokers :: "os_env \<Rightarrow> string list" where
  "kafkaBrokers env = Split (GetString env ''KAFKA_BROKERS'' ''localhost:9092'') (CHR '','')"

definition NewProducer :: "'n KafkaConnection \<Rightarrow> string \<Rightarrow> 'n Producer" where
  "NewProducer messaging topic = \<lparr>pr_messaging = KafkaMessaging.truncate messaging, pr_topic = topic\<rparr>"

definition NewOutboxRelayService :: "'r redis_client \<Rightarrow> 'k Producer \<Rightarrow> string \<Rightarrow> int \<Rightarrow> os_env \<Rightarrow>
    ('r, 'k) OutboxRelay" where
  "NewOutboxRelayService redis publisher topic batchSize env =
     \<lparr>or_redis = redis, or_publisher = publisher, or_topic = topic, or_batchSize = batchSize,
      or_osenv = env\<rparr>"

record 'n KafkaConsumer =
  co_messaging :: "'n KafkaConnection"
  co_topic :: string

definition NewConsumer :: "'n KafkaConnection \<Rightarrow> string \<Rightarrow> 'n KafkaConsumer" where
  "NewConsumer messaging topic = \<lparr>co_messaging = messaging, co_topic = topic\<rparr>"

definition Consume :: "'n runtime \<Rightarrow> ('n KafkaConsumer \<times> 'n, unit) operation" where
  "Consume R = (\<lambda>(c, n).
     let (r, messaging, n) = Consume_start R (co_topic c) (co_messaging c, n)
     in (r, c\<lparr>co_messaging := messaging\<rparr>, n))"

record ('r, 'n) wallet_service =
  ws_lis :: nat
  ws_stores :: stores
  ws_consumer :: "'n KafkaConsumer"
  ws_relay :: "('r, 'n) OutboxRelay"
  ws_reflection :: bool

text \<open>The Redis client of the repository is the driver's, a function of the handle.\<close>

definition wallet_start :: "'n runtime \<Rightarrow> (nat \<Rightarrow> 'r redis_client) \<Rightarrow> startup_env \<Rightarrow> 'n \<Rightarrow>
    ('r, 'n) wallet_service start \<times> 'n" where
  "wallet_start R redis se n =
     (let env = se_env se; topic = walletEventsTopic env in
      case rt_Listen R (GetString env ''GRPC_ADDR_WALLET'' '':8082'') n of
        (Inl err, n) \<Rightarrow>
          (Inl (''An error has occurred when starting a Wallet Service gRPC server: %v'', err), n)
      | (Inr lis, n) \<Rightarrow>
          (case connect_stores R se n of
             (Inl fatal, n) \<Rightarrow> (Inl fatal, n)
           | (Inr st, n) \<Rightarrow>
               (case NewKafkaConnection (GetString env ''KAFKA_CONSUMER_GROUP'' ''wallet-service'')
                       (kafkaBrokers env) of
                  Inl err \<Rightarrow>
                    (Inl (''An error has occurred when building the kafka messaging client: %v'', err), n)
                | Inr messaging \<Rightarrow>
                    (case Kafka_Connect R (se_kafkactx se) (messaging, n) of
                       (Inl err, _, n) \<Rightarrow>
                         (Inl (''An error has occurred when connecting to kafka: %v'', err), n)
                     | (Inr _, messaging, n) \<Rightarrow>
                         (let producer = NewProducer messaging topic;
                              relay = NewOutboxRelayService (redis (cc_Client (st_cacheClient st)))
                                        producer topic outboxBatchSize env
                          in case Consume R (NewConsumer messaging topic, n) of
                               (Inl err, _, n) \<Rightarrow>
                                 (Inl (''An error occurred when starting the kafka consumer: %v'', err), n)
                             | (Inr _, consumer, n) \<Rightarrow>
                                 (Inr \<lparr>ws_lis = lis, ws_stores = st, ws_consumer = consumer, ws_relay = relay,
                                       ws_reflection = (GetString env ''ENV'' ''development'' = ''development'')\<rparr>,
                                  n))))))"

text \<open>The deferred calls run in the opposite order of their \<^verbatim>\<open>defer\<close> statements.\<close>

definition wallet_shutdown :: "'n runtime \<Rightarrow> ('r, 'n) wallet_service \<Rightarrow> 'n \<Rightarrow> 'n" where
  "wallet_shutdown R ws n =
     (let n = stop_server R (ws_lis ws) n;
          (_, n) = CloseConnection R (co_messaging (ws_consumer ws)) n
      in close_stores R (ws_stores ws) n)"

definition wallet_main :: "'n runtime \<Rightarrow> (nat \<Rightarrow> 'r redis_client) \<Rightarrow> startup_env \<Rightarrow>
    (('r, 'n) wallet_service \<Rightarrow> 'n \<Rightarrow> 'n) \<Rightarrow> 'n \<Rightarrow> exit \<times> 'n" where
  "wallet_main R redis se serve n =
     (case wallet_start R redis se n of
        (Inl (msg, err), n) \<Rightarrow> (Fatal msg err, n)
      | (Inr ws, n) \<Rightarrow> (Returned, wallet_shutdown R ws (serve ws n)))"

section \<open>The auth service\<close>

record auth_service =
  as_lis :: nat
  as_stores :: stores
  as_reflection :: bool

definition auth_start :: "'n runtime \<Rightarrow> startup_env \<Rightarrow> 'n \<Rightarrow> auth_service start \<times> 'n" where
  "auth_start R se n =
     (case rt_Listen R (GetString (se_env se) ''GRPC_ADDR_AUTH'' '':8081'') n of
        (Inl err, n) \<Rightarrow>
          (Inl (''An error has occurred when starting a Auth Service gRPC server: %v'', err), n)
      | (Inr lis, n) \<Rightarrow>
          (case connect_stores R se n of
             (Inl fatal, n) \<Rightarrow> (Inl fatal, n)
           | (Inr st, n) \<Rightarrow>
               (Inr \<lparr>as_lis = lis, as_stores = st,
                     as_reflection = (GetString (se_env se) ''ENV'' ''development'' = ''development'')\<rparr>, n)))"

definition auth_main :: "'n runtime \<Rightarrow> startup_env \<Rightarrow> (auth_service \<Rightarrow> 'n \<Rightarrow> 'n) \<Rightarrow> 'n \<Rightarrow> exit \<times> 'n" where
  "auth_main R se serve n =
     (case auth_start R se n of
        (Inl (msg, err), n) \<Rightarrow> (Fatal msg err, n)
      | (Inr au, n) \<Rightarrow> (Returned, close_stores R (as_stores au) (stop_server R (as_lis au) (serve au n))))"

section \<open>The gateway\<close>

record GrpcHandler =
  gh_AuthConn :: nat
  gh_WalletConn :: nat

definition NewGrpcHandler :: "'n runtime \<Rightarrow> os_env \<Rightarrow> ('n, GrpcHandler) operation" where
  "NewGrpcHandler R env n =
     (case rt_grpcNewClient R (GetString env ''AUTH_SERVICE_ADDR'' ''localhost:8081'') n of
        (Inl err, n) \<Rightarrow> (Inl err, n)
      | (Inr authConn, n) \<Rightarrow>
          (case rt_grpcNewClient R (GetString env ''WALLET_SERVICE_ADDR'' ''localhost:8082'') n of
             (Inl err, n) \<Rightarrow> (Inl err, n)
           | (Inr walletConn, n) \<Rightarrow>
               (Inr \<lparr>gh_AuthConn = authConn, gh_WalletConn = walletConn\<rparr>, n)))"

definition Grpc_Close :: "'n runtime \<Rightarrow> GrpcHandler \<Rightarrow> 'n \<Rightarrow> 'n" where
  "Grpc_Close R h n =
     (let (_, n) = rt_grpcClose R (gh_AuthConn h) n;
          (_, n) = rt_grpcClose R (gh_WalletConn h) n
      in n)"

text \<open>The HTTP server of \<^verbatim>\<open>net/http\<close>: \<^verbatim>\<open>ListenAndServe\<close> opens its listener and serves on it until the server
  fails, the signal comes, or a handler ends the process by \<^verbatim>\<open>log.Fatalf\<close>, as \<^verbatim>\<open>HandleListTransactions\<close> does. A
  shutdown that misses its ten seconds is followed by \<^verbatim>\<open>server.Close\<close>.\<close>

datatype server_end = ServerErrors error | Shutdown_signal | HandlerFatal string

record 'n http_server =
  hs_Serve :: "GrpcHandler \<Rightarrow> nat \<Rightarrow> 'n \<Rightarrow> server_end \<times> 'n"
  hs_Shutdown :: "nat \<Rightarrow> ('n, unit) operation"
  hs_Close :: "nat \<Rightarrow> 'n \<Rightarrow> 'n"

definition gateway_main :: "'n runtime \<Rightarrow> os_env \<Rightarrow> 'n http_server \<Rightarrow> 'n \<Rightarrow> exit \<times> 'n" where
  "gateway_main R env server n =
     (case NewGrpcHandler R env n of
        (Inl err, n) \<Rightarrow> (Fatal ''failed to set up grpc connections: %v'' err, n)
      | (Inr grpcHandler, n) \<Rightarrow>
          (case rt_Listen R (GetString env ''HTTP_ADDR'' '':8080'') n of
             (Inl err, n) \<Rightarrow> (Returned, Grpc_Close R grpcHandler n)
           | (Inr lis, n) \<Rightarrow>
               (case hs_Serve server grpcHandler lis n of
                  (ServerErrors err, n) \<Rightarrow> (Returned, Grpc_Close R grpcHandler n)
                | (HandlerFatal msg, n) \<Rightarrow> (Fatal msg (errorf msg), n)
                | (Shutdown_signal, n) \<Rightarrow>
                    (case hs_Shutdown server lis n of
                       (Inl err, n) \<Rightarrow> (Returned, Grpc_Close R grpcHandler (hs_Close server lis n))
                     | (Inr _, n) \<Rightarrow> (Returned, Grpc_Close R grpcHandler n)))))"

section \<open>The scripts\<close>

text \<open>\<^verbatim>\<open>scripts/topic/main.go\<close>. The admin calls of the Kafka library are a parameter.
  \<^verbatim>\<open>net.JoinHostPort\<close> brackets a host that contains a colon.\<close>

record TopicConfig =
  tc_Topic :: string
  tc_NumPartitions :: int
  tc_ReplicationFactor :: int

record 'n kafka_admin =
  ad_Dial :: "string \<Rightarrow> ('n, nat) operation"
  ad_Controller :: "nat \<Rightarrow> ('n, string \<times> int) operation"
  ad_CreateTopics :: "nat \<Rightarrow> TopicConfig list \<Rightarrow> ('n, unit) operation"
  ad_Close :: "nat \<Rightarrow> 'n \<Rightarrow> 'n"

definition JoinHostPort :: "string \<Rightarrow> string \<Rightarrow> string" where
  "JoinHostPort host port =
     (if CHR '':'' \<in> set host then ''['' @ host @ '']:'' @ port else host @ '':'' @ port)"

definition init_topics :: "string list" where
  "init_topics = [WalletEventsTopic, WalletEventsTopic @ DlqTopicSuffix]"

definition topic_attempt :: "'n kafka_admin \<Rightarrow> string \<Rightarrow> (nat option \<times> 'n, unit) operation" where
  "topic_attempt A broker = (\<lambda>(conn, n).
     case ad_Dial A broker n of
       (Inl dialErr, n) \<Rightarrow> (Inl (wrapf ''dial broker %s: %w'' dialErr), conn, n)
     | (Inr c, n) \<Rightarrow> (Inr (), Some c, n))"

definition ensure_topics :: "'n kafka_admin \<Rightarrow> os_env \<Rightarrow> nat \<Rightarrow> 'n \<Rightarrow> exit \<times> 'n" where
  "ensure_topics A env conn n =
     (case ad_Controller A conn n of
        (Inl err, n) \<Rightarrow> (Fatal ''failed to discover kafka controller: %v'' err, n)
      | (Inr (host, port), n) \<Rightarrow>
          (case ad_Dial A (JoinHostPort host (Itoa port)) n of
             (Inl err, n) \<Rightarrow> (Fatal ''failed to connect to kafka controller at %s: %v'' err, n)
           | (Inr controllerConn, n) \<Rightarrow>
               (case ad_CreateTopics A controllerConn
                       (map (\<lambda>topic. \<lparr>tc_Topic = topic,
                                       tc_NumPartitions = GetInt env ''KAFKA_TOPIC_PARTITIONS'' 3,
                                       tc_ReplicationFactor = GetInt env ''KAFKA_TOPIC_REPLICATION_FACTOR'' 1\<rparr>)
                         init_topics) n of
                  (Inl err, n) \<Rightarrow> (Fatal ''failed to create topics: %v'' err, n)
                | (Inr _, n) \<Rightarrow> (Returned, ad_Close A conn (ad_Close A controllerConn n)))))"

definition topic_main :: "'n kafka_admin \<Rightarrow> os_env \<Rightarrow> (int \<Rightarrow> error option) \<Rightarrow> 'n \<Rightarrow> exit \<times> 'n" where
  "topic_main A env ctx n =
     (case WithBackoff DefaultConfig ctx (topic_attempt A (kafkaBrokers env ! 0)) (None, n) of
        (None, _, Some conn, n) \<Rightarrow> ensure_topics A env conn n
      | (None, _, None, n) \<Rightarrow> (Fatal ''invalid memory address or nil pointer dereference'' (errorf ''panic''), n)
      | (Some err, _, _, n) \<Rightarrow> (Fatal ''failed to connect to kafka broker %s: %v'' err, n))"

text \<open>\<^verbatim>\<open>scripts/migrations/main.go\<close>, from the flags and arguments that \<^verbatim>\<open>flag.Parse\<close> found.\<close>

record 'n migrator =
  mg_Open :: "string \<Rightarrow> ('n, nat) operation"
  mg_Ping :: "nat \<Rightarrow> ('n, unit) operation"
  mg_SetDialect :: "string \<Rightarrow> unit result"
  mg_RunContext :: "string \<Rightarrow> nat \<Rightarrow> string \<Rightarrow> string list \<Rightarrow> ('n, unit) operation"
  mg_Close :: "nat \<Rightarrow> 'n \<Rightarrow> 'n"

definition migrate_command :: "string list \<Rightarrow> string \<times> string list" where
  "migrate_command rest = (case rest of [] \<Rightarrow> (''up'', []) | c # args \<Rightarrow> (c, args))"

definition migrate_main :: "'n migrator \<Rightarrow> os_env \<Rightarrow> string \<Rightarrow> string list \<Rightarrow> 'n \<Rightarrow> exit \<times> 'n" where
  "migrate_main M env dir rest n =
     (let (command, args) = migrate_command rest in
      case mg_Open M (postgresDSN env) n of
        (Inl err, n) \<Rightarrow> (Fatal ''open postgres connection: %v'' err, n)
      | (Inr db, n) \<Rightarrow>
          (case mg_Ping M db n of
             (Inl err, n) \<Rightarrow> (Fatal ''ping postgres: %v'' err, n)
           | (Inr _, n) \<Rightarrow>
               (case mg_SetDialect M ''postgres'' of
                  Inl err \<Rightarrow> (Fatal ''set goose dialect: %v'' err, n)
                | Inr _ \<Rightarrow>
                    (case mg_RunContext M command db dir args n of
                       (Inl err, n) \<Rightarrow> (Fatal ''goose %s: %v'' err, n)
                     | (Inr _, n) \<Rightarrow> (Returned, mg_Close M db n)))))"

end
