(* ===== verification/LifecycleProps.thy ===== *)
theory LifecycleProps
  imports Lifecycle Fixtures
begin

text \<open>
  What the start and the stop of the processes guarantee, for drivers that keep the contract of
  \<open>runtime_laws\<close>: a connection attempt leaks nothing, a service that started holds everything it
  needs, and a service that was told to stop gives everything back.
\<close>

lemma Split_nonempty: "Split s sep \<noteq> []"
  by (induction s) (auto split: list.splits)

lemma NewKafkaConnection_brokers:
  "NewKafkaConnection grp (kafkaBrokers env) =
     Inr \<lparr>mk_brokers = kafkaBrokers env, mk_groupID = grp, mk_writer = None, kc_writer = None, kc_readers = []\<rparr>"
  by (simp add: NewKafkaConnection_def NewKafkaMessagingInstance_def kafkaBrokers_def Split_nonempty
      KafkaMessaging.extend_def)

text \<open>What the gateway relies on of the HTTP server: serving keeps the listener open, except that the server closes
  it when it fails; a shutdown in time closes it; closing the server closes it for certain.\<close>

locale http_laws =
  fixes server :: "'n http_server" and opens :: "'n \<Rightarrow> nat set"
  assumes served: "hs_Serve server h lis m = (e, m') \<Longrightarrow>
        opens m' = (case e of ServerErrors _ \<Rightarrow> opens m - {lis} | _ \<Rightarrow> opens m)"
    and shut: "hs_Shutdown server lis m = (r, m') \<Longrightarrow>
        opens m - {lis} \<subseteq> opens m' \<and> opens m' \<subseteq> opens m \<and> (isl r \<or> lis \<notin> opens m')"
    and server_closed: "opens (hs_Close server lis m) = opens m - {lis}"
begin

text \<open>After the signal the listener is closed, in time or by force.\<close>

lemma shutdown_opens:
  assumes "hs_Shutdown server lis m = (r, m')"
  shows "opens (if isl r then hs_Close server lis m' else m') = opens m - {lis}"
  using shut [OF assms] by (auto simp: server_closed)

end

lemmas new_client_defs = NewDBClient_def NewCacheClient_def Pool_def Client_def
  NewPostgreSqlInstance_def NewRedisInstance_def

context runtime_laws
begin

lemma connect_stores_opens:
  assumes "connect_stores R se n = (r, n')"
  shows "case r of
      Inl (msg, err) \<Rightarrow> opens n \<subseteq> opens n' \<and>
        msg \<in> {''An error has occurred when connecting to postgres: %v'',
               ''An error has occurred when connecting to redis: %v''}
    | Inr st \<Rightarrow> \<exists>p c. st = \<lparr>st_dbInstance = \<lparr>pg_pool = Some p\<rparr>, st_dbClient = \<lparr>dbc_Pool = p\<rparr>,
          st_redisInstance = \<lparr>ri_client = Some c\<rparr>, st_cacheClient = \<lparr>cc_Client = c\<rparr>\<rparr>
        \<and> distinct [p, c] \<and> {p, c} \<inter> opens n = {} \<and> opens n' = opens n \<union> {p, c}"
proof -
  obtain r1 d n1 where c1: "Pg_Connect R (se_env se) (se_pgctx se) (NewPostgreSqlInstance, n) = (r1, d, n1)"
    by (metis prod_cases3)
  obtain r2 c n2 where c2: "Redis_Connect R (se_env se) (NewRedisInstance, n1) = (r2, c, n2)"
    by (metis prod_cases3)
  note facts = pg_connect_opens [OF c1] redis_connect_opens [OF c2]
  show ?thesis
  proof (cases r1)
    case (Inl e)
    with assms c1 facts(1) show ?thesis by (auto simp: connect_stores_def)
  next
    case (Inr u)
    with facts(1) obtain p where p: "d = \<lparr>pg_pool = Some p\<rparr>" "p \<notin> opens n" "opens n1 = insert p (opens n)"
      by (auto simp: NewPostgreSqlInstance_def)
    with assms c1 c2 Inr facts(2) show ?thesis
      by (cases r2) (auto simp: connect_stores_def new_client_defs)
  qed
qed

lemma close_stores_opens:
  "opens (close_stores R st n) =
     opens n - (set_option (pg_pool (st_dbInstance st)) \<union> set_option (ri_client (st_redisInstance st)))"
  by (auto simp: close_stores_def Let_def split_beta redis_close_opens pg_close_opens)

lemma stop_server_opens: "opens (stop_server R h n) = opens n - {h}"
  by (cases "rt_GracefulStop R h n") (auto simp: stop_server_def stop dest: graceful)

lemma kafka_started:
  assumes c1: "Kafka_Connect R ctx (k, n) = (Inr u, k1, n1)" and c2: "Consume_start R topic (k1, n1) = (r, k2, n2)"
  shows "\<exists>w rd. r = Inr () \<and> k1 = k\<lparr>mk_writer := Some (rt_WriteMessages R w), kc_writer := Some w\<rparr>
    \<and> k2 = k1\<lparr>kc_readers := AList.update topic rd (kc_readers k)\<rparr>
    \<and> w \<noteq> rd \<and> {w, rd} \<inter> opens n = {} \<and> opens n2 = opens n \<union> {w, rd}"
proof -
  obtain w where w: "k1 = k\<lparr>mk_writer := Some (rt_WriteMessages R w), kc_writer := Some w\<rparr>"
      "w \<notin> opens n" "opens n1 = insert w (opens n)"
    using kafka_connect_opens [OF c1] by auto
  obtain rd where rd: "r = Inr ()" "k2 = k1\<lparr>kc_readers := AList.update topic rd (kc_readers k1)\<rparr>"
      "rd \<notin> opens n1" "opens n2 = insert rd (opens n1)"
    using consume_start_opens [OF c2] by auto
  show ?thesis
    by (rule exI [of _ w], rule exI [of _ rd]) (use w rd in auto)
qed

lemma wallet_start_opens:
  assumes "wallet_start R redis se n = (r, n')"
  shows "case r of
      Inl (msg, err) \<Rightarrow> opens n \<subseteq> opens n' \<and>
        msg \<in> {''An error has occurred when starting a Wallet Service gRPC server: %v'',
               ''An error has occurred when connecting to postgres: %v'',
               ''An error has occurred when connecting to redis: %v'',
               ''An error has occurred when connecting to kafka: %v''}
    | Inr ws \<Rightarrow> \<exists>p c w rd.
          ws_stores ws = \<lparr>st_dbInstance = \<lparr>pg_pool = Some p\<rparr>, st_dbClient = \<lparr>dbc_Pool = p\<rparr>,
            st_redisInstance = \<lparr>ri_client = Some c\<rparr>, st_cacheClient = \<lparr>cc_Client = c\<rparr>\<rparr>
        \<and> kc_writer (co_messaging (ws_consumer ws)) = Some w
        \<and> kc_readers (co_messaging (ws_consumer ws)) = [(walletEventsTopic (se_env se), rd)]
        \<and> mk_writer (pr_messaging (or_publisher (ws_relay ws))) = Some (rt_WriteMessages R w)
        \<and> or_redis (ws_relay ws) = redis c \<and> or_batchSize (ws_relay ws) = 100
        \<and> pr_topic (or_publisher (ws_relay ws)) = walletEventsTopic (se_env se)
        \<and> or_topic (ws_relay ws) = walletEventsTopic (se_env se)
        \<and> co_topic (ws_consumer ws) = walletEventsTopic (se_env se)
        \<and> distinct [ws_lis ws, p, c, w, rd] \<and> {ws_lis ws, p, c, w, rd} \<inter> opens n = {}
        \<and> opens n' = opens n \<union> {ws_lis ws, p, c, w, rd}"
proof -
  let ?k = "\<lparr>mk_brokers = kafkaBrokers (se_env se),
    mk_groupID = GetString (se_env se) ''KAFKA_CONSUMER_GROUP'' ''wallet-service'',
    mk_writer = None, kc_writer = None, kc_readers = []\<rparr>"
  let ?topic = "walletEventsTopic (se_env se)"
  obtain r1 n1 where c1: "rt_Listen R (GetString (se_env se) ''GRPC_ADDR_WALLET'' '':8082'') n = (r1, n1)"
    by (metis surj_pair)
  obtain r2 n2 where c2: "connect_stores R se n1 = (r2, n2)" by (metis surj_pair)
  obtain r3 k n3 where c3: "Kafka_Connect R (se_kafkactx se) (?k, n2) = (r3, k, n3)"
    by (metis prod_cases3)
  obtain r4 k' n4 where c4: "Consume_start R ?topic (k, n3) = (r4, k', n4)"
    by (metis prod_cases3)
  note steps = wallet_start_def c1 c2 c3 c4 NewKafkaConnection_brokers Let_def
  show ?thesis
  proof (cases r1)
    case (Inl e)
    with assms lis.new_err [OF c1 [unfolded Inl]] show ?thesis by (auto simp: steps)
  next
    case (Inr h)
    note L = Inr lis.new_ok [OF c1 [unfolded Inr]]
    show ?thesis
    proof (cases r2)
      case (Inl e)
      with assms L connect_stores_opens [OF c2] show ?thesis by (cases e) (auto simp: steps)
    next
      case S: (Inr st)
      then obtain p c where st: "st = \<lparr>st_dbInstance = \<lparr>pg_pool = Some p\<rparr>, st_dbClient = \<lparr>dbc_Pool = p\<rparr>,
            st_redisInstance = \<lparr>ri_client = Some c\<rparr>, st_cacheClient = \<lparr>cc_Client = c\<rparr>\<rparr>"
          "p \<noteq> c" "{p, c} \<inter> opens n1 = {}" "opens n2 = opens n1 \<union> {p, c}"
        using connect_stores_opens [OF c2] by auto
      show ?thesis
      proof (cases r3)
        case (Inl e)
        with assms L S st kafka_connect_opens [OF c3] show ?thesis by (auto simp: steps)
      next
        case K: (Inr u)
        from kafka_started [OF c3 [unfolded K] c4] obtain w rd where k: "r4 = Inr ()"
            "k = ?k\<lparr>mk_writer := Some (rt_WriteMessages R w), kc_writer := Some w\<rparr>"
            "k' = k\<lparr>kc_readers := [(?topic, rd)]\<rparr>"
            "w \<noteq> rd" "{w, rd} \<inter> opens n2 = {}" "opens n4 = opens n2 \<union> {w, rd}"
          by auto
        have "wallet_start R redis se n = (Inr \<lparr>ws_lis = h, ws_stores = st,
            ws_consumer = \<lparr>co_messaging = k', co_topic = ?topic\<rparr>,
            ws_relay = NewOutboxRelayService (redis c) (NewProducer k ?topic) ?topic outboxBatchSize (se_env se),
            ws_reflection = (GetString (se_env se) ''ENV'' ''development'' = ''development'')\<rparr>, n4)"
          using L(1) S K k(1) by (simp add: steps Consume_def NewConsumer_def st(1))
        with assms L(2) st k show ?thesis
          by (auto simp: NewOutboxRelayService_def NewProducer_def outboxBatchSize_def KafkaMessaging.truncate_def)
      qed
    qed
  qed
qed

lemma wallet_shutdown_opens:
  "opens (wallet_shutdown R ws n) = opens n - ({ws_lis ws}
     \<union> set_option (kc_writer (co_messaging (ws_consumer ws))) \<union> snd ` set (kc_readers (co_messaging (ws_consumer ws)))
     \<union> set_option (pg_pool (st_dbInstance (ws_stores ws))) \<union> set_option (ri_client (st_redisInstance (ws_stores ws))))"
proof -
  obtain r m where c: "CloseConnection R (co_messaging (ws_consumer ws)) (stop_server R (ws_lis ws) n) = (r, m)"
    by (metis surj_pair)
  from close_connection_opens [OF c] show ?thesis
    by (auto simp: wallet_shutdown_def c close_stores_opens stop_server_opens)
qed

lemma wallet_main_opens:
  assumes "\<And>ws m. opens (serve ws m) - {ws_lis ws} = opens m - {ws_lis ws}" and "wallet_main R redis se serve n = (x, n')"
  shows "if x = Returned then opens n' = opens n else opens n \<subseteq> opens n'"
proof -
  obtain r m where c: "wallet_start R redis se n = (r, m)" by (metis surj_pair)
  have "opens (wallet_shutdown R ws (serve ws m)) = opens (wallet_shutdown R ws m)" for ws m
    unfolding wallet_shutdown_opens using assms(1) [of ws m] by blast
  note served = trans [OF this wallet_shutdown_opens]
  from wallet_start_opens [OF c] show ?thesis
    using assms(2) c
    by (cases r) (auto simp: wallet_main_def served)
qed

lemma auth_main_opens:
  assumes "\<And>au m. opens (serve au m) - {as_lis au} = opens m - {as_lis au}" and "auth_main R se serve n = (x, n')"
  shows "if x = Returned then opens n' = opens n else opens n \<subseteq> opens n'"
proof -
  obtain r1 n1 where c1: "rt_Listen R (GetString (se_env se) ''GRPC_ADDR_AUTH'' '':8081'') n = (r1, n1)"
    by (metis surj_pair)
  obtain r2 n2 where c2: "connect_stores R se n1 = (r2, n2)" by (metis surj_pair)
  show ?thesis
  proof (cases r1)
    case (Inl e)
    with assms(2) lis.new_err [OF c1 [unfolded Inl]] show ?thesis
      by (auto simp: auth_main_def auth_start_def c1)
  next
    case (Inr h)
    have served: "as_lis au = h \<Longrightarrow> opens (stop_server R h (serve au m)) = opens m - {h}" for au m
      using assms(1) [of au m] by (auto simp: stop_server_opens)
    from lis.new_ok [OF c1 [unfolded Inr]] connect_stores_opens [OF c2] assms(2) Inr show ?thesis
      by (cases r2) (auto simp: auth_main_def auth_start_def c1 c2 close_stores_opens served)
  qed
qed

lemma grpc_handler_opens:
  assumes "NewGrpcHandler R env n = (r, n')"
  shows "case r of Inl _ \<Rightarrow> opens n \<subseteq> opens n'
    | Inr h \<Rightarrow> gh_AuthConn h \<noteq> gh_WalletConn h \<and> {gh_AuthConn h, gh_WalletConn h} \<inter> opens n = {}
        \<and> opens n' = opens n \<union> {gh_AuthConn h, gh_WalletConn h}"
proof -
  obtain r1 n1 where c1: "rt_grpcNewClient R (GetString env ''AUTH_SERVICE_ADDR'' ''localhost:8081'') n = (r1, n1)"
    by (metis surj_pair)
  obtain r2 n2 where c2: "rt_grpcNewClient R (GetString env ''WALLET_SERVICE_ADDR'' ''localhost:8082'') n1 = (r2, n2)"
    by (metis surj_pair)
  show ?thesis
  proof (cases r1)
    case (Inl e)
    with assms grpc.new_err [OF c1 [unfolded Inl]] show ?thesis by (auto simp: NewGrpcHandler_def c1)
  next
    case A: (Inr a)
    note a = grpc.new_ok [OF c1 [unfolded A]]
    show ?thesis
    proof (cases r2)
      case (Inl e)
      with assms A a grpc.new_err [OF c2 [unfolded Inl]] show ?thesis
        by (auto simp: NewGrpcHandler_def c1 c2)
    next
      case (Inr b)
      with assms A a grpc.new_ok [OF c2 [unfolded Inr]] show ?thesis
        by (auto simp: NewGrpcHandler_def c1 c2)
    qed
  qed
qed

lemma grpc_close_opens: "opens (Grpc_Close R h n) = opens n - {gh_AuthConn h, gh_WalletConn h}"
  by (auto simp: Grpc_Close_def Let_def split_beta grpc.close_opens)

lemma gateway_main_opens:
  assumes http: "http_laws server opens" and main: "gateway_main R env server n = (x, n')"
  shows "if x = Returned then opens n' = opens n else opens n \<subseteq> opens n'"
proof -
  obtain r m where c: "NewGrpcHandler R env n = (r, m)" by (metis surj_pair)
  show ?thesis
  proof (cases r)
    case (Inl e)
    with main grpc_handler_opens [OF c] show ?thesis by (auto simp: gateway_main_def c)
  next
    case (Inr h)
    obtain r1 m1 where l: "rt_Listen R (GetString env ''HTTP_ADDR'' '':8080'') m = (r1, m1)" by (metis surj_pair)
    show ?thesis
    proof (cases r1)
      case (Inl e)
      with main grpc_handler_opens [OF c] Inr lis.new_err [OF l [unfolded Inl]] show ?thesis
        by (auto simp: gateway_main_def c l grpc_close_opens)
    next
      case L: (Inr lis)
      obtain e m2 where d: "hs_Serve server h lis m1 = (e, m2)" by (metis surj_pair)
      obtain r3 m3 where sh: "hs_Shutdown server lis m2 = (r3, m3)" by (metis surj_pair)
      note facts = grpc_handler_opens [OF c, unfolded Inr] lis.new_ok [OF l [unfolded L]] http_laws.served [OF http d]
        http_laws.shutdown_opens [OF http sh]
      with main Inr L show ?thesis
        by (cases e; cases r3) (auto simp: gateway_main_def c l d sh grpc_close_opens)
    qed
  qed
qed

end

section \<open>Everything answers\<close>

definition answers_call :: "('n, 'a) operation \<Rightarrow> bool" where
  "answers_call f \<longleftrightarrow> (\<forall>n. \<not> isl (fst (f n)))"

definition runtime_up :: "'n runtime \<Rightarrow> bool" where
  "runtime_up R \<longleftrightarrow>
     (\<forall>a. answers_call (rt_Listen R a)) \<and> (\<forall>a. answers_call (rt_pgNew R a)) \<and> (\<forall>h. answers_call (rt_pgPing R h))
     \<and> (\<forall>h. answers_call (rt_redisPing R h)) \<and> (\<forall>a. answers_call (rt_Dial R a))
     \<and> (\<forall>h. answers_call (rt_Brokers R h)) \<and> (\<forall>a. answers_call (rt_grpcNewClient R a))"

lemma answers_callD: "answers_call f \<Longrightarrow> \<exists>x n'. f n = (Inr x, n')"
  by (metis answers_call_def isl_def sum.exhaust surj_pair fst_conv)

lemma up_calls:
  assumes "runtime_up R"
  shows "\<exists>h n'. rt_Listen R a n = (Inr h, n')" "\<exists>h n'. rt_pgNew R a n = (Inr h, n')"
    "\<exists>u n'. rt_pgPing R h n = (Inr u, n')" "\<exists>u n'. rt_redisPing R h n = (Inr u, n')"
    "\<exists>h n'. rt_Dial R a n = (Inr h, n')" "\<exists>u n'. rt_Brokers R h n = (Inr u, n')"
    "\<exists>h n'. rt_grpcNewClient R a n = (Inr h, n')"
  using assms unfolding runtime_up_def by (blast intro: answers_callD)+

lemma pg_connect_up:
  assumes "runtime_up R"
  obtains p n' where "Pg_Connect R env ctx (NewPostgreSqlInstance, n) = (Inr (), \<lparr>pg_pool = Some p\<rparr>, n')"
proof -
  obtain p n1 where "rt_pgNew R (postgresDSN env) n = (Inr p, n1)"
    using up_calls [OF assms] by blast
  moreover obtain u n2 where "rt_pgPing R p n1 = (Inr u, n2)"
    using up_calls [OF assms] by blast
  ultimately have "pg_attempt R env (NewPostgreSqlInstance, n) = (Inr (), \<lparr>pg_pool = Some p\<rparr>, n2)"
    by (simp add: pg_attempt_def NewPostgreSqlInstance_def)
  then show ?thesis
    by (intro that [of p n2]) (simp add: Pg_Connect_def WithBackoff_first DefaultConfig_def)
qed

lemma redis_connect_up:
  assumes "runtime_up R"
  obtains c n' where "Redis_Connect R env (NewRedisInstance, n) = (Inr (), \<lparr>ri_client = Some c\<rparr>, n')"
proof -
  obtain c n1 where "rt_redisNew R (redis_options env) n = (c, n1)" by (metis surj_pair)
  moreover obtain u n2 where "rt_redisPing R c n1 = (Inr u, n2)"
    using up_calls [OF assms] by blast
  ultimately show ?thesis
    by (intro that [of c n2]) (simp add: Redis_Connect_def NewRedisInstance_def)
qed

lemma connect_stores_up:
  assumes "runtime_up R"
  obtains st n' where "connect_stores R se n = (Inr st, n')"
proof -
  obtain p n1 where "Pg_Connect R (se_env se) (se_pgctx se) (NewPostgreSqlInstance, n) = (Inr (), \<lparr>pg_pool = Some p\<rparr>, n1)"
    using pg_connect_up [OF assms] .
  moreover obtain c n2 where "Redis_Connect R (se_env se) (NewRedisInstance, n1) = (Inr (), \<lparr>ri_client = Some c\<rparr>, n2)"
    using redis_connect_up [OF assms] .
  ultimately show ?thesis
    by (intro that) (simp add: connect_stores_def new_client_defs)
qed

lemma kafka_connect_up:
  assumes "runtime_up R"
  obtains k' n' where "Kafka_Connect R ctx (k, n) = (Inr (), k', n')"
proof -
  obtain h n1 where d: "rt_Dial R (mk_brokers k ! 0) n = (Inr h, n1)"
    using up_calls [OF assms] by blast
  obtain u n2 where b: "rt_Brokers R h n1 = (Inr u, n2)"
    using up_calls [OF assms] by blast
  obtain x n3 where "rt_connClose R h n2 = (x, n3)" by (metis surj_pair)
  then have "kafka_probe (rt_Dial R (mk_brokers k ! 0)) (rt_Brokers R) (rt_connClose R) n = (Inr (), n3)"
    by (simp add: kafka_probe_def d b)
  with that show ?thesis
    by (simp add: Kafka_Connect_def WithBackoff_first DefaultConfig_def split_beta Let_def)
qed

lemma wallet_main_up:
  assumes "runtime_up R"
  shows "fst (wallet_main R redis se serve n) = Returned"
proof -
  obtain h n1 where "rt_Listen R (GetString (se_env se) ''GRPC_ADDR_WALLET'' '':8082'') n = (Inr h, n1)"
    using up_calls(1) [OF assms] by blast
  moreover obtain st n2 where "connect_stores R se n1 = (Inr st, n2)"
    using connect_stores_up [OF assms] .
  moreover obtain k n3 where "Kafka_Connect R (se_kafkactx se) (\<lparr>mk_brokers = kafkaBrokers (se_env se),
      mk_groupID = GetString (se_env se) ''KAFKA_CONSUMER_GROUP'' ''wallet-service'',
      mk_writer = None, kc_writer = None, kc_readers = []\<rparr>, n2) = (Inr (), k, n3)"
    using kafka_connect_up [OF assms] .
  ultimately show ?thesis
    by (simp add: wallet_main_def wallet_start_def NewKafkaConnection_brokers Consume_def Consume_start_def
        Let_def split_beta)
qed

lemma auth_main_up:
  assumes "runtime_up R"
  shows "fst (auth_main R se serve n) = Returned"
proof -
  obtain h n1 where "rt_Listen R (GetString (se_env se) ''GRPC_ADDR_AUTH'' '':8081'') n = (Inr h, n1)"
    using up_calls(1) [OF assms] by blast
  moreover obtain st n2 where "connect_stores R se n1 = (Inr st, n2)"
    using connect_stores_up [OF assms] .
  ultimately show ?thesis by (simp add: auth_main_def auth_start_def)
qed

lemma gateway_main_up:
  assumes "runtime_up R"
    and "\<And>h lis m msg. fst (hs_Serve server h lis m) \<noteq> HandlerFatal msg"
  shows "fst (gateway_main R env server n) = Returned"
proof -
  obtain a n1 where a: "rt_grpcNewClient R (GetString env ''AUTH_SERVICE_ADDR'' ''localhost:8081'') n = (Inr a, n1)"
    using up_calls [OF assms(1)] by blast
  obtain b n2 where b: "rt_grpcNewClient R (GetString env ''WALLET_SERVICE_ADDR'' ''localhost:8082'') n1 = (Inr b, n2)"
    using up_calls [OF assms(1)] by blast
  obtain lis n3 where l: "rt_Listen R (GetString env ''HTTP_ADDR'' '':8080'') n2 = (Inr lis, n3)"
    using up_calls [OF assms(1)] by blast
  obtain e n4 where e: "hs_Serve server \<lparr>gh_AuthConn = a, gh_WalletConn = b\<rparr> lis n3 = (e, n4)" by (metis surj_pair)
  then have "\<nexists>msg. e = HandlerFatal msg" using assms(2) by (metis fst_conv)
  then show ?thesis
    by (cases e) (auto simp: gateway_main_def NewGrpcHandler_def a b l e split: prod.splits sum.splits)
qed

section \<open>The properties\<close>

definition quiet_env :: startup_env where
  "quiet_env = \<lparr>se_env = (\<lambda>_. None), se_pgctx = (\<lambda>_. None), se_kafkactx = (\<lambda>_. None)\<rparr>"

definition net_down :: "bool list \<Rightarrow> ref_net" where
  "net_down fs = \<lparr>rn_open = [7], rn_down = fs\<rparr>"

text \<open>Connecting to Postgres leaks no pool: however many of its attempts fail, and whenever
  its deadline ends, it leaves behind exactly the pool that answered, which the instance then
  holds, or nothing at all. Within its deadline it fails only if all four attempts do.\<close>

theorem postgres_connect_leaks_nothing:
  assumes laws: "runtime_laws R opens" and connect: "Pg_Connect R env ctx (d, n) = (res, d', n')"
  shows "(case res of
       Inl err \<Rightarrow> d' = d \<and> opens n' = opens n
     | Inr _ \<Rightarrow> \<exists>p. d' = d\<lparr>pg_pool := Some p\<rparr> \<and> p \<notin> opens n \<and> opens n' = insert p (opens n))
    \<and> (ctx = (\<lambda>_. None) \<longrightarrow> (isl res \<longleftrightarrow> fst (try_calls 3 (pg_attempt R env) (d, n)) \<noteq> None))"
proof
  show "case res of
       Inl err \<Rightarrow> d' = d \<and> opens n' = opens n
     | Inr _ \<Rightarrow> \<exists>p. d' = d\<lparr>pg_pool := Some p\<rparr> \<and> p \<notin> opens n \<and> opens n' = insert p (opens n)"
    by (rule runtime_laws.pg_connect_opens [OF laws connect])
  have "config_ok DefaultConfig" by (simp add: config_ok_def DefaultConfig_def Second_def)
  from WithBackoff_calls [OF this, of "pg_attempt R env" "(d, n)"] connect
  show "ctx = (\<lambda>_. None) \<longrightarrow> (isl res \<longleftrightarrow> fst (try_calls 3 (pg_attempt R env) (d, n)) \<noteq> None)"
    by (auto simp: Pg_Connect_def DefaultConfig_def Let_def split: prod.splits option.splits)
qed

theorem postgres_connect_leaks_nothing_witness:
  "\<exists>d' n'. Pg_Connect ref_runtime (\<lambda>_. None) (\<lambda>_. None) (NewPostgreSqlInstance, net_down [True, False, True])
       = (Inr (), d', n') \<and> pg_pool d' \<noteq> None \<and> card (set (rn_open n')) = 2"
proof -
  let ?c = "Pg_Connect ref_runtime (\<lambda>_. None) (\<lambda>_. None) (NewPostgreSqlInstance, net_down [True, False, True])"
  obtain res d' n' where c: "?c = (res, d', n')" by (metis prod_cases3)
  have "fst (try_calls 3 (pg_attempt ref_runtime (\<lambda>_. None)) (NewPostgreSqlInstance, net_down [True, False, True])) = None"
    by code_simp
  with postgres_connect_leaks_nothing [OF rnet.runtime_laws_axioms c] c show ?thesis
    by (cases res) (auto simp: net_down_def)
qed

text \<open>A wallet service that came up is complete: the pool, the cache client, the writer and
  the reader it holds are open and its own, its relay publishes with the writer that was opened,
  and relay, producer and consumer agree on the topic. If it did not come up, one of the four
  things it talks to refused; the other fatal branches are never taken.\<close>

theorem wallet_start_is_complete:
  assumes laws: "runtime_laws R opens" and start: "wallet_start R redis se n = (res, n')"
  shows "case res of
      Inl (msg, err) \<Rightarrow> opens n \<subseteq> opens n' \<and>
        msg \<in> {''An error has occurred when starting a Wallet Service gRPC server: %v'',
               ''An error has occurred when connecting to postgres: %v'',
               ''An error has occurred when connecting to redis: %v'',
               ''An error has occurred when connecting to kafka: %v''}
    | Inr ws \<Rightarrow> \<exists>p c w rd.
          ws_stores ws = \<lparr>st_dbInstance = \<lparr>pg_pool = Some p\<rparr>, st_dbClient = \<lparr>dbc_Pool = p\<rparr>,
            st_redisInstance = \<lparr>ri_client = Some c\<rparr>, st_cacheClient = \<lparr>cc_Client = c\<rparr>\<rparr>
        \<and> kc_writer (co_messaging (ws_consumer ws)) = Some w
        \<and> kc_readers (co_messaging (ws_consumer ws)) = [(walletEventsTopic (se_env se), rd)]
        \<and> mk_writer (pr_messaging (or_publisher (ws_relay ws))) = Some (rt_WriteMessages R w)
        \<and> or_redis (ws_relay ws) = redis c \<and> or_batchSize (ws_relay ws) = 100
        \<and> pr_topic (or_publisher (ws_relay ws)) = walletEventsTopic (se_env se)
        \<and> or_topic (ws_relay ws) = walletEventsTopic (se_env se)
        \<and> co_topic (ws_consumer ws) = walletEventsTopic (se_env se)
        \<and> distinct [ws_lis ws, p, c, w, rd] \<and> {ws_lis ws, p, c, w, rd} \<inter> opens n = {}
        \<and> opens n' = opens n \<union> {ws_lis ws, p, c, w, rd}"
  by (rule runtime_laws.wallet_start_opens [OF laws start])

theorem wallet_start_is_complete_witness:
  "\<exists>ws n' w. wallet_start ref_runtime (\<lambda>_. redis_ref) quiet_env (net_down []) = (Inr ws, n')
     \<and> mk_writer (pr_messaging (or_publisher (ws_relay ws))) = Some (rt_WriteMessages ref_runtime w)
     \<and> w \<in> set (rn_open n') \<and> w \<noteq> 7"
proof -
  let ?s = "wallet_start ref_runtime (\<lambda>_. redis_ref) quiet_env (net_down [])"
  obtain ws n' where s: "?s = (Inr ws, n')"
    by (simp add: wallet_start_def connect_stores_def Pg_Connect_def Redis_Connect_def Kafka_Connect_def
        WithBackoff_def backoff_loop.simps DefaultConfig_def pg_attempt_def kafka_probe_def quiet_env_def
        net_down_def ref_runtime_def rn_call_def rn_new_def rn_close_def NewKafkaConnection_brokers
        new_client_defs Consume_def Consume_start_def Let_def)
  from wallet_start_is_complete [OF rnet.runtime_laws_axioms s] s show ?thesis
    by (auto simp: net_down_def)
qed

text \<open>A reference server: it serves until the given end, and a list of failing calls says whether it shuts down in time.\<close>

definition ref_server :: "server_end \<Rightarrow> ref_net http_server" where
  "ref_server e =
     \<lparr>hs_Serve = (\<lambda>h lis n. (e, case e of ServerErrors _ \<Rightarrow> rn_close lis n | _ \<Rightarrow> n)),
      hs_Shutdown = (\<lambda>lis n. (case rn_call (\<lambda>h. Pair ()) lis n of
         (Inl err, n) \<Rightarrow> (Inl err, n) | (Inr _, n) \<Rightarrow> (Inr (), rn_close lis n))),
      hs_Close = rn_close\<rparr>"

interpretation rserver: http_laws "ref_server e" "\<lambda>n. set (rn_open n)" for e
proof
  fix lis m r m'
  assume "hs_Shutdown (ref_server e) lis m = (r, m')"
  then show "set (rn_open m) - {lis} \<subseteq> set (rn_open m') \<and> set (rn_open m') \<subseteq> set (rn_open m)
      \<and> (isl r \<or> lis \<notin> set (rn_open m'))"
    using rn_ping_opens [of lis m] by (auto simp: ref_server_def rn_close_def split: prod.splits sum.splits)
qed (auto simp: ref_server_def rn_close_def split: server_end.splits)

text \<open>C28. Each of the three processes, once its serving comes to an end, ends in one of two ways. When it returns,
  after the signal, it has closed every connection and every listener that it had opened, also after a
  graceful stop that took too long. When it ended by a fatal error, with exit code 1, it has closed nothing that
  others hold. And when everything it dials answers, and no handler of the gateway ends the process while it
  serves, it returns. Serving a request leaves open nothing that was not open before; it may close
  the listener, as a server that fails does.\<close>

theorem processes_give_back:
  assumes laws: "runtime_laws R opens" and http: "http_laws server opens"
    and serving: "\<And>ws m. opens (serve ws m) - {ws_lis ws} = opens m - {ws_lis ws}"
      "\<And>au m. opens (serve' au m) - {as_lis au} = opens m - {as_lis au}"
    and main: "(x, n') \<in> {wallet_main R redis se serve n, auth_main R se serve' n, gateway_main R env server n}"
  shows "(if exit_code x = 0 then opens n' = opens n else exit_code x = 1 \<and> opens n \<subseteq> opens n')
    \<and> (runtime_up R \<and> (\<forall>h lis m msg. fst (hs_Serve server h lis m) \<noteq> HandlerFatal msg) \<longrightarrow> exit_code x = 0)"
proof -
  have code: "exit_code x = (if x = Returned then 0 else 1)"
    by (simp add: exit_code_def split: exit.split)
  have "if x = Returned then opens n' = opens n else opens n \<subseteq> opens n'"
    using main runtime_laws.wallet_main_opens [OF laws serving(1), of redis se n x n']
      runtime_laws.auth_main_opens [OF laws serving(2), of se n x n']
      runtime_laws.gateway_main_opens [OF laws http, of env n x n']
    by (elim insertE) simp_all
  moreover have "x = fst (wallet_main R redis se serve n) \<or> x = fst (auth_main R se serve' n)
      \<or> x = fst (gateway_main R env server n)"
    using main by (auto simp: prod_eq_iff)
  then have "x = Returned" if "runtime_up R" "\<And>h lis m msg. fst (hs_Serve server h lis m) \<noteq> HandlerFatal msg"
    using that by (auto simp: wallet_main_up auth_main_up gateway_main_up)
  ultimately show ?thesis using code by (auto simp: exit_code_def)
qed

text \<open>The gateway, on a network where the shutdown misses its deadline.\<close>

theorem processes_give_back_witness:
  "exit_code (fst (gateway_main ref_runtime (\<lambda>_. None) (ref_server Shutdown_signal) (net_down [False, False, False, True]))) = 0
   \<and> set (rn_open (snd (gateway_main ref_runtime (\<lambda>_. None) (ref_server Shutdown_signal)
       (net_down [False, False, False, True])))) = {7}"
proof -
  let ?n = "net_down [False, False, False, True]"
  let ?m = "gateway_main ref_runtime (\<lambda>_. None) (ref_server Shutdown_signal) ?n"
  have r: "fst ?m = Returned" by code_simp
  from processes_give_back [OF rnet.runtime_laws_axioms rserver.http_laws_axioms, of "\<lambda>_ m. m" "\<lambda>_ m. m" "fst ?m" "snd ?m"
      "\<lambda>_. redis_ref" quiet_env ?n "\<lambda>_. None" Shutdown_signal] r
  show ?thesis by (simp add: exit_code_def net_down_def)
qed

section \<open>The broker is prepared for the wallet\<close>

text \<open>The contract of the admin calls: topics are only ever added, and a successful
  \<^verbatim>\<open>CreateTopics\<close> leaves all it was given on the broker.\<close>

locale admin_laws =
  fixes A :: "'n kafka_admin" and topics :: "'n \<Rightarrow> string set"
  assumes create: "ad_CreateTopics A c cfgs n = (Inr u, n') \<Longrightarrow> tc_Topic ` set cfgs \<subseteq> topics n'"
    and close_keeps: "topics n \<subseteq> topics (ad_Close A c n)"
begin

lemma ensured:
  assumes "ensure_topics A env conn n = (Returned, n')"
  shows "set init_topics \<subseteq> topics n'"
proof -
  from assms obtain c m cfgs n0 where m: "ad_CreateTopics A c cfgs n0 = (Inr (), m)"
      "tc_Topic ` set cfgs = set init_topics" "n' = ad_Close A conn (ad_Close A c m)"
    by (auto simp: ensure_topics_def image_image split: prod.splits sum.splits)
  have "set init_topics \<subseteq> topics m" using create [OF m(1)] m(2) by simp
  also have "\<dots> \<subseteq> topics (ad_Close A c m)" by (rule close_keeps)
  also have "\<dots> \<subseteq> topics n'" using close_keeps m(3) by simp
  finally show ?thesis .
qed

lemma topic_main_ensures:
  assumes "topic_main A env ctx n = (Returned, n')"
  shows "set init_topics \<subseteq> topics n'"
  using assms ensured by (auto simp: topic_main_def split: prod.splits option.splits)

end

record ref_admin_state =
  ra_topics :: "string list"
  ra_conns :: nat

definition ref_admin :: "ref_admin_state kafka_admin" where
  "ref_admin =
     \<lparr>ad_Dial = (\<lambda>a n. (Inr (ra_conns n), n\<lparr>ra_conns := ra_conns n + 1\<rparr>)),
      ad_Controller = (\<lambda>c n. (Inr (''kafka'', 9092), n)),
      ad_CreateTopics = (\<lambda>c cfgs n. (Inr (), n\<lparr>ra_topics := ra_topics n @ map tc_Topic cfgs\<rparr>)),
      ad_Close = (\<lambda>c n. n)\<rparr>"

interpretation radmin: admin_laws ref_admin "\<lambda>n. set (ra_topics n)"
  by unfold_locales (auto simp: ref_admin_def)

text \<open>Once the script has ended well, the topic that the relay writes to, the consumer reads and
  the dead letters go to are on the broker, unless \<^verbatim>\<open>KAFKA_WALLET_EVENTS_TOPIC\<close> names another:
  the service follows that variable, the script does not, and the writer of the service does not
  create topics.\<close>

theorem topics_are_ready:
  assumes "admin_laws A topics" and "topic_main A env ctx n = (Returned, n')"
    and "env ''KAFKA_WALLET_EVENTS_TOPIC'' = None"
  shows "{walletEventsTopic env, walletEventsTopic env @ DlqTopicSuffix} \<subseteq> topics n'"
  using admin_laws.topic_main_ensures [OF assms(1,2)] assms(3)
  by (simp add: init_topics_def walletEventsTopic_def GetString_def WalletEventsTopic_def)

theorem topics_are_ready_witness:
  "''wallet.events.v1.dlq'' \<in> set (ra_topics (snd (topic_main ref_admin (\<lambda>_. None) (\<lambda>_. None)
     \<lparr>ra_topics = [], ra_conns = 0\<rparr>)))"
proof -
  let ?t = "topic_main ref_admin (\<lambda>_. None) (\<lambda>_. None) \<lparr>ra_topics = [], ra_conns = 0\<rparr>"
  have "fst ?t = Returned"
    by (simp add: topic_main_def topic_attempt_def WithBackoff_def backoff_loop.simps DefaultConfig_def
        ensure_topics_def ref_admin_def)
  then have "?t = (Returned, snd ?t)" by (metis prod.collapse)
  from topics_are_ready [OF radmin.admin_laws_axioms this] show ?thesis
    by (simp add: walletEventsTopic_def GetString_def DlqTopicSuffix_def)
qed

end
