(* ===== verification/SessionUtils.thy ===== *)
theory SessionUtils
  imports Session
begin

text \<open>
  \<^verbatim>\<open>auth-service/internal/utils/session.go\<close>: an older copy of the session functions that the
  service no longer calls. Its access tokens are those of \<^verbatim>\<open>shared/pkg/session\<close>; its refresh
  tokens are random bytes in \<^verbatim>\<open>base64.RawURLEncoding\<close>, which is written out here. A byte is a
  number below 256; the source of randomness is an argument. A \<open>None\<close> is the panic of \<^verbatim>\<open>make\<close> on a
  negative length.
\<close>

definition utils_GenerateAccessToken :: "jwt_lib \<Rightarrow> os_env \<Rightarrow> time \<Rightarrow> User option \<Rightarrow> string result" where
  "utils_GenerateAccessToken J env now user =
     (case user of
        None \<Rightarrow> Inl (errorf ''cannot generate an access token for a nil user'')
      | Some user \<Rightarrow>
          (case jw_SignedString J (GetString env ''JWT_SECRET'' ''dev-secret-change-me'')
                  (claims_of user now (minutes (GetInt env ''ACCESS_TOKEN_TTL_MINUTES'' 15))) of
             Inl err \<Rightarrow> Inl (wrapf ''failed to sign access token: %w'' err)
           | Inr token \<Rightarrow> Inr token))"

definition utils_ValidateAccessToken :: "jwt_lib \<Rightarrow> os_env \<Rightarrow> time \<Rightarrow> string \<Rightarrow> token_claims result" where
  "utils_ValidateAccessToken J env now tokenString =
     (case jw_ParseWithClaims J
             (\<lambda>isHMAC. if \<not> isHMAC then Inl (errorf ''unexpected signing method: %v'')
                      else Inr (GetString env ''JWT_SECRET'' ''dev-secret-change-me'')) now tokenString of
        Inl err \<Rightarrow> Inl (wrapf ''failed to validate access token: %w'' err)
      | Inr (claims, valid) \<Rightarrow>
          if \<not> valid then Inl (errorf ''access token is invalid'') else Inr claims)"

section \<open>base64.RawURLEncoding\<close>

definition url_alphabet :: string where
  "url_alphabet = ''ABCDEFGHIJKLMNOPQRSTUVWXYZabcdefghijklmnopqrstuvwxyz0123456789-_''"

definition b64_char :: "nat \<Rightarrow> char" where
  "b64_char i = url_alphabet ! i"

fun RawURLEncoding :: "nat list \<Rightarrow> string" where
  "RawURLEncoding [] = []"
| "RawURLEncoding [a] = [b64_char (a div 4), b64_char (a mod 4 * 16)]"
| "RawURLEncoding [a, b] =
     [b64_char (a div 4), b64_char (a mod 4 * 16 + b div 16), b64_char (b mod 16 * 4)]"
| "RawURLEncoding (a # b # c # bs) =
     [b64_char (a div 4), b64_char (a mod 4 * 16 + b div 16), b64_char (b mod 16 * 4 + c div 64),
      b64_char (c mod 64)] @ RawURLEncoding bs"

definition utils_GenerateRefreshToken :: "os_env \<Rightarrow> (nat \<Rightarrow> nat list result) \<Rightarrow> string result option" where
  "utils_GenerateRefreshToken env rand_Read =
     (let refreshTokenBytes = GetInt env ''JWT_BYTES'' 64 in
      if refreshTokenBytes < 0 then None
      else Some (case rand_Read (nat refreshTokenBytes) of
         Inl err \<Rightarrow> Inl (wrapf ''failed to generate refresh token: %w'' err)
       | Inr buf \<Rightarrow> Inr (RawURLEncoding buf)))"

section \<open>The copy agrees with the original\<close>

lemma utils_access_tokens:
  "utils_GenerateAccessToken J env now u = GenerateAccessToken J env now u"
  "utils_ValidateAccessToken J env now t = ValidateAccessToken J env now t"
  unfolding utils_GenerateAccessToken_def GenerateAccessToken_def utils_ValidateAccessToken_def
    ValidateAccessToken_def hmac_keyfunc_def jwtSecret_def session_accessTokenTTL_def
  by (rule refl)+

section \<open>Decoding\<close>

definition b64_index :: "char \<Rightarrow> nat" where
  "b64_index c = length (takeWhile (\<lambda>d. d \<noteq> c) url_alphabet)"

fun raw_url_decode :: "string \<Rightarrow> nat list" where
  "raw_url_decode (p # q # r # s # cs) =
     (let p = b64_index p; q = b64_index q; r = b64_index r; s = b64_index s
      in [p * 4 + q div 16, q mod 16 * 16 + r div 4, r mod 4 * 64 + s] @ raw_url_decode cs)"
| "raw_url_decode [p, q, r] =
     (let p = b64_index p; q = b64_index q; r = b64_index r
      in [p * 4 + q div 16, q mod 16 * 16 + r div 4])"
| "raw_url_decode [p, q] = (let p = b64_index p; q = b64_index q in [p * 4 + q div 16])"
| "raw_url_decode cs = []"

lemma b64_index_char: "i < 64 \<Longrightarrow> b64_index (b64_char i) = i"
proof -
  have "list_all (\<lambda>i. b64_index (b64_char i) = i) [0..<64]" by code_simp
  then show "i < 64 \<Longrightarrow> b64_index (b64_char i) = i" by (simp add: list_all_iff)
qed

lemma RawURLEncoding_length: "length (RawURLEncoding bs) = (4 * length bs + 2) div 3"
  by (induction bs rule: RawURLEncoding.induct) auto

lemma sextets:
  fixes a b c :: nat
  assumes "b < 256" and "c < 256"
  shows "(a mod 4 * 16 + b div 16) div 16 = a mod 4" "(a mod 4 * 16 + b div 16) mod 16 = b div 16"
    "(b mod 16 * 4 + c div 64) div 4 = b mod 16" "(b mod 16 * 4 + c div 64) mod 4 = c div 64"
    "a mod 4 * 16 + b div 16 < 64" "b mod 16 * 4 + c div 64 < 64"
proof -
  have "b div 16 < 16" "c div 64 < 4" using assms by auto
  moreover have "a mod 4 < 4" "b mod 16 < 16" by simp_all
  ultimately show "(a mod 4 * 16 + b div 16) div 16 = a mod 4" "(a mod 4 * 16 + b div 16) mod 16 = b div 16"
    "(b mod 16 * 4 + c div 64) div 4 = b mod 16" "(b mod 16 * 4 + c div 64) mod 4 = c div 64"
    "a mod 4 * 16 + b div 16 < 64" "b mod 16 * 4 + c div 64 < 64"
    by simp_all
qed

theorem RawURLEncoding_roundtrip:
  "list_all (\<lambda>b. b < 256) bs \<Longrightarrow> raw_url_decode (RawURLEncoding bs) = bs"
proof (induction bs rule: RawURLEncoding.induct)
  case (2 a)
  then have "a div 4 < 64" "a mod 4 * 16 < 64" by auto
  then show ?case by (simp add: b64_index_char Let_def)
next
  case (3 a b)
  then have "a div 4 < 64" "b < 256" "b mod 16 * 4 < 64" by auto
  moreover note x = sextets(1,2,5) [OF this(2) this(2)]
  ultimately show ?case by (simp add: b64_index_char Let_def x)
next
  case (4 a b c bs)
  then have "a div 4 < 64" "b < 256" "c < 256" "c mod 64 < 64" by auto
  moreover note x = sextets [OF this(2,3)]
  ultimately show ?case using 4 by (simp add: b64_index_char Let_def x)
qed simp

text \<open>Different random bytes give different refresh tokens.\<close>

lemma refresh_tokens_differ:
  assumes "utils_GenerateRefreshToken env (\<lambda>n. Inr bs) = utils_GenerateRefreshToken env (\<lambda>n. Inr bs')"
    and "list_all (\<lambda>b. b < 256) bs" and "list_all (\<lambda>b. b < 256) bs'" and "0 \<le> GetInt env ''JWT_BYTES'' 64"
  shows "bs = bs'"
proof -
  have "RawURLEncoding bs = RawURLEncoding bs'"
    using assms(1,4) by (simp add: utils_GenerateRefreshToken_def Let_def)
  then show ?thesis using RawURLEncoding_roundtrip assms(2,3) by metis
qed

end
