(* ===== verification/Isolation.thy ===== *)
theory Isolation
  imports History
begin

text \<open>
  The movements of money as concurrent threads, statement by statement. The repository runs its
  transactions in Postgres at the level \<^verbatim>\<open>READ COMMITTED\<close>: a statement sees what is committed when
  it begins and what its own transaction has written; \<^verbatim>\<open>UPDATE\<close> and \<^verbatim>\<open>SELECT ... FOR UPDATE\<close> lock rows
  until the end of the transaction and wait while another transaction holds them; an \<^verbatim>\<open>INSERT\<close>
  waits for another that is about to commit the same key, and its foreign keys share-lock the accounts
  they refer to. The state is the committed database and
  the threads; a thread is one run of \<^verbatim>\<open>deposit\<close>, \<^verbatim>\<open>withdraw\<close> or \<^verbatim>\<open>transfer\<close> with the statement it is at,
  its uncommitted writes and its locks. Any number of threads run, in any interleaving of their
  statements, and any statement can fail. \<^verbatim>\<open>BEGIN\<close> takes no lock and no snapshot, so it is no step of
  its own. The one failure left out is a commit of a settlement whose acknowledgement is lost;
  what the code does then is the subject of the sequential theories.
\<close>

section \<open>Threads\<close>

record movement =
  mv_id :: string
  mv_user :: string
  mv_type :: string
  mv_from :: string
  mv_to :: string
  mv_currency :: string
  mv_amount :: int

primrec movement_of :: "request \<Rightarrow> movement" where
  "movement_of (DepositReq tid uid acc cur amt) =
     \<lparr>mv_id = tid, mv_user = uid, mv_type = ''deposit'', mv_from = acc, mv_to = acc, mv_currency = cur,
      mv_amount = amt\<rparr>"
| "movement_of (WithdrawReq tid uid acc amt) =
     \<lparr>mv_id = tid, mv_user = uid, mv_type = ''withdrawal'', mv_from = acc, mv_to = acc, mv_currency = [],
      mv_amount = amt\<rparr>"
| "movement_of (TransferReq tid uid fr to cur amt) =
     \<lparr>mv_id = tid, mv_user = uid, mv_type = ''transfer'', mv_from = fr, mv_to = to, mv_currency = cur,
      mv_amount = amt\<rparr>"

text \<open>The accounts that \<^verbatim>\<open>CreatePendingTransaction\<close> locks, and those the settlement reconciles, in order.\<close>

definition pair_list :: "string \<times> string \<Rightarrow> string list" where
  "pair_list p = [fst p, snd p]"

definition mv_locks :: "movement \<Rightarrow> string list" where
  "mv_locks m = (if mv_from m \<noteq> mv_to m then pair_list (lock_order (mv_from m) (mv_to m)) else [])"

definition mv_ids :: "movement \<Rightarrow> string list" where
  "mv_ids m = (if mv_type m = ''transfer'' then pair_list (lock_order (mv_from m) (mv_to m)) else [mv_to m])"

datatype pc =
    Check \<comment> \<open>\<^verbatim>\<open>withdraw\<close>: read the account\<close>
  | Inserting "string list" \<comment> \<open>\<^verbatim>\<open>CreatePendingTransaction\<close>: accounts to lock, then the insert\<close>
  | InsertCommit
  | Completing \<comment> \<open>settlement: flip the pending row\<close>
  | Locking "string list" \<comment> \<open>\<^verbatim>\<open>reconcileBalance\<close> of the accounts still to do: lock, sum, write\<close>
  | Summing "string list"
  | Writing int "string list"
  | Selecting
  | SettleCommit
  | Recording TransactionStatus \<comment> \<open>\<^verbatim>\<open>UpdateTransactionStatus\<close>\<close>
  | Finished bool \<comment> \<open>whether success was reported\<close>

text \<open>\<open>AccountRow\<close> is the lock of \<^verbatim>\<open>FOR UPDATE\<close>; \<open>AccountKey\<close> is the share lock (\<^verbatim>\<open>FOR KEY SHARE\<close>) by which
  the foreign keys of an inserted row keep its accounts. Only the latter can have several holders.\<close>

datatype lock = AccountRow string | AccountKey string | TransactionRow string | UniqueKey string

datatype db_write = Flip string time | SetBalance string int time | InsertRow transaction_row

primrec apply_write :: "db_write \<Rightarrow> database \<Rightarrow> database" where
  "apply_write (Flip tid now) db = db\<lparr>transactions := complete_pending tid now (transactions db)\<rparr>"
| "apply_write (SetBalance a b now) db = db\<lparr>accounts := set_balance a b now (accounts db)\<rparr>"
| "apply_write (InsertRow t) db = db\<lparr>transactions := transactions db @ [t]\<rparr>"

record thread =
  th_mv :: movement
  th_pc :: pc
  th_seen :: "AccountModel option"
  th_writes :: "db_write list"
  th_locks :: "lock set"

text \<open>What the statements of a thread see.\<close>

definition view :: "thread \<Rightarrow> database \<Rightarrow> database" where
  "view t db = fold apply_write (th_writes t) db"

abbreviation at_pc :: "thread \<Rightarrow> pc \<Rightarrow> thread" where
  "at_pc t p \<equiv> t\<lparr>th_pc := p\<rparr>"

text \<open>The end of a transaction, by commit or by the deferred rollback.\<close>

definition tx_over :: "thread \<Rightarrow> pc \<Rightarrow> thread" where
  "tx_over t p = t\<lparr>th_pc := p, th_writes := [], th_locks := {}\<rparr>"

definition start :: "movement \<Rightarrow> thread" where
  "start m =
     \<lparr>th_mv = m,
      th_pc = (if mv_amount m \<le> 0 then Finished False
               else if mv_type m = ''withdrawal'' then Check else Inserting (mv_locks m)),
      th_seen = None, th_writes = [], th_locks = {}\<rparr>"

definition after_account :: "string list \<Rightarrow> pc" where
  "after_account as = (if as = [] then Selecting else Locking as)"

abbreviation tid_of :: "thread \<Rightarrow> string" where
  "tid_of t \<equiv> mv_id (th_mv t)"

definition row_currency :: "thread \<Rightarrow> string" where
  "row_currency t = (case th_seen t of None \<Rightarrow> mv_currency (th_mv t) | Some a \<Rightarrow> am_Currency a)"

definition insert_stmt :: "thread \<Rightarrow> time \<Rightarrow> (database, unit) operation" where
  "insert_stmt t now =
     (let m = th_mv t in sql_insert_pending (mv_id m) (mv_type m) (mv_from m) (mv_to m) (row_currency t)
        (mv_amount m) now)"

definition inserted_row :: "thread \<Rightarrow> time \<Rightarrow> transaction_row" where
  "inserted_row t now =
     (let m = th_mv t in new_transaction (mv_id m) (mv_type m) (mv_from m) (mv_to m) (row_currency t)
        (mv_amount m) now)"

definition over_limit :: "thread \<Rightarrow> bool" where
  "over_limit t \<longleftrightarrow> mv_type (th_mv t) = ''withdrawal'' \<and>
     (case th_seen t of None \<Rightarrow> False | Some a \<Rightarrow> am_Balance a > 600000)"

definition may_withdraw :: "movement \<Rightarrow> AccountModel option \<Rightarrow> bool" where
  "may_withdraw m found \<longleftrightarrow>
     (case found of None \<Rightarrow> False | Some a \<Rightarrow> am_UserID a = mv_user m \<and> mv_amount m \<le> am_Balance a)"

abbreviation account_row :: "database \<Rightarrow> string \<Rightarrow> AccountModel option" where
  "account_row db a \<equiv> List.find (\<lambda>r. am_ID r = a) (accounts db)"

definition account_free :: "lock set \<Rightarrow> string \<Rightarrow> bool" where
  "account_free held a \<longleftrightarrow> AccountRow a \<notin> held \<and> AccountKey a \<notin> held"

definition keys_free :: "lock set \<Rightarrow> movement \<Rightarrow> bool" where
  "keys_free held m \<longleftrightarrow> AccountRow (mv_from m) \<notin> held \<and> AccountRow (mv_to m) \<notin> held"

definition insert_locks :: "movement \<Rightarrow> lock set" where
  "insert_locks m = {UniqueKey (mv_id m), AccountKey (mv_from m), AccountKey (mv_to m)}"

section \<open>One statement\<close>

text \<open>The first argument is what the other threads hold, the second whether the step is a failure
  of the database or of the connection. The one failure left out is a commit of a settlement that takes effect and is
  not acknowledged: after it the code marks a booked transaction failed, and the books no longer balance.\<close>

inductive th_step :: "lock set \<Rightarrow> bool \<Rightarrow> database \<Rightarrow> thread \<Rightarrow> database \<Rightarrow> thread \<Rightarrow> bool"
  for held :: "lock set" where
  CheckOk: "\<lbrakk>th_pc t = Check; account_row db (mv_to (th_mv t)) = Some a; may_withdraw (th_mv t) (Some a)\<rbrakk> \<Longrightarrow>
    th_step held False db t db (t\<lparr>th_pc := Inserting (mv_locks (th_mv t)), th_seen := Some a\<rparr>)"
| CheckRefused: "\<lbrakk>th_pc t = Check; \<not> may_withdraw (th_mv t) (account_row db (mv_to (th_mv t)))\<rbrakk> \<Longrightarrow>
    th_step held False db t db (at_pc t (Finished False))"
| CheckFault: "th_pc t = Check \<Longrightarrow> th_step held True db t db (at_pc t (Finished False))"
| InsertLock: "\<lbrakk>th_pc t = Inserting (a # as); a \<in> set (keys am_ID (accounts (view t db))); account_free held a\<rbrakk> \<Longrightarrow>
    th_step held False db t db (t\<lparr>th_pc := Inserting as, th_locks := insert (AccountRow a) (th_locks t)\<rparr>)"
| InsertNoRow: "\<lbrakk>th_pc t = Inserting (a # as); a \<notin> set (keys am_ID (accounts (view t db)))\<rbrakk> \<Longrightarrow>
    th_step held False db t db (at_pc t (Inserting as))"
| InsertNew: "\<lbrakk>th_pc t = Inserting []; UniqueKey (tid_of t) \<notin> held;
    tid_of t \<notin> set (keys tm_ID (transactions (view t db))); keys_free held (th_mv t);
    insert_stmt t now (view t db) = (Inr (), db1)\<rbrakk> \<Longrightarrow>
    th_step held False db t db (t\<lparr>th_pc := InsertCommit, th_writes := th_writes t @ [InsertRow (inserted_row t now)],
      th_locks := insert_locks (th_mv t) \<union> th_locks t\<rparr>)"
| InsertConflict: "\<lbrakk>th_pc t = Inserting []; UniqueKey (tid_of t) \<notin> held;
    tid_of t \<in> set (keys tm_ID (transactions (view t db)));
    insert_stmt t now (view t db) = (Inr (), db1)\<rbrakk> \<Longrightarrow>
    th_step held False db t db (at_pc t InsertCommit)"
| InsertRefused: "\<lbrakk>th_pc t = Inserting []; insert_stmt t now (view t db) = (Inl err, db1)\<rbrakk> \<Longrightarrow>
    th_step held False db t db (tx_over t (Finished False))"
| InsertCommitted: "th_pc t = InsertCommit \<Longrightarrow> th_step held False db t (view t db) (tx_over t Completing)"
| InsertLost: "th_pc t = InsertCommit \<Longrightarrow> th_step held True db t (view t db) (tx_over t (Finished False))"
| InsertFault: "th_pc t = InsertCommit \<or> th_pc t = Inserting as \<Longrightarrow>
    th_step held True db t db (tx_over t (Finished False))"
| OverLimit: "\<lbrakk>th_pc t = Completing; over_limit t\<rbrakk> \<Longrightarrow>
    th_step held False db t db (at_pc t (Recording TransactionStatusFailed))"
| FlipRow: "\<lbrakk>th_pc t = Completing; \<not> over_limit t; TransactionRow (tid_of t) \<notin> held;
    \<exists>r \<in> set (transactions (view t db)). pending_row (tid_of t) r\<rbrakk> \<Longrightarrow>
    th_step held False db t db (t\<lparr>th_pc := Locking (mv_ids (th_mv t)), th_writes := th_writes t @ [Flip (tid_of t) now],
      th_locks := insert (TransactionRow (tid_of t)) (th_locks t)\<rparr>)"
| FlipNothing: "\<lbrakk>th_pc t = Completing; \<not> over_limit t;
    \<not> (\<exists>r \<in> set (transactions (view t db)). pending_row (tid_of t) r)\<rbrakk> \<Longrightarrow>
    th_step held False db t db (at_pc t Selecting)"
| LockAccount: "\<lbrakk>th_pc t = Locking (a # as); a \<in> set (keys am_ID (accounts (view t db))); account_free held a\<rbrakk> \<Longrightarrow>
    th_step held False db t db (t\<lparr>th_pc := Summing (a # as), th_locks := insert (AccountRow a) (th_locks t)\<rparr>)"
| LockNoRow: "\<lbrakk>th_pc t = Locking (a # as); a \<notin> set (keys am_ID (accounts (view t db)))\<rbrakk> \<Longrightarrow>
    th_step held False db t db (at_pc t (Summing (a # as)))"
| SumAccount: "\<lbrakk>th_pc t = Summing (a # as); b = ledger_sum a (transactions (view t db)); 0 \<le> b; fits_signed 64 b\<rbrakk> \<Longrightarrow>
    th_step held False db t db (at_pc t (Writing b (a # as)))"
| SumRefused: "\<lbrakk>th_pc t = Summing (a # as); b = ledger_sum a (transactions (view t db)); \<not> (0 \<le> b \<and> fits_signed 64 b)\<rbrakk> \<Longrightarrow>
    th_step held False db t db (tx_over t (Recording TransactionStatusFailed))"
| WriteAccount: "\<lbrakk>th_pc t = Writing b (a # as); a \<in> set (keys am_ID (accounts (view t db)))\<rbrakk> \<Longrightarrow>
    th_step held False db t db (t\<lparr>th_pc := after_account as, th_writes := th_writes t @ [SetBalance a b now]\<rparr>)"
| WriteMissing: "\<lbrakk>th_pc t = Writing b (a # as); a \<notin> set (keys am_ID (accounts (view t db)))\<rbrakk> \<Longrightarrow>
    th_step held False db t db (tx_over t (Recording TransactionStatusFailed))"
| SelectRow: "\<lbrakk>th_pc t = Selecting; tid_of t \<in> set (keys tm_ID (transactions (view t db)))\<rbrakk> \<Longrightarrow>
    th_step held False db t db (at_pc t SettleCommit)"
| SelectMissing: "\<lbrakk>th_pc t = Selecting; tid_of t \<notin> set (keys tm_ID (transactions (view t db)))\<rbrakk> \<Longrightarrow>
    th_step held False db t db (tx_over t (Recording TransactionStatusFailed))"
| SettleCommitted: "th_pc t = SettleCommit \<Longrightarrow>
    th_step held False db t (view t db) (tx_over t (Recording TransactionStatusCompleted))"
| SettleFault: "th_pc t = Completing \<or> th_pc t = Locking as \<or> th_pc t = Summing as \<or> th_pc t = Writing b as
      \<or> th_pc t = Selecting \<or> th_pc t = SettleCommit \<Longrightarrow>
    th_step held True db t db (tx_over t (Recording TransactionStatusFailed))"
| RecordStatus: "\<lbrakk>th_pc t = Recording s; TransactionRow (tid_of t) \<notin> held\<rbrakk> \<Longrightarrow>
    th_step held False db t (status_set (tid_of t) s now db) (at_pc t (Finished (s = TransactionStatusCompleted)))"
| RecordFault: "th_pc t = Recording s \<Longrightarrow>
    th_step held True db t db (at_pc t (Finished (s = TransactionStatusCompleted)))"

text \<open>The statement a thread executes when nothing fails, as a function; \<open>None\<close> when it waits for a lock
  or has finished.\<close>

definition next_stmt :: "lock set \<Rightarrow> time \<Rightarrow> database \<Rightarrow> thread \<Rightarrow> (database \<times> thread) option" where
  "next_stmt held now db t =
     (case th_pc t of
        Check \<Rightarrow>
          Some (db, if may_withdraw (th_mv t) (account_row db (mv_to (th_mv t)))
                    then t\<lparr>th_pc := Inserting (mv_locks (th_mv t)), th_seen := account_row db (mv_to (th_mv t))\<rparr>
                    else at_pc t (Finished False))
      | Inserting (a # as) \<Rightarrow>
          if a \<notin> set (keys am_ID (accounts (view t db))) then Some (db, at_pc t (Inserting as))
          else if \<not> account_free held a then None
          else Some (db, t\<lparr>th_pc := Inserting as, th_locks := insert (AccountRow a) (th_locks t)\<rparr>)
      | Inserting [] \<Rightarrow>
          if isl (fst (insert_stmt t now (view t db))) then Some (db, tx_over t (Finished False))
          else if UniqueKey (tid_of t) \<in> held then None
          else if tid_of t \<in> set (keys tm_ID (transactions (view t db))) then Some (db, at_pc t InsertCommit)
          else if \<not> keys_free held (th_mv t) then None
          else Some (db, t\<lparr>th_pc := InsertCommit, th_writes := th_writes t @ [InsertRow (inserted_row t now)],
                 th_locks := insert_locks (th_mv t) \<union> th_locks t\<rparr>)
      | InsertCommit \<Rightarrow> Some (view t db, tx_over t Completing)
      | Completing \<Rightarrow>
          if over_limit t then Some (db, at_pc t (Recording TransactionStatusFailed))
          else if \<exists>r \<in> set (transactions (view t db)). pending_row (tid_of t) r then
            (if TransactionRow (tid_of t) \<in> held then None
             else Some (db, t\<lparr>th_pc := Locking (mv_ids (th_mv t)), th_writes := th_writes t @ [Flip (tid_of t) now],
                    th_locks := insert (TransactionRow (tid_of t)) (th_locks t)\<rparr>))
          else Some (db, at_pc t Selecting)
      | Locking (a # as) \<Rightarrow>
          if a \<notin> set (keys am_ID (accounts (view t db))) then Some (db, at_pc t (Summing (a # as)))
          else if \<not> account_free held a then None
          else Some (db, t\<lparr>th_pc := Summing (a # as), th_locks := insert (AccountRow a) (th_locks t)\<rparr>)
      | Summing (a # as) \<Rightarrow>
          (let b = ledger_sum a (transactions (view t db)) in
           Some (db, if 0 \<le> b \<and> fits_signed 64 b then at_pc t (Writing b (a # as))
                     else tx_over t (Recording TransactionStatusFailed)))
      | Writing b (a # as) \<Rightarrow>
          Some (db, if a \<in> set (keys am_ID (accounts (view t db)))
                    then t\<lparr>th_pc := after_account as, th_writes := th_writes t @ [SetBalance a b now]\<rparr>
                    else tx_over t (Recording TransactionStatusFailed))
      | Selecting \<Rightarrow>
          Some (db, if tid_of t \<in> set (keys tm_ID (transactions (view t db))) then at_pc t SettleCommit
                    else tx_over t (Recording TransactionStatusFailed))
      | SettleCommit \<Rightarrow> Some (view t db, tx_over t (Recording TransactionStatusCompleted))
      | Recording s \<Rightarrow>
          if TransactionRow (tid_of t) \<in> held then None
          else Some (status_set (tid_of t) s now db, at_pc t (Finished (s = TransactionStatusCompleted)))
      | _ \<Rightarrow> None)"

lemma next_stmt_step:
  assumes "next_stmt held now db t = Some (db', t')"
  shows "th_step held False db t db' t'"
proof (cases "th_pc t")
  case Check
  show ?thesis
  proof (cases "may_withdraw (th_mv t) (account_row db (mv_to (th_mv t)))")
    case True
    then obtain a where "account_row db (mv_to (th_mv t)) = Some a"
      by (cases "account_row db (mv_to (th_mv t))") (auto simp: may_withdraw_def)
    with assms Check True show ?thesis by (auto simp: next_stmt_def intro: th_step.CheckOk)
  qed (use assms Check in \<open>auto simp: next_stmt_def intro: th_step.CheckRefused\<close>)
next
  case (Inserting as)
  show ?thesis
  proof (cases as)
    case Nil
    with assms Inserting show ?thesis
      by (cases "insert_stmt t now (view t db)"; cases "fst (insert_stmt t now (view t db))")
        (auto simp: next_stmt_def split: if_splits intro: th_step.InsertRefused th_step.InsertConflict th_step.InsertNew)
  qed (use assms Inserting in \<open>auto simp: next_stmt_def split: if_splits intro: th_step.InsertLock th_step.InsertNoRow\<close>)
next
  case (Summing as)
  with assms show ?thesis
    by (cases as) (auto simp: next_stmt_def Let_def split: if_splits intro: th_step.SumAccount th_step.SumRefused)
next
  case (Writing b as)
  with assms show ?thesis
    by (cases as) (auto simp: next_stmt_def split: if_splits intro: th_step.WriteAccount th_step.WriteMissing)
next
  case (Locking as)
  with assms show ?thesis
    by (cases as) (auto simp: next_stmt_def split: if_splits intro: th_step.LockAccount th_step.LockNoRow)
qed (use assms in \<open>auto simp: next_stmt_def split: if_splits intro: th_step.InsertCommitted th_step.OverLimit
    th_step.FlipRow th_step.FlipNothing th_step.SelectRow th_step.SelectMissing th_step.SettleCommitted
    th_step.RecordStatus\<close>)

section \<open>The threads together\<close>

type_synonym crowd = "database \<times> thread list"

definition held_by_others :: "nat \<Rightarrow> thread list \<Rightarrow> lock set" where
  "held_by_others i ts = (\<Union>j \<in> {..<length ts} - {i}. th_locks (ts ! j))"

text \<open>A movement arrives with an identifier of its own: the events of one request are handled one
  after another, by the one consumer of their partition.\<close>

definition may_arrive :: "movement \<Rightarrow> crowd \<Rightarrow> bool" where
  "may_arrive m c \<longleftrightarrow> mv_id m \<notin> tid_of ` set (snd c) \<and>
     awaits (mv_id m) (mv_type m) (mv_from m) (mv_to m) (mv_amount m) (fst c)"

inductive crowd_step :: "crowd \<Rightarrow> crowd \<Rightarrow> bool" where
  Arrive: "\<lbrakk>m = movement_of rq; fits_signed 64 (mv_amount m); may_arrive m (db, ts)\<rbrakk> \<Longrightarrow>
    crowd_step (db, ts) (db, ts @ [start m])"
| Statement: "\<lbrakk>i < length ts; th_step (held_by_others i ts) f db (ts ! i) db' t'\<rbrakk> \<Longrightarrow>
    crowd_step (db, ts) (db', ts[i := t'])"
| OpensAccount: "\<lbrakk>schema_ok (db\<lparr>accounts := accounts db @ [a]\<rparr>); am_Balance a = 0\<rbrakk> \<Longrightarrow>
    crowd_step (db, ts) (db\<lparr>accounts := accounts db @ [a]\<rparr>, ts)"
| Elsewhere: "\<lbrakk>accounts db' = accounts db; transactions db' = transactions db; schema_ok db'\<rbrakk> \<Longrightarrow>
    crowd_step (db, ts) (db', ts)"

text \<open>A schedule says whose turn it is.\<close>

fun run_schedule :: "nat list \<Rightarrow> crowd \<Rightarrow> crowd option" where
  "run_schedule [] c = Some c"
| "run_schedule (i # is) (db, ts) =
     (if i < length ts
      then (case next_stmt (held_by_others i ts) 0 db (ts ! i) of
              None \<Rightarrow> None
            | Some (db', t') \<Rightarrow> run_schedule is (db', ts[i := t']))
      else None)"

lemma run_schedule_steps: "run_schedule is c = Some c' \<Longrightarrow> crowd_step\<^sup>*\<^sup>* c c'"
proof (induction "is" c rule: run_schedule.induct)
  case (2 i "is" db ts)
  then obtain db' t' where n: "i < length ts" "next_stmt (held_by_others i ts) 0 db (ts ! i) = Some (db', t')"
    and r: "run_schedule is (db', ts[i := t']) = Some c'"
    by (auto split: if_splits option.splits prod.splits)
  have "crowd_step (db, ts) (db', ts[i := t'])" using n next_stmt_step by (blast intro: crowd_step.Statement)
  moreover have "crowd_step\<^sup>*\<^sup>* (db', ts[i := t']) c'" using 2(1) n r by auto
  ultimately show ?case by (rule converse_rtranclp_into_rtranclp)
qed simp

definition all_finished :: "thread list \<Rightarrow> bool" where
  "all_finished ts \<longleftrightarrow> list_all (\<lambda>t. case th_pc t of Finished r \<Rightarrow> True | _ \<Rightarrow> False) ts"

lemma all_finished_iff: "all_finished ts \<longleftrightarrow> (\<forall>t \<in> set ts. \<exists>r. th_pc t = Finished r)"
  unfolding all_finished_def list_all_iff by (intro ball_cong refl) (auto split: pc.splits)

section \<open>Two movements of the same account\<close>

definition sample_crowd :: crowd where
  "sample_crowd = (sample_db, [start (movement_of (DepositReq ''t1'' ''u1'' ''a1'' ''USD'' 500)),
     start (movement_of (TransferReq ''t2'' ''u1'' ''a1'' ''a2'' ''USD'' 300))])"

text \<open>Both have completed their rows, uncommitted, when the first begins to reconcile the account.\<close>

definition sample_turns :: "nat list" where
  "sample_turns = [0, 0, 1, 1, 1, 1, 0, 1, 0, 0, 0, 0, 0, 1, 1, 1, 1, 1, 1, 1, 1, 0, 1]"

lemma sample_crowd_reached: "crowd_step\<^sup>*\<^sup>* (sample_db, []) sample_crowd"
proof -
  let ?d = "DepositReq ''t1'' ''u1'' ''a1'' ''USD'' 500" and ?t = "TransferReq ''t2'' ''u1'' ''a1'' ''a2'' ''USD'' 300"
  have "crowd_step (sample_db, []) (sample_db, [] @ [start (movement_of ?d)])"
    by (rule crowd_step.Arrive [of _ ?d]) (simp_all add: may_arrive_def awaits_def fixture_defs fits_signed_def)
  moreover have "crowd_step (sample_db, [start (movement_of ?d)]) (sample_db, [start (movement_of ?d)] @ [start (movement_of ?t)])"
    by (rule crowd_step.Arrive [of _ ?t])
      (simp_all add: may_arrive_def awaits_def fixture_defs fits_signed_def start_def)
  ultimately show ?thesis by (simp add: sample_crowd_def)
qed

lemma sample_run:
  obtains db ts where "run_schedule sample_turns sample_crowd = Some (db, ts)"
    and "crowd_step\<^sup>*\<^sup>* (sample_db, []) (db, ts)" and "map th_pc ts = [Finished True, Finished True]"
    and "map th_mv ts = map th_mv (snd sample_crowd)"
proof -
  have "map_option (\<lambda>c. (map th_pc (snd c), map th_mv (snd c))) (run_schedule sample_turns sample_crowd) =
      Some ([Finished True, Finished True], map th_mv (snd sample_crowd))"
    by code_simp
  then obtain db ts where "run_schedule sample_turns sample_crowd = Some (db, ts)"
      "map th_pc ts = [Finished True, Finished True]" "map th_mv ts = map th_mv (snd sample_crowd)"
    by auto
  then show thesis using that sample_crowd_reached run_schedule_steps by (meson rtranclp_trans)
qed

end
