(* ===== verification/IsolationProps.thy ===== *)
theory IsolationProps
  imports Isolation
begin

text \<open>
  What holds when movements of money run concurrently. The invariant of a thread says, for each
  statement it can be at, which rows and locks it relies on; a change made by another thread is
  \<open>confined\<close> to the rows of that thread's transaction and to the sums of the accounts it has locked,
  so it cannot disturb the invariant. Shown are that the books balance in every committed state and
  that no update is lost.
\<close>

section \<open>What a thread relies on\<close>

abbreviation known :: "thread \<Rightarrow> database \<Rightarrow> bool" where
  "known t db \<equiv> tid_of t \<in> set (keys tm_ID (transactions db))"

definition waiting :: "thread \<Rightarrow> database \<Rightarrow> bool" where
  "waiting t db \<longleftrightarrow> (let m = th_mv t in awaits (mv_id m) (mv_type m) (mv_from m) (mv_to m) (mv_amount m) db)"

definition all_rows :: "thread \<Rightarrow> (TransactionStatus \<Rightarrow> bool) \<Rightarrow> database \<Rightarrow> bool" where
  "all_rows t P db \<longleftrightarrow> (\<forall>r \<in> set (transactions db). tm_ID r = tid_of t \<longrightarrow> P (tm_Status r))"

text \<open>The balance an account gets when the transaction of the thread is completed.\<close>

definition owed :: "thread \<Rightarrow> string \<Rightarrow> database \<Rightarrow> int" where
  "owed t a db = ledger_sum a (complete_pending (tid_of t) 0 (transactions db))"

definition owed_ok :: "thread \<Rightarrow> string \<Rightarrow> int \<Rightarrow> database \<Rightarrow> bool" where
  "owed_ok t a b db \<longleftrightarrow> b = owed t a db \<and> 0 \<le> b \<and> fits_signed 64 b"

definition settling :: "thread \<Rightarrow> string list \<Rightarrow> database \<Rightarrow> bool" where
  "settling t ds db \<longleftrightarrow> waiting t db \<and> known t db \<and>
     (\<exists>now bs. th_writes t = Flip (tid_of t) now # map (\<lambda>(a, b, n). SetBalance a b n) bs \<and> map fst bs = ds \<and>
        (\<forall>(a, b, n) \<in> set bs. owed_ok t a b db \<and> a \<in> set (keys am_ID (accounts db))))"

definition clean :: "thread \<Rightarrow> bool" where
  "clean t \<longleftrightarrow> th_writes t = [] \<and> th_locks t = {}"

definition settle_locks :: "thread \<Rightarrow> string list \<Rightarrow> lock set" where
  "settle_locks t ds = insert (TransactionRow (tid_of t)) (AccountRow ` set ds)"

fun thread_at :: "pc \<Rightarrow> thread \<Rightarrow> database \<Rightarrow> bool" where
  "thread_at Check t db \<longleftrightarrow> clean t \<and> waiting t db"
| "thread_at (Inserting as) t db \<longleftrightarrow> th_writes t = [] \<and> waiting t db \<and>
     (\<exists>ds. mv_locks (th_mv t) = ds @ as \<and> th_locks t \<subseteq> AccountRow ` set ds)"
| "thread_at InsertCommit t db \<longleftrightarrow> waiting t db \<and>
     th_locks t \<subseteq> insert_locks (th_mv t) \<union> AccountRow ` set (mv_locks (th_mv t)) \<and>
     (known t db \<and> th_writes t = [] \<or>
      \<not> known t db \<and> (\<exists>now. th_writes t = [InsertRow (inserted_row t now)] \<and>
        transaction_row_ok (keys am_ID (accounts db)) (inserted_row t now)))"
| "thread_at Completing t db \<longleftrightarrow> clean t \<and> waiting t db \<and> known t db"
| "thread_at (Locking as) t db \<longleftrightarrow> (\<exists>ds. as \<noteq> [] \<and> mv_ids (th_mv t) = ds @ as \<and> settling t ds db \<and>
     th_locks t = settle_locks t ds)"
| "thread_at (Summing as) t db \<longleftrightarrow> (\<exists>ds a as'. as = a # as' \<and> mv_ids (th_mv t) = ds @ as \<and> settling t ds db \<and>
     th_locks t = settle_locks t (ds @ [a]))"
| "thread_at (Writing b as) t db \<longleftrightarrow> (\<exists>ds a as'. as = a # as' \<and> mv_ids (th_mv t) = ds @ as \<and> settling t ds db \<and>
     th_locks t = settle_locks t (ds @ [a]) \<and> owed_ok t a b db)"
| "thread_at Selecting t db \<longleftrightarrow> settling t (mv_ids (th_mv t)) db \<and> th_locks t = settle_locks t (mv_ids (th_mv t))"
| "thread_at SettleCommit t db \<longleftrightarrow> settling t (mv_ids (th_mv t)) db \<and> th_locks t = settle_locks t (mv_ids (th_mv t))"
| "thread_at (Recording s) t db \<longleftrightarrow> clean t \<and>
     (if s = TransactionStatusCompleted then known t db \<and> all_rows t ((=) TransactionStatusCompleted) db
      else s = TransactionStatusFailed \<and> waiting t db)"
| "thread_at (Finished ok) t db \<longleftrightarrow> clean t \<and>
     (if ok then known t db \<and> all_rows t ((=) TransactionStatusCompleted) db
      else all_rows t ((\<noteq>) TransactionStatusCompleted) db)"

definition movement_fine :: "thread \<Rightarrow> bool" where
  "movement_fine t \<longleftrightarrow> (\<exists>rq. th_mv t = movement_of rq) \<and> fits_signed 64 (mv_amount (th_mv t)) \<and>
     (th_pc t = Finished False \<or> 0 < mv_amount (th_mv t))"

abbreviation thread_inv :: "database \<Rightarrow> thread \<Rightarrow> bool" where
  "thread_inv db t \<equiv> movement_fine t \<and> thread_at (th_pc t) t db"

text \<open>What a thread has brought to an account.\<close>

definition mv_delta :: "movement \<Rightarrow> string \<Rightarrow> int" where
  "mv_delta m a =
     (if a \<noteq> mv_from m \<and> a \<noteq> mv_to m then 0
      else if mv_type m = ''deposit'' \<or> mv_type m = ''transfer'' \<and> a = mv_to m then mv_amount m
      else - mv_amount m)"

definition settled :: "thread \<Rightarrow> bool" where
  "settled t \<longleftrightarrow> th_pc t = Recording TransactionStatusCompleted \<or> th_pc t = Finished True"

definition gain :: "thread \<Rightarrow> string \<Rightarrow> int" where
  "gain t a = (if settled t then mv_delta (th_mv t) a else 0)"

section \<open>Sums over the ledger, by transaction\<close>

lemma ledger_sum_split:
  "ledger_sum a ts = ledger_sum a (filter (\<lambda>r. tm_ID r \<noteq> x) ts) + ledger_sum a (filter (\<lambda>r. tm_ID r = x) ts)"
  by (induction ts) (auto simp: ledger_sum_Cons)

lemma ledger_sum_complete_now: "ledger_sum a (complete_pending tid now ts) = ledger_sum a (complete_pending tid 0 ts)"
  by (induction ts) (auto simp: complete_pending_def ledger_sum_Cons pending_row_def)

lemma filter_complete_other:
  assumes "x \<noteq> tid"
  shows "filter (\<lambda>r. tm_ID r = x) (complete_pending tid now ts) = filter (\<lambda>r. tm_ID r = x) ts"
  using assms by (induction ts) (auto simp: complete_pending_def pending_row_def)

lemma filter_complete:
  "filter (\<lambda>r. tm_ID r \<noteq> x) (complete_pending tid now ts) = complete_pending tid now (filter (\<lambda>r. tm_ID r \<noteq> x) ts)"
  by (induction ts) (auto simp: complete_pending_def)

lemma filter_complete_own:
  "filter (\<lambda>r. tm_ID r \<noteq> x) (complete_pending x now ts) = filter (\<lambda>r. tm_ID r \<noteq> x) ts"
  by (induction ts) (auto simp: complete_pending_def pending_row_def)

text \<open>A change that is confined to the rows of one transaction and to the sums of some accounts.\<close>

definition confined :: "string \<Rightarrow> string set \<Rightarrow> database \<Rightarrow> database \<Rightarrow> bool" where
  "confined x A db db' \<longleftrightarrow> set (keys am_ID (accounts db)) \<subseteq> set (keys am_ID (accounts db')) \<and>
     filter (\<lambda>r. tm_ID r \<noteq> x) (transactions db') = filter (\<lambda>r. tm_ID r \<noteq> x) (transactions db) \<and>
     (\<forall>a. a \<notin> A \<longrightarrow> ledger_sum a (filter (\<lambda>r. tm_ID r = x) (transactions db')) =
        ledger_sum a (filter (\<lambda>r. tm_ID r = x) (transactions db)))"

lemma confined_refl [simp]: "confined x A db db"
  by (simp add: confined_def)

lemma confined_rows:
  assumes "confined x A db db'" and "tid \<noteq> x"
  shows "r \<in> set (transactions db') \<and> tm_ID r = tid \<longleftrightarrow> r \<in> set (transactions db) \<and> tm_ID r = tid"
proof -
  have "set (filter (\<lambda>r. tm_ID r \<noteq> x) (transactions db')) = set (filter (\<lambda>r. tm_ID r \<noteq> x) (transactions db))"
    using assms(1) by (simp only: confined_def)
  then show ?thesis using assms(2) by auto
qed

lemma confined_owed:
  assumes "confined x A db db'" and "tid_of t \<noteq> x" and "a \<notin> A"
  shows "owed t a db' = owed t a db"
proof -
  have "owed t a d = ledger_sum a (complete_pending (tid_of t) 0 (filter (\<lambda>r. tm_ID r \<noteq> x) (transactions d)))
      + ledger_sum a (filter (\<lambda>r. tm_ID r = x) (transactions d))" for d
    unfolding owed_def
    using ledger_sum_split [of a "complete_pending (tid_of t) 0 (transactions d)" x] assms(2)
    by (simp add: filter_complete filter_complete_other)
  then show ?thesis using assms by (simp add: confined_def)
qed

lemma confined_thread:
  assumes c: "confined x A db db'" and x: "tid_of t \<noteq> x"
  shows "waiting t db' = waiting t db" "known t db' = known t db" "all_rows t P db' = all_rows t P db"
  using confined_rows [OF c x]
  by (auto simp: waiting_def awaits_def set_keys all_rows_def Let_def)

lemma confined_settling:
  assumes c: "confined x A db db'" and x: "tid_of t \<noteq> x" and A: "set ds \<inter> A = {}" and s: "settling t ds db"
  shows "settling t ds db'"
proof -
  from s obtain now bs where w: "th_writes t = Flip (tid_of t) now # map (\<lambda>(a, b, n). SetBalance a b n) bs"
      "map fst bs = ds" "\<forall>(a, b, n) \<in> set bs. owed_ok t a b db \<and> a \<in> set (keys am_ID (accounts db))"
      "waiting t db" "known t db"
    by (auto simp: settling_def)
  have "owed_ok t a b db' \<and> a \<in> set (keys am_ID (accounts db'))" if "(a, b, n) \<in> set bs" for a b n
  proof -
    have "a \<in> set ds" using that w(2) by force
    then have "owed t a db' = owed t a db" using A by (intro confined_owed [OF c x]) auto
    then show ?thesis using w(3) that c by (auto simp: owed_ok_def confined_def)
  qed
  then show ?thesis using w confined_thread [OF c x] by (auto simp: settling_def)
qed

lemma thread_at_stable:
  assumes c: "confined x A db db'" and x: "tid_of t \<noteq> x" and A: "AccountRow ` A \<inter> th_locks t = {}"
    and t: "thread_at p t db"
  shows "thread_at p t db'"
proof -
  note st = confined_thread [OF c x]
  have keep: "settling t ds db'" if "settling t ds db" "AccountRow ` set ds \<subseteq> th_locks t" for ds
    using that A by (intro confined_settling [OF c x]) auto
  have keep_owed: "owed_ok t a b db'" if "owed_ok t a b db" "AccountRow a \<in> th_locks t" for a b
  proof -
    have "owed t a db' = owed t a db" using that(2) A by (intro confined_owed [OF c x]) auto
    then show ?thesis using that(1) by (auto simp: owed_ok_def)
  qed
  have row: "transaction_row_ok (keys am_ID (accounts db')) r" if "transaction_row_ok (keys am_ID (accounts db)) r" for r
    using that c by (auto simp: transaction_row_ok_def confined_def)
  show ?thesis
  proof (cases p)
    case InsertCommit
    then show ?thesis using t st row by auto
  next
    case (Locking as)
    then show ?thesis using t keep by (auto simp: settle_locks_def)
  next
    case (Summing as)
    with t obtain ds a as' where "as = a # as'" "mv_ids (th_mv t) = ds @ as" "settling t ds db"
        "th_locks t = settle_locks t (ds @ [a])" by auto
    with keep [of ds] Summing show ?thesis by (auto simp: settle_locks_def)
  next
    case (Writing b as)
    with t obtain ds a as' where "as = a # as'" "mv_ids (th_mv t) = ds @ as" "settling t ds db"
        "th_locks t = settle_locks t (ds @ [a])" "owed_ok t a b db" by auto
    with keep [of ds] keep_owed [of a b] Writing show ?thesis by (auto simp: settle_locks_def)
  qed (use t st keep [of "mv_ids (th_mv t)"] in \<open>auto simp: settle_locks_def\<close>)
qed

section \<open>What a thread sees and commits\<close>

lemma view_nothing [simp]: "th_writes t = [] \<Longrightarrow> view t db = db"
  by (simp add: view_def)

lemma apply_balances:
  "fold apply_write (map (\<lambda>(a, b, n). SetBalance a b n) bs) db =
     db\<lparr>accounts := fold (\<lambda>(a, b, n). set_balance a b n) bs (accounts db)\<rparr>"
  by (induction bs arbitrary: db) (auto simp: split_beta)

lemma view_settling:
  assumes "th_writes t = Flip tid now # map (\<lambda>(a, b, n). SetBalance a b n) bs"
  shows "view t db = db\<lparr>transactions := complete_pending tid now (transactions db),
    accounts := fold (\<lambda>(a, b, n). set_balance a b n) bs (accounts db)\<rparr>"
  using assms by (simp add: view_def apply_balances)

lemma keys_balances [simp]:
  "keys am_ID (fold (\<lambda>(a, b, n). set_balance a b n) bs as) = keys am_ID as"
  "keys am_UserID (fold (\<lambda>(a, b, n). set_balance a b n) bs as) = keys am_UserID as"
  by (induction bs arbitrary: as) (auto simp: set_balance_def table_simps)

lemma balances_row:
  assumes "r' \<in> set (fold (\<lambda>(a, b, n). set_balance a b n) bs as)"
  shows "\<exists>r \<in> set as. am_ID r' = am_ID r \<and> am_UserID r' = am_UserID r \<and>
    (if am_ID r \<in> fst ` set bs then \<exists>n. (am_ID r, am_Balance r', n) \<in> set bs else am_Balance r' = am_Balance r)"
  using assms
proof (induction bs arbitrary: as)
  case Nil
  then show ?case by auto
next
  case (Cons x bs)
  obtain a b n where x: "x = (a, b, n)" by (cases x)
  from Cons.prems x have "r' \<in> set (fold (\<lambda>(a, b, n). set_balance a b n) bs (set_balance a b n as))" by simp
  from Cons.IH [OF this] obtain r where r: "r \<in> set (set_balance a b n as)" "am_ID r' = am_ID r"
      "am_UserID r' = am_UserID r"
      "if am_ID r \<in> fst ` set bs then \<exists>n. (am_ID r, am_Balance r', n) \<in> set bs else am_Balance r' = am_Balance r"
    by blast
  from r(1) obtain r0 where r0: "r0 \<in> set as"
      "r = (if am_ID r0 = a then r0\<lparr>am_Balance := b, am_UpdatedAt := n\<rparr> else r0)"
    by (auto simp: set_balance_def set_update_where)
  show ?case
    by (rule bexI [OF _ r0(1)]) (use r r0(2) x in \<open>auto split: if_splits\<close>)
qed

lemma matching_row:
  assumes "waiting t db" and "r \<in> set (transactions db)" and "tm_ID r = tid_of t"
    and "\<exists>rq. th_mv t = movement_of rq"
  shows "pending_row (tid_of t) r"
    and "(if involves a r then contribution a r else 0) = mv_delta (th_mv t) a"
proof -
  have r: "tm_Status r = TransactionStatusPending" "transaction_type r = mv_type (th_mv t)"
      "tm_FromAccount r = mv_from (th_mv t)" "tm_ToAccount r = mv_to (th_mv t)" "tm_Amount r = mv_amount (th_mv t)"
    using assms(1-3) by (auto simp: waiting_def awaits_def Let_def)
  show "pending_row (tid_of t) r" using r assms(3) by (simp add: pending_row_def)
  obtain rq where "th_mv t = movement_of rq" using assms(4) by blast
  with r show "(if involves a r then contribution a r else 0) = mv_delta (th_mv t) a"
    by (cases rq) (auto simp: involves_def contribution_def mv_delta_def)
qed

lemma mv_ids_set: "\<exists>rq. m = movement_of rq \<Longrightarrow> {mv_from m, mv_to m} = set (mv_ids m)"
proof -
  assume "\<exists>rq. m = movement_of rq"
  then obtain rq where "m = movement_of rq" by blast
  then show ?thesis by (cases rq) (auto simp: mv_ids_def pair_list_def lock_order_def)
qed

lemma flip_sum:
  assumes ok: "schema_ok db" and w: "waiting t db" and k: "known t db" and rq: "\<exists>rq. th_mv t = movement_of rq"
  shows "ledger_sum a (complete_pending (tid_of t) now (transactions db)) =
    ledger_sum a (transactions db) + mv_delta (th_mv t) a"
proof -
  from k obtain r where r: "r \<in> set (transactions db)" "tm_ID r = tid_of t" by (auto simp: set_keys)
  show ?thesis
    using ledger_sum_complete [OF schema_okD(2) [OF ok] r(1) matching_row(1) [OF w r rq], of a now]
      matching_row(2) [OF w r rq, of a] by simp
qed

lemma flip_rows:
  assumes "waiting t db"
  shows "all_rows t ((=) TransactionStatusCompleted)
    (db\<lparr>transactions := complete_pending (tid_of t) now (transactions db), accounts := x\<rparr>)"
  using assms
  by (auto simp: all_rows_def complete_pending_def set_update_where pending_row_def waiting_def awaits_def Let_def)

lemma flip_confined:
  assumes ok: "schema_ok db" and w: "waiting t db" and k: "known t db" and rq: "\<exists>rq. th_mv t = movement_of rq"
    and keys: "keys am_ID x = keys am_ID (accounts db)"
  shows "confined (tid_of t) (set (mv_ids (th_mv t))) db
    (db\<lparr>transactions := complete_pending (tid_of t) now (transactions db), accounts := x\<rparr>)"
proof -
  have "ledger_sum a (filter (\<lambda>r. tm_ID r = tid_of t) (complete_pending (tid_of t) now (transactions db))) =
      ledger_sum a (filter (\<lambda>r. tm_ID r = tid_of t) (transactions db))" if "a \<notin> set (mv_ids (th_mv t))" for a
  proof -
    have "mv_delta (th_mv t) a = 0" using that mv_ids_set [OF rq] by (auto simp: mv_delta_def)
    then show ?thesis
      using flip_sum [OF ok w k rq, of a now] ledger_sum_split [of a "transactions db" "tid_of t"]
        ledger_sum_split [of a "complete_pending (tid_of t) now (transactions db)" "tid_of t"]
      by (simp add: filter_complete_own)
  qed
  then show ?thesis using keys by (simp add: confined_def filter_complete_own)
qed

lemma complete_schema:
  assumes "transactions_ok aids ts"
  shows "transactions_ok aids (complete_pending tid now ts)"
  using assms
  by (auto simp: transactions_ok_def transaction_row_ok_def complete_pending_def set_update_where
      keys_update_where split: if_splits)

lemma settle_commit:
  assumes ok: "schema_ok db" and books: "books_balanced db" and rq: "\<exists>rq. th_mv t = movement_of rq"
    and s: "settling t (mv_ids (th_mv t)) db"
  shows "schema_ok (view t db)" "books_balanced (view t db)" "known t (view t db)"
    and "all_rows t ((=) TransactionStatusCompleted) (view t db)"
    and "confined (tid_of t) (set (mv_ids (th_mv t))) db (view t db)"
    and "ledger_sum a (transactions (view t db)) = ledger_sum a (transactions db) + mv_delta (th_mv t) a"
proof -
  from s obtain now bs where w: "th_writes t = Flip (tid_of t) now # map (\<lambda>(a, b, n). SetBalance a b n) bs"
      "map fst bs = mv_ids (th_mv t)"
      "\<forall>(a, b, n) \<in> set bs. owed_ok t a b db \<and> a \<in> set (keys am_ID (accounts db))"
      "waiting t db" "known t db"
    by (auto simp: settling_def)
  let ?ts = "complete_pending (tid_of t) now (transactions db)"
  let ?as = "fold (\<lambda>(a, b, n). set_balance a b n) bs (accounts db)"
  have v: "view t db = db\<lparr>transactions := ?ts, accounts := ?as\<rparr>" by (rule view_settling [OF w(1)])
  have ids: "fst ` set bs = set (mv_ids (th_mv t))" using w(2) by (metis set_map)
  have row: "\<exists>r \<in> set (accounts db). am_ID r' = am_ID r \<and> am_UserID r' = am_UserID r \<and>
      am_Balance r' = ledger_sum (am_ID r) ?ts \<and> 0 \<le> am_Balance r' \<and> fits_signed 64 (am_Balance r')"
    if "r' \<in> set ?as" for r'
  proof -
    from balances_row [OF that] obtain r where r: "r \<in> set (accounts db)" "am_ID r' = am_ID r" "am_UserID r' = am_UserID r"
        "if am_ID r \<in> fst ` set bs then \<exists>n. (am_ID r, am_Balance r', n) \<in> set bs else am_Balance r' = am_Balance r"
      by blast
    show ?thesis
    proof (cases "am_ID r \<in> fst ` set bs")
      case True
      with r(4) w(3) have "owed_ok t (am_ID r) (am_Balance r') db" by auto
      with r show ?thesis by (auto simp: owed_ok_def owed_def ledger_sum_complete_now [of _ _ now])
    next
      case False
      then have "mv_delta (th_mv t) (am_ID r) = 0" using mv_ids_set [OF rq] ids by (auto simp: mv_delta_def)
      then have "ledger_sum (am_ID r) ?ts = am_Balance r"
        using flip_sum [OF ok w(4,5) rq, of "am_ID r" now] books r(1) by (simp add: books_balanced_def)
      with False r schema_okD(4) [OF ok r(1)] show ?thesis by (auto simp: account_row_ok_def)
    qed
  qed
  show "books_balanced (view t db)"
    unfolding v books_balanced_def using row by fastforce
  have "accounts_ok (keys um_ID (users db)) ?as"
    unfolding accounts_ok_def
  proof (intro conjI ballI)
    show "distinct (keys am_ID ?as)" using schema_okD(1) [OF ok] by simp
    fix r' assume "r' \<in> set ?as"
    from row [OF this] schema_okD(4) [OF ok] show "account_row_ok (keys um_ID (users db)) r'"
      by (auto simp: account_row_ok_def)
  qed
  moreover have "transactions_ok (keys am_ID (accounts db)) ?ts"
    using ok by (intro complete_schema) (simp add: schema_ok_def)
  ultimately show "schema_ok (view t db)" using ok by (simp add: v schema_ok_def)
  show "known t (view t db)" using w(5) by (simp add: v)
  show "all_rows t ((=) TransactionStatusCompleted) (view t db)" unfolding v by (rule flip_rows [OF w(4)])
  show "confined (tid_of t) (set (mv_ids (th_mv t))) db (view t db)"
    unfolding v by (rule flip_confined [OF ok w(4,5) rq]) simp
  show "ledger_sum a (transactions (view t db)) = ledger_sum a (transactions db) + mv_delta (th_mv t) a"
    using flip_sum [OF ok w(4,5) rq, of a now] by (simp add: v)
qed

lemma fresh_row_confined:
  assumes "tm_ID r = x" and "tm_Status r \<noteq> TransactionStatusCompleted"
  shows "confined x A db (db\<lparr>transactions := transactions db @ [r]\<rparr>)"
  using assms by (simp add: confined_def ledger_sum_append ledger_sum_Cons)

lemma insert_commit:
  assumes ok: "schema_ok db" and books: "books_balanced db" and t: "thread_at InsertCommit t db"
  shows "schema_ok (view t db) \<and> books_balanced (view t db) \<and> known t (view t db) \<and> waiting t (view t db)
    \<and> confined (tid_of t) A db (view t db) \<and> ledger_sum a (transactions (view t db)) = ledger_sum a (transactions db)"
proof (cases "known t db")
  case True
  with assms show ?thesis by auto
next
  case False
  with t obtain now where w: "waiting t db" "th_writes t = [InsertRow (inserted_row t now)]"
      "transaction_row_ok (keys am_ID (accounts db)) (inserted_row t now)"
    by auto
  let ?r = "inserted_row t now"
  have v: "view t db = db\<lparr>transactions := transactions db @ [?r]\<rparr>" using w(2) by (simp add: view_def)
  have r: "tm_ID ?r = tid_of t" "tm_Status ?r = TransactionStatusPending"
    by (simp_all add: inserted_row_def new_transaction_def Let_def)
  have "schema_ok (view t db)"
    using ok w(3) False r by (simp add: v schema_ok_def transactions_ok_def)
  moreover have "waiting t (view t db)"
    using w(1) by (auto simp: v waiting_def awaits_def inserted_row_def new_transaction_def Let_def)
  ultimately show ?thesis
    using books r by (auto simp: v books_balanced_def ledger_sum_append ledger_sum_Cons fresh_row_confined)
qed

lemma status_set_confined:
  assumes "all_rows t (\<lambda>s'. (s' = TransactionStatusCompleted) = (s = TransactionStatusCompleted)) db"
  shows "confined (tid_of t) A db (status_set (tid_of t) s now db)"
    and "ledger_sum a (transactions (status_set (tid_of t) s now db)) = ledger_sum a (transactions db)"
    and "all_rows t ((=) s) (status_set (tid_of t) s now db)"
proof -
  have rows: "\<forall>r \<in> set (transactions db). tm_ID r = tid_of t \<longrightarrow>
      (tm_Status r = TransactionStatusCompleted) = (s = TransactionStatusCompleted)"
    using assms by (auto simp: all_rows_def)
  then show sum: "ledger_sum a (transactions (status_set (tid_of t) s now db)) = ledger_sum a (transactions db)" for a
    by (simp add: status_set_def status_set_sum)
  have f: "filter (\<lambda>r. tm_ID r \<noteq> x) (update_where (\<lambda>r. tm_ID r = x) g rs) = filter (\<lambda>r. tm_ID r \<noteq> x) rs"
    if "\<And>r. tm_ID (g r) = tm_ID r" for x g and rs :: "transaction_row list"
    using that by (induction rs) auto
  have "filter (\<lambda>r. tm_ID r \<noteq> tid_of t) (transactions (status_set (tid_of t) s now db)) =
      filter (\<lambda>r. tm_ID r \<noteq> tid_of t) (transactions db)"
    by (simp add: status_set_def f)
  then show "confined (tid_of t) A db (status_set (tid_of t) s now db)"
    using sum ledger_sum_split [of _ "transactions db" "tid_of t"]
      ledger_sum_split [of _ "transactions (status_set (tid_of t) s now db)" "tid_of t"]
    by (simp add: confined_def)
  show "all_rows t ((=) s) (status_set (tid_of t) s now db)"
    by (auto simp: all_rows_def status_set_def set_update_where)
qed

lemma recording:
  assumes ok: "schema_ok db" and books: "books_balanced db" and t: "thread_at (Recording s) t db"
  shows "schema_ok (status_set (tid_of t) s now db) \<and> books_balanced (status_set (tid_of t) s now db)
    \<and> confined (tid_of t) A db (status_set (tid_of t) s now db)
    \<and> ledger_sum a (transactions (status_set (tid_of t) s now db)) = ledger_sum a (transactions db)
    \<and> all_rows t ((=) s) (status_set (tid_of t) s now db)
    \<and> (s = TransactionStatusCompleted \<longrightarrow> known t (status_set (tid_of t) s now db))
    \<and> (s = TransactionStatusCompleted \<or> s = TransactionStatusFailed)"
proof -
  have s: "s = TransactionStatusCompleted \<or> s = TransactionStatusFailed" "transaction_status_enum s"
    using t by (auto split: if_splits)
  have rows: "all_rows t (\<lambda>s'. (s' = TransactionStatusCompleted) = (s = TransactionStatusCompleted)) db"
    using t by (auto simp: all_rows_def waiting_def awaits_def Let_def split: if_splits)
  then have "books_balanced (status_set (tid_of t) s now db)"
    by (intro status_set_books books) (auto simp: all_rows_def)
  moreover have "s = TransactionStatusCompleted \<longrightarrow> known t (status_set (tid_of t) s now db)"
    using t by (simp add: status_set_def keys_update_where)
  ultimately show ?thesis
    using status_set_schema [OF ok s(2)] status_set_confined [OF rows] s(1) by blast
qed

section \<open>Each statement keeps the invariant\<close>

definition step_ok :: "lock set \<Rightarrow> database \<Rightarrow> thread \<Rightarrow> database \<Rightarrow> thread \<Rightarrow> bool" where
  "step_ok held db t db' t' \<longleftrightarrow> schema_ok db' \<and> books_balanced db' \<and> thread_inv db' t' \<and> th_mv t' = th_mv t
     \<and> confined (tid_of t) {a. AccountRow a \<in> th_locks t} db db'
     \<and> (\<forall>a. ledger_sum a (transactions db') + gain t a = ledger_sum a (transactions db) + gain t' a)
     \<and> th_locks t' \<inter> held \<subseteq> th_locks t \<union> range AccountKey"

lemma thread_facts_update [simp]:
  "waiting (t\<lparr>th_pc := p\<rparr>) = waiting t" "waiting (t\<lparr>th_seen := sn\<rparr>) = waiting t"
  "waiting (t\<lparr>th_writes := ws\<rparr>) = waiting t" "waiting (t\<lparr>th_locks := ls\<rparr>) = waiting t"
  "all_rows (t\<lparr>th_pc := p\<rparr>) = all_rows t" "all_rows (t\<lparr>th_writes := ws\<rparr>) = all_rows t"
  "all_rows (t\<lparr>th_locks := ls\<rparr>) = all_rows t"
  "owed_ok (t\<lparr>th_pc := p\<rparr>) = owed_ok t" "owed_ok (t\<lparr>th_writes := ws\<rparr>) = owed_ok t"
  "owed_ok (t\<lparr>th_locks := ls\<rparr>) = owed_ok t"
  "settling (t\<lparr>th_pc := p, th_writes := ws\<rparr>) = settling (t\<lparr>th_writes := ws\<rparr>)"
  "settling (t\<lparr>th_pc := p\<rparr>) = settling t" "settling (t\<lparr>th_locks := ls\<rparr>) = settling t"
  "settle_locks (t\<lparr>th_pc := p\<rparr>) = settle_locks t" "settle_locks (t\<lparr>th_writes := ws\<rparr>) = settle_locks t"
  "settle_locks (t\<lparr>th_locks := ls\<rparr>) = settle_locks t"
  "inserted_row (t\<lparr>th_pc := p\<rparr>) = inserted_row t" "inserted_row (t\<lparr>th_writes := ws\<rparr>) = inserted_row t"
  "inserted_row (t\<lparr>th_locks := ls\<rparr>) = inserted_row t"
  "clean (t\<lparr>th_pc := p\<rparr>) = clean t"
  by (auto simp: fun_eq_iff waiting_def all_rows_def owed_ok_def owed_def settling_def settle_locks_def
      inserted_row_def row_currency_def clean_def Let_def split: option.split)

lemma same_db_ok:
  assumes "db' = db" and "schema_ok db" and "books_balanced db" and "thread_inv db t'" and "th_mv t' = th_mv t"
    and "gain t' = gain t" and "th_locks t' \<inter> held \<subseteq> th_locks t \<union> range AccountKey"
  shows "step_ok held db t db' t'"
  using assms by (simp add: step_ok_def)

lemmas step_simps = movement_fine_def gain_def settled_def fun_eq_iff

lemma tx_over_simps [simp]:
  "th_mv (tx_over t p) = th_mv t" "th_pc (tx_over t p) = p" "th_locks (tx_over t p) = {}" "clean (tx_over t p)"
  "waiting (tx_over t p) = waiting t" "all_rows (tx_over t p) = all_rows t"
  by (simp_all add: tx_over_def clean_def fun_eq_iff waiting_def all_rows_def)

lemma waiting_uncompleted: "waiting t db \<Longrightarrow> all_rows t ((\<noteq>) TransactionStatusCompleted) db"
  by (auto simp: waiting_def awaits_def all_rows_def Let_def)

lemma settling_waiting: "settling t ds db \<Longrightarrow> waiting t db"
  by (simp add: settling_def)

lemma insert_ok_row:
  assumes "insert_stmt t now db = (Inr (), db1)" and "\<not> known t db" and "movement_fine t"
  shows "transaction_row_ok (keys am_ID (accounts db)) (inserted_row t now)"
  using assms
  by (auto simp: insert_stmt_def sql_insert_pending_Inr inserted_row_def new_transaction_def Let_def
      transaction_row_ok_def movement_fine_def)

lemma settling_flip:
  assumes "waiting t db" and "known t db" and "th_writes t = []"
  shows "settling (t\<lparr>th_writes := [Flip (tid_of t) now]\<rparr>) [] db"
  using assms by (simp add: settling_def)

lemma settling_balance:
  assumes "settling t ds db" and "owed_ok t a b db" and "a \<in> set (keys am_ID (accounts db))"
  shows "settling (t\<lparr>th_writes := th_writes t @ [SetBalance a b now]\<rparr>) (ds @ [a]) db"
proof -
  from assms(1) obtain n bs where w: "th_writes t = Flip (tid_of t) n # map (\<lambda>(a, b, n). SetBalance a b n) bs"
      "map fst bs = ds" "\<forall>(a, b, n) \<in> set bs. owed_ok t a b db \<and> a \<in> set (keys am_ID (accounts db))"
      "waiting t db" "known t db"
    by (auto simp: settling_def)
  show ?thesis
    unfolding settling_def
    by (intro conjI exI [of _ n] exI [of _ "bs @ [(a, b, now)]"]) (use w assms(2,3) in auto)
qed

lemma settling_view:
  assumes "settling t ds db"
  shows "keys am_ID (accounts (view t db)) = keys am_ID (accounts db)"
    and "keys tm_ID (transactions (view t db)) = keys tm_ID (transactions db)"
    and "ledger_sum a (transactions (view t db)) = owed t a db"
proof -
  from assms obtain n bs where "th_writes t = Flip (tid_of t) n # map (\<lambda>(a, b, n). SetBalance a b n) bs"
    by (auto simp: settling_def)
  from view_settling [OF this, of db] show
    "keys am_ID (accounts (view t db)) = keys am_ID (accounts db)"
    "keys tm_ID (transactions (view t db)) = keys tm_ID (transactions db)"
    "ledger_sum a (transactions (view t db)) = owed t a db"
    by (simp_all add: owed_def ledger_sum_complete_now [of a _ n])
qed

lemma settling_accounts:
  assumes "settling t ds db" and "schema_ok db" and "\<exists>rq. th_mv t = movement_of rq"
  shows "set (mv_ids (th_mv t)) \<subseteq> set (keys am_ID (accounts db))"
proof -
  from assms(1) obtain r where r: "r \<in> set (transactions db)" "tm_ID r = tid_of t"
    by (auto simp: settling_def set_keys)
  have "tm_FromAccount r = mv_from (th_mv t)" "tm_ToAccount r = mv_to (th_mv t)"
    using assms(1) r by (auto simp: settling_def waiting_def awaits_def Let_def)
  then have "{mv_from (th_mv t), mv_to (th_mv t)} \<subseteq> set (keys am_ID (accounts db))"
    using schema_okD(5) [OF assms(2) r(1)] by (simp add: transaction_row_ok_def)
  then show ?thesis by (simp only: mv_ids_set [OF assms(3)])
qed

text \<open>The three phases of a movement: the pending row, the settlement, the status.\<close>

fun phase :: "pc \<Rightarrow> nat" where
  "phase Check = 0"
| "phase (Inserting as) = 0"
| "phase InsertCommit = 0"
| "phase (Recording s) = 2"
| "phase (Finished ok) = 2"
| "phase p = 1"

lemma insert_phase_ok:
  assumes step: "th_step held f db t db' t'" and ok: "schema_ok db" and books: "books_balanced db"
    and inv: "thread_inv db t" and phase: "phase (th_pc t) = 0"
  shows "step_ok held db t db' t'"
  using step
proof (cases rule: th_step.cases)
  case (CheckOk a)
  then show ?thesis
    using inv ok books by (intro same_db_ok) (auto simp: step_simps clean_def)
next
  case (InsertLock a as)
  with inv obtain ds where ds: "mv_locks (th_mv t) = ds @ a # as" "th_locks t \<subseteq> AccountRow ` set ds"
      "th_writes t = []" "waiting t db"
    by auto
  have "mv_locks (th_mv t) = (ds @ [a]) @ as" "insert (AccountRow a) (th_locks t) \<subseteq> AccountRow ` set (ds @ [a])"
    using ds by auto
  then have "thread_at (Inserting as) t' db"
    using ds(3,4) InsertLock unfolding thread_at.simps by (intro conjI exI [of _ "ds @ [a]"]) simp_all
  then show ?thesis
    using inv ok books InsertLock by (intro same_db_ok) (auto simp: step_simps account_free_def)
next
  case (InsertNoRow a as)
  with inv obtain ds where ds: "mv_locks (th_mv t) = ds @ a # as" "th_locks t \<subseteq> AccountRow ` set ds"
      "th_writes t = []" "waiting t db"
    by auto
  then have "thread_at (Inserting as) t' db"
    using InsertNoRow unfolding thread_at.simps by (intro conjI exI [of _ "ds @ [a]"]) auto
  then show ?thesis
    using inv ok books InsertNoRow by (intro same_db_ok) (auto simp: step_simps)
next
  case (InsertNew now db1)
  then have v: "view t db = db" "th_locks t \<subseteq> AccountRow ` set (mv_locks (th_mv t))" "th_writes t = []" "waiting t db"
    using inv by auto
  then have "thread_at InsertCommit t' db"
    using InsertNew insert_ok_row [of t now db db1] inv by auto
  then show ?thesis
    using inv ok books InsertNew by (intro same_db_ok) (auto simp: step_simps insert_locks_def)
next
  case InsertCommitted
  then show ?thesis
    using insert_commit [OF ok books, of t] inv by (auto simp: step_ok_def step_simps)
next
  case InsertLost
  then show ?thesis
    using insert_commit [OF ok books, of t] inv waiting_uncompleted by (auto simp: step_ok_def step_simps)
qed (use phase inv ok books waiting_uncompleted in \<open>auto simp: step_simps intro!: same_db_ok\<close>)

lemma settle_phase_ok:
  assumes step: "th_step held f db t db' t'" and ok: "schema_ok db" and books: "books_balanced db"
    and inv: "thread_inv db t" and phase: "phase (th_pc t) = 1"
  shows "step_ok held db t db' t'"
  using step
proof (cases rule: th_step.cases)
  case (FlipRow now)
  then have "thread_at (Locking (mv_ids (th_mv t))) t' db"
    using inv settling_flip [of t db now] by (auto simp: clean_def settle_locks_def mv_ids_def pair_list_def)
  then show ?thesis
    using inv ok books FlipRow by (intro same_db_ok) (auto simp: step_simps settle_locks_def)
next
  case FlipNothing
  then have False
    using inv matching_row(1) [of t db] by (auto simp: clean_def set_keys movement_fine_def)
  then show ?thesis ..
next
  case (LockAccount a as)
  then have "thread_at (Summing (a # as)) t' db" using inv by (auto simp: settle_locks_def)
  then show ?thesis
    using inv ok books LockAccount by (intro same_db_ok) (auto simp: step_simps settle_locks_def account_free_def)
next
  case (LockNoRow a as)
  with inv obtain ds where ds: "mv_ids (th_mv t) = ds @ a # as" "settling t ds db" by auto
  have "a \<in> set (keys am_ID (accounts db))"
    using settling_accounts [OF ds(2) ok] inv ds(1) by (auto simp: movement_fine_def)
  then show ?thesis using LockNoRow settling_view(1) [OF ds(2)] by simp
next
  case (SumAccount a as b)
  then have "thread_at (Writing b (a # as)) t' db"
    using inv settling_view(3) by (auto simp: owed_ok_def)
  then show ?thesis
    using inv ok books SumAccount by (intro same_db_ok) (auto simp: step_simps)
next
  case (WriteAccount b a as now)
  with inv obtain ds where ds: "mv_ids (th_mv t) = ds @ a # as" "settling t ds db"
      "th_locks t = settle_locks t (ds @ [a])" "owed_ok t a b db"
    by auto
  then have "settling (t\<lparr>th_writes := th_writes t @ [SetBalance a b now]\<rparr>) (ds @ [a]) db"
    using WriteAccount settling_view(1) [OF ds(2)] by (intro settling_balance) auto
  then have "thread_at (after_account as) t' db"
    using WriteAccount ds by (auto simp: after_account_def)
  then show ?thesis
    using inv ok books WriteAccount
    by (intro same_db_ok) (auto simp: step_simps after_account_def)
next
  case SettleCommitted
  then have "settling t (mv_ids (th_mv t)) db" "\<exists>rq. th_mv t = movement_of rq"
      "{a. AccountRow a \<in> th_locks t} = set (mv_ids (th_mv t))"
    using inv by (auto simp: movement_fine_def settle_locks_def)
  with settle_commit [OF ok books this(2,1)] show ?thesis
    using SettleCommitted inv by (auto simp: step_ok_def movement_fine_def gain_def settled_def)
qed (use phase inv ok books settling_waiting in \<open>auto simp: step_simps intro!: same_db_ok\<close>)

lemma record_phase_ok:
  assumes step: "th_step held f db t db' t'" and ok: "schema_ok db" and books: "books_balanced db"
    and inv: "thread_inv db t" and phase: "phase (th_pc t) = 2"
  shows "step_ok held db t db' t'"
  using step
proof (cases rule: th_step.cases)
  case (RecordStatus s now)
  then have "thread_at (Recording s) t db" using inv by simp
  with recording [OF ok books this] show ?thesis
    using RecordStatus inv
    by (auto simp: step_ok_def movement_fine_def gain_def settled_def clean_def all_rows_def)
next
  case (RecordFault s)
  then show ?thesis
    using inv ok books waiting_uncompleted
    by (intro same_db_ok) (auto simp: step_simps split: if_splits)
qed (use phase in auto)

lemma th_step_ok:
  assumes "th_step held f db t db' t'" and "schema_ok db" and "books_balanced db" and "thread_inv db t"
  shows "step_ok held db t db' t'"
  using insert_phase_ok [OF assms] settle_phase_ok [OF assms] record_phase_ok [OF assms]
  by (cases "th_pc t") auto

section \<open>All threads together\<close>

lemma sum_list_change:
  fixes g :: "'a \<Rightarrow> int"
  shows "i < length xs \<Longrightarrow> sum_list (map g (xs[i := y])) = sum_list (map g xs) - g (xs ! i) + g y"
proof (induction xs arbitrary: i)
  case (Cons x xs)
  then show ?case by (cases i) auto
qed simp

definition apart :: "thread list \<Rightarrow> bool" where
  "apart ts \<longleftrightarrow> distinct (map tid_of ts) \<and>
     (\<forall>i < length ts. \<forall>j < length ts. i \<noteq> j \<longrightarrow> th_locks (ts ! i) \<inter> th_locks (ts ! j) \<subseteq> range AccountKey)"

definition crowd_inv :: "(string \<Rightarrow> int) \<Rightarrow> crowd \<Rightarrow> bool" where
  "crowd_inv base c \<longleftrightarrow> (case c of (db, ts) \<Rightarrow>
     schema_ok db \<and> books_balanced db \<and> (\<forall>t \<in> set ts. thread_inv db t) \<and> apart ts \<and>
     (\<forall>a. ledger_sum a (transactions db) = base a + sum_list (map (\<lambda>t. gain t a) ts)))"

lemma apart_update:
  assumes "apart ts" and "i < length ts" and "th_mv t' = th_mv (ts ! i)"
    and "th_locks t' \<inter> held_by_others i ts \<subseteq> th_locks (ts ! i) \<union> range AccountKey"
  shows "apart (ts[i := t'])"
proof -
  have "map tid_of (ts[i := t']) = map tid_of ts"
    using assms(2,3) by (simp add: map_update list_update_same_conv)
  moreover have new: "th_locks t' \<inter> th_locks (ts ! j) \<subseteq> range AccountKey" if "j < length ts" "j \<noteq> i" for j
  proof -
    have "th_locks (ts ! j) \<subseteq> held_by_others i ts" using that by (auto simp: held_by_others_def)
    moreover have "th_locks (ts ! i) \<inter> th_locks (ts ! j) \<subseteq> range AccountKey" using assms(1,2) that by (simp add: apart_def)
    ultimately show ?thesis using assms(4) by blast
  qed
  moreover have "th_locks (ts[i := t'] ! j) \<inter> th_locks (ts[i := t'] ! k) \<subseteq> range AccountKey"
    if "j < length ts" "k < length ts" "j \<noteq> k" for j k
    using that assms(1,2) new [of j] new [of k] by (cases "j = i"; cases "k = i") (auto simp: apart_def)
  ultimately show ?thesis
    using assms(1) by (simp add: apart_def)
qed

lemma start_inv:
  assumes "may_arrive m (db, ts)" and "m = movement_of rq" and "fits_signed 64 (mv_amount m)"
  shows "thread_inv db (start m)" "gain (start m) a = 0" "th_locks (start m) = {}" "th_mv (start m) = m"
proof -
  have w: "waiting (start m) db" using assms(1) by (simp add: may_arrive_def waiting_def start_def Let_def)
  have "movement_fine (start m)" using assms(2,3) by (auto simp: movement_fine_def start_def)
  with w waiting_uncompleted [OF w] show "thread_inv db (start m)"
    by (auto simp: start_def clean_def)
qed (auto simp: start_def gain_def settled_def)

lemma thread_inv_same:
  assumes "thread_inv db t" and "set (keys am_ID (accounts db)) \<subseteq> set (keys am_ID (accounts db'))"
    and "transactions db' = transactions db"
  shows "thread_inv db' t"
proof -
  have "confined (CHR ''x'' # tid_of t) {} db db'" using assms(2,3) by (simp add: confined_def)
  then show ?thesis using assms(1) thread_at_stable [of "CHR ''x'' # tid_of t" "{}" db db' t "th_pc t"] by simp
qed

lemma statement_inv:
  assumes inv: "crowd_inv base (db, ts)" and i: "i < length ts"
    and step: "th_step (held_by_others i ts) f db (ts ! i) db' t'"
  shows "crowd_inv base (db', ts[i := t'])"
proof -
  have t: "ts ! i \<in> set ts" using i by simp
  have ok: "step_ok (held_by_others i ts) db (ts ! i) db' t'"
    using inv t by (intro th_step_ok [OF step]) (auto simp: crowd_inv_def)
  have others: "thread_inv db' (ts ! j)" if "j < length ts" "j \<noteq> i" for j
  proof -
    have d: "tid_of (ts ! j) \<noteq> tid_of (ts ! i)"
      using inv that i nth_eq_iff_index_eq [of "map tid_of ts" j i] by (simp add: crowd_inv_def apart_def)
    have "thread_at (th_pc (ts ! j)) (ts ! j) db'"
    proof (rule thread_at_stable [OF _ d])
      show "confined (tid_of (ts ! i)) {a. AccountRow a \<in> th_locks (ts ! i)} db db'"
        using ok by (simp add: step_ok_def)
      have "th_locks (ts ! i) \<inter> th_locks (ts ! j) \<subseteq> range AccountKey"
        using inv that i by (simp add: crowd_inv_def apart_def)
      then show "AccountRow ` {a. AccountRow a \<in> th_locks (ts ! i)} \<inter> th_locks (ts ! j) = {}" by auto
      show "thread_at (th_pc (ts ! j)) (ts ! j) db" using inv that by (simp add: crowd_inv_def)
    qed
    then show ?thesis using inv that by (simp add: crowd_inv_def)
  qed
  have "\<forall>u \<in> set (ts[i := t']). thread_inv db' u"
    using others ok i by (auto simp: step_ok_def in_set_conv_nth nth_list_update)
  moreover have "apart (ts[i := t'])"
    using inv ok i by (intro apart_update) (auto simp: crowd_inv_def step_ok_def)
  moreover have "ledger_sum a (transactions db') = base a + sum_list (map (\<lambda>t. gain t a) (ts[i := t']))" for a
    using inv ok i by (simp add: crowd_inv_def step_ok_def sum_list_change) (metis add_diff_cancel_right' add.commute add.left_commute diff_add_cancel)
  ultimately show ?thesis using ok by (simp add: crowd_inv_def step_ok_def)
qed

lemma crowd_step_inv:
  assumes "crowd_step c c'" and "crowd_inv base c"
  shows "crowd_inv base c'"
  using assms
proof (cases rule: crowd_step.cases)
  case (Arrive m rq db ts)
  note st = start_inv [OF Arrive(5,3,4)]
  have "apart (ts @ [start m])"
    using assms(2) Arrive(1,5) st(3,4) by (auto simp: crowd_inv_def apart_def may_arrive_def nth_append)
  with assms(2) Arrive(1,2) st(1,2) show ?thesis by (auto simp: crowd_inv_def)
next
  case (Statement i ts f db db' t')
  with assms(2) show ?thesis using statement_inv by blast
next
  case (OpensAccount db a ts)
  let ?db = "db\<lparr>accounts := accounts db @ [a]\<rparr>"
  have "am_ID a \<notin> set (keys am_ID (accounts db))" using schema_okD(1) [OF OpensAccount(3)] by simp
  then have "ledger_sum (am_ID a) (transactions db) = 0"
    using assms(2) OpensAccount(1) by (intro ledger_sum_unknown) (auto simp: crowd_inv_def)
  moreover have "thread_inv ?db t" if "t \<in> set ts" for t
    using assms(2) OpensAccount(1) that by (intro thread_inv_same [where db = db and db' = ?db]) (simp_all add: crowd_inv_def subset_insertI)
  ultimately show ?thesis using assms(2) OpensAccount by (auto simp: crowd_inv_def books_balanced_def)
next
  case (Elsewhere db' db ts)
  have "thread_inv db' t" if "t \<in> set ts" for t
    using assms(2) Elsewhere that by (intro thread_inv_same [where db = db and db' = db']) (simp_all add: crowd_inv_def)
  with assms(2) Elsewhere show ?thesis by (auto simp: crowd_inv_def books_balanced_def)
qed

lemma crowd_run_inv:
  assumes "crowd_step\<^sup>*\<^sup>* (db, []) c" and "schema_ok db" and "books_balanced db"
  shows "crowd_inv (\<lambda>a. ledger_sum a (transactions db)) c"
  using assms(1)
proof (induction rule: rtranclp_induct)
  case base
  then show ?case using assms(2,3) by (simp add: crowd_inv_def apart_def)
next
  case (step c c')
  then show ?case using crowd_step_inv by blast
qed

lemma crowd_accounts:
  assumes "crowd_step c c'" and "crowd_inv base c"
  shows "set (keys am_ID (accounts (fst c))) \<subseteq> set (keys am_ID (accounts (fst c')))"
  using assms(1)
proof (cases rule: crowd_step.cases)
  case (Statement i ts f db db' t')
  then have "step_ok (held_by_others i ts) db (ts ! i) db' t'"
    using assms(2) by (intro th_step_ok) (auto simp: crowd_inv_def)
  then show ?thesis using Statement by (simp add: step_ok_def confined_def)
qed (simp_all add: subset_insertI)

lemma crowd_run_accounts:
  assumes "crowd_step\<^sup>*\<^sup>* (db, []) c" and "schema_ok db" and "books_balanced db"
  shows "set (keys am_ID (accounts db)) \<subseteq> set (keys am_ID (accounts (fst c)))"
  using assms(1)
proof (induction rule: rtranclp_induct)
  case (step c c')
  then show ?case
    using crowd_accounts [OF step(2) crowd_run_inv [OF step(1) assms(2,3)]] by blast
qed simp

lemma finished_gain:
  assumes "all_finished ts"
  shows "sum_list (map (\<lambda>t. gain t a) ts) =
    sum_list (map (\<lambda>t. mv_delta (th_mv t) a) (filter (\<lambda>t. th_pc t = Finished True) ts))"
  using assms unfolding all_finished_iff by (induction ts) (auto simp: gain_def settled_def)

text \<open>C3. However the statements of any number of concurrent deposits, withdrawals and transfers
  interleave, and whichever statements and commits fail, short of a settlement whose commit took effect but was not
  acknowledged, the committed database satisfies the schema and every
  balance is the sum of the completed entries of its account.\<close>

theorem concurrent_books:
  assumes "schema_ok db" and "books_balanced db" and "crowd_step\<^sup>*\<^sup>* (db, []) (db', ts)"
  shows "schema_ok db' \<and> books_balanced db'"
  using crowd_run_inv [OF assms(3,1,2)] by (simp add: crowd_inv_def)

theorem concurrent_books_witness:
  "\<exists>db ts. run_schedule sample_turns sample_crowd = Some (db, ts) \<and> schema_ok db \<and> books_balanced db"
  by (rule sample_run, use concurrent_books [of sample_db] in auto)

text \<open>C4. No update is lost: when all the threads have finished, with any failures short of a settlement whose commit
  took effect but was not acknowledged, each balance has changed by exactly
  the amounts of the movements that reported success.\<close>

theorem concurrent_exact:
  assumes ok: "schema_ok db" and books: "books_balanced db" and run: "crowd_step\<^sup>*\<^sup>* (db, []) (db', ts)"
    and fin: "all_finished ts" and b: "balance_of db a = Some b"
  shows "balance_of db' a =
    Some (b + sum_list (map (\<lambda>t. mv_delta (th_mv t) a) (filter (\<lambda>t. th_pc t = Finished True) ts)))"
proof -
  have inv: "crowd_inv (\<lambda>a. ledger_sum a (transactions db)) (db', ts)" by (rule crowd_run_inv [OF run ok books])
  have "a \<in> set (keys am_ID (accounts db'))"
    using crowd_run_accounts [OF run ok books] b balance_of_None [of db a] by auto
  then obtain b' where b': "balance_of db' a = Some b'" using balance_of_None [of db' a] by auto
  have "ledger_sum a (transactions db') = b'"
    using balance_of_books [OF _ _ b'] inv by (simp add: crowd_inv_def)
  then show ?thesis
    using balance_of_books [OF ok books b] inv b' finished_gain [OF fin, of a] by (simp add: crowd_inv_def)
qed

theorem concurrent_exact_witness:
  "\<exists>db ts. run_schedule sample_turns sample_crowd = Some (db, ts) \<and> balance_of db ''a1'' = Some 1200"
proof (rule sample_run)
  fix db ts
  assume r: "run_schedule sample_turns sample_crowd = Some (db, ts)" and c: "crowd_step\<^sup>*\<^sup>* (sample_db, []) (db, ts)"
    and ts: "map th_pc ts = [Finished True, Finished True]" "map th_mv ts = map th_mv (snd sample_crowd)"
  obtain t u where tu: "ts = [t, u]" "th_pc t = Finished True" "th_pc u = Finished True"
    using ts(1) by (auto simp: map_eq_Cons_conv)
  have "balance_of sample_db ''a1'' = Some 1000" by (simp add: balance_of_def fixture_defs)
  moreover have "all_finished ts" using tu by (simp add: all_finished_def)
  ultimately have "balance_of db ''a1'' = Some 1200"
    using concurrent_exact [OF sample_schema sample_books c, of "''a1''" 1000] tu ts(2)
    by (simp add: sample_crowd_def start_def mv_delta_def)
  with r show ?thesis by blast
qed

end
