(* ===== verification/Deadlock.thy ===== *)
theory Deadlock
  imports IsolationProps
begin

text \<open>
  That the concurrent movements of \<^verbatim>\<open>Isolation\<close> get to their end. Every thread locks its accounts in
  ascending order, so a thread that waits for an account waits for one whose holder either goes on
  or waits for a greater account; and every statement brings its thread nearer to the end.
\<close>

section \<open>What a thread waits for\<close>

definition wanted :: "thread \<Rightarrow> string option" where
  "wanted t =
     (case th_pc t of
        Inserting as \<Rightarrow>
          (case as of [] \<Rightarrow> if mv_from (th_mv t) = mv_to (th_mv t) then Some (mv_to (th_mv t)) else None | a # _ \<Rightarrow> Some a)
      | Locking as \<Rightarrow> (case as of [] \<Rightarrow> None | a # _ \<Rightarrow> Some a)
      | _ \<Rightarrow> None)"

lemma locks_own:
  assumes "thread_at (th_pc t) t db"
  shows "th_locks t \<subseteq> {TransactionRow (tid_of t), UniqueKey (tid_of t)} \<union> range AccountRow \<union> range AccountKey"
  using assms by (cases "th_pc t") (auto simp: clean_def settle_locks_def insert_locks_def)

lemma share_lock_commits:
  assumes "thread_at (th_pc t) t db" and "AccountKey a \<in> th_locks t"
  shows "th_pc t = InsertCommit"
  using assms by (cases "th_pc t") (auto simp: clean_def settle_locks_def)

lemma waits_for_account:
  assumes "thread_at (th_pc t) t db" and "\<nexists>r. th_pc t = Finished r"
    and "TransactionRow (tid_of t) \<notin> held" "UniqueKey (tid_of t) \<notin> held"
    and "th_pc t = Inserting [] \<Longrightarrow> mv_from (th_mv t) \<noteq> mv_to (th_mv t) \<Longrightarrow> keys_free held (th_mv t)"
    and "next_stmt held now db t = None"
  shows "\<exists>a. wanted t = Some a \<and> \<not> account_free held a"
proof (cases "th_pc t")
  case (Inserting as)
  with assms(4-) show ?thesis
    by (cases as) (auto simp: next_stmt_def wanted_def account_free_def keys_free_def split: if_splits)
next
  case (Locking as)
  with assms(1,6) show ?thesis
    by (cases as) (auto simp: next_stmt_def wanted_def split: if_splits)
qed (use assms in \<open>auto simp: next_stmt_def Let_def split: if_splits\<close>)

section \<open>Accounts are locked in ascending order\<close>

lemma pair_sorted: "a \<noteq> b \<Longrightarrow> fst (lock_order a b) < snd (lock_order a b)"
  by (auto simp: lock_order_def)

lemma sorted_ids:
  assumes "settling t ds db" and "schema_ok db" and "mv_ids (th_mv t) = es @ a # as" and "x \<in> set es"
  shows "x < a"
proof -
  from assms(1) obtain r where r: "r \<in> set (transactions db)" "tm_ID r = tid_of t"
    by (auto simp: settling_def set_keys)
  have "transaction_type r = mv_type (th_mv t)" "tm_FromAccount r = mv_from (th_mv t)" "tm_ToAccount r = mv_to (th_mv t)"
    using assms(1) r by (auto simp: settling_def waiting_def awaits_def Let_def)
  with schema_okD(5) [OF assms(2) r(1)] have "mv_type (th_mv t) = ''transfer'' \<Longrightarrow> mv_from (th_mv t) \<noteq> mv_to (th_mv t)"
    by (auto simp: transaction_row_ok_def)
  then show ?thesis
    using assms(3,4) pair_sorted
    by (auto simp: mv_ids_def pair_list_def Cons_eq_append_conv append_eq_Cons_conv split: if_splits)
qed

lemma ascending:
  assumes "thread_at (th_pc t) t db" and "schema_ok db" and "wanted t = Some a" and "AccountRow x \<in> th_locks t"
  shows "x < a"
proof (cases "th_pc t")
  case (Inserting bs)
  with assms(1) obtain ds where ds: "mv_locks (th_mv t) = ds @ bs" "th_locks t \<subseteq> AccountRow ` set ds" by auto
  with assms(4) have "mv_locks (th_mv t) \<noteq> []" by auto
  then obtain as where "bs = a # as"
    using Inserting assms(3) by (cases bs) (auto simp: wanted_def mv_locks_def split: if_splits)
  with ds assms(4) show ?thesis
    using pair_sorted
    by (auto simp: mv_locks_def pair_list_def Cons_eq_append_conv append_eq_Cons_conv split: if_splits)
next
  case (Locking bs)
  then obtain as where bs: "bs = a # as" using assms(3) by (cases bs) (auto simp: wanted_def)
  with assms(1) Locking obtain ds where ds: "mv_ids (th_mv t) = ds @ a # as" "settling t ds db"
      "th_locks t = settle_locks t ds"
    by auto
  have "x \<in> set ds" using ds(3) assms(4) by (auto simp: settle_locks_def)
  then show ?thesis by (rule sorted_ids [OF ds(2) assms(2) ds(1)])
qed (use assms(3) in \<open>auto simp: wanted_def\<close>)

section \<open>A movement between existing accounts holds their rows when it inserts\<close>

definition firm :: "string set \<Rightarrow> thread \<Rightarrow> bool" where
  "firm E t \<longleftrightarrow> (\<forall>as. th_pc t = Inserting as \<longrightarrow> {mv_from (th_mv t), mv_to (th_mv t)} \<subseteq> E \<longrightarrow>
     set (mv_locks (th_mv t)) \<subseteq> set as \<union> {a. AccountRow a \<in> th_locks t})"

lemma mv_locks_set: "set (mv_locks m) \<subseteq> {mv_from m, mv_to m}"
  by (auto simp: mv_locks_def pair_list_def lock_order_def)

lemma firm_step:
  assumes "th_step held f db t db' t'" and "firm E t" and "thread_at (th_pc t) t db"
    and "E \<subseteq> set (keys am_ID (accounts db))"
  shows "firm E t'"
  using assms(1)
proof (cases rule: th_step.cases)
  case (InsertLock a as)
  then show ?thesis using assms(2) by (auto simp: firm_def)
next
  case (InsertNoRow a as)
  have "view t db = db" using assms(3) InsertNoRow by simp
  then have "a \<notin> E" using InsertNoRow assms(4) by auto
  then have "\<not> {mv_from (th_mv t), mv_to (th_mv t)} \<subseteq> E"
    using assms(3) InsertNoRow mv_locks_set [of "th_mv t"] by auto
  then show ?thesis using InsertNoRow by (auto simp: firm_def)
qed (simp_all add: firm_def tx_over_def after_account_def)

lemma firm_run:
  assumes "crowd_step\<^sup>*\<^sup>* (db, []) c" and "schema_ok db" and "books_balanced db"
  shows "\<forall>t \<in> set (snd c). firm (set (keys am_ID (accounts db))) t"
  using assms(1)
proof (induction rule: rtranclp_induct)
  case (step c c')
  let ?E = "set (keys am_ID (accounts db))"
  have inv: "crowd_inv (\<lambda>a. ledger_sum a (transactions db)) c" by (rule crowd_run_inv [OF step(1) assms(2,3)])
  have E: "?E \<subseteq> set (keys am_ID (accounts (fst c)))" by (rule crowd_run_accounts [OF step(1) assms(2,3)])
  show ?case
    using step(2)
  proof (cases rule: crowd_step.cases)
    case (Arrive m rq d ts)
    have "firm ?E (start m)" by (simp add: firm_def start_def)
    then show ?thesis using Arrive step(3) by auto
  next
    case (Statement i ts f d d' t')
    then have "firm ?E t'"
      using firm_step [of "held_by_others i ts" f d "ts ! i" d' t' ?E] step(3) inv E by (simp add: crowd_inv_def)
    then show ?thesis using Statement step(3) by (auto dest: set_update_subset_insert [THEN subsetD])
  qed (use step(3) in auto)
qed simp

section \<open>Someone can always go on\<close>

lemma not_all_wait:
  fixes I :: "nat set"
  assumes "finite I" and "I \<noteq> {}"
    and "\<And>i. i \<in> I \<Longrightarrow> \<exists>a. want i = Some (a :: string)"
    and "\<And>i a. i \<in> I \<Longrightarrow> want i = Some a \<Longrightarrow> \<exists>j \<in> I. \<exists>b. want j = Some b \<and> a < b"
  shows False
proof -
  let ?W = "{a. \<exists>i \<in> I. want i = Some a}"
  have "?W = (\<lambda>i. the (want i)) ` I"
    using assms(3) by force
  then have W: "finite ?W" "?W \<noteq> {}" using assms(1,2) by auto
  then obtain i where "i \<in> I" "want i = Some (Max ?W)" using Max_in [OF W] by blast
  with assms(4) obtain j b where "j \<in> I" "want j = Some b" "Max ?W < b" by blast
  then have "b \<in> ?W" by blast
  from Max_ge [OF W(1) this] \<open>Max ?W < b\<close> show False by (meson leD)
qed

lemma own_locks_free:
  assumes "crowd_inv base (db, ts)" and "i < length ts"
  shows "TransactionRow (tid_of (ts ! i)) \<notin> held_by_others i ts" "UniqueKey (tid_of (ts ! i)) \<notin> held_by_others i ts"
    and "AccountRow a \<in> th_locks (ts ! i) \<Longrightarrow> AccountRow a \<notin> held_by_others i ts"
proof -
  have inv: "thread_at (th_pc (ts ! j)) (ts ! j) db" if "j < length ts" for j
    using assms(1) that by (simp add: crowd_inv_def)
  have "tid_of (ts ! j) \<noteq> tid_of (ts ! i)" if "j < length ts" "j \<noteq> i" for j
    using assms that nth_eq_iff_index_eq [of "map tid_of ts" j i] by (simp add: crowd_inv_def apart_def)
  then show "TransactionRow (tid_of (ts ! i)) \<notin> held_by_others i ts" "UniqueKey (tid_of (ts ! i)) \<notin> held_by_others i ts"
    using locks_own [OF inv] by (fastforce simp: held_by_others_def)+
  show "AccountRow a \<notin> held_by_others i ts" if "AccountRow a \<in> th_locks (ts ! i)"
    using assms that by (fastforce simp: crowd_inv_def apart_def held_by_others_def)
qed

lemma someone_goes_on:
  assumes inv: "crowd_inv base (db, ts)" and firm: "\<forall>t \<in> set ts. firm E t"
    and E: "\<forall>t \<in> set ts. {mv_from (th_mv t), mv_to (th_mv t)} \<subseteq> E"
    and t: "t \<in> set ts" "\<nexists>r. th_pc t = Finished r"
  shows "\<exists>i < length ts. next_stmt (held_by_others i ts) now db (ts ! i) \<noteq> None"
proof (rule ccontr)
  assume stuck: "\<not> ?thesis"
  have ok: "schema_ok db" and at: "\<And>i. i < length ts \<Longrightarrow> thread_at (th_pc (ts ! i)) (ts ! i) db"
    using inv by (auto simp: crowd_inv_def)
  let ?I = "{i. i < length ts \<and> (\<nexists>r. th_pc (ts ! i) = Finished r)}"
  have wait: "\<exists>a. wanted (ts ! i) = Some a \<and> \<not> account_free (held_by_others i ts) a" if "i \<in> ?I" for i
  proof (rule waits_for_account [where now = now])
    assume pc: "th_pc (ts ! i) = Inserting []" "mv_from (th_mv (ts ! i)) \<noteq> mv_to (th_mv (ts ! i))"
    have "firm E (ts ! i)" "{mv_from (th_mv (ts ! i)), mv_to (th_mv (ts ! i))} \<subseteq> E" using firm E that by auto
    with pc have "AccountRow (mv_from (th_mv (ts ! i))) \<in> th_locks (ts ! i)" "AccountRow (mv_to (th_mv (ts ! i))) \<in> th_locks (ts ! i)"
      by (auto simp: firm_def mv_locks_def pair_list_def lock_order_def split: if_splits)
    then show "keys_free (held_by_others i ts) (th_mv (ts ! i))"
      using own_locks_free(3) [OF inv] that by (simp add: keys_free_def)
  qed (use that stuck at own_locks_free(1,2) [OF inv] in \<open>auto simp del: not_None_eq\<close>)
  show False
  proof (rule not_all_wait [of ?I "\<lambda>i. wanted (ts ! i)"])
    show "?I \<noteq> {}" using t by (auto simp: in_set_conv_nth)
    fix i a assume i: "i \<in> ?I" and "wanted (ts ! i) = Some a"
    then have "\<not> account_free (held_by_others i ts) a" using wait by fastforce
    then obtain j where j: "j < length ts" "AccountRow a \<in> th_locks (ts ! j) \<or> AccountKey a \<in> th_locks (ts ! j)"
      by (auto simp: held_by_others_def account_free_def)
    have "th_pc (ts ! j) \<noteq> InsertCommit" using stuck j(1) by (auto simp: next_stmt_def)
    then have row: "AccountRow a \<in> th_locks (ts ! j)" using share_lock_commits [OF at [OF j(1)]] j(2) by blast
    have "th_pc (ts ! j) \<noteq> Finished r" for r
      using at [OF j(1)] row by (auto simp: clean_def)
    then have jI: "j \<in> ?I" using j(1) by simp
    then obtain b where b: "wanted (ts ! j) = Some b" using wait by blast
    from ascending [OF at [OF j(1)] ok b row] jI b
    show "\<exists>j \<in> ?I. \<exists>b. wanted (ts ! j) = Some b \<and> a < b" by blast
  qed (use wait in auto)
qed

section \<open>Every statement brings its thread nearer to the end\<close>

fun statements_left :: "pc \<Rightarrow> nat" where
  "statements_left (Finished r) = 0"
| "statements_left (Recording s) = 1"
| "statements_left SettleCommit = 2"
| "statements_left Selecting = 3"
| "statements_left (Writing b as) = 3 * length as + 2"
| "statements_left (Summing as) = 3 * length as + 3"
| "statements_left (Locking as) = 3 * length as + 4"
| "statements_left Completing = 11"
| "statements_left InsertCommit = 12"
| "statements_left (Inserting as) = 13 + length as"
| "statements_left Check = 16"

lemma at_most_two: "length (mv_locks m) \<le> 2" "length (mv_ids m) \<le> 2"
  by (simp_all add: mv_locks_def mv_ids_def pair_list_def)

lemma step_nearer:
  assumes "th_step held f db t db' t'"
  shows "statements_left (th_pc t') < statements_left (th_pc t)"
  using assms at_most_two [of "th_mv t"]
  by (cases rule: th_step.cases) (auto simp: tx_over_def after_account_def)

definition crowd_left :: "thread list \<Rightarrow> nat" where
  "crowd_left ts = (\<Sum>t \<leftarrow> ts. statements_left (th_pc t))"

lemma crowd_left_update:
  assumes "i < length ts" and "th_step held f db (ts ! i) db' t'"
  shows "crowd_left (ts[i := t']) < crowd_left ts"
  using assms(1) step_nearer [OF assms(2)]
proof (induction ts arbitrary: i)
  case (Cons u ts)
  then show ?case by (cases i) (auto simp: crowd_left_def)
qed simp

lemma run_left:
  assumes "crowd_step\<^sup>*\<^sup>* (db, []) c"
  shows "\<forall>t \<in> set (snd c). statements_left (th_pc t) \<le> 16"
  using assms
proof (induction rule: rtranclp_induct)
  case (step c c')
  show ?case
    using step(2)
  proof (cases rule: crowd_step.cases)
    case (Arrive m rq d ts)
    have "statements_left (th_pc (start m)) \<le> 16" using at_most_two(1) [of m] by (simp add: start_def)
    then show ?thesis using Arrive step(3) by auto
  next
    case (Statement i ts f d d' t')
    have "statements_left (th_pc (ts ! i)) \<le> 16" using Statement step(3) by simp
    with step_nearer [OF Statement(4)] have "statements_left (th_pc t') \<le> 16" by linarith
    then show ?thesis using Statement step(3) by (auto dest: set_update_subset_insert [THEN subsetD])
  qed (use step(3) in auto)
qed simp

lemma crowd_left_bound:
  assumes "\<forall>t \<in> set ts. statements_left (th_pc t) \<le> 16"
  shows "crowd_left ts \<le> 16 * length ts"
  using assms by (induction ts) (auto simp: crowd_left_def)

lemma step_movement: "th_step held f db t db' t' \<Longrightarrow> th_mv t' = th_mv t"
  by (induction rule: th_step.induct) (auto simp: tx_over_def)

lemma schedule_length:
  assumes "run_schedule is (db, ts) = Some (db', ts')"
  shows "length is + crowd_left ts' \<le> crowd_left ts \<and> map th_mv ts' = map th_mv ts"
  using assms
proof (induction "is" arbitrary: db ts)
  case (Cons i "is")
  then obtain d t where n: "i < length ts" "next_stmt (held_by_others i ts) 0 db (ts ! i) = Some (d, t)"
    and r: "run_schedule is (d, ts[i := t]) = Some (db', ts')"
    by (auto split: if_splits option.splits prod.splits)
  have st: "th_step (held_by_others i ts) False db (ts ! i) d t" by (rule next_stmt_step [OF n(2)])
  have "map th_mv (ts[i := t]) = map th_mv ts"
    using step_movement [OF st] n(1) by (simp add: map_update list_update_same_conv)
  then show ?case using Cons.IH [OF r] crowd_left_update [OF n(1) st] by simp
qed simp

lemma run_schedule_append: "run_schedule (is @ js) c = Option.bind (run_schedule is c) (run_schedule js)"
  by (induction "is" c rule: run_schedule.induct) (auto split: option.splits)

lemma some_schedule_finishes:
  assumes ok: "schema_ok db" and books: "books_balanced db" and run: "crowd_step\<^sup>*\<^sup>* (db, []) (db', ts)"
    and acc: "\<forall>t \<in> set ts. {mv_from (th_mv t), mv_to (th_mv t)} \<subseteq> set (keys am_ID (accounts db))"
  shows "\<exists>js db'' ts'. run_schedule js (db', ts) = Some (db'', ts') \<and> all_finished ts'"
  using run acc
proof (induction "crowd_left ts" arbitrary: db' ts rule: less_induct)
  case less
  show ?case
  proof (cases "all_finished ts")
    case True
    then show ?thesis by (intro exI [of _ "[]"]) simp
  next
    case False
    then obtain t where t: "t \<in> set ts" "\<nexists>r. th_pc t = Finished r" by (auto simp: all_finished_iff)
    have "\<forall>t \<in> set ts. firm (set (keys am_ID (accounts db))) t" using firm_run [OF less(2) ok books] by simp
    from someone_goes_on [OF crowd_run_inv [OF less(2) ok books] this less(3) t, of 0] obtain i d t'
      where i: "i < length ts" "next_stmt (held_by_others i ts) 0 db' (ts ! i) = Some (d, t')" by auto
    have st: "th_step (held_by_others i ts) False db' (ts ! i) d t'" by (rule next_stmt_step [OF i(2)])
    have reach: "crowd_step\<^sup>*\<^sup>* (db, []) (d, ts[i := t'])"
      using less(2) crowd_step.Statement [OF i(1) st] by simp
    have "\<forall>u \<in> set (ts[i := t']). {mv_from (th_mv u), mv_to (th_mv u)} \<subseteq> set (keys am_ID (accounts db))"
      using less(3) step_movement [OF st] i(1) by (auto dest!: set_update_subset_insert [THEN subsetD])
    from less(1) [OF crowd_left_update [OF i(1) st] reach this] obtain js d' ts'
      where "run_schedule js (d, ts[i := t']) = Some (d', ts')" "all_finished ts'" by blast
    then show ?thesis using i by (intro exI [of _ "i # js"] exI [of _ d'] exI [of _ ts']) simp
  qed
qed

text \<open>C10. The concurrent movements of existing accounts always get to their end: however their statements
  are scheduled, no schedule is longer than sixteen statements per movement, and every schedule,
  wherever it stops, can be continued until all of them have finished; there is no deadlock.\<close>

theorem schedules_finish:
  assumes ok: "schema_ok db" and books: "books_balanced db" and run: "crowd_step\<^sup>*\<^sup>* (db, []) (db', ts)"
    and acc: "\<forall>t \<in> set ts. {mv_from (th_mv t), mv_to (th_mv t)} \<subseteq> set (keys am_ID (accounts db))"
    and sched: "run_schedule is (db', ts) = Some c"
  shows "length is \<le> 16 * length ts \<and>
    (\<exists>js db'' ts'. run_schedule (is @ js) (db', ts) = Some (db'', ts') \<and> all_finished ts')"
proof -
  obtain d us where c: "c = (d, us)" by (cases c)
  note len = schedule_length [OF sched [unfolded c]]
  have reach: "crowd_step\<^sup>*\<^sup>* (db, []) (d, us)" using run run_schedule_steps [OF sched] c by simp
  have "\<forall>t \<in> set us. {mv_from (th_mv t), mv_to (th_mv t)} \<subseteq> set (keys am_ID (accounts db))"
  proof
    fix t assume "t \<in> set us"
    then have "th_mv t \<in> set (map th_mv ts)" using len by (metis image_eqI set_map)
    then show "{mv_from (th_mv t), mv_to (th_mv t)} \<subseteq> set (keys am_ID (accounts db))" using acc by auto
  qed
  from some_schedule_finishes [OF ok books reach this] obtain js d' ts'
    where "run_schedule js (d, us) = Some (d', ts')" "all_finished ts'" by blast
  moreover have "length is \<le> 16 * length ts"
    using len crowd_left_bound [of ts] run_left [OF run] by simp
  ultimately show ?thesis using sched c by (auto simp: run_schedule_append)
qed

theorem schedules_finish_witness:
  "\<exists>js db ts. run_schedule (take 12 sample_turns @ js) sample_crowd = Some (db, ts) \<and> all_finished ts"
proof -
  let ?db = "fst sample_crowd" and ?ts = "snd sample_crowd"
  have "run_schedule (take 12 sample_turns) sample_crowd \<noteq> None" by code_simp
  then obtain c where c: "run_schedule (take 12 sample_turns) (?db, ?ts) = Some c" by auto
  have reach: "crowd_step\<^sup>*\<^sup>* (sample_db, []) (?db, ?ts)" using sample_crowd_reached by simp
  have "\<forall>t \<in> set ?ts. {mv_from (th_mv t), mv_to (th_mv t)} \<subseteq> set (keys am_ID (accounts sample_db))"
    by (simp add: sample_crowd_def start_def fixture_defs)
  from schedules_finish [OF sample_schema sample_books reach this c] show ?thesis by simp
qed

end
