(* ===== verification/SerialRuns.thy ===== *)
theory SerialRuns
  imports Deadlock
begin

text \<open>
  The operations of the wallet service are runs of the threads of \<^verbatim>\<open>Isolation\<close>: whatever a call of
  \<open>deposit\<close>, \<open>withdraw\<close> or \<open>transfer\<close> does to the database, under any faults but a settlement whose
  commit is not acknowledged, the thread of that movement can do by itself, statement by
  statement, and it ends with the same verdict. So the thread relation covers the code as the
  sequential theories model it, and what holds of all interleavings of threads holds of it.
\<close>

section \<open>A thread on its own\<close>

definition alone :: "database \<times> thread \<Rightarrow> database \<times> thread \<Rightarrow> bool" where
  "alone c c' \<longleftrightarrow> (\<exists>f. th_step {} f (fst c) (snd c) (fst c') (snd c'))"

definition gets :: "database \<Rightarrow> thread \<Rightarrow> pc \<Rightarrow> database \<Rightarrow> bool" where
  "gets db t p db' \<longleftrightarrow> (\<exists>t'. alone\<^sup>*\<^sup>* (db, t) (db', t') \<and> th_pc t' = p \<and> th_mv t' = th_mv t \<and>
     th_seen t' = th_seen t \<and> th_writes t' = [])"

lemma alone_step: "th_step {} f db t db' t' \<Longrightarrow> alone (db, t) (db', t')"
  by (auto simp: alone_def)

lemma gets_step:
  assumes "th_step {} f db t db' t'" and "th_pc t' = p" and "th_seen t' = th_seen t" and "th_writes t' = []"
  shows "gets db t p db'"
  using alone_step [OF assms(1)] step_movement [OF assms(1)] assms(2-) by (auto simp: gets_def)

lemma gets_after:
  assumes "alone\<^sup>*\<^sup>* (db, t) (d, u)" and "th_mv u = th_mv t" and "th_seen u = th_seen t" and "gets d u p db'"
  shows "gets db t p db'"
  using assms by (auto simp: gets_def intro: rtranclp_trans)

lemma gets_trans:
  assumes "gets db t p d"
    and "\<And>u. \<lbrakk>th_pc u = p; th_mv u = th_mv t; th_seen u = th_seen t; th_writes u = []\<rbrakk> \<Longrightarrow> gets d u q db'"
  shows "gets db t q db'"
proof -
  obtain u where u: "alone\<^sup>*\<^sup>* (db, t) (d, u)" "th_pc u = p" "th_mv u = th_mv t" "th_seen u = th_seen t" "th_writes u = []"
    using assms(1) by (auto simp: gets_def)
  show ?thesis by (rule gets_after [OF u(1,3,4) assms(2) [OF u(2-5)]])
qed

section \<open>The pending row\<close>

lemma locks_taken:
  assumes "th_pc t = Inserting as" and "th_writes t = []"
  shows "\<exists>u. alone\<^sup>*\<^sup>* (db, t) (db, u) \<and> th_pc u = Inserting [] \<and> th_mv u = th_mv t \<and> th_seen u = th_seen t \<and> th_writes u = []"
  using assms
proof (induction as arbitrary: t)
  case (Cons a as)
  let ?u = "if a \<in> set (keys am_ID (accounts (view t db)))
    then t\<lparr>th_pc := Inserting as, th_locks := insert (AccountRow a) (th_locks t)\<rparr> else at_pc t (Inserting as)"
  have "th_step {} False db t db ?u"
    using th_step.InsertLock [OF Cons.prems(1)] th_step.InsertNoRow [OF Cons.prems(1)] by (simp add: account_free_def)
  then have "alone (db, t) (db, ?u)" by (rule alone_step)
  moreover have "th_pc ?u = Inserting as" "th_writes ?u = []" "th_mv ?u = th_mv t" "th_seen ?u = th_seen t"
    using Cons.prems(2) by simp_all
  ultimately show ?case using Cons.IH [of ?u] by (metis converse_rtranclp_into_rtranclp)
qed auto

lemma insert_reaches_commit:
  assumes "th_pc t = Inserting as" and "th_writes t = []" and "insert_stmt t now db = (Inr (), db1)"
  shows "\<exists>u. alone\<^sup>*\<^sup>* (db, t) (db, u) \<and> th_pc u = InsertCommit \<and> th_mv u = th_mv t \<and> th_seen u = th_seen t \<and> view u db = db1"
proof -
  obtain u where u: "alone\<^sup>*\<^sup>* (db, t) (db, u)" "th_pc u = Inserting []" "th_mv u = th_mv t" "th_seen u = th_seen t" "th_writes u = []"
    using locks_taken [OF assms(1,2), of db] by blast
  have cur: "row_currency u = row_currency t" unfolding row_currency_def u(3,4) ..
  then have ins: "insert_stmt u now (view u db) = (Inr (), db1)" and row: "inserted_row u now = inserted_row t now"
    using assms(3) u(3,5) by (simp_all add: insert_stmt_def inserted_row_def)
  let ?v = "if known u (view u db) then at_pc u InsertCommit
    else u\<lparr>th_pc := InsertCommit, th_writes := th_writes u @ [InsertRow (inserted_row u now)],
      th_locks := insert_locks (th_mv u) \<union> th_locks u\<rparr>"
  have "th_step {} False db u db ?v"
    using th_step.InsertNew [OF u(2) _ _ _ ins, of "{}"] th_step.InsertConflict [OF u(2) _ _ ins, of "{}"]
    by (simp add: keys_free_def)
  then have "alone\<^sup>*\<^sup>* (db, t) (db, ?v)" using u(1) alone_step by (metis rtranclp.rtrancl_into_rtrancl)
  moreover have "view ?v db = db1"
    using assms(3) u(3,5) row
    by (auto simp: view_def insert_stmt_def inserted_row_def Let_def sql_insert_pending_Inr)
  moreover have "th_pc ?v = InsertCommit" "th_mv ?v = th_mv t" "th_seen ?v = th_seen t" using u by simp_all
  ultimately show ?thesis by blast
qed

lemma insert_committed:
  assumes "th_pc t = Inserting as" and "th_writes t = []" and "insert_stmt t now db = (Inr (), db1)"
  shows "gets db t Completing db1" and "gets db t (Finished False) db1"
proof -
  obtain u where u: "alone\<^sup>*\<^sup>* (db, t) (db, u)" "th_pc u = InsertCommit" "th_mv u = th_mv t" "th_seen u = th_seen t" "view u db = db1"
    using insert_reaches_commit [OF assms] by blast
  have "gets db u Completing db1" "gets db u (Finished False) db1"
    unfolding u(5) [symmetric]
    by (rule gets_step [OF th_step.InsertCommitted] gets_step [OF th_step.InsertLost];
        use u(2) in \<open>simp add: tx_over_def\<close>)+
  then show "gets db t Completing db1" and "gets db t (Finished False) db1"
    using gets_after [OF u(1,3,4)] by blast+
qed

lemma insert_fails:
  assumes "th_pc t = Inserting as" and "th_writes t = []"
  shows "gets db t (Finished False) db"
  by (rule gets_step [OF th_step.InsertFault [of t as]]) (use assms in \<open>simp_all add: tx_over_def\<close>)

section \<open>The settlement\<close>

lemma accounts_reconciled:
  assumes "th_pc t = after_account as" and "view t db = d"
    and "\<forall>a \<in> set as. affordable (transactions d) (accounts d) a"
  shows "\<exists>u. alone\<^sup>*\<^sup>* (db, t) (db, u) \<and> th_pc u = Selecting \<and> th_mv u = th_mv t \<and> th_seen u = th_seen t \<and>
    view u db = d\<lparr>accounts := rebalance (transactions d) as now (accounts d)\<rparr>"
  using assms
proof (induction as arbitrary: t d)
  case Nil
  then show ?case by (intro exI [of _ t]) (simp add: after_account_def)
next
  case (Cons a as)
  let ?b = "ledger_sum a (transactions d)"
  let ?t1 = "t\<lparr>th_pc := Summing (a # as), th_locks := insert (AccountRow a) (th_locks t)\<rparr>"
  let ?t2 = "at_pc ?t1 (Writing ?b (a # as))"
  let ?t3 = "?t2\<lparr>th_pc := after_account as, th_writes := th_writes ?t2 @ [SetBalance a ?b now]\<rparr>"
  let ?d = "d\<lparr>accounts := rebalance (transactions d) [a] now (accounts d)\<rparr>"
  have aff: "a \<in> set (keys am_ID (accounts d))" "0 \<le> ?b" "fits_signed 64 ?b"
    using Cons.prems(3) by (simp_all add: affordable_def)
  have v: "view ?t1 db = d" "view ?t2 db = d" using Cons.prems(2) by (simp_all add: view_def)
  have "th_step {} False db t db ?t1"
    using Cons.prems(1,2) aff(1) by (intro th_step.LockAccount) (simp_all add: after_account_def account_free_def)
  moreover have "th_step {} False db ?t1 db ?t2"
    using aff v by (intro th_step.SumAccount) simp_all
  moreover have "th_step {} False db ?t2 db ?t3"
    using aff v by (intro th_step.WriteAccount) simp_all
  ultimately have run: "alone\<^sup>*\<^sup>* (db, t) (db, ?t3)"
    by (meson alone_step converse_rtranclp_into_rtranclp rtranclp.rtrancl_refl)
  have "view ?t3 db = ?d"
    using Cons.prems(2) by (simp add: view_def set_balance_rebalance)
  moreover have "\<forall>x \<in> set as. affordable (transactions ?d) (accounts ?d) x"
    using Cons.prems(3) by (simp add: affordable_def)
  ultimately obtain u where "alone\<^sup>*\<^sup>* (db, ?t3) (db, u)" "th_pc u = Selecting" "th_mv u = th_mv t" "th_seen u = th_seen t"
      "view u db = ?d\<lparr>accounts := rebalance (transactions ?d) as now (accounts ?d)\<rparr>"
    using Cons.IH [of ?t3 ?d] by auto
  with run show ?case by (intro exI [of _ u]) (auto simp: rebalance_rebalance)
qed

lemma settle_committed:
  assumes pc: "th_pc t = Completing" "\<not> over_limit t" "th_writes t = []"
    and s: "settle_spec (tid_of t) (mv_ids (th_mv t)) now db = Some db1" and k: "known t db1"
  shows "gets db t (Recording TransactionStatusCompleted) db1"
proof -
  have "\<exists>u. alone\<^sup>*\<^sup>* (db, t) (db, u) \<and> th_pc u = Selecting \<and> th_mv u = th_mv t \<and> th_seen u = th_seen t \<and> view u db = db1"
  proof (cases "\<exists>r \<in> set (transactions db). pending_row (tid_of t) r")
    case True
    let ?t = "t\<lparr>th_pc := Locking (mv_ids (th_mv t)), th_writes := th_writes t @ [Flip (tid_of t) now],
      th_locks := insert (TransactionRow (tid_of t)) (th_locks t)\<rparr>"
    let ?d = "db\<lparr>transactions := complete_pending (tid_of t) now (transactions db)\<rparr>"
    have "th_step {} False db t db ?t"
      using pc True by (intro th_step.FlipRow) simp_all
    then have run: "alone (db, t) (db, ?t)" by (rule alone_step)
    have "\<forall>a \<in> set (mv_ids (th_mv t)). affordable (transactions ?d) (accounts ?d) a"
      and db1: "db1 = ?d\<lparr>accounts := rebalance (transactions ?d) (mv_ids (th_mv t)) now (accounts ?d)\<rparr>"
      using s True by (auto simp: settle_spec_def Let_def split: if_splits)
    moreover have "th_pc ?t = after_account (mv_ids (th_mv t))"
      by (simp add: after_account_def mv_ids_def pair_list_def)
    moreover have "view ?t db = ?d" using pc(3) by (simp add: view_def)
    ultimately obtain u where u: "alone\<^sup>*\<^sup>* (db, ?t) (db, u)" "th_pc u = Selecting" "th_mv u = th_mv t" "th_seen u = th_seen t"
        "view u db = db1"
      using accounts_reconciled [of ?t "mv_ids (th_mv t)" db ?d now] by auto
    show ?thesis by (intro exI [of _ u] conjI converse_rtranclp_into_rtranclp [of alone, OF run] u)
  next
    case False
    have "th_step {} False db t db (at_pc t Selecting)"
      using pc False by (intro th_step.FlipNothing) simp_all
    moreover have "db1 = db" using s False by (simp add: settle_spec_def split: if_splits)
    ultimately show ?thesis using pc(3) alone_step by (intro exI [of _ "at_pc t Selecting"]) auto
  qed
  then obtain u where u: "alone\<^sup>*\<^sup>* (db, t) (db, u)" "th_pc u = Selecting" "th_mv u = th_mv t" "th_seen u = th_seen t"
      "view u db = db1" by blast
  let ?v = "at_pc u SettleCommit"
  have "th_step {} False db u db ?v" using u k by (intro th_step.SelectRow) simp_all
  then have "alone\<^sup>*\<^sup>* (db, t) (db, ?v)" using u(1) alone_step by (metis rtranclp.rtrancl_into_rtrancl)
  moreover have "gets db ?v (Recording TransactionStatusCompleted) (view ?v db)"
    by (rule gets_step [OF th_step.SettleCommitted]) (simp_all add: tx_over_def)
  then have "gets db ?v (Recording TransactionStatusCompleted) db1" using u(5) by (simp add: view_def)
  ultimately show ?thesis using gets_after [of db t db ?v] u(3,4) by simp
qed

lemma settle_fails:
  assumes "th_pc t = Completing"
  shows "gets db t (Recording TransactionStatusFailed) db"
  by (rule gets_step [OF th_step.SettleFault [of t "[]" 0]]) (use assms in \<open>simp_all add: tx_over_def\<close>)

section \<open>The status\<close>

lemma recorded:
  assumes "th_pc t = Recording s" and "th_writes t = []" and "db' = db \<or> db' = status_set (tid_of t) s now db"
  shows "gets db t (Finished (s = TransactionStatusCompleted)) db'"
  using assms(3)
proof
  assume db': "db' = db"
  show ?thesis unfolding db' by (rule gets_step [OF th_step.RecordFault [OF assms(1)]]) (simp_all add: assms(2))
next
  assume db': "db' = status_set (tid_of t) s now db"
  show ?thesis unfolding db' by (rule gets_step [OF th_step.RecordStatus [OF assms(1)]]) (simp_all add: assms(2))
qed

context settlement
begin

text \<open>The settlement and the status update of a request are a run of its thread.\<close>

lemma record_run:
  assumes ok: "schema_ok (w_db w)" and nl: "\<not> lost e"
    and run: "settle_and_record R e tid uid acc msg (move e) w = (res, w')"
    and t: "th_pc t = Completing" "\<not> over_limit t" "th_writes t = []" "tid_of t = tid" "mv_ids (th_mv t) = ids"
  shows "gets (w_db w) t (Finished (\<not> isl res)) (w_db w')"
proof (cases res)
  case (Inl err)
  note w' = record_Inl [OF ok nl run [unfolded Inl]]
  show ?thesis
  proof (rule gets_trans [OF settle_fails [OF t(1)]])
    fix u :: thread assume "th_pc u = Recording TransactionStatusFailed" "th_mv u = th_mv t" "th_writes u = []"
    then show "gets (w_db w) u (Finished (\<not> isl res)) (w_db w')"
      using recorded [of u TransactionStatusFailed "w_db w'" "w_db w"] w' t(4) Inl by simp
  qed
next
  case (Inr x)
  obtain db1 m where s: "settle_spec tid ids (at e) (w_db w) = Some db1" "sql_select_transaction tid db1 = (Inr m, db1)"
    and w': "w_db w' = db1 \<or> w_db w' = status_set tid TransactionStatusCompleted (env_now e UpdateTransactionStatusC) db1"
    by (rule record_Inr [OF ok run [unfolded Inr]])
  have "known t db1"
    using s(2) t(4) by (auto simp: sql_select_transaction_def set_keys split: option.splits dest!: find_SomeD)
  then have "gets (w_db w) t (Recording TransactionStatusCompleted) db1"
    using s(1) t by (intro settle_committed [of t "at e"]) simp_all
  then show ?thesis
  proof (rule gets_trans)
    fix u :: thread assume "th_pc u = Recording TransactionStatusCompleted" "th_mv u = th_mv t" "th_writes u = []"
    then show "gets db1 u (Finished (\<not> isl res)) (w_db w')"
      using recorded [of u TransactionStatusCompleted "w_db w'" db1] w' t(4) Inr by simp
  qed
qed

end

section \<open>A whole request\<close>

lemma pend_run:
  assumes ok: "schema_ok (w_db w)" and amt: "fits_signed 64 (mv_amount m)"
    and t: "th_pc t = Inserting as" "th_writes t = []" "th_mv t = m" "row_currency t = cur"
    and run: "pend_then e (mv_id m) (mv_type m) (mv_from m) (mv_to m) cur (mv_amount m) msg k w = (res, w')"
    and tail: "\<And>w1 u. \<lbrakk>schema_ok (w_db w1); k w1 = (res, w'); th_pc u = Completing; th_mv u = m; th_seen u = th_seen t;
      th_writes u = []\<rbrakk> \<Longrightarrow> gets (w_db w1) u (Finished (\<not> isl res)) (w_db w')"
  shows "gets (w_db w) t (Finished (\<not> isl res)) (w_db w')"
proof -
  have ins: "insert_stmt t (env_now e CreatePendingTransactionC) (w_db w) = (Inr (), db1)"
    if "insert_pending e (mv_id m) (mv_type m) (mv_from m) (mv_to m) cur (mv_amount m) (w_db w) = (Inr (), db1)" for db1
    using that t(3,4) by (simp add: insert_stmt_def Let_def)
  show ?thesis
  proof (rule pend_then_cases [of e "mv_id m" "mv_type m" "mv_from m" "mv_to m" cur "mv_amount m" msg k w])
    fix err db1
    assume "pend_then e (mv_id m) (mv_type m) (mv_from m) (mv_to m) cur (mv_amount m) msg k w = (Inl err, w\<lparr>w_db := db1\<rparr>)"
      and "db1 = w_db w \<or>
        insert_pending e (mv_id m) (mv_type m) (mv_from m) (mv_to m) cur (mv_amount m) (w_db w) = (Inr (), db1)"
    with run show ?thesis
      using insert_fails [OF t(1,2)] insert_committed(2) [OF t(1,2) ins] by auto
  next
    fix db1
    assume k: "pend_then e (mv_id m) (mv_type m) (mv_from m) (mv_to m) cur (mv_amount m) msg k w = k (w\<lparr>w_db := db1\<rparr>)"
      and i: "insert_pending e (mv_id m) (mv_type m) (mv_from m) (mv_to m) cur (mv_amount m) (w_db w) = (Inr (), db1)"
    show ?thesis
    proof (rule gets_trans [OF insert_committed(1) [OF t(1,2) ins [OF i]]])
      fix u :: thread assume "th_pc u = Completing" "th_mv u = th_mv t" "th_seen u = th_seen t" "th_writes u = []"
      then show "gets db1 u (Finished (\<not> isl res)) (w_db w')"
        using tail [of "w\<lparr>w_db := db1\<rparr>" u] insert_pending_schema [OF ok i amt] k run t(3) by simp
    qed
  qed
qed

lemma start_simps:
  "0 < mv_amount m \<Longrightarrow> mv_type m \<noteq> ''withdrawal'' \<Longrightarrow> th_pc (start m) = Inserting (mv_locks m)"
  "0 < mv_amount m \<Longrightarrow> mv_type m = ''withdrawal'' \<Longrightarrow> th_pc (start m) = Check"
  "mv_amount m \<le> 0 \<Longrightarrow> th_pc (start m) = Finished False"
  "th_writes (start m) = []" "th_mv (start m) = m" "th_seen (start m) = None"
  by (simp_all add: start_def)

lemma deposit_run:
  assumes "schema_ok (w_db w)" and "fits_signed 64 amt" and "\<not> commit_lost DepositFundsC e" and "0 < amt"
    and "deposit R e tid uid acc cur amt w = (res, w')"
  shows "gets (w_db w) (start (movement_of (DepositReq tid uid acc cur amt))) (Finished (\<not> isl res)) (w_db w')"
  (is "gets _ (start ?m) _ _")
proof (rule pend_run [of w ?m "start ?m" "mv_locks ?m" cur e "''Failed to create pending deposit transaction: %w''"
    "settle_and_record R e tid uid acc ''Failed to deposit funds to account: %s, error:%w'' (DepositFunds e tid acc cur amt)"])
  fix w1 :: "'a world" and u :: thread
  assume "schema_ok (w_db w1)" "th_pc u = Completing" "th_mv u = ?m" "th_writes u = []"
    "settle_and_record R e tid uid acc ''Failed to deposit funds to account: %s, error:%w''
       (DepositFunds e tid acc cur amt) w1 = (res, w')"
  then show "gets (w_db w1) u (Finished (\<not> isl res)) (w_db w')"
    using assms(3) by (intro dep.record_run) (auto simp: over_limit_def mv_ids_def)
qed (use assms in \<open>simp_all add: start_simps deposit_pend row_currency_def\<close>)

lemma transfer_run:
  assumes "schema_ok (w_db w)" and "fits_signed 64 amt" and "\<not> commit_lost TransferFundsC e" and "0 < amt"
    and "transfer R e tid uid fr to cur amt w = (res, w')"
  shows "gets (w_db w) (start (movement_of (TransferReq tid uid fr to cur amt))) (Finished (\<not> isl res)) (w_db w')"
  (is "gets _ (start ?m) _ _")
proof (rule pend_run [of w ?m "start ?m" "mv_locks ?m" cur e "''Failed to create pending transfer transaction: %w''"
    "settle_and_record R e tid uid fr ''Failed to transfer funds from account: %s, error:%w'' (TransferFunds e tid fr to cur amt)"])
  fix w1 :: "'a world" and u :: thread
  assume "schema_ok (w_db w1)" "th_pc u = Completing" "th_mv u = ?m" "th_writes u = []"
    "settle_and_record R e tid uid fr ''Failed to transfer funds from account: %s, error:%w''
       (TransferFunds e tid fr to cur amt) w1 = (res, w')"
  then show "gets (w_db w1) u (Finished (\<not> isl res)) (w_db w')"
    using assms(3) by (intro trf.record_run) (auto simp: over_limit_def mv_ids_def pair_list_def)
qed (use assms in \<open>simp_all add: start_simps transfer_pend row_currency_def\<close>)

text \<open>The rest of a withdrawal: refused above the limit, settled otherwise.\<close>

lemma withdraw_tail_run:
  assumes "schema_ok (w_db w)" and "\<not> commit_lost WithdrawFundsC e"
    and "withdraw_tail R e tid uid account acc amt w = (res, w')"
    and u: "th_pc u = Completing" "th_writes u = []" "th_mv u = movement_of (WithdrawReq tid uid acc amt)"
      "th_seen u = Some account"
  shows "gets (w_db w) u (Finished (\<not> isl res)) (w_db w')"
proof (cases "am_Balance account > 600000")
  case True
  have over: "over_limit u" using u(3,4) True by (simp add: over_limit_def)
  have res: "isl res" and w': "w' = snd (UpdateTransactionStatus R e tid uid acc TransactionStatusFailed w)"
    using assms(3) True by (auto simp: withdraw_tail_def split_beta)
  have "gets (w_db w) u (Recording TransactionStatusFailed) (w_db w)"
    by (rule gets_step [OF th_step.OverLimit [OF u(1) over]]) (use u(2) in simp_all)
  then show ?thesis
  proof (rule gets_trans)
    fix v :: thread
    assume "th_pc v = Recording TransactionStatusFailed" "th_mv v = th_mv u" "th_writes v = []"
    then show "gets (w_db w) v (Finished (\<not> isl res)) (w_db w')"
      using recorded [of v TransactionStatusFailed "w_db w'" "w_db w"] res u(3)
        status_update_db [of TransactionStatusFailed R e tid uid acc w] by (simp add: w')
  qed
next
  case False
  with assms(3) have "settle_and_record R e tid uid acc ''Failed to withdraw funds from account: %s, error:%w''
      (WithdrawFunds e tid acc amt) w = (res, w')"
    by (simp add: withdraw_tail_def)
  then show ?thesis
    using assms(1,2) u False by (intro wdr.record_run) (auto simp: over_limit_def mv_ids_def)
qed

lemma withdraw_run:
  assumes ok: "schema_ok (w_db w)" and amt: "fits_signed 64 amt" "0 < amt" and nl: "\<not> commit_lost WithdrawFundsC e"
    and run: "withdraw R e tid uid acc amt w = (res, w')"
  shows "\<exists>t'. alone\<^sup>*\<^sup>* (w_db w, start (movement_of (WithdrawReq tid uid acc amt))) (w_db w', t') \<and> th_pc t' = Finished (\<not> isl res)"
  (is "\<exists>t'. alone\<^sup>*\<^sup>* (_, start ?m) _ \<and> _")
proof -
  let ?t = "start ?m"
  have pc: "th_pc ?t = Check" using amt(2) by (simp add: start_simps)
  have stop: "\<exists>t'. alone\<^sup>*\<^sup>* (w_db w, ?t) (w_db w, t') \<and> th_pc t' = Finished False"
    using alone_step [OF th_step.CheckFault [OF pc]] by (intro exI [of _ "at_pc ?t (Finished False)"]) auto
  show ?thesis
  proof (cases "fst (checkUserAccountCompatibility e uid acc (w_db w))")
    case None
    with run amt(2) stop show ?thesis by (auto simp: withdraw_pend)
  next
    case (Some account)
    show ?thesis
    proof (cases "am_Balance account < amt")
      case True
      with Some run amt(2) stop show ?thesis by (auto simp: withdraw_pend)
    next
      case False
      let ?u = "?t\<lparr>th_pc := Inserting (mv_locks ?m), th_seen := Some account\<rparr>"
      have row: "account_row (w_db w) acc = Some account" "am_UserID account = uid"
        using Some by (auto simp: check_account split: if_splits option.splits)
      then have "th_step {} False (w_db w) ?t (w_db w) (?t\<lparr>th_pc := Inserting (mv_locks (th_mv ?t)), th_seen := Some account\<rparr>)"
        using pc False by (intro th_step.CheckOk) (simp_all add: start_simps may_withdraw_def)
      then have step: "alone (w_db w, ?t) (w_db w, ?u)" using alone_step by (simp add: start_simps)
      have "gets (w_db w) ?u (Finished (\<not> isl res)) (w_db w')"
      proof (rule pend_run [of w ?m ?u "mv_locks ?m" "am_Currency account" e
          "''Failed to create pending withdrawal transaction: %w''" "withdraw_tail R e tid uid account acc amt"])
        fix w1 :: "'a world" and v :: thread
        assume "schema_ok (w_db w1)" "withdraw_tail R e tid uid account acc amt w1 = (res, w')"
          "th_pc v = Completing" "th_mv v = ?m" "th_seen v = th_seen ?u" "th_writes v = []"
        then show "gets (w_db w1) v (Finished (\<not> isl res)) (w_db w')"
          using nl by (intro withdraw_tail_run) simp_all
      qed (use ok amt run Some False in \<open>simp_all add: start_simps withdraw_pend row_currency_def\<close>)
      then show ?thesis using step by (auto simp: gets_def intro: converse_rtranclp_into_rtranclp)
    qed
  qed
qed

text \<open>C11. Every call of deposit, withdraw or transfer, under any faults but an unacknowledged
  settlement, is a run of its thread alone: statement by statement, the thread takes the database
  to the very state the call leaves, and finishes with success exactly when the call reports it.\<close>

theorem requests_refine_threads:
  assumes "schema_ok (w_db w)" and "fits_signed 64 (req_amount rq)" and "\<not> req_lost rq e"
    and "run_request R e rq w = (res, w')"
  shows "\<exists>t'. alone\<^sup>*\<^sup>* (w_db w, start (movement_of rq)) (w_db w', t') \<and> th_pc t' = Finished (\<not> isl res)"
proof (cases "0 < req_amount rq")
  case True
  with assms show ?thesis
  proof (cases rq)
    case (DepositReq tid uid acc cur amt)
    with True assms deposit_run [of w amt e R tid uid acc cur res w'] show ?thesis by (auto simp: gets_def)
  next
    case (WithdrawReq tid uid acc amt)
    with True assms withdraw_run [of w amt e R tid uid acc res w'] show ?thesis by auto
  next
    case (TransferReq tid uid fr to cur amt)
    with True assms transfer_run [of w amt e R tid uid fr to cur res w'] show ?thesis by (auto simp: gets_def)
  qed
next
  case False
  then have "w' = w" "isl res" "th_pc (start (movement_of rq)) = Finished False"
    using assms(4) by (cases rq; auto simp: deposit_def withdraw_def transfer_def start_def)+
  then show ?thesis by auto
qed

theorem requests_refine_threads_witness:
  "\<exists>t' db'. alone\<^sup>*\<^sup>* (sample_db, start (movement_of (TransferReq ''t2'' ''u1'' ''a1'' ''a2'' ''USD'' 300))) (db', t')
     \<and> th_pc t' = Finished True \<and> balance_of db' ''a2'' = Some 300"
proof -
  let ?rq = "TransferReq ''t2'' ''u1'' ''a1'' ''a2'' ''USD'' 300"
  have "\<not> isl (fst (run_request redis_ref (healthy 3) ?rq sample))"
    "balance_of (w_db (snd (run_request redis_ref (healthy 3) ?rq sample))) ''a2'' = Some 300"
    by code_simp+
  then obtain res w' where r: "run_request redis_ref (healthy 3) ?rq sample = (res, w')" "\<not> isl res"
      "balance_of (w_db w') ''a2'' = Some 300"
    by (metis prod.collapse)
  from requests_refine_threads [OF _ _ _ r(1)] r(2,3) show ?thesis
    by (auto simp: fits_signed_def commit_lost_def healthy_def)
qed

end
