(* ===== verification/Pollers.thy ===== *)
theory Pollers
  imports OutboxProps
begin

text \<open>
  Several relays polling the outbox at once, as replicas of the wallet service do, row by row: the
  transaction of \<^verbatim>\<open>OutboxPendingGetBatch\<close> puts stale claims back, locking each row it changes and
  waiting for rows that others hold, and then picks due rows, skipping those that others hold
  (\<^verbatim>\<open>FOR UPDATE SKIP LOCKED\<close>). Under \<^verbatim>\<open>READ COMMITTED\<close> a statement chooses its rows from what is committed when it
  begins, together with the writes of its own transaction, and looks at each of them again when it
  has the lock. The value of \<^verbatim>\<open>now()\<close> is that of the beginning of the transaction. The state is the
  committed table, the only one these statements touch, and the pollers; meanwhile the relays record what became
  of the rows they were handed: published or failed for good, or put back for another try after a publication that
  failed (\<^verbatim>\<open>OutboxMarkPublishFailure\<close>), and handlers insert rows.
\<close>

section \<open>Pollers\<close>

datatype poll_pc =
    PollStart
  | Reclaiming "string list" \<comment> \<open>stale claims of the snapshot still to look at\<close>
  | Picking "string list" nat \<comment> \<open>due rows of the snapshot still to look at, and how many more to take\<close>
  | PollCommit
  | PollDone bool \<comment> \<open>whether the batch was handed out\<close>

record poller =
  po_now :: time
  po_limit :: int
  po_pc :: poll_pc
  po_writes :: "(string \<times> OutboxStatus) list"
  po_held :: "string set"
  po_batch :: "OutboxModel list"

definition poller_start :: "time \<Rightarrow> int \<Rightarrow> poller" where
  "poller_start now limit =
     \<lparr>po_now = now, po_limit = limit, po_pc = PollStart, po_writes = [], po_held = {}, po_batch = []\<rparr>"

definition write_status :: "time \<Rightarrow> string \<times> OutboxStatus \<Rightarrow> outbox_row list \<Rightarrow> outbox_row list" where
  "write_status now w rows =
     update_where (\<lambda>r. om_ID r = fst w) (\<lambda>r. r\<lparr>om_Status := snd w, om_UpdatedAt := now\<rparr>) rows"

definition poll_view :: "poller \<Rightarrow> outbox_row list \<Rightarrow> outbox_row list" where
  "poll_view p rows = fold (write_status (po_now p)) (po_writes p) rows"

definition takes_row :: "poller \<Rightarrow> string \<Rightarrow> OutboxStatus \<Rightarrow> poll_pc \<Rightarrow> poller" where
  "takes_row p x s c = p\<lparr>po_pc := c, po_writes := po_writes p @ [(x, s)], po_held := insert x (po_held p)\<rparr>"

definition poll_over :: "poller \<Rightarrow> bool \<Rightarrow> poller" where
  "poll_over p ok = p\<lparr>po_pc := PollDone ok, po_writes := [], po_held := {}\<rparr>"

definition row_of :: "string \<Rightarrow> outbox_row list \<Rightarrow> outbox_row option" where
  "row_of x rows = List.find (\<lambda>r. om_ID r = x) rows"

abbreviation row_is :: "(outbox_row \<Rightarrow> bool) \<Rightarrow> string \<Rightarrow> outbox_row list \<Rightarrow> bool" where
  "row_is P x rows \<equiv> (case row_of x rows of None \<Rightarrow> False | Some r \<Rightarrow> P r)"

inductive poll_step :: "string set \<Rightarrow> bool \<Rightarrow> outbox_row list \<Rightarrow> poller \<Rightarrow> outbox_row list \<Rightarrow> poller \<Rightarrow> bool"
  for held :: "string set" where
  ReclaimBegins: "po_pc p = PollStart \<Longrightarrow>
    poll_step held False rows p rows (p\<lparr>po_pc := Reclaiming (map om_ID (filter (stale_claim (po_now p)) rows))\<rparr>)"
| ReclaimRow: "\<lbrakk>po_pc p = Reclaiming (x # xs); x \<notin> held; row_is (stale_claim (po_now p)) x (poll_view p rows)\<rbrakk> \<Longrightarrow>
    poll_step held False rows p rows (takes_row p x OutboxStatusPending (Reclaiming xs))"
| ReclaimNothing: "\<lbrakk>po_pc p = Reclaiming (x # xs); x \<notin> held; \<not> row_is (stale_claim (po_now p)) x (poll_view p rows)\<rbrakk> \<Longrightarrow>
    poll_step held False rows p rows (p\<lparr>po_pc := Reclaiming xs\<rparr>)"
| PickBegins: "\<lbrakk>po_pc p = Reclaiming []; 0 \<le> po_limit p\<rbrakk> \<Longrightarrow>
    poll_step held False rows p rows (p\<lparr>po_pc := Picking
      (map om_ID (sort_key om_CreatedAt (filter (due (po_now p)) (poll_view p rows)))) (nat (po_limit p))\<rparr>)"
| PickRefused: "\<lbrakk>po_pc p = Reclaiming []; po_limit p < 0\<rbrakk> \<Longrightarrow> poll_step held False rows p rows (poll_over p False)"
| PickRow: "\<lbrakk>po_pc p = Picking (x # xs) (Suc n); x \<notin> held; row_of x (poll_view p rows) = Some r; due (po_now p) r\<rbrakk> \<Longrightarrow>
    poll_step held False rows p rows
      ((takes_row p x OutboxStatusClaimed (Picking xs n))\<lparr>po_batch := po_batch p @ [batch_model r]\<rparr>)"
| PickSkip: "\<lbrakk>po_pc p = Picking (x # xs) (Suc n); x \<in> held \<or> \<not> row_is (due (po_now p)) x (poll_view p rows)\<rbrakk> \<Longrightarrow>
    poll_step held False rows p rows (p\<lparr>po_pc := Picking xs (Suc n)\<rparr>)"
| PickEnds: "\<lbrakk>po_pc p = Picking xs n; xs = [] \<or> n = 0\<rbrakk> \<Longrightarrow> poll_step held False rows p rows (p\<lparr>po_pc := PollCommit\<rparr>)"
| PollCommitted: "po_pc p = PollCommit \<Longrightarrow> poll_step held False rows p (poll_view p rows) (poll_over p True)"
| PollLost: "po_pc p = PollCommit \<Longrightarrow> poll_step held True rows p (poll_view p rows) (poll_over p False)"
| PollFault: "\<nexists>ok. po_pc p = PollDone ok \<Longrightarrow> poll_step held True rows p rows (poll_over p False)"

text \<open>The next step when nothing fails, as a function; \<open>None\<close> when the poller waits or is done.\<close>

definition poll_next :: "string set \<Rightarrow> outbox_row list \<Rightarrow> poller \<Rightarrow> (outbox_row list \<times> poller) option" where
  "poll_next held rows p =
     (case po_pc p of
        PollStart \<Rightarrow> Some (rows, p\<lparr>po_pc := Reclaiming (map om_ID (filter (stale_claim (po_now p)) rows))\<rparr>)
      | Reclaiming [] \<Rightarrow>
          Some (rows, if po_limit p < 0 then poll_over p False
                      else p\<lparr>po_pc := Picking (map om_ID (sort_key om_CreatedAt (filter (due (po_now p)) (poll_view p rows))))
                             (nat (po_limit p))\<rparr>)
      | Reclaiming (x # xs) \<Rightarrow>
          if x \<in> held then None
          else Some (rows, if row_is (stale_claim (po_now p)) x (poll_view p rows)
                           then takes_row p x OutboxStatusPending (Reclaiming xs) else p\<lparr>po_pc := Reclaiming xs\<rparr>)
      | Picking [] n \<Rightarrow> Some (rows, p\<lparr>po_pc := PollCommit\<rparr>)
      | Picking (x # xs) 0 \<Rightarrow> Some (rows, p\<lparr>po_pc := PollCommit\<rparr>)
      | Picking (x # xs) (Suc n) \<Rightarrow>
          (case row_of x (poll_view p rows) of
             None \<Rightarrow> Some (rows, p\<lparr>po_pc := Picking xs (Suc n)\<rparr>)
           | Some r \<Rightarrow>
               Some (rows, if x \<notin> held \<and> due (po_now p) r
                           then (takes_row p x OutboxStatusClaimed (Picking xs n))\<lparr>po_batch := po_batch p @ [batch_model r]\<rparr>
                           else p\<lparr>po_pc := Picking xs (Suc n)\<rparr>))
      | PollCommit \<Rightarrow> Some (poll_view p rows, poll_over p True)
      | PollDone ok \<Rightarrow> None)"

lemma poll_next_step:
  assumes "poll_next held rows p = Some (rows', p')"
  shows "poll_step held False rows p rows' p'"
proof (cases "po_pc p")
  case PollStart
  then show ?thesis using assms poll_step.ReclaimBegins by (auto simp: poll_next_def)
next
  case (Reclaiming xs)
  show ?thesis
  proof (cases xs)
    case Nil
    then show ?thesis
      using assms Reclaiming poll_step.PickBegins poll_step.PickRefused by (auto simp: poll_next_def split: if_splits)
  next
    case (Cons x ys)
    then show ?thesis
      using assms Reclaiming poll_step.ReclaimRow [of p x ys] poll_step.ReclaimNothing [of p x ys]
      by (auto simp: poll_next_def split: if_splits)
  qed
next
  case (Picking xs n)
  show ?thesis
  proof (cases "xs = [] \<or> n = 0")
    case True
    then show ?thesis
      using assms Picking poll_step.PickEnds [OF Picking True] by (cases xs; cases n) (auto simp: poll_next_def)
  next
    case False
    then obtain x ys m where xn: "xs = x # ys" "n = Suc m" by (cases xs; cases n) auto
    show ?thesis
      using assms Picking xn poll_step.PickRow [of p x ys m] poll_step.PickSkip [of p x ys m]
      by (auto simp: poll_next_def split: option.splits if_splits)
  qed
next
  case PollCommit
  then show ?thesis using assms poll_step.PollCommitted by (auto simp: poll_next_def)
next
  case (PollDone ok)
  then show ?thesis using assms by (simp add: poll_next_def)
qed

section \<open>Pollers together\<close>

definition held_elsewhere :: "nat \<Rightarrow> poller list \<Rightarrow> string set" where
  "held_elsewhere i ps = (\<Union>j \<in> {..<length ps} - {i}. po_held (ps ! j))"

text \<open>The transactions of the pollers begin within the 30 seconds from \<open>t0\<close> on. \<open>X\<close> holds the rows whose
  publication fails meanwhile: the relay records each failure, which puts the row back until its next attempt,
  or gives it up.\<close>

inductive pollers_step :: "time \<Rightarrow> string set \<Rightarrow> outbox_row list \<times> poller list \<Rightarrow> outbox_row list \<times> poller list \<Rightarrow> bool"
  for t0 :: time and X :: "string set" where
  Polls: "\<lbrakk>t0 \<le> now; now \<le> t0 + seconds 30\<rbrakk> \<Longrightarrow> pollers_step t0 X (rows, ps) (rows, ps @ [poller_start now limit])"
| Continues: "\<lbrakk>i < length ps; poll_step (held_elsewhere i ps) f rows (ps ! i) rows' p'\<rbrakk> \<Longrightarrow>
    pollers_step t0 X (rows, ps) (rows', ps[i := p'])"
| RowInserted: "om_ID r \<notin> set (keys om_ID rows) \<Longrightarrow> pollers_step t0 X (rows, ps) (rows @ [r], ps)"
| RowSettled: "\<lbrakk>\<forall>p \<in> set ps. x \<notin> po_held p; s = OutboxStatusPublished \<or> s = OutboxStatusFailed\<rbrakk> \<Longrightarrow>
    pollers_step t0 X (rows, ps) (update_where (\<lambda>r. om_ID r = x) (set_outbox_status s now) rows, ps)"
| PublishFailed: "\<lbrakk>\<forall>p \<in> set ps. x \<notin> po_held p; x \<in> X\<rbrakk> \<Longrightarrow>
    pollers_step t0 X (rows, ps) (update_where (\<lambda>r. om_ID r = x) (mark_failure msg maxRetries cap now) rows, ps)"

fun run_polls :: "nat list \<Rightarrow> outbox_row list \<times> poller list \<Rightarrow> (outbox_row list \<times> poller list) option" where
  "run_polls [] c = Some c"
| "run_polls (i # is) (rows, ps) =
     (if i < length ps
      then (case poll_next (held_elsewhere i ps) rows (ps ! i) of
              None \<Rightarrow> None
            | Some (rows', p') \<Rightarrow> run_polls is (rows', ps[i := p']))
      else None)"

lemma run_polls_steps: "run_polls is c = Some c' \<Longrightarrow> (pollers_step t0 X)\<^sup>*\<^sup>* c c'"
proof (induction "is" c rule: run_polls.induct)
  case (2 i "is" rows ps)
  then obtain rows1 p1 where n: "i < length ps" "poll_next (held_elsewhere i ps) rows (ps ! i) = Some (rows1, p1)"
    and r: "run_polls is (rows1, ps[i := p1]) = Some c'"
    by (auto split: if_splits option.splits prod.splits)
  have "pollers_step t0 X (rows, ps) (rows1, ps[i := p1])" using n poll_next_step by (blast intro: pollers_step.Continues)
  moreover have "(pollers_step t0 X)\<^sup>*\<^sup>* (rows1, ps[i := p1]) c'" using 2(1) n r by auto
  ultimately show ?case by (rule converse_rtranclp_into_rtranclp)
qed simp

section \<open>No row is handed out twice\<close>

definition handed_out :: "poller \<Rightarrow> string set" where
  "handed_out p = (if po_pc p = PollDone True then om_ID ` set (po_batch p) else {})"

definition poller_fine :: "poller \<Rightarrow> bool" where
  "poller_fine p \<longleftrightarrow> fst ` set (po_writes p) \<subseteq> po_held p \<and>
     (\<forall>ok. po_pc p = PollDone ok \<longrightarrow> po_held p = {}) \<and>
     (\<forall>xs. po_pc p = PollStart \<or> po_pc p = Reclaiming xs \<longrightarrow> po_batch p = []) \<and>
     ((\<nexists>ok. po_pc p = PollDone ok) \<longrightarrow>
        (\<forall>x \<in> om_ID ` set (po_batch p). \<exists>us vs. po_writes p = us @ (x, OutboxStatusClaimed) # vs \<and> x \<notin> fst ` set vs))"

text \<open>A row that was handed out, and whose publication does not fail, stays claimed, since then, or is settled.\<close>

definition put_away :: "time \<Rightarrow> outbox_row \<Rightarrow> bool" where
  "put_away t0 r \<longleftrightarrow> om_Status r = OutboxStatusClaimed \<and> t0 \<le> om_UpdatedAt r \<or>
     om_Status r = OutboxStatusPublished \<or> om_Status r = OutboxStatusFailed"

definition out_of_reach :: "time \<Rightarrow> string \<Rightarrow> outbox_row list \<Rightarrow> bool" where
  "out_of_reach t0 x rows \<longleftrightarrow> x \<in> set (keys om_ID rows) \<and> (\<forall>r \<in> set rows. om_ID r = x \<longrightarrow> put_away t0 r)"

lemma out_of_reach_update:
  assumes "out_of_reach t0 y rows" and "\<And>r. om_ID (f r) = om_ID r" and "\<And>r. x = y \<Longrightarrow> put_away t0 (f r)"
  shows "out_of_reach t0 y (update_where (\<lambda>r. om_ID r = x) f rows)"
proof -
  have "keys om_ID (update_where (\<lambda>r. om_ID r = x) f rows) = keys om_ID rows" by (rule keys_update_where) (rule assms(2))
  moreover have "put_away t0 r" if "r \<in> set (update_where (\<lambda>r. om_ID r = x) f rows)" "om_ID r = y" for r
    using that assms by (auto simp: set_update_where out_of_reach_def split: if_splits)
  ultimately show ?thesis using assms(1) by (simp add: out_of_reach_def)
qed

lemma write_status_row:
  assumes "r \<in> set (write_status now w rows)"
  obtains "r \<in> set rows" and "om_ID r \<noteq> fst w"
    | r0 where "r0 \<in> set rows" and "om_ID r0 = fst w" and "r = r0\<lparr>om_Status := snd w, om_UpdatedAt := now\<rparr>"
proof -
  from assms obtain r0 where "r0 \<in> set rows" "r = (if om_ID r0 = fst w then r0\<lparr>om_Status := snd w, om_UpdatedAt := now\<rparr> else r0)"
    unfolding write_status_def set_update_where by blast
  then show thesis using that by (cases "om_ID r0 = fst w") simp_all
qed

lemma keys_write [simp]: "keys om_ID (write_status now w rows) = keys om_ID rows"
  unfolding write_status_def by (rule keys_update_where) simp

lemma keys_writes [simp]: "keys om_ID (fold (write_status now) ws rows) = keys om_ID rows"
  by (induction ws arbitrary: rows) simp_all

lemma keys_view [simp]: "keys om_ID (poll_view p rows) = keys om_ID rows"
  by (simp add: poll_view_def)

lemma written_elsewhere:
  assumes "r \<in> set (fold (write_status now) ws rows)" and "om_ID r \<notin> fst ` set ws"
  shows "r \<in> set rows"
  using assms
proof (induction ws arbitrary: rows)
  case (Cons w ws)
  then have "r \<in> set (write_status now w rows)" by simp
  then show ?case by (rule write_status_row) (use Cons.prems(2) in simp_all)
qed simp

lemma written_last:
  assumes "r \<in> set (fold (write_status now) (us @ (x, s) # vs) rows)" and "om_ID r = x" and "x \<notin> fst ` set vs"
  shows "om_Status r = s \<and> om_UpdatedAt r = now"
proof -
  have "r \<in> set (write_status now (x, s) (fold (write_status now) us rows))"
    using written_elsewhere [of r now vs] assms by simp
  then show ?thesis by (rule write_status_row) (use assms(2) in simp_all)
qed

lemma out_of_reach_view:
  assumes "out_of_reach t0 x rows" and "x \<notin> fst ` set (po_writes p)"
  shows "out_of_reach t0 x (poll_view p rows)"
proof -
  have "r \<in> set rows" if "r \<in> set (poll_view p rows)" "om_ID r = x" for r
    using written_elsewhere [of r "po_now p" "po_writes p" rows] that assms(2) by (simp add: poll_view_def)
  then show ?thesis using assms(1) by (auto simp: out_of_reach_def)
qed

lemma out_of_reach_row:
  assumes "out_of_reach t0 x rows" and "row_of x rows = Some r" and "now \<le> t0 + seconds 30"
  shows "\<not> due now r" and "\<not> stale_claim now r"
proof -
  have "r \<in> set rows" "om_ID r = x" using assms(2) by (auto simp: row_of_def dest!: find_SomeD)
  then have "put_away t0 r" using assms(1) by (auto simp: out_of_reach_def)
  then show "\<not> due now r" and "\<not> stale_claim now r" using assms(3) by (auto simp: put_away_def due_def stale_claim_def)
qed

lemma takes_row_simps [simp]:
  "po_pc (takes_row p x s c) = c" "po_now (takes_row p x s c) = po_now p" "po_batch (takes_row p x s c) = po_batch p"
  "po_held (takes_row p x s c) = insert x (po_held p)" "po_writes (takes_row p x s c) = po_writes p @ [(x, s)]"
  by (simp_all add: takes_row_def)

lemma poll_over_simps [simp]:
  "po_pc (poll_over p ok) = PollDone ok" "po_now (poll_over p ok) = po_now p" "po_batch (poll_over p ok) = po_batch p"
  "po_held (poll_over p ok) = {}" "po_writes (poll_over p ok) = []"
  by (simp_all add: poll_over_def)

text \<open>A poller takes no row that was handed out, and hands out only rows it holds.\<close>

lemma poll_step_takes:
  assumes "poll_step held f rows p rows' p'" and "poller_fine p" and "po_now p \<le> t0 + seconds 30"
    and "out_of_reach t0 x rows" and "x \<notin> po_held p"
  shows "x \<notin> po_held p'"
proof -
  have "x \<notin> fst ` set (po_writes p)" using assms(2,5) by (auto simp: poller_fine_def)
  then have v: "out_of_reach t0 x (poll_view p rows)" by (rule out_of_reach_view [OF assms(4)])
  from assms(1) show ?thesis
  proof (cases rule: poll_step.cases)
    case (ReclaimRow y xs)
    then have "y \<noteq> x" using out_of_reach_row(2) [OF v _ assms(3)] by (auto split: option.splits)
    then show ?thesis using ReclaimRow assms(5) by simp
  next
    case (PickRow y xs n r)
    then have "y \<noteq> x" using out_of_reach_row(1) [OF v _ assms(3)] by auto
    then show ?thesis using PickRow assms(5) by simp
  qed (use assms(5) in auto)
qed

lemma claimed_kept:
  assumes "ws = us @ (x, OutboxStatusClaimed) # vs" and "x \<notin> fst ` set vs"
  shows "\<exists>us' vs'. ws @ [(y, OutboxStatusClaimed)] = us' @ (x, OutboxStatusClaimed) # vs' \<and> x \<notin> fst ` set vs'"
proof (cases "x = y")
  case True
  then show ?thesis by (intro exI [of _ ws] exI [of _ "[]"]) simp
next
  case False
  then show ?thesis using assms by (intro exI [of _ us] exI [of _ "vs @ [(y, OutboxStatusClaimed)]"]) simp
qed

lemma pick_fine:
  assumes "poller_fine p" and "po_pc p = Picking (x # xs) (Suc n)" and "om_ID r = x"
  shows "poller_fine ((takes_row p x OutboxStatusClaimed (Picking xs n))\<lparr>po_batch := po_batch p @ [batch_model r]\<rparr>)"
proof -
  let ?ws = "po_writes p @ [(x, OutboxStatusClaimed)]"
  have "\<exists>us vs. ?ws = us @ (y, OutboxStatusClaimed) # vs \<and> y \<notin> fst ` set vs"
    if "y \<in> om_ID ` set (po_batch p @ [batch_model r])" for y
  proof (cases "y = x")
    case True
    then show ?thesis by (intro exI [of _ "po_writes p"] exI [of _ "[]"]) simp
  next
    case False
    then have "y \<in> om_ID ` set (po_batch p)" using that assms(3) by (auto simp: batch_model_def)
    then obtain us vs where "po_writes p = us @ (y, OutboxStatusClaimed) # vs" "y \<notin> fst ` set vs"
      using assms(1,2) by (auto simp: poller_fine_def)
    then show ?thesis by (rule claimed_kept)
  qed
  then show ?thesis using assms(1) by (auto simp: poller_fine_def)
qed

lemma poll_step_fine:
  assumes "poll_step held f rows p rows' p'" and "poller_fine p"
  shows "poller_fine p'" and "po_now p' = po_now p" and "po_held p' \<inter> held \<subseteq> po_held p"
proof -
  have "poller_fine p' \<and> po_now p' = po_now p \<and> po_held p' \<inter> held \<subseteq> po_held p"
    using assms(1)
  proof (cases rule: poll_step.cases)
    case (PickRow x xs n r)
    then have "om_ID r = x" by (auto simp: row_of_def dest!: find_SomeD)
    then show ?thesis using PickRow pick_fine [OF assms(2)] by auto
  qed (use assms(2) in \<open>auto simp: poller_fine_def\<close>)
  then show "poller_fine p'" and "po_now p' = po_now p" and "po_held p' \<inter> held \<subseteq> po_held p" by blast+
qed

lemma poll_step_rows:
  assumes "poll_step held f rows p rows' p'" and "poller_fine p" and "out_of_reach t0 x rows" and "x \<notin> po_held p"
  shows "out_of_reach t0 x rows'"
proof -
  have "x \<notin> fst ` set (po_writes p)" using assms(2,4) by (auto simp: poller_fine_def)
  then have "out_of_reach t0 x (poll_view p rows)" by (rule out_of_reach_view [OF assms(3)])
  with assms(1) assms(3) show ?thesis by (cases rule: poll_step.cases) auto
qed

lemma poll_step_keys: "poll_step held f rows p rows' p' \<Longrightarrow> set (keys om_ID rows') = set (keys om_ID rows)"
  by (induction rule: poll_step.induct) simp_all

lemma poll_step_batch:
  assumes "poll_step held f rows p rows' p'" and "om_ID ` set (po_batch p) \<subseteq> set (keys om_ID rows)"
  shows "om_ID ` set (po_batch p') \<subseteq> set (keys om_ID rows')"
  using assms
proof (cases rule: poll_step.cases)
  case (PickRow x xs n r)
  then have "r \<in> set (poll_view p rows)" by (auto simp: row_of_def dest!: find_SomeD)
  then have "om_ID r \<in> set (keys om_ID (poll_view p rows))" unfolding set_keys by blast
  then show ?thesis using PickRow assms(2) by (auto simp: batch_model_def)
qed auto

lemma poll_step_hands_out:
  assumes "poll_step held f rows p rows' p'" and "poller_fine p" and "t0 \<le> po_now p"
    and "om_ID ` set (po_batch p) \<subseteq> set (keys om_ID rows)" and "x \<in> handed_out p'"
  shows "x \<in> handed_out p \<or> x \<in> po_held p \<and> out_of_reach t0 x rows'"
  using assms(1)
proof (cases rule: poll_step.cases)
  case PollCommitted
  then have x: "x \<in> om_ID ` set (po_batch p)" using assms(5) by (simp add: handed_out_def)
  then obtain us vs where w: "po_writes p = us @ (x, OutboxStatusClaimed) # vs" "x \<notin> fst ` set vs"
    using assms(2) PollCommitted by (auto simp: poller_fine_def)
  then have "x \<in> po_held p" using assms(2) by (auto simp: poller_fine_def)
  moreover have "om_Status r = OutboxStatusClaimed \<and> om_UpdatedAt r = po_now p"
    if "r \<in> set (poll_view p rows)" "om_ID r = x" for r
    using written_last [of r "po_now p" us x OutboxStatusClaimed vs rows] that w by (simp add: poll_view_def)
  ultimately show ?thesis using x assms(3,4) PollCommitted by (auto simp: out_of_reach_def put_away_def)
qed (use assms(5) in \<open>auto simp: handed_out_def\<close>)

section \<open>All pollers\<close>

definition pollers_inv :: "time \<Rightarrow> string set \<Rightarrow> outbox_row list \<times> poller list \<Rightarrow> bool" where
  "pollers_inv t0 X c \<longleftrightarrow> (case c of (rows, ps) \<Rightarrow>
     (\<forall>p \<in> set ps. poller_fine p \<and> t0 \<le> po_now p \<and> po_now p \<le> t0 + seconds 30 \<and>
        om_ID ` set (po_batch p) \<subseteq> set (keys om_ID rows) \<and> (\<forall>x \<in> handed_out p - X. out_of_reach t0 x rows)) \<and>
     (\<forall>i < length ps. \<forall>j < length ps. handed_out (ps ! i) \<inter> po_held (ps ! j) \<subseteq> X \<and>
        (i \<noteq> j \<longrightarrow> po_held (ps ! i) \<inter> po_held (ps ! j) = {} \<and> handed_out (ps ! i) \<inter> handed_out (ps ! j) \<subseteq> X)))"

lemma held_apart:
  assumes "pollers_inv t0 X (rows, ps)" and "i < length ps" and "poll_step (held_elsewhere i ps) f rows (ps ! i) rows' p'"
    and "j < length ps" and "j \<noteq> i"
  shows "po_held p' \<inter> po_held (ps ! j) = {}"
proof -
  have "poller_fine (ps ! i)" using assms(1,2) by (simp add: pollers_inv_def)
  from poll_step_fine(3) [OF assms(3) this] have "po_held p' \<inter> po_held (ps ! j) \<subseteq> po_held (ps ! i)"
    using assms(4,5) by (auto simp: held_elsewhere_def)
  moreover have "po_held (ps ! i) \<inter> po_held (ps ! j) = {}" using assms by (simp add: pollers_inv_def)
  ultimately show ?thesis by blast
qed

lemma continues_inv:
  assumes inv: "pollers_inv t0 X (rows, ps)" and i: "i < length ps"
    and step: "poll_step (held_elsewhere i ps) f rows (ps ! i) rows' p'"
  shows "pollers_inv t0 X (rows', ps[i := p'])"
proof -
  let ?p = "ps ! i"
  have p: "poller_fine ?p" "t0 \<le> po_now ?p" "po_now ?p \<le> t0 + seconds 30"
      "om_ID ` set (po_batch ?p) \<subseteq> set (keys om_ID rows)"
    using inv i by (simp_all add: pollers_inv_def)
  note fine = poll_step_fine [OF step p(1)]
  have out: "x \<notin> po_held (ps ! k)" "out_of_reach t0 x rows"
    if x: "x \<in> handed_out (ps ! j)" "x \<notin> X" and j: "j < length ps" and k: "k < length ps" for x j k
  proof -
    have "ps ! j \<in> set ps" using j by simp
    then have "handed_out (ps ! j) \<inter> po_held (ps ! k) \<subseteq> X" "\<forall>x \<in> handed_out (ps ! j) - X. out_of_reach t0 x rows"
      using inv j k unfolding pollers_inv_def by blast+
    then show "x \<notin> po_held (ps ! k)" "out_of_reach t0 x rows" using x by auto
  qed
  have reach: "out_of_reach t0 x rows'" "x \<notin> po_held p'" if "x \<in> handed_out (ps ! j)" "x \<notin> X" "j < length ps" for x j
    using poll_step_rows [OF step p(1) out(2,1)] poll_step_takes [OF step p(1,3) out(2,1)] that i by blast+
  have new: "x \<in> handed_out ?p \<or> x \<in> po_held ?p \<and> out_of_reach t0 x rows'" if "x \<in> handed_out p'" for x
    by (rule poll_step_hands_out [OF step p(1,2,4) that])
  have ended: "po_held p' = {}" if "x \<in> handed_out p'" for x
    using that fine(1) by (auto simp: handed_out_def poller_fine_def split: if_splits)
  have apart: "po_held p' \<inter> po_held (ps ! j) = {}" if "j < length ps" "j \<noteq> i" for j
    by (rule held_apart [OF inv i step that])
  have was: "po_held ?p \<inter> po_held (ps ! j) = {}" "handed_out ?p \<inter> handed_out (ps ! j) \<subseteq> X"
    if "j < length ps" "j \<noteq> i" for j
    using inv i that by (simp_all add: pollers_inv_def)
  have given: "handed_out p' \<inter> handed_out (ps ! j) \<subseteq> X" "handed_out p' \<inter> po_held (ps ! j) \<subseteq> X"
    if "j < length ps" "j \<noteq> i" for j
    using new was [OF that] out(1) [of _ j i] out(1) [of _ i j] that(1) i by blast+
  have one: "poller_fine q \<and> t0 \<le> po_now q \<and> po_now q \<le> t0 + seconds 30 \<and>
      om_ID ` set (po_batch q) \<subseteq> set (keys om_ID rows') \<and> (\<forall>x \<in> handed_out q - X. out_of_reach t0 x rows')"
    if "q \<in> set (ps[i := p'])" for q
  proof (cases "q = p'")
    case True
    have "\<forall>x \<in> handed_out p' - X. out_of_reach t0 x rows'" using new reach(1) i by blast
    then show ?thesis using True fine p(2,3) poll_step_batch [OF step p(4)] by simp
  next
    case False
    then have "q \<in> set ps" using that by (auto dest!: set_update_subset_insert [THEN subsetD])
    then obtain j where j: "j < length ps" "q = ps ! j" by (auto simp: in_set_conv_nth)
    then show ?thesis using inv reach(1) poll_step_keys [OF step] by (auto simp: pollers_inv_def)
  qed
  have two: "handed_out (ps[i := p'] ! j) \<inter> po_held (ps[i := p'] ! k) \<subseteq> X \<and>
      (j \<noteq> k \<longrightarrow> po_held (ps[i := p'] ! j) \<inter> po_held (ps[i := p'] ! k) = {} \<and>
         handed_out (ps[i := p'] ! j) \<inter> handed_out (ps[i := p'] ! k) \<subseteq> X)"
    if "j < length ps" "k < length ps" for j k
  proof (cases "j = i"; cases "k = i")
    assume "j = i" "k = i"
    then show ?thesis using i ended by auto
  next
    assume "j = i" "k \<noteq> i"
    then show ?thesis using i that given [of k] apart [of k] by auto
  next
    assume "j \<noteq> i" "k = i"
    then show ?thesis using i that given [of j] apart [of j] reach(2) [of _ j] by auto
  next
    assume "j \<noteq> i" "k \<noteq> i"
    then show ?thesis using inv that by (simp add: pollers_inv_def)
  qed
  show ?thesis using one two by (simp add: pollers_inv_def)
qed

lemma pollers_step_inv:
  assumes "pollers_step t0 X c c'" and "pollers_inv t0 X c"
  shows "pollers_inv t0 X c'"
  using assms(1)
proof (cases rule: pollers_step.cases)
  case (Polls now rows ps limit)
  let ?p = "poller_start now limit"
  have "poller_fine ?p" "handed_out ?p = {}" "po_held ?p = {}" "po_batch ?p = []" "po_now ?p = now"
    by (simp_all add: poller_start_def poller_fine_def handed_out_def)
  then show ?thesis using Polls assms(2) by (auto simp: pollers_inv_def nth_append)
next
  case (Continues i ps f rows rows' p')
  then show ?thesis using continues_inv assms(2) by blast
next
  case (RowInserted r rows ps)
  have "out_of_reach t0 x (rows @ [r])" if "out_of_reach t0 x rows" for x
    using that RowInserted(3) by (auto simp: out_of_reach_def)
  then show ?thesis using RowInserted assms(2) by (auto simp: pollers_inv_def)
next
  case (RowSettled ps x s rows now)
  let ?rows = "update_where (\<lambda>r. om_ID r = x) (set_outbox_status s now) rows"
  have keys: "keys om_ID ?rows = keys om_ID rows" by (rule keys_update_where) (simp add: set_outbox_status_def)
  have "out_of_reach t0 y ?rows" if y: "out_of_reach t0 y rows" for y
    using RowSettled(4) by (intro out_of_reach_update [OF y]) (auto simp: set_outbox_status_def put_away_def)
  then show ?thesis using RowSettled(1,2) assms(2) keys by (simp add: pollers_inv_def)
next
  case (PublishFailed ps x rows msg maxRetries cap now)
  let ?rows = "update_where (\<lambda>r. om_ID r = x) (mark_failure msg maxRetries cap now) rows"
  have keys: "keys om_ID ?rows = keys om_ID rows" by (rule keys_update_where) (simp add: mark_failure_def)
  have "out_of_reach t0 y ?rows" if y: "out_of_reach t0 y rows" "y \<notin> X" for y
    using y(2) PublishFailed(4) by (intro out_of_reach_update [OF y(1)]) (auto simp: mark_failure_def)
  then show ?thesis using PublishFailed(1,2) assms(2) keys by (simp add: pollers_inv_def)
qed

text \<open>C22. However many relays poll the outbox at once, row by row in any interleaving, with failures of the
  polls anywhere, and with rows inserted, published, given up and put back in between, the only rows handed out
  to two of them, as long as their transactions begin within 30 seconds, are rows whose publication failed
  meanwhile and was recorded, which puts them back on purpose.\<close>

theorem concurrent_polls_disjoint:
  assumes "(pollers_step t0 X)\<^sup>*\<^sup>* (rows, []) (rows', ps)"
    and "i < length ps" and "j < length ps" and "i \<noteq> j"
    and "po_pc (ps ! i) = PollDone True" and "po_pc (ps ! j) = PollDone True"
  shows "om_ID ` set (po_batch (ps ! i)) \<inter> om_ID ` set (po_batch (ps ! j)) \<subseteq> X"
proof -
  have "pollers_inv t0 X (rows', ps)"
    using assms(1)
  proof (induction rule: rtranclp_induct)
    case base
    then show ?case by (simp add: pollers_inv_def)
  qed (rule pollers_step_inv)
  then have "handed_out (ps ! i) \<inter> handed_out (ps ! j) \<subseteq> X" using assms(2-4) by (simp add: pollers_inv_def)
  then show ?thesis using assms(5,6) by (simp add: handed_out_def)
qed

text \<open>Two relays and three due rows; each takes one row while the other holds its own.\<close>

definition sample_due :: "outbox_row list" where
  "sample_due = [mk_outbox ''o1'' ''t1'' OutboxStatusPending 1, mk_outbox ''o2'' ''t2'' OutboxStatusPending 2,
     mk_outbox ''o3'' ''t3'' OutboxStatusPending 3]"

definition sample_polls :: "outbox_row list \<times> poller list" where
  "sample_polls = (sample_due, [poller_start (seconds 60) 1, poller_start (seconds 61) 1])"

lemma sample_polls_run:
  "map_option (\<lambda>c. map (\<lambda>p. (po_pc p, map om_ID (po_batch p))) (snd c))
     (run_polls [0, 1, 0, 1, 0, 1, 1, 0, 1, 1, 0] sample_polls) =
   Some [(PollDone True, [''o1'']), (PollDone True, [''o2''])]"
  by code_simp

theorem concurrent_polls_disjoint_witness:
  "\<exists>rows p q. run_polls [0, 1, 0, 1, 0, 1, 1, 0, 1, 1, 0] sample_polls = Some (rows, [p, q]) \<and>
     po_pc p = PollDone True \<and> po_pc q = PollDone True \<and> om_ID ` set (po_batch p) \<inter> om_ID ` set (po_batch q) = {}"
proof -
  let ?t = "seconds 60"
  obtain rows ps where r: "run_polls [0, 1, 0, 1, 0, 1, 1, 0, 1, 1, 0] sample_polls = Some (rows, ps)"
    and ps: "map (\<lambda>p. (po_pc p, map om_ID (po_batch p))) ps = [(PollDone True, [''o1'']), (PollDone True, [''o2''])]"
    using sample_polls_run by auto
  obtain p q where pq: "ps = [p, q]" "po_pc p = PollDone True" "po_pc q = PollDone True"
    using ps by (auto simp: map_eq_Cons_conv)
  have "pollers_step ?t {} (sample_due, []) (sample_due, [] @ [poller_start (seconds 60) 1])"
    by (rule pollers_step.Polls) (simp_all add: seconds_def)
  moreover have "pollers_step ?t {} (sample_due, [poller_start (seconds 60) 1])
      (sample_due, [poller_start (seconds 60) 1] @ [poller_start (seconds 61) 1])"
    by (rule pollers_step.Polls) (simp_all add: seconds_def)
  ultimately have "(pollers_step ?t {})\<^sup>*\<^sup>* (sample_due, []) sample_polls"
    by (simp add: sample_polls_def)
  also have "(pollers_step ?t {})\<^sup>*\<^sup>* sample_polls (rows, ps)" by (rule run_polls_steps [OF r])
  finally have "om_ID ` set (po_batch (ps ! 0)) \<inter> om_ID ` set (po_batch (ps ! 1)) \<subseteq> {}"
    by (rule concurrent_polls_disjoint) (simp_all add: pq)
  then show ?thesis using r pq by auto
qed

text \<open>A row whose publication failed, handed out again four seconds after the first time.\<close>

lemma failed_row_again:
  "Option.bind (run_polls [0, 0, 0, 0, 0] (sample_due, [poller_start (seconds 60) 1])) (\<lambda>c.
     map_option (\<lambda>d. map (\<lambda>p. map om_ID (po_batch p)) (snd c @ snd d))
       (run_polls [0, 0, 0, 0, 0] (update_where (\<lambda>r. om_ID r = ''o1'') (mark_failure ''down'' 4 60 (seconds 61)) (fst c),
          [poller_start (seconds 64) 1]))) = Some [[''o1''], [''o1'']]"
  by code_simp

section \<open>A poll of the repository is a run of its poller\<close>

definition poll_runs :: "string set \<Rightarrow> outbox_row list \<times> poller \<Rightarrow> outbox_row list \<times> poller \<Rightarrow> bool" where
  "poll_runs held c c' \<longleftrightarrow> poll_step held False (fst c) (snd c) (fst c') (snd c')"

lemma poll_runs_step: "poll_step held False rows p rows' p' \<Longrightarrow> poll_runs held (rows, p) (rows', p')"
  by (simp add: poll_runs_def)

lemma view_takes [simp]:
  "poll_view (takes_row p x s c) rows = write_status (po_now p) (x, s) (poll_view p rows)"
  "poll_view (p\<lparr>po_pc := c\<rparr>) rows = poll_view p rows" "poll_view (p\<lparr>po_batch := b\<rparr>) rows = poll_view p rows"
  by (simp_all add: poll_view_def takes_row_def)

lemma row_of_write: "y \<noteq> fst w \<Longrightarrow> row_of y (write_status now w rows) = row_of y rows"
  by (induction rows) (auto simp: row_of_def write_status_def update_where_def)

lemma fold_write:
  "fold (\<lambda>x. write_status now (x, s)) xs rows =
     update_where (\<lambda>r. om_ID r \<in> set xs) (\<lambda>r. r\<lparr>om_Status := s, om_UpdatedAt := now\<rparr>) rows"
proof (induction xs arbitrary: rows)
  case Nil
  then show ?case by (simp add: update_where_def)
next
  case (Cons x xs)
  then show ?case by (auto simp: write_status_def update_where_def)
qed

lemma reclaim_run:
  assumes "po_pc p = Reclaiming xs" and "distinct xs" and "poll_view p rows = v"
    and "\<forall>x \<in> set xs. x \<notin> held \<and> row_is (stale_claim (po_now p)) x v"
  shows "\<exists>q. (poll_runs held)\<^sup>*\<^sup>* (rows, p) (rows, q) \<and> po_pc q = Reclaiming [] \<and> po_now q = po_now p \<and>
    po_limit q = po_limit p \<and> po_batch q = po_batch p \<and>
    poll_view q rows = fold (\<lambda>x. write_status (po_now p) (x, OutboxStatusPending)) xs v"
  using assms
proof (induction xs arbitrary: p v)
  case Nil
  then show ?case by (intro exI [of _ p]) simp
next
  case (Cons x xs)
  let ?q = "takes_row p x OutboxStatusPending (Reclaiming xs)"
  have "poll_step held False rows p rows ?q"
    by (rule poll_step.ReclaimRow [OF Cons.prems(1)]) (use Cons.prems(3,4) in auto)
  then have st: "poll_runs held (rows, p) (rows, ?q)" by (rule poll_runs_step)
  let ?v = "write_status (po_now p) (x, OutboxStatusPending) v"
  have "y \<notin> held \<and> row_is (stale_claim (po_now p)) y ?v" if y: "y \<in> set xs" for y
  proof -
    have "row_of y ?v = row_of y v" using y Cons.prems(2) by (intro row_of_write) auto
    then show ?thesis using y Cons.prems(4) by simp
  qed
  then have pre: "po_pc ?q = Reclaiming xs" "distinct xs" "poll_view ?q rows = ?v"
      "\<forall>y \<in> set xs. y \<notin> held \<and> row_is (stale_claim (po_now ?q)) y ?v"
    unfolding takes_row_simps using Cons.prems(2,3) by simp_all
  obtain q where q: "(poll_runs held)\<^sup>*\<^sup>* (rows, ?q) (rows, q)" "po_pc q = Reclaiming []" "po_now q = po_now p"
      "po_limit q = po_limit ?q" "po_batch q = po_batch p"
      "poll_view q rows = fold (\<lambda>x. write_status (po_now p) (x, OutboxStatusPending)) xs ?v"
    using Cons.IH [OF pre] by (simp only: takes_row_simps) blast
  have "(poll_runs held)\<^sup>*\<^sup>* (rows, p) (rows, q)" using st q(1) by (rule converse_rtranclp_into_rtranclp)
  then show ?case using q(2-) by (intro exI [of _ q]) (simp add: takes_row_def)
qed

lemma pick_run:
  assumes "po_pc p = Picking xs n" and "distinct xs" and "poll_view p rows = v"
    and "\<forall>x \<in> set xs. row_of x v = Some (g x) \<and> due (po_now p) (g x)"
  shows "\<exists>q. (poll_runs held)\<^sup>*\<^sup>* (rows, p) (rows, q) \<and> po_pc q = PollCommit \<and>
    po_batch q = po_batch p @ map (\<lambda>x. batch_model (g x)) (take n (filter (\<lambda>x. x \<notin> held) xs)) \<and>
    poll_view q rows = fold (\<lambda>x. write_status (po_now p) (x, OutboxStatusClaimed)) (take n (filter (\<lambda>x. x \<notin> held) xs)) v"
  using assms
proof (induction xs arbitrary: p n v)
  case Nil
  have "poll_runs held (rows, p) (rows, p\<lparr>po_pc := PollCommit\<rparr>)"
    by (rule poll_runs_step, rule poll_step.PickEnds [OF Nil(1)]) simp
  then show ?case using Nil(3) by (intro exI [of _ "p\<lparr>po_pc := PollCommit\<rparr>"]) auto
next
  case (Cons x xs)
  have rest: "row_of y v = Some (g y) \<and> due (po_now p) (g y) \<and> y \<noteq> x" if "y \<in> set xs" for y
    using Cons.prems(2,4) that by auto
  show ?case
  proof (cases n)
    case 0
    have "poll_runs held (rows, p) (rows, p\<lparr>po_pc := PollCommit\<rparr>)"
      by (rule poll_runs_step, rule poll_step.PickEnds [OF Cons.prems(1)]) (simp add: 0)
    then show ?thesis using Cons.prems(3) 0 by (intro exI [of _ "p\<lparr>po_pc := PollCommit\<rparr>"]) auto
  next
    case (Suc m)
    note pc = Cons.prems(1) [unfolded Suc]
    show ?thesis
    proof (cases "x \<in> held")
      case True
      let ?q = "p\<lparr>po_pc := Picking xs (Suc m)\<rparr>"
      have st: "poll_runs held (rows, p) (rows, ?q)"
        by (rule poll_runs_step, rule poll_step.PickSkip [OF pc]) (simp add: True)
      obtain q where q: "(poll_runs held)\<^sup>*\<^sup>* (rows, ?q) (rows, q)" "po_pc q = PollCommit"
          "po_batch q = po_batch p @ map (\<lambda>x. batch_model (g x)) (take (Suc m) (filter (\<lambda>x. x \<notin> held) xs))"
          "poll_view q rows = fold (\<lambda>x. write_status (po_now p) (x, OutboxStatusClaimed)) (take (Suc m) (filter (\<lambda>x. x \<notin> held) xs)) v"
        using Cons.IH [of ?q "Suc m" v] Cons.prems(2,3) rest by auto
      have "(poll_runs held)\<^sup>*\<^sup>* (rows, p) (rows, q)" using st q(1) by (rule converse_rtranclp_into_rtranclp)
      then show ?thesis using q(2-) True Suc by (intro exI [of _ q]) simp
    next
      case False
      let ?q = "(takes_row p x OutboxStatusClaimed (Picking xs m))\<lparr>po_batch := po_batch p @ [batch_model (g x)]\<rparr>"
      let ?v = "write_status (po_now p) (x, OutboxStatusClaimed) v"
      have st: "poll_runs held (rows, p) (rows, ?q)"
        by (rule poll_runs_step, rule poll_step.PickRow [OF pc False]) (use Cons.prems(3,4) in simp_all)
      have "row_of y ?v = row_of y v" if "y \<in> set xs" for y
        using rest [OF that] by (intro row_of_write) simp
      then obtain q where q: "(poll_runs held)\<^sup>*\<^sup>* (rows, ?q) (rows, q)" "po_pc q = PollCommit"
          "po_batch q = po_batch ?q @ map (\<lambda>x. batch_model (g x)) (take m (filter (\<lambda>x. x \<notin> held) xs))"
          "poll_view q rows = fold (\<lambda>x. write_status (po_now p) (x, OutboxStatusClaimed)) (take m (filter (\<lambda>x. x \<notin> held) xs)) ?v"
        using Cons.IH [of ?q m ?v] Cons.prems(2,3) rest by auto
      have "(poll_runs held)\<^sup>*\<^sup>* (rows, p) (rows, q)" using st q(1) by (rule converse_rtranclp_into_rtranclp)
      then show ?thesis using q(2-) False Suc by (intro exI [of _ q]) simp
    qed
  qed
qed

lemma write_keys: "keys om_ID (fold (\<lambda>x. write_status now (x, s)) xs rows) = keys om_ID rows"
  by (simp add: fold_write keys_def update_where_def comp_def if_distrib [of om_ID] cong: if_cong)

lemma reclaim_fold:
  assumes "distinct (keys om_ID rows)"
  shows "fold (\<lambda>x. write_status now (x, OutboxStatusPending)) (map om_ID (filter (stale_claim now) rows)) rows =
    reclaim_stale now rows"
proof -
  have "om_ID r \<in> set (map om_ID (filter (stale_claim now) rows)) \<longleftrightarrow> stale_claim now r" if "r \<in> set rows" for r
    using that distinct_keys_eq [OF assms that] by auto
  then show ?thesis by (simp add: fold_write reclaim_stale_def update_where_def)
qed

lemma row_of_key: "\<lbrakk>distinct (keys om_ID rows); r \<in> set rows\<rbrakk> \<Longrightarrow> row_of (om_ID r) rows = Some r"
  unfolding row_of_def by (rule find_key_Some) simp_all

lemma due_picked:
  fixes now :: time
  assumes "distinct (keys om_ID v)"
  defines "xs \<equiv> map om_ID (sort_key om_CreatedAt (filter (due now) v))"
  shows "take n (filter (\<lambda>x. x \<notin> held) xs) = map om_ID (select_batch (\<lambda>x. x \<in> held) now n v)"
    and "map (\<lambda>x. batch_model (the (row_of x v))) (take n (filter (\<lambda>x. x \<notin> held) xs)) =
      map batch_model (select_batch (\<lambda>x. x \<in> held) now n v)"
    and "distinct xs" and "\<forall>x \<in> set xs. row_of x v = Some (the (row_of x v)) \<and> due now (the (row_of x v))"
proof -
  show sel: "take n (filter (\<lambda>x. x \<notin> held) xs) = map om_ID (select_batch (\<lambda>x. x \<in> held) now n v)"
    by (simp add: xs_def select_batch_def filter_map take_map filter_sort comp_def conj_commute)
  have "row_of (om_ID r) v = Some r" if "r \<in> set (select_batch (\<lambda>x. x \<in> held) now n v)" for r
    using that by (intro row_of_key [OF assms(1)]) (auto simp: select_batch_def dest!: in_set_takeD)
  then show "map (\<lambda>x. batch_model (the (row_of x v))) (take n (filter (\<lambda>x. x \<notin> held) xs)) =
      map batch_model (select_batch (\<lambda>x. x \<in> held) now n v)"
    unfolding sel by simp
  show "distinct xs"
    using assms(1) by (auto simp: xs_def distinct_map keys_def inj_on_def)
  show "\<forall>x \<in> set xs. row_of x v = Some (the (row_of x v)) \<and> due now (the (row_of x v))"
    using row_of_key [OF assms(1)] by (auto simp: xs_def)
qed

text \<open>C23. Every batch that \<^verbatim>\<open>OutboxPendingGetBatch\<close> hands out while others hold some of the rows is the
  result of a run of its poller, row by row, that leaves the table as the whole transaction does,
  as long as none of the stale claims it waits for is held.\<close>

theorem poll_refines:
  assumes "OutboxPendingGetBatch e (\<lambda>x. x \<in> held) limit db = (Inr ms, db')"
    and "distinct (keys om_ID (transaction_outbox db))"
    and "\<forall>r \<in> set (transaction_outbox db). stale_claim (batch_now e) r \<longrightarrow> om_ID r \<notin> held"
  shows "\<exists>q. (poll_runs held)\<^sup>*\<^sup>* (transaction_outbox db, poller_start (batch_now e) limit) (transaction_outbox db', q) \<and>
    po_pc q = PollDone True \<and> po_batch q = ms"
proof -
  let ?rows = "transaction_outbox db" and ?now = "batch_now e"
  let ?p = "poller_start ?now limit" and ?stale = "map om_ID (filter (stale_claim ?now) ?rows)"
  let ?v = "reclaim_stale ?now ?rows"
  have d: "distinct (keys om_ID ?v)" using assms(2) by simp
  from assms(1) have lim: "0 \<le> limit"
    and ms: "ms = map batch_model (select_batch (\<lambda>x. x \<in> held) ?now (nat limit) ?v)"
    and db': "transaction_outbox db' = claim_rows (map om_ID (select_batch (\<lambda>x. x \<in> held) ?now (nat limit) ?v)) ?now ?v"
    by (simp_all add: batch_Inr Let_def)
  let ?p1 = "?p\<lparr>po_pc := Reclaiming ?stale\<rparr>"
  have "poll_step held False ?rows ?p ?rows (?p\<lparr>po_pc := Reclaiming (map om_ID (filter (stale_claim (po_now ?p)) ?rows))\<rparr>)"
    by (rule poll_step.ReclaimBegins) (simp add: poller_start_def)
  then have s1: "poll_runs held (?rows, ?p) (?rows, ?p1)" by (intro poll_runs_step) (simp add: poller_start_def)
  have "\<forall>x \<in> set ?stale. x \<notin> held \<and> row_is (stale_claim ?now) x ?rows"
    using assms(3) row_of_key [OF assms(2)] by auto
  then have pre: "po_pc ?p1 = Reclaiming ?stale" "distinct ?stale" "poll_view ?p1 ?rows = ?rows"
      "\<forall>x \<in> set ?stale. x \<notin> held \<and> row_is (stale_claim (po_now ?p1)) x ?rows"
    using assms(2)
    by (simp_all add: poller_start_def poll_view_def distinct_map keys_def inj_on_def cong: option.case_cong)
  from reclaim_run [OF pre] obtain p2 where s2: "(poll_runs held)\<^sup>*\<^sup>* (?rows, ?p1) (?rows, p2)"
    and p2: "po_pc p2 = Reclaiming []" "po_now p2 = ?now" "po_limit p2 = limit" "po_batch p2 = []" "poll_view p2 ?rows = ?v"
    by (auto simp: poller_start_def reclaim_fold [OF assms(2)])
  let ?due = "map om_ID (sort_key om_CreatedAt (filter (due ?now) ?v))"
  let ?p3 = "p2\<lparr>po_pc := Picking ?due (nat limit)\<rparr>"
  have s3: "poll_runs held (?rows, p2) (?rows, ?p3)"
    using poll_step.PickBegins [OF p2(1), of held ?rows] lim by (intro poll_runs_step) (simp add: p2)
  have pre: "po_pc ?p3 = Picking ?due (nat limit)" "distinct ?due" "poll_view ?p3 ?rows = ?v"
      "\<forall>x \<in> set ?due. row_of x ?v = Some (the (row_of x ?v)) \<and> due (po_now ?p3) (the (row_of x ?v))"
    using due_picked(3,4) [OF d, of ?now] by (simp_all add: p2)
  from pick_run [OF pre, of held, unfolded due_picked(2) [OF d]] obtain p4 where s4: "(poll_runs held)\<^sup>*\<^sup>* (?rows, ?p3) (?rows, p4)"
    and p4: "po_pc p4 = PollCommit" "po_batch p4 = ms" "poll_view p4 ?rows = transaction_outbox db'"
    by (auto simp: p2 due_picked(1) [OF d] ms db' claim_rows_def fold_write)
  have "poll_runs held (?rows, p4) (transaction_outbox db', poll_over p4 True)"
    using poll_step.PollCommitted [OF p4(1), of held ?rows] by (intro poll_runs_step) (simp add: p4)
  with s1 s2 s3 s4 have "(poll_runs held)\<^sup>*\<^sup>* (?rows, ?p) (transaction_outbox db', poll_over p4 True)" by simp
  then show ?thesis using p4(2) by (intro exI [of _ "poll_over p4 True"]) simp
qed

text \<open>The first row is in the hands of another transaction; the second one, an old claim, is put back
  and taken.\<close>

theorem poll_refines_witness:
  "\<exists>ms db' q. OutboxPendingGetBatch (healthy (seconds 60)) (\<lambda>x. x \<in> {''o1''}) 5 sample_outbox_db = (Inr ms, db') \<and>
     map om_ID ms = [''o2''] \<and>
     (poll_runs {''o1''})\<^sup>*\<^sup>* (transaction_outbox sample_outbox_db, poller_start (batch_now (healthy (seconds 60))) 5)
       (transaction_outbox db', q) \<and> po_pc q = PollDone True \<and> po_batch q = ms"
proof -
  let ?get = "OutboxPendingGetBatch (healthy (seconds 60)) (\<lambda>x. x \<in> {''o1''}) 5 sample_outbox_db"
  have ids: "map_sum id (map om_ID) (fst ?get) = Inr [''o2'']" by code_simp
  then obtain ms db' where get: "?get = (Inr ms, db')" "map om_ID ms = [''o2'']"
    by (cases ?get; cases "fst ?get") auto
  have "\<forall>r \<in> set (transaction_outbox sample_outbox_db).
      stale_claim (batch_now (healthy (seconds 60))) r \<longrightarrow> om_ID r \<notin> {''o1''}" by code_simp
  from poll_refines [OF get(1) _ this] show ?thesis
    using get sample_outbox_schema by (auto simp: schema_ok_def outbox_ok_def)
qed

end
