(* ===== verification/Goroutines.thy ===== *)
theory Goroutines
  imports Draining "HOL-Library.Multiset"
begin

text \<open>
  The goroutines of one batch of the relay (\<^verbatim>\<open>readAndRelay\<close> of \<^verbatim>\<open>outbox_relay_service.go\<close>), step by step:
  the loop starts a goroutine for each row and waits for all of them; a goroutine takes a slot of the
  channel \<^verbatim>\<open>limit\<close>, publishes its row, records the outcome, releases the lock of the request if the row is
  given up, and gives the slot back. Shown are that never more than 32 of them are at work, that the wait
  always returns, and that whatever order the steps come in, the database and the broker end as if the
  goroutines had run one after another, which is how \<open>readAndRelay\<close> runs them.
\<close>

section \<open>One goroutine\<close>

definition maxRelayConcurrency :: nat where
  "maxRelayConcurrency = 32"

datatype go_pc =
    GoWaiting \<comment> \<open>before \<^verbatim>\<open>limit <- struct{}{}\<close>\<close>
  | GoPublishing
  | GoMarking OutboxStatus \<comment> \<open>\<^verbatim>\<open>OutboxUpdate\<close>, also in \<^verbatim>\<open>markFailed\<close>\<close>
  | GoRecording string \<comment> \<open>\<^verbatim>\<open>OutboxMarkPublishFailure\<close>\<close>
  | GoReleasing
  | GoLeaving \<comment> \<open>the deferred \<^verbatim>\<open><-limit\<close>\<close>
  | GoSignalling \<comment> \<open>the deferred \<^verbatim>\<open>wg.Done()\<close>\<close>
  | GoOver

record goroutine =
  gr_row :: OutboxModel
  gr_pc :: go_pc

text \<open>One step of a goroutine when \<open>n\<close> slots of the channel are taken; \<open>None\<close> when it has to wait.\<close>

definition go_next :: "('r, 'k) OutboxRelay \<Rightarrow> db_env \<Rightarrow> nat \<Rightarrow> goroutine \<Rightarrow> ('r, 'k) plant \<Rightarrow>
    (go_pc \<times> ('r, 'k) plant) option" where
  "go_next o' e n g p =
     (let row = gr_row g in
      case gr_pc g of
        GoWaiting \<Rightarrow> if n < maxRelayConcurrency then Some (GoPublishing, p) else None
      | GoPublishing \<Rightarrow>
          (case marshal_envelope row of
             None \<Rightarrow> Some (GoMarking OutboxStatusFailed, p)
           | Some message \<Rightarrow>
               (case on_kafka (Publish (or_publisher o') (om_PartitionKey row) (Some message)) p of
                  (Inl err, p) \<Rightarrow> Some (GoRecording (error_text err), p)
                | (Inr _, p) \<Rightarrow> Some (GoMarking OutboxStatusPublished, p)))
      | GoMarking s \<Rightarrow>
          Some (if s = OutboxStatusFailed then GoReleasing else GoLeaving,
                snd (on_world (on_db (OutboxUpdate e (om_AggregateId row) s)) p))
      | GoRecording msg \<Rightarrow>
          (case on_world (on_db (OutboxMarkPublishFailure e (or_osenv o') (om_AggregateId row) msg)) p of
             (Inl markErr, p) \<Rightarrow> Some (GoLeaving, p)
           | (Inr status, p) \<Rightarrow> Some (if status = OutboxStatusFailed then GoReleasing else GoLeaving, p))
      | GoReleasing \<Rightarrow> Some (GoLeaving, releaseIdempotency o' row p)
      | GoLeaving \<Rightarrow> Some (GoSignalling, p)
      | GoSignalling \<Rightarrow> Some (GoOver, p)
      | GoOver \<Rightarrow> None)"

section \<open>A batch\<close>

record relay_batch =
  bt_rows :: "OutboxModel list" \<comment> \<open>rows the loop has not started a goroutine for\<close>
  bt_gos :: "goroutine list"
  bt_limit :: nat \<comment> \<open>slots taken\<close>
  bt_wg :: nat \<comment> \<open>the counter of the wait group\<close>
  bt_over :: bool \<comment> \<open>\<^verbatim>\<open>wg.Wait\<close> has returned\<close>

definition batch_start :: "OutboxModel list \<Rightarrow> relay_batch" where
  "batch_start rows = \<lparr>bt_rows = rows, bt_gos = [], bt_limit = 0, bt_wg = 0, bt_over = False\<rparr>"

datatype batch_actor = Spawner | Goroutine nat

definition batch_next :: "('r, 'k) OutboxRelay \<Rightarrow> (string \<Rightarrow> db_env) \<Rightarrow> batch_actor \<Rightarrow>
    ('r, 'k) plant \<times> relay_batch \<Rightarrow> (('r, 'k) plant \<times> relay_batch) option" where
  "batch_next o' es a c =
     (let (p, b) = c in
      case a of
        Spawner \<Rightarrow>
          if bt_over b then None
          else (case bt_rows b of
                  row # rows \<Rightarrow> Some (p, b\<lparr>bt_rows := rows, bt_gos := bt_gos b @ [\<lparr>gr_row = row, gr_pc = GoWaiting\<rparr>],
                                       bt_wg := bt_wg b + 1\<rparr>)
                | [] \<Rightarrow> if bt_wg b = 0 then Some (p, b\<lparr>bt_over := True\<rparr>) else None)
      | Goroutine i \<Rightarrow>
          if i < length (bt_gos b)
          then (let g = bt_gos b ! i in
                case go_next o' (es (om_AggregateId (gr_row g))) (bt_limit b) g p of
                  None \<Rightarrow> None
                | Some (pc, p) \<Rightarrow>
                    Some (p, b\<lparr>bt_gos := (bt_gos b)[i := g\<lparr>gr_pc := pc\<rparr>],
                      bt_limit := (if gr_pc g = GoWaiting then bt_limit b + 1
                                   else if gr_pc g = GoLeaving then bt_limit b - 1 else bt_limit b),
                      bt_wg := (if gr_pc g = GoSignalling then bt_wg b - 1 else bt_wg b)\<rparr>))
          else None)"

fun run_batch :: "('r, 'k) OutboxRelay \<Rightarrow> (string \<Rightarrow> db_env) \<Rightarrow> batch_actor list \<Rightarrow>
    ('r, 'k) plant \<times> relay_batch \<Rightarrow> (('r, 'k) plant \<times> relay_batch) option" where
  "run_batch o' es [] c = Some c"
| "run_batch o' es (a # as) c = (case batch_next o' es a c of None \<Rightarrow> None | Some c' \<Rightarrow> run_batch o' es as c')"

lemma batch_next_cases:
  assumes "batch_next o' es a (p, b) = Some (p', b')"
  obtains
    (Spawn) row rows where "a = Spawner" and "\<not> bt_over b" and "bt_rows b = row # rows" and "p' = p"
      and "b' = b\<lparr>bt_rows := rows, bt_gos := bt_gos b @ [\<lparr>gr_row = row, gr_pc = GoWaiting\<rparr>], bt_wg := bt_wg b + 1\<rparr>"
  | (Wait) "a = Spawner" and "\<not> bt_over b" and "bt_rows b = []" and "bt_wg b = 0" and "p' = p"
      and "b' = b\<lparr>bt_over := True\<rparr>"
  | (Go) i g pc where "a = Goroutine i" and "i < length (bt_gos b)" and "g = bt_gos b ! i"
      and "go_next o' (es (om_AggregateId (gr_row g))) (bt_limit b) g p = Some (pc, p')"
      and "b' = b\<lparr>bt_gos := (bt_gos b)[i := g\<lparr>gr_pc := pc\<rparr>],
        bt_limit := (if gr_pc g = GoWaiting then bt_limit b + 1
                     else if gr_pc g = GoLeaving then bt_limit b - 1 else bt_limit b),
        bt_wg := (if gr_pc g = GoSignalling then bt_wg b - 1 else bt_wg b)\<rparr>"
proof (cases a)
  case Spawner
  then show thesis
    using assms Spawn Wait by (auto simp: batch_next_def split: if_splits list.splits)
next
  case (Goroutine i)
  have i: "i < length (bt_gos b)" using assms Goroutine by (simp add: batch_next_def split: if_splits)
  then obtain pc where "go_next o' (es (om_AggregateId (gr_row (bt_gos b ! i)))) (bt_limit b) (bt_gos b ! i) p = Some (pc, p')"
    using assms Goroutine by (auto simp: batch_next_def Let_def split: option.splits)
  with i assms Goroutine show thesis
    by (intro Go [of i "bt_gos b ! i" pc]) (simp_all add: batch_next_def Let_def)
qed

section \<open>Slots and the wait group\<close>

definition at_work :: "goroutine \<Rightarrow> bool" where
  "at_work g \<longleftrightarrow> gr_pc g \<notin> {GoWaiting, GoSignalling, GoOver}"

definition batch_counts :: "relay_batch \<Rightarrow> bool" where
  "batch_counts b \<longleftrightarrow> bt_limit b = length (filter at_work (bt_gos b)) \<and> bt_limit b \<le> maxRelayConcurrency \<and>
     bt_wg b = length (filter (\<lambda>g. gr_pc g \<noteq> GoOver) (bt_gos b)) \<and>
     (bt_over b \<longrightarrow> bt_rows b = [] \<and> bt_wg b = 0)"

lemma length_filter_update:
  "i < length xs \<Longrightarrow> length (filter P (xs[i := y])) + (if P (xs ! i) then 1 else 0) =
     length (filter P xs) + (if P y then 1 else 0)"
proof (induction xs arbitrary: i)
  case (Cons x xs)
  then show ?case by (cases i) auto
qed simp

text \<open>How a step moves the program counter.\<close>

lemma go_next_pc:
  assumes "go_next o' e n g p = Some (pc, p')"
  shows "pc \<noteq> GoWaiting"
    and "gr_pc g = GoWaiting \<Longrightarrow> pc = GoPublishing \<and> n < maxRelayConcurrency"
    and "gr_pc g = GoLeaving \<longleftrightarrow> pc = GoSignalling" and "gr_pc g = GoSignalling \<longleftrightarrow> pc = GoOver"
    and "gr_pc g \<noteq> GoOver"
  using assms by (auto simp: go_next_def Let_def split: go_pc.splits option.splits sum.splits prod.splits if_splits)

lemma batch_next_counts:
  assumes "batch_next o' es a (p, b) = Some (p', b')" and "batch_counts b"
  shows "batch_counts b'"
  using assms(1)
proof (cases rule: batch_next_cases)
  case (Spawn row rows)
  then show ?thesis using assms(2) by (auto simp: batch_counts_def at_work_def)
next
  case Wait
  then show ?thesis using assms(2) by (auto simp: batch_counts_def)
next
  case (Go i g pc)
  let ?g = "g\<lparr>gr_pc := pc\<rparr>"
  note pc = go_next_pc [OF Go(4)]
  have work: "length (filter at_work ((bt_gos b)[i := ?g])) + (if at_work g then 1 else 0) =
      length (filter at_work (bt_gos b)) + (if at_work ?g then 1 else 0)"
    unfolding Go(3) by (rule length_filter_update [OF Go(2)])
  have left: "length (filter (\<lambda>g. gr_pc g \<noteq> GoOver) ((bt_gos b)[i := ?g])) + (if gr_pc g \<noteq> GoOver then 1 else 0) =
      length (filter (\<lambda>g. gr_pc g \<noteq> GoOver) (bt_gos b)) + (if gr_pc ?g \<noteq> GoOver then 1 else 0)"
    unfolding Go(3) by (rule length_filter_update [OF Go(2)])
  have "gr_pc g \<noteq> GoOver" "0 < bt_wg b"
    using pc(5) Go(2,3) assms(2) by (auto simp: batch_counts_def filter_empty_conv)
  then show ?thesis
    using assms(2) Go(5) pc work left by (auto simp: batch_counts_def at_work_def split: if_splits)
qed

text \<open>What is left to do; every step does some of it.\<close>

definition go_left :: "goroutine \<Rightarrow> nat" where
  "go_left g =
     (case gr_pc g of GoWaiting \<Rightarrow> 6 | GoPublishing \<Rightarrow> 5 | GoMarking s \<Rightarrow> 4 | GoRecording m \<Rightarrow> 4 | GoReleasing \<Rightarrow> 3
      | GoLeaving \<Rightarrow> 2 | GoSignalling \<Rightarrow> 1 | GoOver \<Rightarrow> 0)"

definition batch_left :: "relay_batch \<Rightarrow> nat" where
  "batch_left b = 7 * length (bt_rows b) + sum_list (map go_left (bt_gos b)) + (if bt_over b then 0 else 1)"

lemma go_next_left: "go_next o' e n g p = Some (pc, p') \<Longrightarrow> go_left (g\<lparr>gr_pc := pc\<rparr>) < go_left g"
  by (auto simp: go_next_def go_left_def Let_def split: go_pc.splits option.splits sum.splits prod.splits if_splits)

lemma sum_list_update_less:
  fixes f :: "'a \<Rightarrow> nat"
  shows "i < length xs \<Longrightarrow> f y < f (xs ! i) \<Longrightarrow> sum_list (map f (xs[i := y])) < sum_list (map f xs)"
proof (induction xs arbitrary: i)
  case (Cons x xs)
  then show ?case by (cases i) auto
qed simp

lemma batch_next_left:
  assumes "batch_next o' es a (p, b) = Some (p', b')"
  shows "batch_left b' < batch_left b"
  using assms
proof (cases rule: batch_next_cases)
  case (Go i g pc)
  have "sum_list (map go_left ((bt_gos b)[i := g\<lparr>gr_pc := pc\<rparr>])) < sum_list (map go_left (bt_gos b))"
    using go_next_left [OF Go(4)] Go(2,3) by (intro sum_list_update_less) simp_all
  then show ?thesis using Go(5) by (simp add: batch_left_def)
qed (simp_all add: batch_left_def go_left_def)

lemma go_next_ready:
  assumes "gr_pc g \<noteq> GoOver" and "gr_pc g = GoWaiting \<Longrightarrow> n < maxRelayConcurrency"
  shows "\<exists>pc p'. go_next o' e n g p = Some (pc, p')"
  using assms by (auto simp: go_next_def Let_def split: go_pc.splits option.splits sum.splits prod.splits)

lemma batch_not_stuck:
  assumes "batch_counts b" and "\<not> bt_over b"
  shows "\<exists>a c. batch_next o' es a (p, b) = Some c"
proof (cases "bt_rows b = [] \<and> bt_wg b \<noteq> 0")
  case False
  then have "batch_next o' es Spawner (p, b) \<noteq> None"
    using assms(2) by (auto simp: batch_next_def split: list.splits)
  then show ?thesis by blast
next
  case True
  then have "filter (\<lambda>g. gr_pc g \<noteq> GoOver) (bt_gos b) \<noteq> []" using assms(1) by (auto simp: batch_counts_def)
  then obtain g0 where g0: "g0 \<in> set (bt_gos b)" "gr_pc g0 \<noteq> GoOver" by (auto simp: filter_empty_conv)
  have "\<exists>g \<in> set (bt_gos b). gr_pc g \<noteq> GoOver \<and> (gr_pc g = GoWaiting \<longrightarrow> bt_limit b < maxRelayConcurrency)"
  proof (cases "\<exists>g \<in> set (bt_gos b). at_work g")
    case True
    then show ?thesis by (auto simp: at_work_def)
  next
    case False
    then have "bt_limit b = 0" using assms(1) by (simp add: batch_counts_def filter_empty_conv)
    then show ?thesis using g0 by (auto simp: maxRelayConcurrency_def)
  qed
  then obtain i where i: "i < length (bt_gos b)" "gr_pc (bt_gos b ! i) \<noteq> GoOver"
      "gr_pc (bt_gos b ! i) = GoWaiting \<longrightarrow> bt_limit b < maxRelayConcurrency"
    by (auto simp: in_set_conv_nth)
  then obtain pc p' where "go_next o' (es (om_AggregateId (gr_row (bt_gos b ! i)))) (bt_limit b) (bt_gos b ! i) p = Some (pc, p')"
    using go_next_ready [of "bt_gos b ! i" "bt_limit b"] by blast
  then have "batch_next o' es (Goroutine i) (p, b) \<noteq> None" using i by (simp add: batch_next_def Let_def)
  then show ?thesis by blast
qed

lemma batch_start_counts [simp]: "batch_counts (batch_start rows)"
  by (simp add: batch_counts_def batch_start_def)

lemma run_batch_counts:
  assumes "run_batch o' es as (p, b) = Some (p', b')" and "batch_counts b"
  shows "batch_counts b' \<and> length as + batch_left b' \<le> batch_left b"
  using assms
proof (induction as arbitrary: p b)
  case (Cons a as)
  then obtain p1 b1 where n: "batch_next o' es a (p, b) = Some (p1, b1)" "run_batch o' es as (p1, b1) = Some (p', b')"
    by (auto split: option.splits)
  with Cons.IH [OF n(2) batch_next_counts [OF n(1) Cons.prems(2)]] batch_next_left [OF n(1)] show ?case by simp
qed simp

text \<open>C15. Never are more than 32 goroutines of a batch past the channel, and the wait for them returns: in
  whatever order they run and whatever fails, after at most seven steps for each row nothing is left to do,
  and until then some goroutine can go on.\<close>

theorem relay_wait_returns:
  assumes "run_batch o' es as (p, batch_start rows) = Some (p', b')"
  shows "length (filter at_work (bt_gos b')) \<le> 32 \<and> length as \<le> 7 * length rows + 1 \<and>
    (if bt_over b' then \<forall>g \<in> set (bt_gos b'). gr_pc g = GoOver
     else \<exists>a c. run_batch o' es (as @ [a]) (p, batch_start rows) = Some c)"
proof -
  have c: "batch_counts b'" "length as \<le> batch_left (batch_start rows)"
    using run_batch_counts [OF assms] by simp_all
  have append: "run_batch o' es (as @ [a]) c0 = batch_next o' es a c1"
    if "run_batch o' es as c0 = Some c1" for a c0 c1
    using that by (induction as arbitrary: c0) (auto split: option.splits)
  show ?thesis
    using c batch_not_stuck [OF c(1), of o' es p'] append [OF assms]
    by (auto simp: batch_counts_def maxRelayConcurrency_def batch_left_def batch_start_def filter_empty_conv)
qed

section \<open>What the goroutines do to the rows\<close>

definition update_effect :: "db_env \<Rightarrow> OutboxStatus \<Rightarrow> outbox_row \<Rightarrow> outbox_row" where
  "update_effect e s r =
     (if env_io e OutboxUpdateC (Stmt 0) = IoErr \<or> \<not> outbox_status_enum s then r
      else set_outbox_status s (env_now e OutboxUpdateC) r)"

definition record_effect :: "db_env \<Rightarrow> os_env \<Rightarrow> string \<Rightarrow> outbox_row \<Rightarrow> outbox_row" where
  "record_effect e env msg r =
     (let cap = GetInt env ''OUTBOX_BACKOFF_SECONDS'' 60; lim = GetInt env ''OUTBOX_MAX_REPUBLISH_RETRIES'' 4 in
      if env_io e OutboxMarkPublishFailureC (Stmt 0) = IoErr \<or> \<not> fits_signed 32 cap \<or> \<not> fits_signed 32 lim \<or>
         \<not> fits_signed 32 (retry_count r + 1) then r
      else mark_failure msg lim cap (env_now e OutboxMarkPublishFailureC) r)"

lemma effect_aggregate [simp]:
  "om_AggregateId (update_effect e s r) = om_AggregateId r"
  "om_AggregateId (record_effect e env msg r) = om_AggregateId r"
  by (simp_all add: update_effect_def record_effect_def set_outbox_status_def mark_failure_def Let_def)

lemma update_where_same [simp]: "update_where q (\<lambda>r. r) rows = rows"
  by (simp add: update_where_def)

lemma OutboxUpdate_effect:
  "snd (OutboxUpdate e a s db) =
     db\<lparr>transaction_outbox := update_where (\<lambda>r. om_AggregateId r = a) (update_effect e s) (transaction_outbox db)\<rparr>"
proof -
  have "update_effect e s = (if env_io e OutboxUpdateC (Stmt 0) = IoErr \<or> \<not> outbox_status_enum s then \<lambda>r. r
      else set_outbox_status s (env_now e OutboxUpdateC))"
    by (simp add: update_effect_def [abs_def])
  then show ?thesis
    by (cases "env_io e OutboxUpdateC (Stmt 0)") (simp_all add: OutboxUpdate_def autocommit_def)
qed

lemma record_failure_effect:
  assumes "distinct (keys om_AggregateId (transaction_outbox db))"
  shows "snd (OutboxMarkPublishFailure e env a msg db) =
     db\<lparr>transaction_outbox := update_where (\<lambda>r. om_AggregateId r = a) (record_effect e env msg) (transaction_outbox db)\<rparr>"
proof (cases "List.find (\<lambda>r. om_AggregateId r = a) (transaction_outbox db)")
  case None
  then have "update_where (\<lambda>r. om_AggregateId r = a) f (transaction_outbox db) = transaction_outbox db" for f
    by (auto simp: find_None_iff update_where_def intro: map_idI)
  then show ?thesis
    using None by (cases "env_io e OutboxMarkPublishFailureC (Stmt 0)")
      (auto simp: OutboxMarkPublishFailure_def autocommit_def Let_def)
next
  case (Some r)
  let ?cap = "GetInt env ''OUTBOX_BACKOFF_SECONDS'' 60" and ?lim = "GetInt env ''OUTBOX_MAX_REPUBLISH_RETRIES'' 4"
  let ?mark = "mark_failure msg ?lim ?cap (env_now e OutboxMarkPublishFailureC)"
  have r: "r \<in> set (transaction_outbox db)" "om_AggregateId r = a" using Some by (auto dest: find_SomeD)
  have here: "update_where (\<lambda>r. om_AggregateId r = a) (record_effect e env msg) (transaction_outbox db) =
      update_where (\<lambda>r. om_AggregateId r = a) g (transaction_outbox db)" if "record_effect e env msg r = g r" for g
    using that r(2) distinct_keys_eq [OF assms r(1)] by (intro update_where_agree) metis
  show ?thesis
  proof (cases "env_io e OutboxMarkPublishFailureC (Stmt 0) = IoErr \<or> \<not> fits_signed 32 ?cap \<or> \<not> fits_signed 32 ?lim \<or>
      \<not> fits_signed 32 (retry_count r + 1)")
    case True
    then have "snd (OutboxMarkPublishFailure e env a msg db) = db"
      using Some by (cases "env_io e OutboxMarkPublishFailureC (Stmt 0)")
        (auto simp: OutboxMarkPublishFailure_def autocommit_def Let_def)
    moreover have "record_effect e env msg r = r" using True by (simp add: record_effect_def Let_def)
    ultimately show ?thesis by (simp add: here)
  next
    case False
    then have "snd (OutboxMarkPublishFailure e env a msg db) =
        db\<lparr>transaction_outbox := update_where (\<lambda>r. om_AggregateId r = a) ?mark (transaction_outbox db)\<rparr>"
      using Some by (cases "env_io e OutboxMarkPublishFailureC (Stmt 0)")
        (auto simp: OutboxMarkPublishFailure_def autocommit_def Let_def)
    moreover have "record_effect e env msg r = ?mark r" using False by (simp add: record_effect_def Let_def)
    ultimately show ?thesis by (simp add: here)
  qed
qed

definition go_effect :: "('r, 'k) OutboxRelay \<Rightarrow> db_env \<Rightarrow> go_pc \<Rightarrow> outbox_row \<Rightarrow> outbox_row" where
  "go_effect o' e pc r =
     (case pc of GoMarking s \<Rightarrow> update_effect e s r | GoRecording msg \<Rightarrow> record_effect e (or_osenv o') msg r | _ \<Rightarrow> r)"

lemma go_effect_simps [simp]:
  "go_effect o' e (GoMarking s) = update_effect e s" "go_effect o' e (GoRecording msg) = record_effect e (or_osenv o') msg"
  by (simp_all add: go_effect_def [abs_def])

lemma go_effect_aggregate [simp]: "om_AggregateId (go_effect o' e pc r) = om_AggregateId r"
  by (simp add: go_effect_def split: go_pc.split)

text \<open>Publishing: the state of the broker and where the goroutine goes on.\<close>

definition publish_pc :: "('r, 'k) OutboxRelay \<Rightarrow> OutboxModel \<Rightarrow> 'k \<Rightarrow> go_pc" where
  "publish_pc o' m k =
     (case marshal_envelope m of
        None \<Rightarrow> GoMarking OutboxStatusFailed
      | Some v \<Rightarrow>
          (case fst (Publish (or_publisher o') (om_PartitionKey m) (Some v) k) of
             Inl err \<Rightarrow> GoRecording (error_text err) | Inr _ \<Rightarrow> GoMarking OutboxStatusPublished))"

definition publish_kafka :: "('r, 'k) OutboxRelay \<Rightarrow> OutboxModel \<Rightarrow> 'k \<Rightarrow> 'k" where
  "publish_kafka o' m k =
     (case marshal_envelope m of
        None \<Rightarrow> k | Some v \<Rightarrow> snd (Publish (or_publisher o') (om_PartitionKey m) (Some v) k))"

definition recording :: "go_pc \<Rightarrow> bool" where
  "recording pc \<longleftrightarrow> (\<exists>s. pc = GoMarking s) \<or> (\<exists>msg. pc = GoRecording msg)"

lemma publish_pc_recording [simp]: "recording (publish_pc o' m k)"
  by (simp add: publish_pc_def recording_def split: option.split sum.split)

text \<open>The effects of the goroutine that runs without a break are those of its steps.\<close>

lemma relay_row_kafka: "pl_kafka (relay_row o' e m p) = publish_kafka o' m (pl_kafka p)"
  by (auto simp: relay_row_def markFailed_def publish_kafka_def Let_def on_world_eq on_kafka_eq split_beta
      releaseIdempotency_other split: option.splits sum.splits)

lemma relay_row_effect:
  assumes "distinct (keys om_AggregateId (outbox_of p))"
  shows "w_db (pl_world (relay_row o' e m p)) = (w_db (pl_world p))\<lparr>transaction_outbox :=
      update_where (\<lambda>r. om_AggregateId r = om_AggregateId m) (go_effect o' e (publish_pc o' m (pl_kafka p))) (outbox_of p)\<rparr>"
  by (auto simp: relay_row_def markFailed_def publish_pc_def Let_def on_world_eq on_kafka_eq on_db_def
      split_beta releaseIdempotency_other OutboxUpdate_effect record_failure_effect [OF assms]
      split: option.splits sum.splits)

lemma go_next_publish:
  assumes "go_next o' e n g p = Some (pc, p')" and "gr_pc g = GoPublishing"
  shows "pc = publish_pc o' (gr_row g) (pl_kafka p)" and "p' = p\<lparr>pl_kafka := publish_kafka o' (gr_row g) (pl_kafka p)\<rparr>"
  using assms
  by (auto simp: go_next_def publish_pc_def publish_kafka_def on_kafka_eq Let_def split: option.splits sum.splits)

lemma go_next_record:
  assumes "go_next o' e n g p = Some (pc, p')" and "recording (gr_pc g)" and "distinct (keys om_AggregateId (outbox_of p))"
  shows "w_db (pl_world p') = (w_db (pl_world p))\<lparr>transaction_outbox :=
      update_where (\<lambda>r. om_AggregateId r = om_AggregateId (gr_row g)) (go_effect o' e (gr_pc g)) (outbox_of p)\<rparr>"
    and "pl_kafka p' = pl_kafka p" and "pc = GoReleasing \<or> pc = GoLeaving"
  using assms(1,2)
  by (auto simp: go_next_def recording_def on_world_eq on_db_def split_beta OutboxUpdate_effect
      record_failure_effect [OF assms(3)] Let_def split: sum.splits if_splits)

lemma go_next_idle:
  assumes "go_next o' e n g p = Some (pc, p')" and "\<not> recording (gr_pc g)" and "gr_pc g \<noteq> GoPublishing"
  shows "w_db (pl_world p') = w_db (pl_world p)" and "pl_kafka p' = pl_kafka p" and "\<not> recording pc"
    and "pc = GoPublishing \<longleftrightarrow> gr_pc g = GoWaiting"
  using assms by (auto simp: go_next_def recording_def releaseIdempotency_other Let_def split: go_pc.splits if_splits)

section \<open>One after another\<close>

text \<open>What the goroutines of \<open>ms\<close>, run one after another on the broker \<open>k\<close>, do to a row of the outbox.\<close>

fun serial_effect :: "('r, 'k) OutboxRelay \<Rightarrow> (string \<Rightarrow> db_env) \<Rightarrow> OutboxModel list \<Rightarrow> 'k \<Rightarrow>
    outbox_row \<Rightarrow> outbox_row" where
  "serial_effect o' es [] k r = r"
| "serial_effect o' es (m # ms) k r =
     (if om_AggregateId r = om_AggregateId m then go_effect o' (es (om_AggregateId m)) (publish_pc o' m k) r
      else serial_effect o' es ms (publish_kafka o' m k) r)"

abbreviation aggregates :: "OutboxModel list \<Rightarrow> string set" where
  "aggregates ms \<equiv> om_AggregateId ` set ms"

lemma serial_effect_other [simp]: "om_AggregateId r \<notin> aggregates ms \<Longrightarrow> serial_effect o' es ms k r = r"
  by (induction ms arbitrary: k) auto

lemma serial_effect_aggregate [simp]: "om_AggregateId (serial_effect o' es ms k r) = om_AggregateId r"
  by (induction ms arbitrary: k) auto

lemma serial_effect_snoc:
  "serial_effect o' es (ms @ [m]) k r =
     (if om_AggregateId r \<in> aggregates ms then serial_effect o' es ms k r
      else if om_AggregateId r = om_AggregateId m
      then go_effect o' (es (om_AggregateId m)) (publish_pc o' m (fold (publish_kafka o') ms k)) r else r)"
  by (induction ms arbitrary: k) auto

lemma relay_rows_effect:
  assumes "distinct (keys om_AggregateId (outbox_of p))" and "distinct (map om_AggregateId ms)"
  shows "w_db (pl_world (fold (\<lambda>m. relay_row o' (es (om_AggregateId m)) m) ms p)) =
      (w_db (pl_world p))\<lparr>transaction_outbox := map (serial_effect o' es ms (pl_kafka p)) (outbox_of p)\<rparr> \<and>
    pl_kafka (fold (\<lambda>m. relay_row o' (es (om_AggregateId m)) m) ms p) = fold (publish_kafka o') ms (pl_kafka p)"
  using assms
proof (induction ms arbitrary: p)
  case Nil
  then show ?case by simp
next
  case (Cons m ms)
  let ?e = "es (om_AggregateId m)"
  let ?p = "relay_row o' ?e m p"
  note r = relay_row_effect [OF Cons.prems(1), of o' ?e m]
  have "distinct (keys om_AggregateId (outbox_of ?p))"
    using Cons.prems(1) by (simp add: r keys_update_where)
  note ih = Cons.IH [OF this]
  have "map (serial_effect o' es ms (publish_kafka o' m (pl_kafka p)))
      (update_where (\<lambda>r. om_AggregateId r = om_AggregateId m) (go_effect o' ?e (publish_pc o' m (pl_kafka p))) (outbox_of p)) =
    map (serial_effect o' es (m # ms) (pl_kafka p)) (outbox_of p)"
    using Cons.prems(2) by (auto simp: update_where_def)
  then show ?case using ih Cons.prems(2) by (simp add: r relay_row_kafka)
qed

section \<open>Any interleaving is a serial run\<close>

abbreviation agg_of :: "goroutine \<Rightarrow> string" where
  "agg_of g \<equiv> om_AggregateId (gr_row g)"

definition sent :: "goroutine \<Rightarrow> bool" where
  "sent g \<longleftrightarrow> gr_pc g \<noteq> GoWaiting \<and> gr_pc g \<noteq> GoPublishing"

definition recorded :: "goroutine list \<Rightarrow> string set" where
  "recorded gs = {agg_of g | g. g \<in> set gs \<and> sent g \<and> \<not> recording (gr_pc g)}"

text \<open>The rows of a batch, started or not.\<close>

definition batch_rows :: "relay_batch \<Rightarrow> OutboxModel list" where
  "batch_rows b = map gr_row (bt_gos b) @ bt_rows b"

text \<open>The invariant: \<open>ms\<close> are the rows in the order they were published.\<close>

definition serial_inv :: "('r, 'k) OutboxRelay \<Rightarrow> (string \<Rightarrow> db_env) \<Rightarrow> ('r, 'k) plant \<Rightarrow> OutboxModel list \<Rightarrow>
    ('r, 'k) plant \<times> relay_batch \<Rightarrow> bool" where
  "serial_inv o' es p0 ms c \<longleftrightarrow>
     (let (p, b) = c in
      distinct (map om_AggregateId (batch_rows b)) \<and> distinct ms \<and>
      set ms = gr_row ` {g \<in> set (bt_gos b). sent g} \<and>
      pl_kafka p = fold (publish_kafka o') ms (pl_kafka p0) \<and>
      w_db (pl_world p) = (w_db (pl_world p0))\<lparr>transaction_outbox :=
        map (\<lambda>r. if om_AggregateId r \<in> recorded (bt_gos b) then serial_effect o' es ms (pl_kafka p0) r else r) (outbox_of p0)\<rparr> \<and>
      (\<forall>g \<in> set (bt_gos b). recording (gr_pc g) \<longrightarrow> (\<forall>r. om_AggregateId r = agg_of g \<longrightarrow>
         serial_effect o' es ms (pl_kafka p0) r = go_effect o' (es (agg_of g)) (gr_pc g) r)))"

lemma serial_inv_keys:
  assumes "serial_inv o' es p0 ms (p, b)" and "distinct (keys om_AggregateId (outbox_of p0))"
  shows "distinct (keys om_AggregateId (outbox_of p))"
proof -
  have "keys om_AggregateId (outbox_of p) = keys om_AggregateId (outbox_of p0)"
    using assms(1) by (auto simp: serial_inv_def keys_def)
  then show ?thesis using assms(2) by simp
qed

text \<open>One goroutine \<open>g\<close> of a list of goroutines for different rows goes on as \<open>g'\<close>.\<close>

lemma goes_on:
  assumes "distinct (map agg_of gs)" and "i < length gs" and "gr_row g' = gr_row (gs ! i)"
  shows "map gr_row (gs[i := g']) = map gr_row gs"
    and "set (gs[i := g']) = insert g' (set gs - {gs ! i})"
    and "\<And>h. h \<in> set gs \<Longrightarrow> agg_of h = agg_of (gs ! i) \<Longrightarrow> h = gs ! i"
proof -
  show "map gr_row (gs[i := g']) = map gr_row gs"
    using assms(2,3) by (simp add: map_update list_update_same_conv)
  have "distinct gs" using assms(1) by (simp add: distinct_map)
  then show "set (gs[i := g']) = insert g' (set gs - {gs ! i})" by (rule set_update_distinct [OF _ assms(2)])
  fix h assume "h \<in> set gs" "agg_of h = agg_of (gs ! i)"
  then show "h = gs ! i" using assms(1,2) by (auto simp: distinct_map dest: inj_onD)
qed

lemma recorded_goes_on:
  assumes "distinct (map agg_of gs)" and "i < length gs" and "gr_row g' = gr_row (gs ! i)"
  shows "recorded (gs[i := g']) = (if sent g' \<and> \<not> recording (gr_pc g') then insert (agg_of (gs ! i)) (recorded gs)
    else recorded gs - {agg_of (gs ! i)})"
  using goes_on [OF assms] assms(3) nth_mem [OF assms(2)] by (auto simp: recorded_def) metis+

lemma recorded_self:
  assumes "distinct (map agg_of gs)" and "i < length gs" and "agg_of (gs ! i) \<in> recorded gs"
  shows "sent (gs ! i) \<and> \<not> recording (gr_pc (gs ! i))"
  using goes_on(3) [OF assms(1,2) refl] assms(3) by (auto simp: recorded_def)

lemma sent_goes_on:
  assumes "distinct (map agg_of gs)" and "i < length gs" and "gr_row g' = gr_row (gs ! i)" and "sent g' \<longleftrightarrow> sent (gs ! i)"
  shows "gr_row ` {h \<in> set (gs[i := g']). sent h} = gr_row ` {h \<in> set gs. sent h}"
proof
  show "gr_row ` {h \<in> set (gs[i := g']). sent h} \<subseteq> gr_row ` {h \<in> set gs. sent h}"
    using goes_on(2) [OF assms(1-3)] assms nth_mem [OF assms(2)] by auto
  show "gr_row ` {h \<in> set gs. sent h} \<subseteq> gr_row ` {h \<in> set (gs[i := g']). sent h}"
  proof
    fix m assume "m \<in> gr_row ` {h \<in> set gs. sent h}"
    then obtain h where h: "h \<in> set gs" "sent h" "m = gr_row h" by auto
    show "m \<in> gr_row ` {h \<in> set (gs[i := g']). sent h}"
    proof (cases "h = gs ! i")
      case True
      then show ?thesis using h assms(3,4) goes_on(2) [OF assms(1-3)] by (intro image_eqI [of _ _ g']) auto
    next
      case False
      then show ?thesis using h goes_on(2) [OF assms(1-3)] by (intro image_eqI [of _ _ h]) auto
    qed
  qed
qed

lemma serial_publish:
  assumes inv: "serial_inv o' es p0 ms (p, b)" and i: "i < length (bt_gos b)" and g: "g = bt_gos b ! i"
    and next': "go_next o' e n g p = Some (pc, p')" and pc: "gr_pc g = GoPublishing"
  shows "serial_inv o' es p0 (ms @ [gr_row g]) (p', b\<lparr>bt_gos := (bt_gos b)[i := g\<lparr>gr_pc := pc\<rparr>], bt_limit := x, bt_wg := y\<rparr>)"
proof -
  let ?gs = "bt_gos b" and ?g' = "g\<lparr>gr_pc := pc\<rparr>" and ?k = "pl_kafka p0"
  have d: "distinct (map agg_of ?gs)" using inv by (simp add: serial_inv_def batch_rows_def comp_def)
  have row: "gr_row ?g' = gr_row (?gs ! i)" using g by simp
  note on = goes_on [OF d i row, folded g]
  have same: "batch_rows (b\<lparr>bt_gos := ?gs[i := ?g'], bt_limit := x, bt_wg := y\<rparr>) = batch_rows b"
    using on(1) by (simp add: batch_rows_def)
  note st = go_next_publish [OF next' pc]
  have ms: "set ms = gr_row ` {h \<in> set ?gs. sent h}" using inv by (simp add: serial_inv_def)
  have new: "om_AggregateId (gr_row g) \<notin> aggregates ms"
    using ms on(3) pc by (auto simp: sent_def)
  have rec': "recording pc" using st(1) by simp
  then have s': "sent ?g'" by (auto simp: sent_def recording_def)
  have rec: "recorded (?gs[i := ?g']) = recorded ?gs"
    using recorded_goes_on [OF d i row] recorded_self [OF d i] rec' pc g by (auto simp: sent_def)
  have sub: "recorded ?gs \<subseteq> aggregates ms" using ms by (auto simp: recorded_def)
  have k: "pl_kafka p = fold (publish_kafka o') ms ?k" using inv by (simp add: serial_inv_def)
  have old: "serial_effect o' es (ms @ [gr_row g]) ?k r = serial_effect o' es ms ?k r"
    if "om_AggregateId r \<in> aggregates ms" for r using that by (simp add: serial_effect_snoc)
  have pend: "\<forall>h \<in> set (?gs[i := ?g']). recording (gr_pc h) \<longrightarrow> (\<forall>r. om_AggregateId r = agg_of h \<longrightarrow>
      serial_effect o' es (ms @ [gr_row g]) ?k r = go_effect o' (es (agg_of h)) (gr_pc h) r)"
  proof (intro ballI impI allI)
    fix h and r :: outbox_row assume h: "h \<in> set (?gs[i := ?g'])" "recording (gr_pc h)" "om_AggregateId r = agg_of h"
    show "serial_effect o' es (ms @ [gr_row g]) ?k r = go_effect o' (es (agg_of h)) (gr_pc h) r"
    proof (cases "h = ?g'")
      case True
      then show ?thesis using h new st(1) k by (simp add: serial_effect_snoc)
    next
      case False
      then have hs: "h \<in> set ?gs" using h(1) on(2) by simp
      moreover have "sent h" using h(2) by (auto simp: sent_def recording_def)
      ultimately have "om_AggregateId r \<in> aggregates ms" using ms h(3) by auto
      then show ?thesis using inv hs h(2,3) by (simp add: old serial_inv_def)
    qed
  qed
  have set': "set (ms @ [gr_row g]) = gr_row ` {h \<in> set (?gs[i := ?g']). sent h}"
  proof -
    have "\<not> sent g" using pc by (simp add: sent_def)
    then have "{h \<in> set (?gs[i := ?g']). sent h} = insert ?g' {h \<in> set ?gs. sent h}" using on(2) s' by auto
    then show ?thesis using ms by simp
  qed
  have db: "(if om_AggregateId r \<in> recorded ?gs then serial_effect o' es (ms @ [gr_row g]) ?k r else r) =
      (if om_AggregateId r \<in> recorded ?gs then serial_effect o' es ms ?k r else r)" for r
    using old sub by auto
  have "distinct (ms @ [gr_row g])" using inv new by (auto simp: serial_inv_def)
  then show ?thesis
    using inv set' pend k st(2) by (simp add: serial_inv_def same rec db)
qed

lemma serial_record:
  assumes inv: "serial_inv o' es p0 ms (p, b)" and i: "i < length (bt_gos b)" and g: "g = bt_gos b ! i"
    and next': "go_next o' (es (agg_of g)) n g p = Some (pc, p')" and pc: "recording (gr_pc g)"
    and keys: "distinct (keys om_AggregateId (outbox_of p0))"
  shows "serial_inv o' es p0 ms (p', b\<lparr>bt_gos := (bt_gos b)[i := g\<lparr>gr_pc := pc\<rparr>], bt_limit := x, bt_wg := y\<rparr>)"
proof -
  let ?gs = "bt_gos b" and ?g' = "g\<lparr>gr_pc := pc\<rparr>" and ?k = "pl_kafka p0" and ?F = "serial_effect o' es ms (pl_kafka p0)"
  have d: "distinct (map agg_of ?gs)" using inv by (simp add: serial_inv_def batch_rows_def comp_def)
  have row: "gr_row ?g' = gr_row (?gs ! i)" using g by simp
  note on = goes_on [OF d i row, folded g]
  have same: "batch_rows (b\<lparr>bt_gos := ?gs[i := ?g'], bt_limit := x, bt_wg := y\<rparr>) = batch_rows b"
    using on(1) by (simp add: batch_rows_def)
  note st = go_next_record [OF next' pc serial_inv_keys [OF inv keys]]
  have s: "sent g" "sent ?g'" "\<not> recording pc" using pc st(3) by (auto simp: sent_def recording_def)
  have mem: "g \<in> set ?gs" using i g by simp
  have rec: "recorded (?gs[i := ?g']) = insert (agg_of g) (recorded ?gs)"
    using recorded_goes_on [OF d i row] s g by simp
  have out: "agg_of g \<notin> recorded ?gs" using recorded_self [OF d i] pc g by auto
  have eff: "go_effect o' (es (agg_of g)) (gr_pc g) r = ?F r" if "om_AggregateId r = agg_of g" for r
    using inv mem pc that by (simp add: serial_inv_def)
  have "update_where (\<lambda>r. om_AggregateId r = agg_of g) (go_effect o' (es (agg_of g)) (gr_pc g))
      (map (\<lambda>r. if om_AggregateId r \<in> recorded ?gs then ?F r else r) (outbox_of p0)) =
    map (\<lambda>r. if om_AggregateId r \<in> insert (agg_of g) (recorded ?gs) then ?F r else r) (outbox_of p0)"
    using out eff by (auto simp: update_where_def)
  then have db: "w_db (pl_world p') = (w_db (pl_world p0))\<lparr>transaction_outbox :=
      map (\<lambda>r. if om_AggregateId r \<in> recorded (?gs[i := ?g']) then ?F r else r) (outbox_of p0)\<rparr>"
    using inv st(1) by (simp add: serial_inv_def rec)
  have "gr_row ` {h \<in> set (?gs[i := ?g']). sent h} = gr_row ` {h \<in> set ?gs. sent h}"
    using sent_goes_on [OF d i row] s g by simp
  moreover have "\<forall>h \<in> set (?gs[i := ?g']). recording (gr_pc h) \<longrightarrow> (\<forall>r. om_AggregateId r = agg_of h \<longrightarrow>
      ?F r = go_effect o' (es (agg_of h)) (gr_pc h) r)"
    using inv on(2) s(3) by (auto simp: serial_inv_def)
  ultimately show ?thesis using inv db st(2) by (simp add: serial_inv_def same)
qed

lemma serial_idle:
  assumes inv: "serial_inv o' es p0 ms (p, b)" and i: "i < length (bt_gos b)" and g: "g = bt_gos b ! i"
    and next': "go_next o' e n g p = Some (pc, p')" and pc: "\<not> recording (gr_pc g)" "gr_pc g \<noteq> GoPublishing"
  shows "serial_inv o' es p0 ms (p', b\<lparr>bt_gos := (bt_gos b)[i := g\<lparr>gr_pc := pc\<rparr>], bt_limit := x, bt_wg := y\<rparr>)"
proof -
  let ?gs = "bt_gos b" and ?g' = "g\<lparr>gr_pc := pc\<rparr>" and ?F = "serial_effect o' es ms (pl_kafka p0)"
  have d: "distinct (map agg_of ?gs)" using inv by (simp add: serial_inv_def batch_rows_def comp_def)
  have row: "gr_row ?g' = gr_row (?gs ! i)" using g by simp
  note on = goes_on [OF d i row, folded g]
  have same: "batch_rows (b\<lparr>bt_gos := ?gs[i := ?g'], bt_limit := x, bt_wg := y\<rparr>) = batch_rows b"
    using on(1) by (simp add: batch_rows_def)
  note st = go_next_idle [OF next' pc]
  have mem: "g \<in> set ?gs" using i g by simp
  have s: "sent ?g' \<longleftrightarrow> sent g" using st(4) pc(2) go_next_pc(1) [OF next'] by (auto simp: sent_def)
  have rec: "recorded (?gs[i := ?g']) = recorded ?gs"
  proof (cases "sent g")
    case True
    then have "agg_of g \<in> recorded ?gs" using mem pc(1) by (auto simp: recorded_def)
    then show ?thesis using recorded_goes_on [OF d i row] s True st(3) g by auto
  next
    case False
    then show ?thesis using recorded_goes_on [OF d i row] recorded_self [OF d i] s g by auto
  qed
  have "gr_row ` {h \<in> set (?gs[i := ?g']). sent h} = gr_row ` {h \<in> set ?gs. sent h}"
    using sent_goes_on [OF d i row] s g by simp
  moreover have "\<forall>h \<in> set (?gs[i := ?g']). recording (gr_pc h) \<longrightarrow> (\<forall>r. om_AggregateId r = agg_of h \<longrightarrow>
      ?F r = go_effect o' (es (agg_of h)) (gr_pc h) r)"
    using inv on(2) st(3) by (auto simp: serial_inv_def)
  ultimately show ?thesis using inv st(1,2) by (simp add: serial_inv_def same rec)
qed

lemma serial_step:
  assumes "batch_next o' es a (p, b) = Some (p', b')" and inv: "serial_inv o' es p0 ms (p, b)"
    and keys: "distinct (keys om_AggregateId (outbox_of p0))"
  shows "\<exists>ms'. serial_inv o' es p0 ms' (p', b')"
  using assms(1)
proof (cases rule: batch_next_cases)
  case (Spawn row rows)
  let ?g = "\<lparr>gr_row = row, gr_pc = GoWaiting\<rparr>"
  have "\<not> sent ?g" "\<not> recording (gr_pc ?g)" by (simp_all add: sent_def recording_def)
  then have "recorded (bt_gos b @ [?g]) = recorded (bt_gos b)"
    "{h \<in> set (bt_gos b @ [?g]). sent h} = {h \<in> set (bt_gos b). sent h}"
    by (auto simp: recorded_def)
  then have "serial_inv o' es p0 ms (p', b')"
    using inv Spawn \<open>\<not> recording (gr_pc ?g)\<close> by (auto simp: serial_inv_def batch_rows_def)
  then show ?thesis by blast
next
  case Wait
  then show ?thesis using inv by (auto simp: serial_inv_def batch_rows_def)
next
  case (Go i g pc)
  show ?thesis
    unfolding Go(5)
    using serial_publish [OF inv Go(2-4)] serial_record [OF inv Go(2-4) _ keys] serial_idle [OF inv Go(2-4)]
    by (cases "gr_pc g = GoPublishing"; cases "recording (gr_pc g)") blast+
qed

lemma serial_run:
  assumes "run_batch o' es as (p, b) = Some c'" and "serial_inv o' es p0 ms (p, b)"
    and "distinct (keys om_AggregateId (outbox_of p0))"
  shows "\<exists>ms'. serial_inv o' es p0 ms' c'"
  using assms(1,2)
proof (induction as arbitrary: p b ms)
  case (Cons a as)
  then obtain p1 b1 where n: "batch_next o' es a (p, b) = Some (p1, b1)" "run_batch o' es as (p1, b1) = Some c'"
    by (auto split: option.splits)
  from serial_step [OF n(1) Cons.prems(2) assms(3)] Cons.IH [OF n(2)] show ?case by blast
qed auto

lemma serial_start:
  "distinct (map om_AggregateId rows) \<Longrightarrow> serial_inv o' es p [] (p, batch_start rows)"
  by (simp add: serial_inv_def batch_start_def batch_rows_def recorded_def)

lemma batch_next_rows:
  assumes "batch_next o' es a (p, b) = Some (p', b')"
  shows "batch_rows b' = batch_rows b"
  using assms
proof (cases rule: batch_next_cases)
  case (Go i g pc)
  then have "map gr_row ((bt_gos b)[i := g\<lparr>gr_pc := pc\<rparr>]) = map gr_row (bt_gos b)"
    by (simp add: map_update list_update_same_conv)
  then show ?thesis using Go(5) by (simp add: batch_rows_def)
qed (simp_all add: batch_rows_def)

lemma run_batch_rows: "run_batch o' es as (p, b) = Some (p', b') \<Longrightarrow> batch_rows b' = batch_rows b"
proof (induction as arbitrary: p b)
  case (Cons a as)
  then obtain p1 b1 where "batch_next o' es a (p, b) = Some (p1, b1)" "run_batch o' es as (p1, b1) = Some (p', b')"
    by (auto split: option.splits)
  then show ?case using Cons.IH batch_next_rows by metis
qed simp

lemma finished_serially:
  assumes "run_batch o' es as (p, batch_start rows) = Some (p', b')" and "bt_over b'"
    and "distinct (keys om_AggregateId (outbox_of p))" and "distinct (map om_AggregateId rows)"
  obtains ms where "mset ms = mset rows"
    and "w_db (pl_world p') = w_db (pl_world (fold (\<lambda>m. relay_row o' (es (om_AggregateId m)) m) ms p))"
    and "pl_kafka p' = pl_kafka (fold (\<lambda>m. relay_row o' (es (om_AggregateId m)) m) ms p)"
proof -
  obtain ms where inv: "serial_inv o' es p ms (p', b')"
    using serial_run [OF assms(1) serial_start [OF assms(4)] assms(3)] by blast
  have "batch_counts b'" using run_batch_counts [OF assms(1)] by simp
  then have over: "bt_rows b' = []" "\<forall>g \<in> set (bt_gos b'). gr_pc g = GoOver"
    using assms(2) by (auto simp: batch_counts_def filter_empty_conv)
  have rows: "map gr_row (bt_gos b') = rows"
    using run_batch_rows [OF assms(1)] over(1) by (simp add: batch_rows_def batch_start_def)
  have "{g \<in> set (bt_gos b'). sent g} = set (bt_gos b')" using over(2) by (auto simp: sent_def)
  then have set: "set ms = set rows" using inv rows by (auto simp: serial_inv_def)
  have dist: "distinct ms" "distinct rows" using inv assms(4) by (simp_all add: serial_inv_def distinct_map)
  have m: "mset ms = mset rows" using set dist by (simp add: set_eq_iff_mset_eq_distinct)
  have "distinct (map om_AggregateId ms)"
    using assms(4) set dist by (simp add: distinct_map)
  note eff = relay_rows_effect [OF assms(3) this, of o' es]
  have "recorded (bt_gos b') = aggregates ms"
    using over(2) set by (auto simp: recorded_def sent_def recording_def simp flip: rows)
  then have "(if om_AggregateId r \<in> recorded (bt_gos b') then serial_effect o' es ms k r else r) = serial_effect o' es ms k r" for k r
    by simp
  then show thesis using that [OF m] inv eff by (simp add: serial_inv_def)
qed

lemma batch_distinct:
  assumes "schema_ok db" and "OutboxPendingGetBatch e locked limit db = (Inr ms, db')"
  shows "distinct (map om_AggregateId ms)" and "distinct (keys om_AggregateId (transaction_outbox db'))"
proof -
  let ?rows = "reclaim_stale (batch_now e) (transaction_outbox db)"
  have d: "distinct (keys om_AggregateId ?rows)"
    using schema_okD(3) [OF assms(1)] by (simp add: reclaim_stale_def keys_update_where)
  have ms: "ms = map batch_model (select_batch locked (batch_now e) (nat limit) ?rows)"
    and db': "transaction_outbox db' = claim_rows (map om_ID (select_batch locked (batch_now e) (nat limit) ?rows)) (batch_now e) ?rows"
    using assms(2) by (simp_all add: batch_Inr Let_def)
  show "distinct (map om_AggregateId ms)"
    using select_batch_distinct [of om_AggregateId ?rows] d by (simp add: ms comp_def keys_def)
  show "distinct (keys om_AggregateId (transaction_outbox db'))"
    using d by (simp add: db' claim_rows_def keys_update_where)
qed

text \<open>C14. The goroutines of a batch may interleave in any way: when the wait returns, the database and the broker
  are as if \<open>readAndRelay\<close> had run them one after another, in the order they published.\<close>

theorem relay_goroutines_serialise:
  assumes "schema_ok (w_db (pl_world p))"
    and "OutboxPendingGetBatch (po_env po) (po_locked po) (or_batchSize o') (w_db (pl_world p)) = (Inr rows, db)"
    and "run_batch o' (po_row_env po) as (p\<lparr>pl_world := (pl_world p)\<lparr>w_db := db\<rparr>\<rparr>, batch_start rows) = Some (p', b')"
    and "bt_over b'"
  shows "\<exists>ms q. mset ms = mset rows \<and> readAndRelay o' (po\<lparr>po_order := \<lambda>_. ms\<rparr>) p = (int (length rows), q) \<and>
    w_db (pl_world p') = w_db (pl_world q) \<and> pl_kafka p' = pl_kafka q"
proof -
  note d = batch_distinct [OF assms(1,2)]
  obtain ms where m: "mset ms = mset rows"
    and eq: "w_db (pl_world p') = w_db (pl_world (fold (\<lambda>m. relay_row o' (po_row_env po (om_AggregateId m)) m) ms
          (p\<lparr>pl_world := (pl_world p)\<lparr>w_db := db\<rparr>\<rparr>)))"
      "pl_kafka p' = pl_kafka (fold (\<lambda>m. relay_row o' (po_row_env po (om_AggregateId m)) m) ms
          (p\<lparr>pl_world := (pl_world p)\<lparr>w_db := db\<rparr>\<rparr>))"
    by (rule finished_serially [OF assms(3,4)]) (use d in simp_all)
  then show ?thesis
    using assms(2) by (intro exI [of _ ms]) (simp add: readAndRelay_def on_world_def on_db_def)
qed

text \<open>Two rows whose goroutines alternate; the broker refuses the first message it gets.\<close>

definition sample_turns :: "batch_actor list" where
  "sample_turns = [Spawner, Goroutine 0, Spawner, Goroutine 1, Goroutine 1, Goroutine 0, Goroutine 0, Goroutine 1, Goroutine 0,
     Goroutine 1, Goroutine 1, Goroutine 0, Spawner]"

definition sample_batch :: "OutboxModel list result \<times> database" where
  "sample_batch = OutboxPendingGetBatch (healthy (seconds 60)) (\<lambda>_. False) 100 sample_outbox_db"

definition sample_start :: "(ref_redis, ref_broker) plant \<times> relay_batch" where
  "sample_start = ((sample_plant sample_outbox_db [IoErr])\<lparr>pl_world := (pl_world (sample_plant sample_outbox_db [IoErr]))
     \<lparr>w_db := snd sample_batch\<rparr>\<rparr>, batch_start (case fst sample_batch of Inr rows \<Rightarrow> rows | Inl err \<Rightarrow> []))"

lemma sample_turns_run:
  "map_option (\<lambda>(p, b). (bt_over b, map om_Status (outbox_of p)))
     (run_batch sample_relay (\<lambda>_. healthy (seconds 60)) sample_turns sample_start) =
   Some (True, [OutboxStatusPublished, OutboxStatusPending])"
  by code_simp

theorem relay_goroutines_serialise_witness:
  "\<exists>rows db p' b' ms q. sample_batch = (Inr rows, db) \<and>
     run_batch sample_relay (\<lambda>_. healthy (seconds 60)) sample_turns sample_start = Some (p', b') \<and>
     map om_Status (outbox_of p') = [OutboxStatusPublished, OutboxStatusPending] \<and> mset ms = mset rows \<and>
     readAndRelay sample_relay ((sample_poll (seconds 60))\<lparr>po_order := \<lambda>_. ms\<rparr>) (sample_plant sample_outbox_db [IoErr]) =
       (int (length rows), q) \<and>
     w_db (pl_world p') = w_db (pl_world q) \<and> pl_kafka p' = pl_kafka q"
proof -
  let ?p = "sample_plant sample_outbox_db [IoErr]" and ?po = "sample_poll (seconds 60)"
  obtain p' b' where run: "run_batch sample_relay (\<lambda>_. healthy (seconds 60)) sample_turns sample_start = Some (p', b')"
    "bt_over b'" "map om_Status (outbox_of p') = [OutboxStatusPublished, OutboxStatusPending]"
    using sample_turns_run by auto
  have "\<not> isl (fst sample_batch)" by code_simp
  then obtain rows db where get: "sample_batch = (Inr rows, db)" by (metis prod.collapse sum.collapse(2))
  have "\<exists>ms q. mset ms = mset rows \<and> readAndRelay sample_relay (?po\<lparr>po_order := \<lambda>_. ms\<rparr>) ?p = (int (length rows), q) \<and>
      w_db (pl_world p') = w_db (pl_world q) \<and> pl_kafka p' = pl_kafka q"
    by (rule relay_goroutines_serialise [where db = db and ?as = sample_turns and b' = b'])
      (use run get in \<open>simp_all add: sample_plant_def sample_poll_def sample_relay_def sample_batch_def sample_start_def\<close>)
  then obtain ms q where "mset ms = mset rows" "readAndRelay sample_relay (?po\<lparr>po_order := \<lambda>_. ms\<rparr>) ?p = (int (length rows), q)"
      "w_db (pl_world p') = w_db (pl_world q)" "pl_kafka p' = pl_kafka q" by blast
  with run get show ?thesis by (intro exI conjI)
qed

theorem relay_wait_returns_witness:
  "\<exists>p' b'. run_batch sample_relay (\<lambda>_. healthy (seconds 60)) sample_turns sample_start = Some (p', b') \<and>
     length (filter at_work (bt_gos b')) \<le> 32 \<and> length sample_turns \<le> 7 * length (bt_rows (snd sample_start)) + 1"
proof -
  obtain p' b' where run: "run_batch sample_relay (\<lambda>_. healthy (seconds 60)) sample_turns sample_start = Some (p', b')"
    using sample_turns_run by auto
  have "sample_start = (fst sample_start, batch_start (bt_rows (snd sample_start)))"
    by (simp add: sample_start_def batch_start_def)
  with run have "run_batch sample_relay (\<lambda>_. healthy (seconds 60)) sample_turns
      (fst sample_start, batch_start (bt_rows (snd sample_start))) = Some (p', b')" by simp
  from relay_wait_returns [OF this] run show ?thesis by blast
qed

end
