(* ===== verification/LiveRelay.thy ===== *)
theory LiveRelay
  imports Goroutines Reachable
begin

text \<open>
  The application with its relays at work: any number of batches, of one relay or of several replicas, are
  under way at once, their goroutines take their steps between each other and between the handlers,
  deliveries and polls of \<open>wallet_step\<close>, and a process may be killed at any point, so that its batch stops
  where it is. The invariants of the application hold in every state this can reach, and a request that was
  accepted is never lost: a later drain publishes it.
\<close>

section \<open>Steps\<close>

inductive live_step :: "('r, 'k) OutboxRelay \<Rightarrow> ('k \<Rightarrow> kmessage list) \<Rightarrow>
    ('r, 'k) plant \<times> relay_batch list \<Rightarrow> ('r, 'k) plant \<times> relay_batch list \<Rightarrow> bool"
  for o' :: "('r, 'k) OutboxRelay" and log :: "'k \<Rightarrow> kmessage list" where
  Handled: "wallet_step o' log p p' \<Longrightarrow> live_step o' log (p, bs) (p', bs)"
| BatchTaken: "OutboxPendingGetBatch e locked limit (db_of p) = (Inr rows, db) \<Longrightarrow>
    live_step o' log (p, bs) (p\<lparr>pl_world := (pl_world p)\<lparr>w_db := db\<rparr>\<rparr>, bs @ [batch_start rows])"
| BatchGoesOn: "\<lbrakk>i < length bs; batch_next o' es a (p, bs ! i) = Some (p', b')\<rbrakk> \<Longrightarrow>
    live_step o' log (p, bs) (p', bs[i := b'])"
| Killed: "live_step o' log (p, bs) (p, take i bs @ drop (Suc i) bs)"

section \<open>What holds in every state\<close>

definition batch_fine :: "string \<Rightarrow> kmessage list \<Rightarrow> OutboxModel set \<Rightarrow> relay_batch \<Rightarrow> bool" where
  "batch_fine topic msgs models b \<longleftrightarrow> set (batch_rows b) \<subseteq> models \<and>
     (\<forall>g \<in> set (bt_gos b). gr_pc g = GoMarking OutboxStatusPublished \<longrightarrow> in_log topic msgs (gr_row g))"

lemma in_log_mono: "in_log topic msgs m \<Longrightarrow> set msgs \<subseteq> set msgs' \<Longrightarrow> in_log topic msgs' m"
  by (auto simp: in_log_def)

lemma batch_fine_mono:
  "\<lbrakk>batch_fine topic msgs models b; set msgs \<subseteq> set msgs'; models \<subseteq> models'\<rbrakk> \<Longrightarrow> batch_fine topic msgs' models' b"
  unfolding batch_fine_def using in_log_mono by blast

abbreviation models_of :: "('r, 'k) plant \<Rightarrow> OutboxModel set" where
  "models_of p \<equiv> batch_model ` set (outbox_of p)"

text \<open>Nothing is ever taken out of the outbox or the topic.\<close>

definition grows :: "('k \<Rightarrow> kmessage list) \<Rightarrow> ('r, 'k) plant \<Rightarrow> ('r, 'k) plant \<Rightarrow> bool" where
  "grows log p p' \<longleftrightarrow> models_of p \<subseteq> models_of p' \<and> set (log (pl_kafka p)) \<subseteq> set (log (pl_kafka p'))"

lemma grows_refl [simp]: "grows log p p"
  by (simp add: grows_def)

lemma grows_world: "harmless (db_of p) (w_db (snd (m (pl_world p)))) \<Longrightarrow> grows log p (snd (on_world m p))"
  by (simp add: grows_def harmless_def on_world_eq)

lemma evolves_grows: "outbox_evolves (db_of p) (db_of p') \<Longrightarrow> models_of p' = models_of p"
  unfolding outbox_evolves_def by (metis set_map)

context kafka_laws
begin

lemma publish_kafka_keeps:
  assumes "mk_writer (pr_messaging (or_publisher o')) = Some W"
  shows "set (log k) \<subseteq> set (log (publish_kafka o' m k))"
  using publish_keeps [OF assms] by (auto simp: publish_kafka_def Publish_def split: option.split)

lemma publish_kafka_adds:
  assumes "mk_writer (pr_messaging (or_publisher o')) = Some W" and "x \<in> set (log (publish_kafka o' m k))"
  shows "x \<in> set (log k) \<or> (\<exists>v. marshal_envelope m = Some v \<and> km_Value x = Some v)"
proof (cases "marshal_envelope m")
  case (Some v)
  let ?m = "\<lparr>km_Topic = pr_topic (or_publisher o'), km_Key = om_PartitionKey m, km_Value = Some v, km_Headers = []\<rparr>"
  have "publish_kafka o' m k = snd (W ?m k)"
    using assms(1) Some by (auto simp: publish_kafka_def Publish_def PublishMessage_def split: prod.splits sum.splits)
  then have "x \<in> insert ?m (set (log k))" using assms(2) write_log by auto
  then show ?thesis using Some by auto
qed (use assms(2) in \<open>simp add: publish_kafka_def\<close>)

lemma relay_rows_keep:
  assumes "mk_writer (pr_messaging (or_publisher o')) = Some W"
  shows "set (log (pl_kafka p)) \<subseteq> set (log (pl_kafka (fold (\<lambda>m. relay_row o' (es (om_AggregateId m)) m) ms p)))"
proof (induction ms arbitrary: p)
  case (Cons m ms)
  have "set (log (pl_kafka p)) \<subseteq> set (log (pl_kafka (relay_row o' (es (om_AggregateId m)) m p)))"
    using publish_kafka_keeps [OF assms] by (simp add: relay_row_kafka)
  then show ?case using Cons.IH [of "relay_row o' (es (om_AggregateId m)) m p"] by simp
qed simp

lemma poll_keeps:
  assumes "mk_writer (pr_messaging (or_publisher o')) = Some W"
  shows "set (log (pl_kafka p)) \<subseteq> set (log (pl_kafka (snd (readAndRelay o' po p))))"
  using relay_rows_keep [OF assms, of "p\<lparr>pl_world := x\<rparr>" for x]
  by (auto simp: readAndRelay_def on_world_eq split: sum.splits)

lemma wallet_step_grows:
  assumes w: "mk_writer (pr_messaging (or_publisher o')) = Some W"
    and step: "wallet_step o' log p p'" and inv: "system_inv (pr_topic (or_publisher o')) log p"
  shows "grows log p p'"
  using step inv
proof (induction rule: wallet_step.induct)
  case (Poll po p)
  then have "schema_ok (db_of p)" by (simp add: system_inv_def books_inv_def)
  from evolves_grows [OF poll_evolves [OF this, of o' po]] show ?case using poll_keeps [OF w] by (simp add: grows_def)
next
  case (Deliver m p e)
  then obtain r v where r: "r \<in> set (outbox_of p)" "marshal_envelope (batch_model r) = Some v" "km_Value m = Some v"
    by (auto simp: system_inv_def topic_inv_def)
  have "books_inv (db_of p)" using Deliver.prems by (simp add: system_inv_def)
  from deliver_books [OF this r(1,2), of "or_redis o'" e] r(3) show ?case by (simp add: grows_def on_world_eq)
next
  case (DeadLetter p key v reason)
  have "set (log (pl_kafka p)) \<subseteq> set (log (snd (AppendToDlq (pr_messaging (or_publisher o')) t key v reason (pl_kafka p))))" for t
    using w write_keeps by (auto simp: AppendToDlq_def split: prod.splits sum.splits) (metis snd_conv)+
  then show ?case by (simp add: grows_def on_kafka_eq)
next
  case (Offsets k p)
  then show ?case by (simp add: grows_def)
next
  case (Expire p r)
  then show ?case by (simp add: grows_def)
qed (auto intro!: grows_world handlers_harmless auth_harmless simp: on_db_eq open_account_harmless read_handlers_db)

text \<open>A step of a goroutine.\<close>

lemma publish_step_inv:
  assumes w: "mk_writer (pr_messaging (or_publisher o')) = Some W"
    and inv: "system_inv (pr_topic (or_publisher o')) log p" and m: "m \<in> models_of p"
  shows "system_inv (pr_topic (or_publisher o')) log (p\<lparr>pl_kafka := publish_kafka o' m (pl_kafka p)\<rparr>)"
proof -
  let ?t = "pr_topic (or_publisher o')" and ?msgs = "log (publish_kafka o' m (pl_kafka p))"
  have t: "topic_inv ?t (log (pl_kafka p)) (outbox_of p)" using inv by (simp add: system_inv_def)
  obtain r where r: "r \<in> set (outbox_of p)" "m = batch_model r" using m by blast
  have "\<exists>r \<in> set (outbox_of p). \<exists>v. marshal_envelope (batch_model r) = Some v \<and> km_Value x = Some v"
    if "x \<in> set ?msgs" "km_Topic x = ?t" for x
    using publish_kafka_adds [OF w that(1)] t that(2) r by (auto simp: topic_inv_def)
  moreover have "published_logged ?t ?msgs (outbox_of p)"
    using t in_log_mono [OF _ publish_kafka_keeps [OF w]] by (auto simp: topic_inv_def published_logged_def)
  ultimately show ?thesis using inv by (auto simp: system_inv_def topic_inv_def)
qed

lemma published_in_log:
  assumes "mk_writer (pr_messaging (or_publisher o')) = Some W"
    and "publish_pc o' m k = GoMarking OutboxStatusPublished"
  shows "in_log (pr_topic (or_publisher o')) (log (publish_kafka o' m k)) m"
proof -
  obtain v u where v: "marshal_envelope m = Some v"
    and "fst (Publish (or_publisher o') (om_PartitionKey m) (Some v) k) = Inr u"
    using assms(2) by (auto simp: publish_pc_def split: option.splits sum.splits)
  then have "Publish (or_publisher o') (om_PartitionKey m) (Some v) k = (Inr u, publish_kafka o' m k)"
    by (simp add: publish_kafka_def prod_eq_iff)
  with v publish_logged [OF assms(1)] show ?thesis by (auto simp: in_log_def Publish_def)
qed

end

lemma record_step_inv:
  assumes inv: "system_inv topic log p" and m: "m \<in> models_of p"
    and pub: "pc = GoMarking OutboxStatusPublished \<Longrightarrow> in_log topic (log (pl_kafka p)) m"
    and p': "pl_kafka p' = pl_kafka p" "db_of p' = (db_of p)\<lparr>transaction_outbox :=
      update_where (\<lambda>r. om_AggregateId r = om_AggregateId m) (go_effect o' e pc) (outbox_of p)\<rparr>"
  shows "system_inv topic log p' \<and> models_of p' = models_of p"
proof -
  have ok: "schema_ok (db_of p)" using inv by (simp add: system_inv_def books_inv_def)
  note enum = schema_okD(6) [OF ok]
  have f: "batch_model (go_effect o' e pc r) = batch_model r" for r
    by (simp add: go_effect_def update_effect_def record_effect_def Let_def split: go_pc.split)
  have s: "outbox_status_enum (om_Status (go_effect o' e pc r))" if "outbox_status_enum (om_Status r)" for r
    using that by (auto simp: go_effect_def update_effect_def record_effect_def Let_def set_outbox_status_def
        mark_failure_def split: go_pc.split)
  have models: "map batch_model (outbox_of p') = map batch_model (outbox_of p)"
    using models_update [of "go_effect o' e pc"] f by (simp add: p'(2))
  have ev: "outbox_evolves (db_of p) (db_of p')"
    using enum s models by (auto simp: outbox_evolves_def p'(2) set_update_where)
  have same: "batch_model r = m" if "r \<in> set (outbox_of p)" "om_AggregateId r = om_AggregateId m" for r
    using same_model [OF _ _ that] schema_okD(3) [OF ok] m by (simp add: keys_def comp_def)
  have "published_logged topic (log (pl_kafka p))
      (update_where (\<lambda>r. om_AggregateId r = om_AggregateId m) (go_effect o' e pc) (outbox_of p))"
  proof (rule published_update [OF _ subset_refl])
    show pl: "published_logged topic (log (pl_kafka p)) (outbox_of p)"
      using inv by (simp add: system_inv_def topic_inv_def)
    fix r assume r: "r \<in> set (outbox_of p)" "om_AggregateId r = om_AggregateId m"
    show "batch_model (go_effect o' e pc r) = batch_model r" by (rule f)
    assume "om_Status (go_effect o' e pc r) = OutboxStatusPublished"
    then have "om_Status r = OutboxStatusPublished \<or> pc = GoMarking OutboxStatusPublished"
      by (auto simp: go_effect_def update_effect_def record_effect_def Let_def set_outbox_status_def mark_failure_def
          split: go_pc.splits if_splits)
    then show "in_log topic (log (pl_kafka p)) (batch_model r)"
      using pl r pub same [OF r] by (auto simp: published_logged_def)
  qed
  then have "published_logged topic (log (pl_kafka p)) (outbox_of p')" by (simp add: p'(2))
  then have "topic_inv topic (log (pl_kafka p')) (outbox_of p')"
    using inv topic_models [OF models] by (simp add: topic_inv_def system_inv_def p'(1))
  moreover have "books_inv (db_of p')" using inv by (intro evolves_books [OF _ ev]) (simp add: system_inv_def)
  ultimately show ?thesis using evolves_grows [OF ev] by (simp add: system_inv_def)
qed

lemma go_step_inv:
  assumes laws: "kafka_laws W log" and w: "mk_writer (pr_messaging (or_publisher o')) = Some W"
    and step: "go_next o' e n g p = Some (pc, p')" and inv: "system_inv (pr_topic (or_publisher o')) log p"
    and m: "gr_row g \<in> models_of p"
    and pub: "gr_pc g = GoMarking OutboxStatusPublished \<Longrightarrow> in_log (pr_topic (or_publisher o')) (log (pl_kafka p)) (gr_row g)"
  shows "system_inv (pr_topic (or_publisher o')) log p' \<and> grows log p p' \<and>
    (pc = GoMarking OutboxStatusPublished \<longrightarrow> in_log (pr_topic (or_publisher o')) (log (pl_kafka p')) (gr_row g))"
proof -
  consider "gr_pc g = GoPublishing" | "recording (gr_pc g)" | "\<not> recording (gr_pc g)" "gr_pc g \<noteq> GoPublishing" by blast
  then show ?thesis
  proof cases
    case 1
    note st = go_next_publish [OF step 1]
    show ?thesis
      using kafka_laws.publish_step_inv [OF laws w inv m] kafka_laws.publish_kafka_keeps [OF laws w]
        kafka_laws.published_in_log [OF laws w, of "gr_row g" "pl_kafka p"] st by (simp add: grows_def)
  next
    case 2
    have ok: "schema_ok (db_of p)" using inv by (simp add: system_inv_def books_inv_def)
    note st = go_next_record [OF step 2 schema_okD(3) [OF ok]]
    from record_step_inv [OF inv m pub st(2,1)] st(2,3) show ?thesis by (auto simp: grows_def)
  next
    case 3
    note st = go_next_idle [OF step 3]
    have "pc \<noteq> GoMarking OutboxStatusPublished" using st(3) by (auto simp: recording_def)
    then show ?thesis using inv st(1,2) by (simp add: system_inv_def grows_def)
  qed
qed

lemma batch_step_inv:
  assumes laws: "kafka_laws W log" and w: "mk_writer (pr_messaging (or_publisher o')) = Some W"
    and step: "batch_next o' es a (p, b) = Some (p', b')" and inv: "system_inv (pr_topic (or_publisher o')) log p"
    and b: "batch_fine (pr_topic (or_publisher o')) (log (pl_kafka p)) (models_of p) b"
  shows "system_inv (pr_topic (or_publisher o')) log p' \<and> grows log p p' \<and>
    batch_fine (pr_topic (or_publisher o')) (log (pl_kafka p')) (models_of p') b'"
  using step
proof (cases rule: batch_next_cases)
  case (Spawn row rows)
  then show ?thesis using inv b by (auto simp: batch_fine_def batch_rows_def)
next
  case Wait
  then show ?thesis using inv b by (auto simp: batch_fine_def batch_rows_def)
next
  case (Go i g pc)
  have g: "g \<in> set (bt_gos b)" using Go(2,3) by simp
  then have "gr_row g \<in> models_of p" using b by (auto simp: batch_fine_def batch_rows_def)
  from go_step_inv [OF laws w Go(4) inv this] g b
  have st: "system_inv (pr_topic (or_publisher o')) log p'" "grows log p p'"
    "pc = GoMarking OutboxStatusPublished \<longrightarrow> in_log (pr_topic (or_publisher o')) (log (pl_kafka p')) (gr_row g)"
    by (auto simp: batch_fine_def)
  have fine: "batch_fine (pr_topic (or_publisher o')) (log (pl_kafka p')) (models_of p') b"
    using st(2) by (intro batch_fine_mono [OF b]) (simp_all add: grows_def)
  have "set (bt_gos b') \<subseteq> insert (g\<lparr>gr_pc := pc\<rparr>) (set (bt_gos b))"
    using Go(5) by (simp add: set_update_subset_insert)
  then have "batch_fine (pr_topic (or_publisher o')) (log (pl_kafka p')) (models_of p') b'"
    using fine st(3) batch_next_rows [OF step] by (fastforce simp: batch_fine_def)
  with st show ?thesis by blast
qed

definition live_inv :: "string \<Rightarrow> ('k \<Rightarrow> kmessage list) \<Rightarrow> ('r, 'k) plant \<times> relay_batch list \<Rightarrow> bool" where
  "live_inv topic log c \<longleftrightarrow> system_inv topic log (fst c) \<and>
     (\<forall>b \<in> set (snd c). batch_fine topic (log (pl_kafka (fst c))) (models_of (fst c)) b)"

lemma live_step_inv:
  assumes laws: "kafka_laws W log" and w: "mk_writer (pr_messaging (or_publisher o')) = Some W"
    and step: "live_step o' log c c'" and inv: "live_inv (pr_topic (or_publisher o')) log c"
  shows "live_inv (pr_topic (or_publisher o')) log c'"
  using step
proof (cases rule: live_step.cases)
  case (Handled p p' bs)
  have i: "system_inv (pr_topic (or_publisher o')) log p" using inv Handled(1) by (simp add: live_inv_def)
  have "grows log p p'" by (rule kafka_laws.wallet_step_grows [OF laws w Handled(3) i])
  then show ?thesis
    using wallet_step_inv [OF laws w Handled(3) i] inv Handled(1,2) by (auto simp: live_inv_def grows_def intro: batch_fine_mono)
next
  case (BatchTaken e locked limit p rows db bs)
  let ?p' = "p\<lparr>pl_world := (pl_world p)\<lparr>w_db := db\<rparr>\<rparr>"
  have i: "system_inv (pr_topic (or_publisher o')) log p" using inv BatchTaken(1) by (simp add: live_inv_def)
  have ok: "schema_ok (db_of p)" using i by (simp add: system_inv_def books_inv_def)
  have ev: "outbox_evolves (db_of p) (db_of ?p')"
    using batch_evolves [of "db_of p" e locked limit] schema_okD(6) [OF ok] BatchTaken(3) by simp
  have m: "models_of ?p' = models_of p" by (rule evolves_grows [OF ev])
  have "published_logged (pr_topic (or_publisher o')) (log (pl_kafka p)) (transaction_outbox db)"
    using batch_inv [of _ _ "db_of p" e locked limit] i BatchTaken(3) by (simp add: system_inv_def topic_inv_def)
  then have "system_inv (pr_topic (or_publisher o')) log ?p'"
    using i evolves_books [OF _ ev] ev topic_models [of "transaction_outbox db" "outbox_of p"]
    by (simp add: system_inv_def topic_inv_def outbox_evolves_def)
  moreover have "set rows \<subseteq> models_of p" using claimed_in_batch [OF BatchTaken(3)] by blast
  ultimately show ?thesis
    using inv BatchTaken(1,2) m by (auto simp: live_inv_def batch_fine_def batch_start_def batch_rows_def)
next
  case (BatchGoesOn i bs es a p p' b')
  have "system_inv (pr_topic (or_publisher o')) log p"
    "batch_fine (pr_topic (or_publisher o')) (log (pl_kafka p)) (models_of p) (bs ! i)"
    using inv BatchGoesOn(1,3) by (simp_all add: live_inv_def)
  note st = batch_step_inv [OF laws w BatchGoesOn(4) this]
  have "batch_fine (pr_topic (or_publisher o')) (log (pl_kafka p')) (models_of p') b" if "b \<in> set (bs[i := b'])" for b
    using that st inv BatchGoesOn(1) set_update_subset_insert [of bs i b']
    by (auto simp: live_inv_def grows_def intro: batch_fine_mono)
  then show ?thesis using st BatchGoesOn(2) by (simp add: live_inv_def)
next
  case (Killed p bs i)
  then show ?thesis using inv by (auto simp: live_inv_def dest: in_set_takeD in_set_dropD)
qed

lemma live_run_inv:
  assumes "kafka_laws W log" and "mk_writer (pr_messaging (or_publisher o')) = Some W"
    and "fresh_start (pr_topic (or_publisher o')) log p0" and "(live_step o' log)\<^sup>*\<^sup>* (p0, []) (p, bs)"
  shows "system_inv (pr_topic (or_publisher o')) log p"
proof -
  have "live_inv (pr_topic (or_publisher o')) log (p, bs)"
    using assms(4)
  proof (induction rule: rtranclp_induct)
    case base
    then show ?case using fresh_start_inv [OF assms(3)] by (simp add: live_inv_def)
  qed (rule live_step_inv [OF assms(1,2)])
  then show ?thesis by (simp add: live_inv_def)
qed

section \<open>Safety\<close>

text \<open>C5. However the goroutines of any number of relays, the handlers, deliveries, redeliveries, faults and
  crashes interleave, a balance is at least zero and at most what the accepted requests to credit the
  account add up to, with their amounts as the consumer decodes them, each request counted once however often its
  message was delivered: no interleaving creates money. When every accepted amount is below two to the 53 the
  bound holds for the amounts as they were accepted; beyond, the way through the outbox rounds them to a float64.\<close>

theorem live_balance_within_requests:
  assumes "kafka_laws W log" and "mk_writer (pr_messaging (or_publisher o')) = Some W"
    and "fresh_start (pr_topic (or_publisher o')) log p0" and "(live_step o' log)\<^sup>*\<^sup>* (p0, []) (p, bs)"
    and "a \<in> set (accounts (db_of p))"
  shows "0 \<le> am_Balance a \<and> am_Balance a \<le> sum_list (map (requested_credit (am_ID a)) (outbox_of p)) \<and>
    (exact_amounts (outbox_of p) \<longrightarrow> am_Balance a \<le> sum_list (map (accepted_credit (am_ID a)) (outbox_of p)))"
  by (rule balance_of_requests [OF live_run_inv [OF assms(1-4)] assms(5)])

text \<open>C6. In the same runs every row of the ledger was asked for: its identifier, kind and accounts are those of a
  request that was accepted into the outbox, and its amount is the accepted amount as the consumer decodes it, which
  is that amount rounded to a float64, and that amount itself when it is below two to the 53.\<close>

theorem live_ledger_is_requested:
  assumes "kafka_laws W log" and "mk_writer (pr_messaging (or_publisher o')) = Some W"
    and "fresh_start (pr_topic (or_publisher o')) log p0" and "(live_step o' log)\<^sup>*\<^sup>* (p0, []) (p, bs)"
    and "t \<in> set (transactions (db_of p))"
  shows "\<exists>r \<in> set (outbox_of p). \<exists>rq i. om_AggregateId r = tm_ID t \<and> request_of (batch_model r) = Some rq \<and>
    req_entry rq = (tm_ID t, transaction_type t, tm_FromAccount t, tm_ToAccount t, tm_Amount t) \<and>
    payload_amount (om_Payload r) = Some i \<and> tm_Amount t = float64_trip i \<and> (\<bar>i\<bar> < 2 ^ 53 \<longrightarrow> tm_Amount t = i)"
  using ledger_of_requests [OF live_run_inv [OF assms(1-4)] assms(5)] float64_trip_exact by fastforce

text \<open>C18. Every state of such a run is well formed, also in the middle of a batch: the tables satisfy the
  constraints of the schema, every row marked published has its message in the topic, and every message of
  the topic is the envelope of a row of the outbox.\<close>

theorem live_well_formed:
  assumes "kafka_laws W log" and "mk_writer (pr_messaging (or_publisher o')) = Some W"
    and "fresh_start (pr_topic (or_publisher o')) log p0" and "(live_step o' log)\<^sup>*\<^sup>* (p0, []) (p, bs)"
  shows "schema_ok (db_of p) \<and> published_logged (pr_topic (or_publisher o')) (log (pl_kafka p)) (outbox_of p) \<and>
    (\<forall>m \<in> set (log (pl_kafka p)). km_Topic m = pr_topic (or_publisher o') \<longrightarrow>
       (\<exists>r \<in> set (outbox_of p). km_Value m = marshal_envelope (batch_model r)))"
  by (rule inv_well_formed [OF live_run_inv [OF assms]])

section \<open>At least once\<close>

lemma drain_steps:
  assumes "list_all good_poll pos"
  shows "(wallet_step o' log)\<^sup>*\<^sup>* p (snd (drain o' pos p))"
  using assms
proof (induction pos arbitrary: p)
  case (Cons po pos)
  have "wallet_step o' log p (snd (readAndRelay o' po p))"
    using Cons.prems by (intro wallet_step.Poll) (simp add: good_poll_def)
  then show ?case
    using Cons.IH [of "snd (readAndRelay o' po p)"] Cons.prems
    by (auto simp: split_beta Let_def intro: converse_rtranclp_into_rtranclp)
qed simp

lemma wallet_run_grows:
  assumes "(wallet_step o' log)\<^sup>*\<^sup>* p p'" and "kafka_laws W log"
    and "mk_writer (pr_messaging (or_publisher o')) = Some W" and "system_inv (pr_topic (or_publisher o')) log p"
  shows "grows log p p'"
  using assms(1)
proof (induction rule: rtranclp_induct)
  case (step p1 p2)
  have "system_inv (pr_topic (or_publisher o')) log p1" by (rule wallet_run_inv [OF step(1) assms(2-4)])
  from kafka_laws.wallet_step_grows [OF assms(2,3) step(2) this] step.IH show ?case unfolding grows_def by (meson subset_trans)
qed simp

text \<open>C16. No accepted request is lost, wherever relays are killed: in whatever state the application is, a drain
  that begins more than 30 seconds after the last change of a row, and at which the broker and the database
  answer and nobody inserts rows or holds them, ends with the message of the row in the topic, unless the row was
  given up.\<close>

theorem no_request_lost:
  assumes "kafka_laws W log" and "mk_writer (pr_messaging (or_publisher o')) = Some W"
    and "fresh_start (pr_topic (or_publisher o')) log p0" and "(live_step o' log)\<^sup>*\<^sup>* (p0, []) (p, bs)"
    and "answers up W" and "up (pl_kafka p)" and "0 < or_batchSize o'"
    and "list_all (\<lambda>po. good_poll po \<and> within T0 (T0 + seconds 30) po \<and> \<not> po_done po) pos"
    and "int (all_left (T0 + seconds 30) (retry_limit o') (outbox_of p)) < int (length pos) * or_batchSize o'"
    and "r \<in> set (outbox_of p)" and "om_Status r \<noteq> OutboxStatusFailed" and "marshal_envelope (batch_model r) \<noteq> None"
    and "om_UpdatedAt r < T0 - seconds 30" and "next_attempt_at r \<le> T0"
  shows "\<exists>p'. drain o' pos p = (Drained, p') \<and> in_log (pr_topic (or_publisher o')) (log (pl_kafka p')) (batch_model r)"
proof -
  let ?t = "pr_topic (or_publisher o')"
  have inv: "system_inv ?t log p" by (rule live_run_inv [OF assms(1-4)])
  then have ok: "schema_ok (db_of p)" by (simp add: system_inv_def books_inv_def)
  obtain p' where d: "drain o' pos p = (Drained, p')"
    and pub: "claimable T0 r \<Longrightarrow> \<exists>r' \<in> set (outbox_of p'). batch_model r' = batch_model r \<and> om_Status r' = OutboxStatusPublished"
    using drain_publishes [OF assms(2,5,6) ok assms(7-9)] assms(10,12) by blast
  have "list_all good_poll pos" using assms(8) by (simp add: list_all_iff)
  from drain_steps [OF this, of o' log p] have run: "(wallet_step o' log)\<^sup>*\<^sup>* p p'" using d by simp
  have "in_log ?t (log (pl_kafka p')) (batch_model r)"
  proof (cases "om_Status r = OutboxStatusPublished")
    case True
    then have "in_log ?t (log (pl_kafka p)) (batch_model r)"
      using inv assms(10) by (simp add: system_inv_def topic_inv_def published_logged_def)
    then show ?thesis using wallet_run_grows [OF run assms(1,2) inv] by (auto simp: grows_def intro: in_log_mono)
  next
    case False
    have "om_Status r = OutboxStatusPending \<or> om_Status r = OutboxStatusClaimed"
      using schema_okD(6) [OF ok] assms(10,11) False by (auto simp: outbox_status_enum_def go_consts)
    then have "claimable T0 r" using assms(13,14) by (auto simp: claimable_def stale_claim_def)
    then obtain r' where "r' \<in> set (outbox_of p')" "batch_model r' = batch_model r" "om_Status r' = OutboxStatusPublished"
      using pub by blast
    moreover have "system_inv ?t log p'" by (rule wallet_run_inv [OF run assms(1,2) inv])
    ultimately show ?thesis by (auto simp: system_inv_def topic_inv_def published_logged_def)
  qed
  with d show ?thesis by blast
qed

section \<open>A concrete run\<close>

text \<open>A deposit is accepted, a relay takes it, its goroutine publishes the message, and the consumer books it
  before the goroutine has marked the row; then the relay is killed.\<close>

definition noon_start :: "(ref_redis, ref_broker) plant \<times> relay_batch" where
  "noon_start =
     (case OutboxPendingGetBatch (healthy 9) (\<lambda>_. False) 100 (db_of day_one) of
        (Inr rows, db) \<Rightarrow> (day_one\<lparr>pl_world := (pl_world day_one)\<lparr>w_db := db\<rparr>\<rparr>, batch_start rows)
      | (Inl err, db) \<Rightarrow> (day_one, batch_start []))"

definition noon :: "(ref_redis, ref_broker) plant \<times> relay_batch" where
  "noon = the (run_batch sample_relay (\<lambda>_. healthy 9) [Spawner, Goroutine 0, Goroutine 0] noon_start)"

definition booked :: "(ref_redis, ref_broker) plant" where
  "booked = snd (on_world (Handle (wallet_dispatcher redis_ref (healthy 11))
     (km_Value (hd (rb_log (pl_kafka (fst noon)))))) (fst noon))"

lemma run_batch_live:
  "run_batch o' es as (p, b) = Some (p', b') \<Longrightarrow> (live_step o' log)\<^sup>*\<^sup>* (p, bs @ [b]) (p', bs @ [b'])"
proof (induction as arbitrary: p b)
  case (Cons a as)
  then obtain p1 b1 where n: "batch_next o' es a (p, b) = Some (p1, b1)" "run_batch o' es as (p1, b1) = Some (p', b')"
    by (auto split: option.splits)
  have "live_step o' log (p, bs @ [b]) (p1, (bs @ [b])[length bs := b1])"
    using n(1) by (intro live_step.BatchGoesOn [where es = es and a = a]) simp_all
  then show ?case using Cons.IH [OF n(2)] by (simp add: converse_rtranclp_into_rtranclp)
qed simp

lemma noon_facts:
  "gr_pc (hd (bt_gos (snd noon))) = GoMarking OutboxStatusPublished"
  "rb_log (pl_kafka (fst noon)) \<noteq> [] \<and> km_Topic (hd (rb_log (pl_kafka (fst noon)))) = WalletEventsTopic"
  by code_simp+

lemma booked_reached: "(live_step sample_relay rb_log)\<^sup>*\<^sup>* (day_zero, []) (booked, [])"
proof -
  have "live_step sample_relay rb_log (day_zero, []) (day_one, [])"
    unfolding day_one_def by (intro live_step.Handled wallet_step.Deposit)
  moreover have "\<not> isl (fst (OutboxPendingGetBatch (healthy 9) (\<lambda>_. False) 100 (db_of day_one)))" by code_simp
  then obtain rows db where get: "OutboxPendingGetBatch (healthy 9) (\<lambda>_. False) 100 (db_of day_one) = (Inr rows, db)"
    by (metis prod.collapse sum.collapse(2))
  have "live_step sample_relay rb_log (day_one, []) (fst noon_start, [] @ [snd noon_start])"
    using live_step.BatchTaken [OF get, of sample_relay rb_log "[]"] get by (simp add: noon_start_def)
  moreover have "run_batch sample_relay (\<lambda>_. healthy 9) [Spawner, Goroutine 0, Goroutine 0] noon_start \<noteq> None" by code_simp
  then have "run_batch sample_relay (\<lambda>_. healthy 9) [Spawner, Goroutine 0, Goroutine 0] (fst noon_start, snd noon_start) =
      Some (fst noon, snd noon)"
    by (auto simp: noon_def)
  from run_batch_live [OF this, where bs = "[]" and log = rb_log]
  have "(live_step sample_relay rb_log)\<^sup>*\<^sup>* (fst noon_start, [] @ [snd noon_start]) (fst noon, [] @ [snd noon])" .
  moreover have "live_step sample_relay rb_log (fst noon, [] @ [snd noon]) (booked, [snd noon])"
    unfolding booked_def
    using wallet_step.Deliver [of "hd (rb_log (pl_kafka (fst noon)))" rb_log "fst noon" sample_relay "healthy 11"]
      noon_facts(2) live_step.Handled by (simp add: sample_relay_def)
  moreover have "live_step sample_relay rb_log (booked, [snd noon]) (booked, [])"
    using live_step.Killed [of sample_relay rb_log booked "[snd noon]" 0] by simp
  ultimately show ?thesis by (meson rtranclp.rtrancl_into_rtrancl rtranclp_trans r_into_rtranclp)
qed

definition report :: "(ref_redis, ref_broker) plant \<Rightarrow> entry list \<times> (string \<times> int) list \<times>
    (OutboxStatus \<times> time \<times> time \<times> bool \<times> int option) list \<times> io list \<times> bool" where
  "report p =
     (map entry_of (transactions (db_of p)), map (\<lambda>a. (am_ID a, am_Balance a)) (accounts (db_of p)),
      map (\<lambda>r. (om_Status r, om_UpdatedAt r, next_attempt_at r, marshal_envelope (batch_model r) = None,
        payload_amount (om_Payload r))) (outbox_of p),
      rb_faults (pl_kafka p), all_left (seconds 90) (retry_limit sample_relay) (outbox_of p) < 100)"

lemma booked_report:
  "report booked =
     ([(''t1'', ''deposit'', ''a1'', ''a1'', 500)], [(''a1'', 500), (''a2'', 0)],
      [(OutboxStatusClaimed, 9, 7, False, Some 500)], [], True)"
  by code_simp

lemmas booked_facts = booked_report [unfolded report_def]

lemma booked_exact: "exact_amounts (outbox_of booked)"
  using booked_facts by (auto simp: exact_amounts_def map_eq_Cons_conv)

lemma booked_account: "\<exists>a \<in> set (accounts (db_of booked)). am_ID a = ''a1'' \<and> am_Balance a = 500"
  using booked_facts by auto

lemma booked_row:
  obtains r where "r \<in> set (outbox_of booked)" and "om_Status r = OutboxStatusClaimed" and "om_UpdatedAt r = 9"
    and "next_attempt_at r = 7" and "marshal_envelope (batch_model r) \<noteq> None"
  using booked_facts by (auto simp: map_eq_Cons_conv)

lemmas live_sample = kref.kafka_laws_axioms sample_relay_writer(1) day_zero_fresh
  [folded sample_relay_writer(2)] booked_reached

theorem live_balance_within_requests_witness:
  "\<exists>a \<in> set (accounts (db_of booked)). am_Balance a = 500 \<and>
     500 \<le> sum_list (map (requested_credit ''a1'') (outbox_of booked)) \<and>
     500 \<le> sum_list (map (accepted_credit ''a1'') (outbox_of booked))"
  using live_balance_within_requests [OF live_sample] booked_account booked_exact by fastforce

theorem live_ledger_is_requested_witness:
  "\<exists>t \<in> set (transactions (db_of booked)). tm_Amount t = 500 \<and>
     (\<exists>r \<in> set (outbox_of booked). \<exists>rq. om_AggregateId r = ''t1'' \<and> request_of (batch_model r) = Some rq \<and>
        snd (snd (snd (snd (req_entry rq)))) = 500 \<and> payload_amount (om_Payload r) = Some 500)"
proof -
  obtain t where t: "t \<in> set (transactions (db_of booked))" "tm_ID t = ''t1''" "tm_Amount t = 500"
    using booked_facts by (auto simp: entry_of_def map_eq_Cons_conv)
  from live_ledger_is_requested [OF live_sample t(1)] obtain r rq i
    where r: "r \<in> set (outbox_of booked)" "om_AggregateId r = tm_ID t" "request_of (batch_model r) = Some rq"
      "req_entry rq = (tm_ID t, transaction_type t, tm_FromAccount t, tm_ToAccount t, tm_Amount t)"
      "payload_amount (om_Payload r) = Some i" "\<bar>i\<bar> < 2 ^ 53 \<longrightarrow> tm_Amount t = i" by blast
  then have "i = 500" using booked_exact t(3) by (auto simp: exact_amounts_def)
  then show ?thesis using r t by (intro bexI [OF _ t(1)] conjI bexI [of _ r] exI [of _ rq]) simp_all
qed

theorem live_well_formed_witness:
  "schema_ok (db_of booked) \<and> published_logged WalletEventsTopic (rb_log (pl_kafka booked)) (outbox_of booked)"
  using live_well_formed [OF live_sample] by simp

text \<open>The row the killed relay left claimed is taken again a minute later.\<close>

theorem no_request_lost_witness:
  "\<exists>p' r. drain sample_relay [sample_poll (seconds 60)] booked = (Drained, p') \<and> r \<in> set (outbox_of booked) \<and>
     om_Status r = OutboxStatusClaimed \<and> in_log WalletEventsTopic (rb_log (pl_kafka p')) (batch_model r)"
proof -
  obtain r where r: "r \<in> set (outbox_of booked)" "om_Status r = OutboxStatusClaimed" "om_UpdatedAt r = 9"
    "next_attempt_at r = 7" "marshal_envelope (batch_model r) \<noteq> None" by (rule booked_row)
  have up: "answers (\<lambda>b. rb_faults b = []) kafka_ref" by (simp add: answers_def kafka_ref_def)
  have pos: "list_all (\<lambda>po. good_poll po \<and> within (seconds 60) (seconds 60 + seconds 30) po \<and> \<not> po_done po) [sample_poll (seconds 60)]"
    by (simp add: within_def good_poll_def call_up_def sample_poll_def seconds_def)
  have "seconds 60 + seconds 30 = seconds 90" by (simp add: seconds_def)
  then have few: "int (all_left (seconds 60 + seconds 30) (retry_limit sample_relay) (outbox_of booked)) <
      int (length [sample_poll (seconds 60)]) * or_batchSize sample_relay"
    using booked_facts by (simp add: sample_relay_def)
  have late: "om_UpdatedAt r < seconds 60 - seconds 30" "next_attempt_at r \<le> seconds 60"
    using r by (simp_all add: seconds_def)
  have "\<exists>p'. drain sample_relay [sample_poll (seconds 60)] booked = (Drained, p') \<and>
      in_log (pr_topic (or_publisher sample_relay)) (rb_log (pl_kafka p')) (batch_model r)"
  proof (rule no_request_lost [OF live_sample up _ _ pos few r(1) _ r(5) late])
    show "rb_faults (pl_kafka booked) = []" using booked_facts by simp
    show "0 < or_batchSize sample_relay" by (simp add: sample_relay_def)
    show "om_Status r \<noteq> OutboxStatusFailed" using r(2) by (simp add: go_consts)
  qed
  then show ?thesis using r by auto
qed

end
