(* ===== verification/LockCycle.thy ===== *)
theory LockCycle
  imports History OutboxProps
begin

text \<open>
  The lock that \<^verbatim>\<open>OutboxInsert\<close> takes in Redis for a user and an account, and
  \<^verbatim>\<open>UpdateTransactionStatus\<close> gives back: a request whose row has got its final status has freed the
  lock, so that the next request of the user for the account is accepted.
\<close>

section \<open>Giving the lock back\<close>

text \<open>The user and the account of a request, as the handler locked them: of a transfer, the account
  the money leaves.\<close>

primrec req_lock :: "request \<Rightarrow> string" where
  "req_lock (DepositReq tid uid acc cur amt) = idempotencyKey uid acc"
| "req_lock (WithdrawReq tid uid acc amt) = idempotencyKey uid acc"
| "req_lock (TransferReq tid uid fr to cur amt) = idempotencyKey uid fr"

lemma one_row:
  assumes "distinct (keys k rows)" and "x \<in> set (keys k rows)"
  shows "rows_where (\<lambda>r. k r = x) rows = 1"
  using assms
proof (induction rows)
  case (Cons r rows)
  have "rows_where (\<lambda>r. k r = x) rows = 0" if "k r = x"
    using Cons.prems(1) that by (auto simp: rows_where_zero set_keys)
  then show ?case using Cons by auto
qed simp

lemma status_update_releases:
  assumes "schema_ok (w_db w)" and "tid \<in> set (keys tm_ID (transactions (w_db w)))"
    and "call_up UpdateTransactionStatusC e" and "transaction_status_enum s"
  shows "w_ch (snd (UpdateTransactionStatus R e tid uid acc s w)) =
    snd (TransactionIdempotencyRelease R (idempotencyKey uid acc) (w_ch w))"
  using assms(3,4) one_row [OF schema_okD(2) [OF assms(1)] assms(2)]
  by (simp add: UpdateTransactionStatus_def Let_def on_db_def on_ch_def WithTransaction_def run_tx_def in_tx_def
      sql_set_status_def call_up_def split_beta)

text \<open>Either the cache is as it was and the row of the request is not final, or the lock is given back.\<close>

definition gives_back :: "'r redis_client \<Rightarrow> string \<Rightarrow> string \<Rightarrow> 'r world \<Rightarrow> 'r world \<Rightarrow> bool" where
  "gives_back R tid key w w' \<longleftrightarrow>
     w_ch w' = w_ch w \<and> fresh_or_pending tid (w_db w') \<or>
     w_ch w' = snd (TransactionIdempotencyRelease R key (w_ch w))"

lemma pend_then_gives_back:
  assumes "schema_ok (w_db w)" and "fits_signed 64 amt" and "fresh_or_pending tid (w_db w)"
    and "\<And>w1. \<lbrakk>schema_ok (w_db w1); tid \<in> set (keys tm_ID (transactions (w_db w1)))\<rbrakk> \<Longrightarrow>
      w_ch (snd (k w1)) = snd (TransactionIdempotencyRelease R key (w_ch w1))"
  shows "gives_back R tid key w (snd (pend_then e tid ty fr to cur amt msg k w))"
proof (cases rule: pend_then_cases [of e tid ty fr to cur amt msg k w])
  case (stop err db1)
  then show ?thesis using assms(3) insert_pending_row(1) by (auto simp: gives_back_def)
next
  case (go db1)
  have "w_ch (snd (k (w\<lparr>w_db := db1\<rparr>))) = snd (TransactionIdempotencyRelease R key (w_ch (w\<lparr>w_db := db1\<rparr>)))"
    using insert_pending_schema [OF assms(1) go(2) assms(2)] insert_pending_row(4) [OF go(2)] by (intro assms(4)) simp_all
  then show ?thesis using go(1) by (simp add: gives_back_def)
qed

lemma settle_spec_rows:
  "settle_spec tid ids now db = Some db' \<Longrightarrow> keys tm_ID (transactions db') = keys tm_ID (transactions db)"
  by (auto simp: settle_spec_def Let_def split: if_splits)

context settlement
begin

lemma move_keeps_rows:
  assumes "schema_ok db"
  shows "keys tm_ID (transactions (snd (move e db))) = keys tm_ID (transactions db)"
  using move_state [OF assms, of e] settle_spec_rows [of tid ids "at e" db] by auto

lemma record_releases:
  assumes "schema_ok (w_db w)" and "x \<in> set (keys tm_ID (transactions (w_db w)))"
    and "call_up UpdateTransactionStatusC e"
  shows "w_ch (snd (settle_and_record R e x uid acc msg (move e) w)) =
    snd (TransactionIdempotencyRelease R (idempotencyKey uid acc) (w_ch w))"
proof -
  have "w_ch (snd (UpdateTransactionStatus R e x uid acc s (w\<lparr>w_db := snd (move e (w_db w))\<rparr>))) =
      snd (TransactionIdempotencyRelease R (idempotencyKey uid acc) (w_ch w))" if "transaction_status_enum s" for s
    using status_update_releases [of "w\<lparr>w_db := snd (move e (w_db w))\<rparr>" x e s R uid acc] that assms
      move_keeps_rows [OF assms(1), of e] move_schema [OF assms(1), of e] by simp
  then show ?thesis by (simp add: settle_and_record_eq Let_def split: sum.splits)
qed

end

lemma withdraw_tail_releases:
  assumes "schema_ok (w_db w)" and "tid \<in> set (keys tm_ID (transactions (w_db w)))"
    and "call_up UpdateTransactionStatusC e"
  shows "w_ch (snd (withdraw_tail R e tid uid account acc amt w)) =
    snd (TransactionIdempotencyRelease R (idempotencyKey uid acc) (w_ch w))"
  using wdr.record_releases [OF assms] status_update_releases [OF assms, of TransactionStatusFailed]
  by (simp add: withdraw_tail_def split_beta)

lemma request_gives_back:
  assumes "schema_ok (w_db w)" and "fits_signed 64 (req_amount rq)" and "fresh_or_pending (req_id rq) (w_db w)"
    and "call_up UpdateTransactionStatusC e"
  shows "gives_back R (req_id rq) (req_lock rq) w (snd (run_request R e rq w))"
proof -
  have same: "gives_back R (req_id rq) (req_lock rq) w w" using assms(3) by (simp add: gives_back_def)
  show ?thesis
  proof (cases rq)
    case (DepositReq tid uid acc cur amt)
    then show ?thesis
      using same assms by (auto simp: deposit_pend intro!: pend_then_gives_back dep.record_releases)
  next
    case (WithdrawReq tid uid acc amt)
    then show ?thesis
      using same assms by (auto simp: withdraw_pend intro!: pend_then_gives_back withdraw_tail_releases split: option.split)
  next
    case (TransferReq tid uid fr to cur amt)
    then show ?thesis
      using same assms by (auto simp: transfer_pend intro!: pend_then_gives_back trf.record_releases)
  qed
qed

section \<open>The next request\<close>

lemma insert_accepted:
  assumes "redis_laws R look" and "look (w_ch w) (cache_idempotencyKey (request_key cfg)) = None"
    and "TransactionIdempotencyCheck R (request_key cfg) (w_ch w) = (Inr b, r)"
    and "call_up OutboxInsertC e"
    and "oid \<notin> set (keys om_ID (transaction_outbox (w_db w)))"
    and "oc_AggregateId cfg \<notin> set (keys om_AggregateId (transaction_outbox (w_db w)))"
  shows "\<exists>w'. OutboxInsert R e oid cfg w = (Inr (), w')"
proof -
  have "b" using redis_laws.check_refuses [OF assms(1), of "request_key cfg" "w_ch w" r] assms(2,3) by (cases b) auto
  then show ?thesis
    using OutboxInsert_locked [of R cfg w r e oid] assms(3-6)
    by (simp add: outbox_write_def on_db_def autocommit_def sql_insert_outbox_def new_outbox_row_def call_up_def)
qed

text \<open>C26. As soon as the row of a request has its final status, whatever it is, the user may make the
  next request for the account, provided that the status update and the cache were answered: the
  lock is free again.\<close>

theorem settled_request_makes_room:
  assumes "redis_laws R look" and "schema_ok (w_db w)" and "fits_signed 64 (req_amount rq)"
    and "fresh_or_pending (req_id rq) (w_db w)" and "call_up UpdateTransactionStatusC e"
    and "redis_Del R (cache_idempotencyKey (req_lock rq)) (w_ch w) = (Inr (), r)"
    and "run_request R e rq w = (res, w')"
    and "t \<in> set (transactions (w_db w'))" and "tm_ID t = req_id rq" and "tm_Status t \<noteq> TransactionStatusPending"
    and "request_key cfg = req_lock rq"
    and "TransactionIdempotencyCheck R (req_lock rq) (w_ch w') = (Inr b, r')" and "call_up OutboxInsertC e'"
    and "oid \<notin> set (keys om_ID (transaction_outbox (w_db w')))"
    and "oc_AggregateId cfg \<notin> set (keys om_AggregateId (transaction_outbox (w_db w')))"
  shows "\<exists>w''. OutboxInsert R e' oid cfg w' = (Inr (), w'')"
proof -
  have rel: "TransactionIdempotencyRelease R (req_lock rq) (w_ch w) = (Inr (), r)" using assms(6) by (simp add: release_Inr)
  have "gives_back R (req_id rq) (req_lock rq) w w'"
    using request_gives_back [OF assms(2-5), of R] assms(7) by simp
  then have "w_ch w' = r" using assms(8-10) rel by (auto simp: gives_back_def fresh_or_pending_def)
  then have "look (w_ch w') (cache_idempotencyKey (request_key cfg)) = None"
    using redis_laws.release_frees [OF assms(1) rel] assms(11) by simp
  then show ?thesis using assms(11-15) by (intro insert_accepted [OF assms(1)]) simp_all
qed

text \<open>The first deposit holds the lock of \<open>a1\<close> until it is booked; then a second one is accepted.\<close>

definition second_cfg :: OutboxInsertConfig where
  "second_cfg = sample_cfg\<lparr>oc_AggregateId := ''t2''\<rparr>"

theorem settled_request_makes_room_witness:
  "isl (fst (OutboxInsert redis_ref (healthy 6) ''o2'' second_cfg (sample\<lparr>w_ch := sample_locked\<rparr>))) \<and>
   (\<exists>res w' w''. run_request redis_ref (healthy 5) (DepositReq ''t1'' ''u1'' ''a1'' ''USD'' 50) (sample\<lparr>w_ch := sample_locked\<rparr>)
       = (res, w') \<and> OutboxInsert redis_ref (healthy 6) ''o2'' second_cfg w' = (Inr (), w''))"
proof
  let ?rq = "DepositReq ''t1'' ''u1'' ''a1'' ''USD'' 50" and ?w = "sample\<lparr>w_ch := sample_locked\<rparr>"
  show "isl (fst (OutboxInsert redis_ref (healthy 6) ''o2'' second_cfg ?w))" by code_simp
  let ?run = "run_request redis_ref (healthy 5) ?rq ?w"
  let ?w' = "snd ?run"
  have "list_ex (\<lambda>t. tm_ID t = ''t1'' \<and> tm_Status t \<noteq> TransactionStatusPending) (transactions (w_db ?w'))" by code_simp
  then obtain t where t: "t \<in> set (transactions (w_db ?w'))" "tm_ID t = req_id ?rq" "tm_Status t \<noteq> TransactionStatusPending"
    by (auto simp: list_ex_iff)
  have fr: "fresh_or_pending (req_id ?rq) (w_db ?w)" by code_simp
  have "fst (redis_Del redis_ref (cache_idempotencyKey (req_lock ?rq)) (w_ch ?w)) = Inr ()" by code_simp
  then obtain r where d: "redis_Del redis_ref (cache_idempotencyKey (req_lock ?rq)) (w_ch ?w) = (Inr (), r)"
    by (metis prod.collapse)
  have "fst (TransactionIdempotencyCheck redis_ref (req_lock ?rq) (w_ch ?w')) = Inr True" by code_simp
  then obtain r' where c: "TransactionIdempotencyCheck redis_ref (req_lock ?rq) (w_ch ?w') = (Inr True, r')"
    by (metis prod.collapse)
  have key: "request_key second_cfg = req_lock ?rq" by code_simp
  have new: "''o2'' \<notin> set (keys om_ID (transaction_outbox (w_db ?w')))" by code_simp
  have new2: "oc_AggregateId second_cfg \<notin> set (keys om_AggregateId (transaction_outbox (w_db ?w')))" by code_simp
  have "\<exists>w''. OutboxInsert redis_ref (healthy 6) ''o2'' second_cfg ?w' = (Inr (), w'')"
    using settled_request_makes_room [OF ref.redis_laws_axioms _ _ fr _ d prod.collapse [symmetric] t key c _ new new2]
    by (simp add: call_up_def fits_signed_def sample_schema)
  then show "\<exists>res w' w''. ?run = (res, w') \<and> OutboxInsert redis_ref (healthy 6) ''o2'' second_cfg w' = (Inr (), w'')"
    by (metis prod.collapse)
qed

end
