(* ===== verification/Races.thy ===== *)
theory Races
  imports AuthProps AccountProps
begin

text \<open>
  The two operations that read and then write outside a transaction, \<^verbatim>\<open>LoginUser\<close> of the auth service
  and \<^verbatim>\<open>OpenAccount\<close> of the wallet service, when several calls run at once. Each call is cut at its
  repository calls, one statement each, and the calls take turns in any order. A login is decided by
  the one statement that stores the session, so at most one of many wins; the limit of accounts is
  decided by a count that is out of date when the account is inserted, so it can be exceeded.
\<close>

section \<open>Taking turns\<close>

fun take_turns :: "('t \<Rightarrow> 's \<Rightarrow> 't \<times> 's) \<Rightarrow> nat list \<Rightarrow> 't list \<times> 's \<Rightarrow> 't list \<times> 's" where
  "take_turns step [] c = c"
| "take_turns step (i # is) (ts, s) =
     (if i < length ts
      then let (t', s') = step (ts ! i) s in take_turns step is (ts[i := t'], s')
      else take_turns step is (ts, s))"

text \<open>What calls that take turns keep: an invariant of the state, one of each call, and a quantity
  that no step increases.\<close>

locale turns =
  fixes step :: "'t \<Rightarrow> 's \<Rightarrow> 't \<times> 's"
    and state_inv :: "'s \<Rightarrow> bool"
    and call_inv :: "'s \<Rightarrow> 't \<Rightarrow> bool"
    and call_weight :: "'t \<Rightarrow> nat"
    and state_weight :: "'s \<Rightarrow> nat"
  assumes step_state: "state_inv s \<Longrightarrow> call_inv s t \<Longrightarrow> state_inv (snd (step t s))"
    and step_call: "state_inv s \<Longrightarrow> call_inv s t \<Longrightarrow> call_inv (snd (step t s)) (fst (step t s))"
    and step_other: "state_inv s \<Longrightarrow> call_inv s t \<Longrightarrow> call_inv s u \<Longrightarrow> call_inv (snd (step t s)) u"
    and step_weight: "state_inv s \<Longrightarrow> call_inv s t \<Longrightarrow>
      call_weight (fst (step t s)) + state_weight (snd (step t s)) \<le> call_weight t + state_weight s"
begin

lemma sum_weight_update:
  "i < length ts \<Longrightarrow>
     sum_list (map call_weight (ts[i := t])) + call_weight (ts ! i) = sum_list (map call_weight ts) + call_weight t"
proof (induction ts arbitrary: i)
  case (Cons u ts)
  then show ?case by (cases i) auto
qed simp

lemma turns_keep:
  assumes "state_inv s" and "\<forall>t \<in> set ts. call_inv s t" and "take_turns step is (ts, s) = (ts', s')"
  shows "state_inv s' \<and> (\<forall>t \<in> set ts'. call_inv s' t) \<and>
    sum_list (map call_weight ts') + state_weight s' \<le> sum_list (map call_weight ts) + state_weight s"
  using assms
proof (induction "is" arbitrary: ts s)
  case (Cons i "is")
  show ?case
  proof (cases "i < length ts")
    case True
    let ?t = "fst (step (ts ! i) s)" and ?s = "snd (step (ts ! i) s)"
    have t: "call_inv s (ts ! i)" using Cons.prems(2) True by simp
    have "\<forall>u \<in> set (ts[i := ?t]). call_inv ?s u"
      using step_call [OF Cons.prems(1) t] step_other [OF Cons.prems(1) t] Cons.prems(2)
      by (auto dest!: set_update_subset_insert [THEN subsetD])
    moreover have "take_turns step is (ts[i := ?t], ?s) = (ts', s')"
      using Cons.prems(3) True by (simp add: split_beta)
    ultimately have "state_inv s' \<and> (\<forall>t \<in> set ts'. call_inv s' t) \<and>
        sum_list (map call_weight ts') + state_weight s' \<le> sum_list (map call_weight (ts[i := ?t])) + state_weight ?s"
      using Cons.IH [OF step_state [OF Cons.prems(1) t]] by blast
    then show ?thesis
      using step_weight [OF Cons.prems(1) t] sum_weight_update [OF True, of ?t] by linarith
  next
    case False
    then show ?thesis using Cons by simp
  qed
qed simp

end

section \<open>Logins\<close>

datatype login_pc =
    LookUp \<comment> \<open>\<^verbatim>\<open>FindByUsername\<close> and the password\<close>
  | Guard UserModel \<comment> \<open>\<^verbatim>\<open>GetTokenByUserId\<close> and the tokens\<close>
  | Store UserModel UserSessionTokens \<comment> \<open>\<^verbatim>\<open>InsertToken\<close>\<close>
  | LoginDone "AuthenticateUserResponse result"

record 'r login_call =
  lc_env :: "'r auth_env"
  lc_newId :: string
  lc_username :: string
  lc_password :: string
  lc_pc :: login_pc

abbreviation login_ends :: "'r login_call \<Rightarrow> AuthenticateUserResponse result \<Rightarrow> 'r login_call" where
  "login_ends t r \<equiv> t\<lparr>lc_pc := LoginDone r\<rparr>"

definition login_step :: "'r login_call \<Rightarrow> 'r world \<Rightarrow> 'r login_call \<times> 'r world" where
  "login_step t w =
     (let a = lc_env t in
      case lc_pc t of
        LookUp \<Rightarrow>
          (case on_db (FindByUsername (ae_db a) (lc_username t)) w of
             (Inl err, w) \<Rightarrow> (login_ends t (Inl (wrapf ''failed to retrieve user: %w'' err)), w)
           | (Inr None, w) \<Rightarrow> (login_ends t (Inl (errorf ''invalid username or password'')), w)
           | (Inr (Some user), w) \<Rightarrow>
               (case ComparePassword (ae_bcrypt a) (um_Password user) (lc_password t) of
                  Some err \<Rightarrow> (login_ends t (Inl (errorf ''invalid password for username: %s'')), w)
                | None \<Rightarrow> (t\<lparr>lc_pc := Guard user\<rparr>, w)))
      | Guard user \<Rightarrow>
          (case on_db (GetTokenByUserId (ae_db a) (um_ID user)) w of
             (Inl err, w) \<Rightarrow> (login_ends t (Inl (wrapf ''failed to retrieve session: %w'' err)), w)
           | (Inr existingAuth, w) \<Rightarrow>
               if existingAuth \<noteq> None \<and> ua_IsCurrentlyLoggedIn (the existingAuth)
               then (login_ends t (Inl (errorf ''user %s is already logged in'')), w)
               else
                 (case generateSessionTokens a \<lparr>us_ID = um_ID user, us_Name = [], us_Username = um_Username user,
                         us_Email = um_Email user, us_Password = [], us_CreatedAt = zero_time,
                         us_UpdatedAt = zero_time\<rparr> of
                    Inl err \<Rightarrow> (login_ends t (Inl (wrapf ''failed to generate session tokens: %w'' err)), w)
                  | Inr tokens \<Rightarrow> (t\<lparr>lc_pc := Store user tokens\<rparr>, w)))
      | Store user tokens \<Rightarrow>
          (case InsertToken (ae_redis a) (ae_os a) (ae_db a) (ae_clock a) (lc_newId t) (um_ID user)
                  (ut_RefreshToken tokens) w of
             (Inl err, w) \<Rightarrow> (login_ends t (Inl (wrapf ''failed to insert user: %w'' err)), w)
           | (Inr inserted, w) \<Rightarrow>
               if \<not> inserted then (login_ends t (Inl (errorf ''user %s is already logged in'')), w)
               else (login_ends t (Inr \<lparr>ar_AccessToken = ut_SessionToken tokens, ar_UserId = um_ID user\<rparr>), w))
      | LoginDone r \<Rightarrow> (t, w))"

definition login_call :: "'r auth_env \<Rightarrow> string \<Rightarrow> string \<Rightarrow> string \<Rightarrow> 'r login_call" where
  "login_call a newId username password =
     \<lparr>lc_env = a, lc_newId = newId, lc_username = username, lc_password = password, lc_pc = LookUp\<rparr>"

text \<open>Three turns in a row are a call of \<^verbatim>\<open>LoginUser\<close>.\<close>

lemma login_alone:
  "take_turns login_step [0, 0, 0] ([login_call a newId username password], w) =
     (let (r, w') = LoginUser a newId username password w
      in ([login_ends (login_call a newId username password) r], w'))"
proof -
  note defs = login_call_def login_step_def LoginUser_def Let_def
  obtain r1 w1 where f: "on_db (FindByUsername (ae_db a) username) w = (r1, w1)" by fastforce
  show ?thesis
  proof (cases r1)
    case (Inl err)
    with f show ?thesis by (simp add: defs)
  next
    case (Inr found)
    show ?thesis
    proof (cases found)
      case None
      with f Inr show ?thesis by (simp add: defs)
    next
      case (Some user)
      show ?thesis
      proof (cases "ComparePassword (ae_bcrypt a) (um_Password user) password")
        case None
        obtain r2 w2 where g: "on_db (GetTokenByUserId (ae_db a) (um_ID user)) w1 = (r2, w2)" by fastforce
        then show ?thesis
          using f Inr Some None by (cases r2) (auto simp: defs split: sum.splits prod.splits)
      qed (use f Inr Some in \<open>simp add: defs\<close>)
    qed
  qed
qed

definition login_won :: "string \<Rightarrow> 'r login_call \<Rightarrow> bool" where
  "login_won username t \<longleftrightarrow> lc_username t = username \<and> (case lc_pc t of LoginDone r \<Rightarrow> \<not> isl r | _ \<Rightarrow> False)"

definition login_fine :: "'r world \<Rightarrow> 'r login_call \<Rightarrow> bool" where
  "login_fine w t \<longleftrightarrow>
     (case lc_pc t of
        Guard user \<Rightarrow> user \<in> set (users (w_db w)) \<and> um_Username user = lc_username t
      | Store user tokens \<Rightarrow> user \<in> set (users (w_db w)) \<and> um_Username user = lc_username t
      | _ \<Rightarrow> True)"

lemma read_only_calls [simp]:
  "snd (FindByUsername e username db) = db" "snd (GetTokenByUserId e uid db) = db"
  by (auto simp: FindByUsername_def GetTokenByUserId_def autocommit_def split: io.splits)

lemma find_by_username_Some:
  assumes "FindByUsername e username db = (Inr (Some user), db')"
  shows "user \<in> set (users db) \<and> um_Username user = username"
  using assms by (auto simp: FindByUsername_def autocommit_def split: io.splits dest!: find_SomeD)

text \<open>The reads end the call with an error or bring it on, and leave the world alone.\<close>

lemma look_up_step:
  assumes "lc_pc t = LookUp"
  shows "snd (login_step t w) = w \<and> ((\<exists>err. fst (login_step t w) = login_ends t (Inl err)) \<or>
    (\<exists>user \<in> set (users (w_db w)). um_Username user = lc_username t \<and> fst (login_step t w) = t\<lparr>lc_pc := Guard user\<rparr>))"
proof -
  obtain r where r: "FindByUsername (ae_db (lc_env t)) (lc_username t) (w_db w) = (r, w_db w)"
    using read_only_calls(1) by (metis prod.collapse)
  show ?thesis
  proof (cases r)
    case (Inl err)
    with r assms show ?thesis by (auto simp: login_step_def on_db_def)
  next
    case (Inr found)
    show ?thesis
    proof (cases found)
      case None
      with r Inr assms show ?thesis by (auto simp: login_step_def on_db_def)
    next
      case (Some user)
      with r Inr have u: "user \<in> set (users (w_db w))" "um_Username user = lc_username t"
        using find_by_username_Some by auto
      show ?thesis
        using r Inr Some assms u
        by (cases "ComparePassword (ae_bcrypt (lc_env t)) (um_Password user) (lc_password t)")
          (auto simp: login_step_def on_db_def)
    qed
  qed
qed

lemma guard_step:
  assumes "lc_pc t = Guard user"
  shows "snd (login_step t w) = w \<and> ((\<exists>err. fst (login_step t w) = login_ends t (Inl err)) \<or>
    (\<exists>tokens. fst (login_step t w) = t\<lparr>lc_pc := Store user tokens\<rparr>))"
proof -
  obtain r where r: "GetTokenByUserId (ae_db (lc_env t)) (um_ID user) (w_db w) = (r, w_db w)"
    using read_only_calls(2) by (metis prod.collapse)
  let ?u = "\<lparr>us_ID = um_ID user, us_Name = [], us_Username = um_Username user, us_Email = um_Email user,
    us_Password = [], us_CreatedAt = zero_time, us_UpdatedAt = zero_time\<rparr>"
  show ?thesis
    using r assms
    by (cases r; cases "generateSessionTokens (lc_env t) ?u") (auto simp: login_step_def on_db_def Let_def)
qed

text \<open>The statement that stores the session: it wins only if the user had no session, and then the
  user has one.\<close>

lemma store_step:
  assumes "lc_pc t = Store user tokens" and "schema_ok (w_db w)"
    and user: "user \<in> set (users (w_db w))" "um_Username user = lc_username t"
  shows "adds_token (lc_newId t) (w_db w) (w_db (snd (login_step t w)))"
    and "\<exists>r. fst (login_step t w) = login_ends t r \<and>
      (\<not> isl r \<longrightarrow> \<not> logged_in (lc_username t) (w_db w) \<and> logged_in (lc_username t) (w_db (snd (login_step t w))))"
proof -
  obtain r w' where i: "InsertToken (ae_redis (lc_env t)) (ae_os (lc_env t)) (ae_db (lc_env t)) (ae_clock (lc_env t))
      (lc_newId t) (um_ID user) (ut_RefreshToken tokens) w = (r, w')" by fastforce
  have w': "snd (login_step t w) = w'" and t': "\<exists>x. fst (login_step t w) = login_ends t x \<and> (\<not> isl x \<longrightarrow> r = Inr True)"
    using i assms(1) by (cases r; auto simp: login_step_def Let_def)+
  show "adds_token (lc_newId t) (w_db w) (w_db (snd (login_step t w)))"
    using insert_token_adds [OF i] w' by simp
  have "\<not> logged_in (lc_username t) (w_db w) \<and> logged_in (lc_username t) (w_db w')" if r: "r = Inr True"
  proof
    obtain x where x: "sql_insert_token (lc_newId t) (um_ID user) (ut_RefreshToken tokens)
        (env_now (ae_db (lc_env t)) InsertTokenC) (w_db w) = (Inr (Some x), w_db w')"
      using insert_token_ok [OF i [unfolded r]] by blast
    show "logged_in (lc_username t) (w_db w')"
      using sql_insert_token_ok [OF x] user by (auto simp: logged_in_def)
    show "\<not> logged_in (lc_username t) (w_db w)"
    proof
      assume "logged_in (lc_username t) (w_db w)"
      then obtain v s where v: "v \<in> set (users (w_db w))" "um_Username v = lc_username t"
        and s: "s \<in> set (user_auth (w_db w))" "ua_UserId s = um_ID v" "ua_IsCurrentlyLoggedIn s"
        by (auto simp: logged_in_def)
      have "v = user"
        using find_by_key [of um_Username "users (w_db w)" v "lc_username t"]
          find_by_key [of um_Username "users (w_db w)" user "lc_username t"] v user assms(2)
        by (auto simp: schema_ok_def users_ok_def)
      then have "List.find (\<lambda>s. ua_UserId s = um_ID user) (user_auth (w_db w)) = Some s"
        using s assms(2) by (intro find_by_key) (auto simp: schema_ok_def user_auth_ok_def)
      with x s(3) show False by (simp add: sql_insert_token_def)
    qed
  qed
  then show "\<exists>r. fst (login_step t w) = login_ends t r \<and>
      (\<not> isl r \<longrightarrow> \<not> logged_in (lc_username t) (w_db w) \<and> logged_in (lc_username t) (w_db (snd (login_step t w))))"
    using t' w' by auto
qed

lemma adds_token_keeps:
  assumes "adds_token newId db db'"
  shows "schema_ok db \<Longrightarrow> schema_ok db'" and "users db' = users db" and "logged_in u db \<Longrightarrow> logged_in u db'"
  using assms sql_insert_token_schema sql_insert_token_logged_in
  by (auto simp: adds_token_def) (auto simp: sql_insert_token_def split: option.splits)

lemma login_step_adds:
  assumes "schema_ok (w_db w)" and "login_fine w t"
  shows "adds_token (lc_newId t) (w_db w) (w_db (snd (login_step t w)))"
proof (cases "lc_pc t")
  case (Store user tokens)
  then show ?thesis using store_step(1) [OF Store assms(1)] assms(2) by (simp add: login_fine_def)
next
  case (LoginDone r)
  then show ?thesis by (simp add: login_step_def)
qed (simp_all add: look_up_step guard_step)

lemma login_step_goes:
  assumes "schema_ok (w_db w)" and "login_fine w t"
  shows "lc_username (fst (login_step t w)) = lc_username t"
    and "login_fine (snd (login_step t w)) (fst (login_step t w))"
    and "login_won u (fst (login_step t w)) \<Longrightarrow> login_won u t \<or>
      \<not> logged_in u (w_db w) \<and> logged_in u (w_db (snd (login_step t w)))"
proof -
  have "lc_username (fst (login_step t w)) = lc_username t \<and> login_fine (snd (login_step t w)) (fst (login_step t w)) \<and>
    (login_won u (fst (login_step t w)) \<longrightarrow> login_won u t \<or>
      \<not> logged_in u (w_db w) \<and> logged_in u (w_db (snd (login_step t w))))"
  proof (cases "lc_pc t")
    case LookUp
    then show ?thesis using look_up_step [OF LookUp, of w] by (auto simp: login_won_def login_fine_def)
  next
    case (Guard user)
    then show ?thesis using guard_step [OF Guard, of w] assms(2) by (auto simp: login_won_def login_fine_def)
  next
    case (Store user tokens)
    then have "user \<in> set (users (w_db w))" "um_Username user = lc_username t" using assms(2) by (simp_all add: login_fine_def)
    from store_step(2) [OF Store assms(1) this] show ?thesis by (auto simp: login_won_def login_fine_def)
  next
    case (LoginDone r)
    then show ?thesis using assms(2) by (simp add: login_step_def)
  qed
  then show "lc_username (fst (login_step t w)) = lc_username t"
    and "login_fine (snd (login_step t w)) (fst (login_step t w))"
    and "login_won u (fst (login_step t w)) \<Longrightarrow> login_won u t \<or>
      \<not> logged_in u (w_db w) \<and> logged_in u (w_db (snd (login_step t w)))"
    by blast+
qed

interpretation logins: turns login_step "\<lambda>w. schema_ok (w_db w)" login_fine
  "\<lambda>t. if login_won u t then 1 else 0" "\<lambda>w. if logged_in u (w_db w) then 0 else 1"
  for u
proof
  fix w :: "'r world" and t v
  assume ok: "schema_ok (w_db w)" and t: "login_fine w t"
  note keeps = adds_token_keeps [OF login_step_adds [OF ok t]]
  show "schema_ok (w_db (snd (login_step t w)))" using keeps(1) [OF ok] .
  show "login_fine (snd (login_step t w)) (fst (login_step t w))" by (rule login_step_goes(2) [OF ok t])
  show "login_fine (snd (login_step t w)) v" if "login_fine w v"
    using that keeps(2) by (auto simp: login_fine_def split: login_pc.splits)
  show "(if login_won u (fst (login_step t w)) then 1 else 0) + (if logged_in u (w_db (snd (login_step t w))) then 0 else 1) \<le>
      (if login_won u t then 1 else 0) + (if logged_in u (w_db w) then 0 else (1 :: nat))"
    using login_step_goes(3) [OF ok t, of u] keeps(3) [of u] by auto
qed

lemma won_count: "sum_list (map (\<lambda>t. if P t then 1 else 0) ts) = length (filter P ts)"
  by (induction ts) auto

text \<open>C38. Of any number of logins of any users that run at the same time, whatever order their
  statements come in and whatever fails, at most one succeeds for each user, and none for a user who
  has a session.\<close>

theorem at_most_one_login:
  assumes "schema_ok (w_db w)" and "list_all (\<lambda>t. lc_pc t = LookUp) ts"
    and "take_turns login_step is (ts, w) = (ts', w')"
  shows "length (filter (login_won u) ts') \<le> (if logged_in u (w_db w) then 0 else 1)"
proof -
  have "\<forall>t \<in> set ts. login_fine w t" using assms(2) by (auto simp: list_all_iff login_fine_def)
  from logins.turns_keep [OF assms(1) this assms(3), of u]
  have "length (filter (login_won u) ts') \<le> length (filter (login_won u) ts) + (if logged_in u (w_db w) then 0 else 1)"
    by (simp only: won_count) linarith
  moreover have "filter (login_won u) ts = []"
    using assms(2) by (auto simp: filter_empty_conv list_all_iff login_won_def)
  ultimately show ?thesis by simp
qed

theorem at_most_one_login_witness:
  "length (filter (login_won ''u1'') (fst (take_turns login_step [0, 1, 0, 1, 1, 0]
     ([login_call sample_auth ''s1'' ''u1'' ''Secret-12'', login_call sample_auth ''s2'' ''u1'' ''Secret-12''],
      sample_member)))) \<le> 1"
  using at_most_one_login [of sample_member
      "[login_call sample_auth ''s1'' ''u1'' ''Secret-12'', login_call sample_auth ''s2'' ''u1'' ''Secret-12'']"
      "[0, 1, 0, 1, 1, 0]" _ _ "''u1''", OF _ _ prod.collapse [symmetric]]
  by (simp add: login_call_def split: if_splits)

section \<open>Openings of accounts\<close>

datatype open_pc =
    Counting \<comment> \<open>\<^verbatim>\<open>FindAccountsByUserId\<close> and the limit\<close>
  | Adding \<comment> \<open>\<^verbatim>\<open>InsertAccount\<close>\<close>
  | OpenDone "Account result"

record open_call =
  oc_env :: db_env
  oc_newId :: string
  oc_userId :: string
  oc_currency :: string
  oc_pc :: open_pc

definition open_step :: "open_call \<Rightarrow> database \<Rightarrow> open_call \<times> database" where
  "open_step t db =
     (case oc_pc t of
        Counting \<Rightarrow>
          if oc_userId t = [] then (t\<lparr>oc_pc := OpenDone (Inl (errorf ''userId is required to open an account''))\<rparr>, db)
          else if oc_currency t = [] then (t\<lparr>oc_pc := OpenDone (Inl (errorf ''currency is required to open an account''))\<rparr>, db)
          else
            (case FindAccountsByUserId (oc_env t) (oc_userId t) db of
               (Inl err, db) \<Rightarrow>
                 (t\<lparr>oc_pc := OpenDone (Inl (wrapf ''failed to check existing accounts for user %s: %w'' err))\<rparr>, db)
             | (Inr alreadyOpenedAccounts, db) \<Rightarrow>
                 if \<not> canOpenNewAccounts alreadyOpenedAccounts (oc_currency t)
                 then (t\<lparr>oc_pc := OpenDone (Inl (errorf ''cannot create more than three accounts on currency: %s''))\<rparr>, db)
                 else (t\<lparr>oc_pc := Adding\<rparr>, db))
      | Adding \<Rightarrow>
          (case InsertAccount (oc_env t) (oc_newId t) (oc_userId t) (oc_currency t) db of
             (Inl err, db) \<Rightarrow> (t\<lparr>oc_pc := OpenDone (Inl (wrapf ''failed to open account for user %s: %w'' err))\<rparr>, db)
           | (Inr account, db) \<Rightarrow> (t\<lparr>oc_pc := OpenDone (Inr (account_of_model (am_Balance account) account))\<rparr>, db))
      | OpenDone r \<Rightarrow> (t, db))"

definition open_call :: "db_env \<Rightarrow> string \<Rightarrow> string \<Rightarrow> string \<Rightarrow> open_call" where
  "open_call e newId userId currency =
     \<lparr>oc_env = e, oc_newId = newId, oc_userId = userId, oc_currency = currency, oc_pc = Counting\<rparr>"

text \<open>Two turns in a row are a call of \<^verbatim>\<open>OpenAccount\<close>.\<close>

lemma open_alone:
  "take_turns open_step [0, 0] ([open_call e newId userId currency], db) =
     (let (r, db') = OpenAccount e newId userId currency db
      in ([(open_call e newId userId currency)\<lparr>oc_pc := OpenDone r\<rparr>], db'))"
proof (cases "userId = [] \<or> currency = []")
  case True
  then show ?thesis by (auto simp: open_call_def open_step_def OpenAccount_def)
next
  case False
  obtain r1 db1 where f: "FindAccountsByUserId e userId db = (r1, db1)" by fastforce
  obtain r2 db2 where i: "InsertAccount e newId userId currency db1 = (r2, db2)" by fastforce
  show ?thesis
    using False f i by (cases r1; cases r2) (auto simp: open_call_def open_step_def OpenAccount_def)
qed

lemma open_step_state:
  "snd (open_step t db) = db \<or>
   (oc_pc t = Adding \<and> oc_newId t \<notin> set (keys am_ID (accounts db)) \<and> oc_userId t \<in> set (keys um_ID (users db)) \<and>
    snd (open_step t db) =
      db\<lparr>accounts := accounts db @ [new_account (oc_newId t) (oc_userId t) (oc_currency t) (env_now (oc_env t) InsertAccountC)]\<rparr>)"
proof (cases "oc_pc t")
  case Counting
  have "snd (FindAccountsByUserId (oc_env t) (oc_userId t) db) = db"
    by (simp add: FindAccountsByUserId_def autocommit_def split: io.split)
  then obtain r where "FindAccountsByUserId (oc_env t) (oc_userId t) db = (r, db)" by (metis prod.collapse)
  with Counting show ?thesis by (cases r) (simp_all add: open_step_def)
next
  case Adding
  have "snd (open_step t db) = snd (InsertAccount (oc_env t) (oc_newId t) (oc_userId t) (oc_currency t) db)"
    using Adding by (simp add: open_step_def split: prod.split sum.split)
  then show ?thesis
    using Adding by (auto simp: InsertAccount_def autocommit_def sql_insert_account_def new_account_def Let_def
        split: io.split)
qed (simp add: open_step_def)

lemma open_step_done: "oc_pc t = Adding \<Longrightarrow> \<exists>r. oc_pc (fst (open_step t db)) = OpenDone r"
  by (auto simp: open_step_def split: prod.splits sum.splits)

lemma open_step_started:
  "oc_pc t = OpenDone r \<Longrightarrow> open_step t db = (t, db)"
  by (simp add: open_step_def)

text \<open>Openings that take turns keep the ledger, and each adds at most one account.\<close>

interpretation openings: turns open_step "\<lambda>db. schema_ok db \<and> books_balanced db" "\<lambda>_ _. True"
  "\<lambda>t. case oc_pc t of OpenDone r \<Rightarrow> 0 | _ \<Rightarrow> 1" "opened u c"
  for u c
proof
  fix db t
  assume inv: "schema_ok db \<and> books_balanced db"
  show "schema_ok (snd (open_step t db)) \<and> books_balanced (snd (open_step t db))"
    using open_step_state [of t db] new_account_ledger [of db "oc_newId t" "oc_userId t"] inv by (elim disjE) auto
  show "(case oc_pc (fst (open_step t db)) of OpenDone r \<Rightarrow> 0 | _ \<Rightarrow> 1) + opened u c (snd (open_step t db)) \<le>
      (case oc_pc t of OpenDone r \<Rightarrow> 0 | _ \<Rightarrow> 1) + opened u c db"
    using open_step_state [of t db]
  proof (elim disjE conjE)
    assume "snd (open_step t db) = db"
    then show ?thesis by (cases "oc_pc t") (auto simp: open_step_started split: open_pc.splits)
  next
    assume a: "oc_pc t = Adding" and db': "snd (open_step t db) = db\<lparr>accounts := accounts db @ [new_account (oc_newId t)
      (oc_userId t) (oc_currency t) (env_now (oc_env t) InsertAccountC)]\<rparr>"
    obtain r where "oc_pc (fst (open_step t db)) = OpenDone r" using open_step_done [OF a] by blast
    then show ?thesis using a by (simp add: db' opened_def)
  qed
qed simp_all

section \<open>The limit of three accounts is a race\<close>

text \<open>One turn each, in order.\<close>

fun one_round :: "('t \<Rightarrow> 's \<Rightarrow> 't \<times> 's) \<Rightarrow> 't list \<Rightarrow> 's \<Rightarrow> 't list \<times> 's" where
  "one_round step [] s = ([], s)"
| "one_round step (t # ts) s =
     (let (t', s') = step t s; (ts', s'') = one_round step ts s' in (t' # ts', s''))"

lemma one_round_turns:
  "take_turns step ([length us..<length us + length ts] @ is) (us @ ts, s) =
     take_turns step is (let (ts', s') = one_round step ts s in (us @ ts', s'))"
proof (induction ts arbitrary: us s)
  case (Cons t ts)
  obtain t' s' where st: "step t s = (t', s')" by fastforce
  have r: "[length us..<length us + length (t # ts)] = length us # [length (us @ [t'])..<length (us @ [t']) + length ts]"
    by (simp add: upt_conv_Cons del: upt_Suc)
  show ?case
    unfolding r using Cons.IH [of "us @ [t']" s'] st by (simp add: split_beta Let_def del: upt_Suc)
qed simp

lemma round_of_reads:
  assumes "\<And>t. t \<in> set ts \<Longrightarrow> step t s = (f t, s)"
  shows "one_round step ts s = (map f ts, s)"
  using assms by (induction ts) auto

lemma counting_step:
  assumes "oc_pc t = Counting" and "oc_userId t \<noteq> []" and "oc_currency t \<noteq> []" and "call_up FindAccountsByUserIdC (oc_env t)"
    and "opened (oc_userId t) (oc_currency t) db < 3"
  shows "open_step t db = (t\<lparr>oc_pc := Adding\<rparr>, db)"
  using assms
  by (simp add: open_step_def FindAccountsByUserId_def autocommit_def call_up_def canOpen_opened)

lemma adding_round:
  assumes "\<And>t. t \<in> set ts \<Longrightarrow> oc_pc t = Adding \<and> call_up InsertAccountC (oc_env t) \<and> oc_userId t = uid \<and> oc_currency t = cur"
    and "distinct (map oc_newId ts)" and "set (map oc_newId ts) \<inter> set (keys am_ID (accounts db)) = {}"
    and "uid \<in> set (keys um_ID (users db))"
  shows "opened uid cur (snd (one_round open_step ts db)) = opened uid cur db + length ts"
  using assms
proof (induction ts arbitrary: db)
  case (Cons t ts)
  let ?db = "db\<lparr>accounts := accounts db @ [new_account (oc_newId t) uid cur (env_now (oc_env t) InsertAccountC)]\<rparr>"
  have t: "oc_pc t = Adding" "call_up InsertAccountC (oc_env t)" "oc_userId t = uid" "oc_currency t = cur"
    using Cons.prems(1) [of t] by simp_all
  have st: "snd (open_step t db) = ?db"
    using t Cons.prems(3,4)
    by (simp add: open_step_def InsertAccount_def autocommit_def call_up_def sql_insert_account_def new_account_def Let_def)
  have "opened uid cur (snd (one_round open_step ts ?db)) = opened uid cur ?db + length ts"
    using Cons.prems by (intro Cons.IH) (auto simp: new_account_def)
  then show ?case by (simp add: split_beta st opened_def new_account_def)
qed simp

text \<open>C36. Any number of openings for a user with fewer than three accounts in the currency, made at
  the same time so that each counts before one of them inserts, all add their account: the limit of
  three is exceeded by as many as there are.\<close>

theorem opening_race:
  assumes "opened uid cur db < 3" and "uid \<in> set (keys um_ID (users db))" and "uid \<noteq> []" and "cur \<noteq> []"
    and "distinct ids" and "set ids \<inter> set (keys am_ID (accounts db)) = {}"
    and "call_up FindAccountsByUserIdC e" and "call_up InsertAccountC e"
  shows "opened uid cur (snd (take_turns open_step ([0..<length ids] @ [0..<length ids])
    (map (\<lambda>newId. open_call e newId uid cur) ids, db))) = opened uid cur db + length ids"
proof -
  let ?ts = "map (\<lambda>newId. open_call e newId uid cur) ids"
  let ?us = "map (\<lambda>t. t\<lparr>oc_pc := Adding\<rparr>) ?ts"
  have one: "one_round open_step ?ts db = (?us, db)"
    by (rule round_of_reads) (use assms in \<open>auto simp: open_call_def intro!: counting_step\<close>)
  have "take_turns open_step ([0..<length ids] @ [0..<length ids]) (?ts, db) =
      take_turns open_step [0..<length ids] (?us, db)"
    using one_round_turns [of open_step "[]" ?ts "[0..<length ids]" db] one by simp
  also have "\<dots> = one_round open_step ?us db"
    using one_round_turns [of open_step "[]" ?us "[]" db] by simp
  also have "opened uid cur (snd (one_round open_step ?us db)) = opened uid cur db + length ?us"
    by (rule adding_round) (use assms in \<open>auto simp: open_call_def comp_def\<close>)
  finally show ?thesis by simp
qed

theorem opening_race_witness:
  "opened ''u1'' ''USD'' (snd (take_turns open_step ([0..<4] @ [0..<4])
     (map (\<lambda>newId. open_call (healthy 5) newId ''u1'' ''USD'') [''a3'', ''a4'', ''a5'', ''a6''], sample_db))) = 5"
proof -
  have "opened ''u1'' ''USD'' sample_db = 1" by (simp add: opened_def fixture_defs)
  moreover have "''u1'' \<in> set (keys um_ID (users sample_db))"
    "set [''a3'', ''a4'', ''a5'', ''a6''] \<inter> set (keys am_ID (accounts sample_db)) = {}"
    by (simp_all add: fixture_defs)
  ultimately show ?thesis
    using opening_race [of "''u1''" "''USD''" sample_db "[''a3'', ''a4'', ''a5'', ''a6'']" "healthy 5"]
    by (simp add: call_up_def eval_nat_numeral del: upt_Suc upt_rec_numeral)
qed

end
