(* ===== verification/RequestRaces.thy ===== *)
theory RequestRaces
  imports LockCycle Races
begin

text \<open>
  Requests for the same user and account that arrive at once: \<^verbatim>\<open>OutboxInsert\<close> cut at its commands, the
  check in Redis, the fallback query, the insert and the release after a failed insert, with the calls
  taking turns in any order. While Redis answers, the check decides and at most one request is accepted.
  When Redis does not answer, the query that replaces it sees a request only after the consumer has taken it up.
\<close>

section \<open>Calls\<close>

datatype insert_pc =
    AtCheck \<comment> \<open>\<^verbatim>\<open>TransactionIdempotencyCheck\<close>\<close>
  | AtFallback \<comment> \<open>\<^verbatim>\<open>outboxIdempotencyCheck\<close>\<close>
  | AtInsert
  | AtRelease error \<comment> \<open>\<^verbatim>\<open>TransactionIdempotencyRelease\<close>\<close>
  | InsertDone "unit result"

record insert_call =
  ic_env :: db_env
  ic_oid :: string
  ic_cfg :: OutboxInsertConfig
  ic_pc :: insert_pc

abbreviation ic_key :: "insert_call \<Rightarrow> string" where
  "ic_key t \<equiv> request_key (ic_cfg t)"

definition insert_step :: "'r redis_client \<Rightarrow> insert_call \<Rightarrow> 'r world \<Rightarrow> insert_call \<times> 'r world" where
  "insert_step R t w =
     (case ic_pc t of
        AtCheck \<Rightarrow>
          (case on_ch (TransactionIdempotencyCheck R (ic_key t)) w of
             (Inl err, w) \<Rightarrow> (t\<lparr>ic_pc := AtFallback\<rparr>, w)
           | (Inr ok, w) \<Rightarrow>
               if \<not> ok then (t\<lparr>ic_pc := InsertDone (Inl (errorf ''Transaction is already in progress for operator %s''))\<rparr>, w)
               else (t\<lparr>ic_pc := AtInsert\<rparr>, w))
      | AtFallback \<Rightarrow>
          (case on_db (outboxIdempotencyCheck (ic_env t) (ic_key t)) w of
             (Inl pgErr, w) \<Rightarrow> (t\<lparr>ic_pc := AtInsert\<rparr>, w)
           | (Inr inProgress, w) \<Rightarrow>
               if inProgress
               then (t\<lparr>ic_pc := InsertDone (Inl (errorf ''A transaction is already in progress for operator %s''))\<rparr>, w)
               else (t\<lparr>ic_pc := AtInsert\<rparr>, w))
      | AtInsert \<Rightarrow>
          (case on_db (autocommit (env_io (ic_env t) OutboxInsertC (Stmt 1))
                  (sql_insert_outbox (new_outbox_row (ic_oid t) (ic_cfg t) (ic_key t) (env_now (ic_env t) OutboxInsertC)))) w of
             (Inl err, w) \<Rightarrow> (t\<lparr>ic_pc := AtRelease err\<rparr>, w)
           | (Inr _, w) \<Rightarrow> (t\<lparr>ic_pc := InsertDone (Inr ())\<rparr>, w))
      | AtRelease err \<Rightarrow>
          (t\<lparr>ic_pc := InsertDone (Inl
               (wrapf ''Failed to insert outbox with aggregateType:%s, aggregateId:%s in DB: %w'' err))\<rparr>,
           snd (on_ch (TransactionIdempotencyRelease R (ic_key t)) w))
      | InsertDone r \<Rightarrow> (t, w))"

definition insert_start :: "db_env \<Rightarrow> string \<Rightarrow> OutboxInsertConfig \<Rightarrow> insert_call" where
  "insert_start e oid cfg = \<lparr>ic_env = e, ic_oid = oid, ic_cfg = cfg, ic_pc = AtCheck\<rparr>"

text \<open>Four turns in a row are a call of \<^verbatim>\<open>OutboxInsert\<close>.\<close>

lemma write_turns:
  assumes "ic_pc t = AtInsert"
  shows "take_turns (insert_step R) [0, 0] ([t], w) =
    (let (r, w') = outbox_write R (ic_env t) (ic_oid t) (ic_cfg t) (ic_key t) w in ([t\<lparr>ic_pc := InsertDone r\<rparr>], w'))"
  using assms by (auto simp: insert_step_def outbox_write_def Let_def split_beta split: prod.splits sum.splits)

lemma insert_step_done [simp]: "insert_step R (t\<lparr>ic_pc := InsertDone r\<rparr>) w = (t\<lparr>ic_pc := InsertDone r\<rparr>, w)"
  by (simp add: insert_step_def)

lemma done_turns: "ic_pc t = InsertDone r \<Longrightarrow> take_turns (insert_step R) (replicate n 0) ([t], w) = ([t], w)"
  by (induction n) (simp_all add: insert_step_def)

lemma take_turns_append:
  "take_turns step (is @ js) c = take_turns step js (take_turns step is c)"
  by (induction "is" arbitrary: c) (auto simp: split_beta)

lemma insert_alone:
  "take_turns (insert_step R) [0, 0, 0, 0] ([insert_start e oid cfg], w) =
     (let (r, w') = OutboxInsert R e oid cfg w in ([(insert_start e oid cfg)\<lparr>ic_pc := InsertDone r\<rparr>], w'))"
proof -
  let ?t = "insert_start e oid cfg"
  let ?turns = "\<lambda>n t w. take_turns (insert_step R) (replicate n 0) ([t], w)"
  have ins: "?turns (Suc (Suc n)) (?t\<lparr>ic_pc := AtInsert\<rparr>) w1 =
      (let (r, w') = outbox_write R e oid cfg (request_key cfg) w1 in ([?t\<lparr>ic_pc := InsertDone r\<rparr>], w'))" for n w1
    using write_turns [of "?t\<lparr>ic_pc := AtInsert\<rparr>" R w1] done_turns [of _ _ R n]
      take_turns_append [of "insert_step R" "[0, 0]" "replicate n 0"]
    by (simp add: insert_start_def Let_def split_beta)
  obtain ok w1 where c: "on_ch (TransactionIdempotencyCheck R (request_key cfg)) w = (ok, w1)" by fastforce
  obtain prog w2 where f: "on_db (outboxIdempotencyCheck e (request_key cfg)) w1 = (prog, w2)" by fastforce
  have four: "[0, 0, 0, 0] = replicate 4 (0 :: nat)" "(4 :: nat) = Suc (Suc (Suc (Suc 0)))" by (simp_all add: eval_nat_numeral)
  have first: "?turns 4 ?t w = (case ok of Inl err \<Rightarrow> ?turns 3 (?t\<lparr>ic_pc := AtFallback\<rparr>) w1
      | Inr b \<Rightarrow> if b then ?turns 3 (?t\<lparr>ic_pc := AtInsert\<rparr>) w1
          else ?turns 3 (?t\<lparr>ic_pc := InsertDone (Inl (errorf ''Transaction is already in progress for operator %s''))\<rparr>) w1)"
    using c by (simp add: four(2) numeral_3_eq_3 insert_start_def insert_step_def split: sum.split)
  have second: "?turns 3 (?t\<lparr>ic_pc := AtFallback\<rparr>) w1 = (case prog of Inl err \<Rightarrow> ?turns 2 (?t\<lparr>ic_pc := AtInsert\<rparr>) w2
      | Inr b \<Rightarrow> if b then ?turns 2 (?t\<lparr>ic_pc := InsertDone (Inl (errorf ''A transaction is already in progress for operator %s''))\<rparr>) w2
          else ?turns 2 (?t\<lparr>ic_pc := AtInsert\<rparr>) w2)"
    using f by (simp add: numeral_3_eq_3 numeral_2_eq_2 insert_start_def insert_step_def split: sum.split)
  show ?thesis
    unfolding four(1) first second using c f ins [of 1] ins [of 0]
    by (auto simp: OutboxInsert_def Let_def numeral_3_eq_3 numeral_2_eq_2 done_turns split: sum.split)
qed

section \<open>One winner while Redis answers\<close>

locale answering_redis = redis_laws R look
  for R :: "'r redis_client" and look :: "'r \<Rightarrow> string \<Rightarrow> redis_value option" +
  fixes up :: "'r \<Rightarrow> bool"
  assumes setnx_answers: "up r \<Longrightarrow> \<exists>b r'. redis_SetNX R k v ttl r = (Inr b, r') \<and> up r'"
    and del_answers: "up r \<Longrightarrow> \<exists>r'. redis_Del R k r = (Inr (), r') \<and> up r'"
begin

lemma check_answers: "up r \<Longrightarrow> \<exists>b r'. TransactionIdempotencyCheck R x r = (Inr b, r') \<and> up r'"
  using setnx_answers unfolding check_Inr by blast

lemma release_answers: "up r \<Longrightarrow> \<exists>r'. TransactionIdempotencyRelease R x r = (Inr (), r') \<and> up r'"
  using del_answers unfolding release_Inr by blast

end

text \<open>A call that has the lock of \<open>key\<close> or was accepted with it.\<close>

definition has_lock :: "string \<Rightarrow> insert_call \<Rightarrow> bool" where
  "has_lock key t \<longleftrightarrow> ic_key t = key \<and>
     (case ic_pc t of AtInsert \<Rightarrow> True | AtRelease err \<Rightarrow> True | InsertDone r \<Rightarrow> \<not> isl r | _ \<Rightarrow> False)"

definition accepted :: "string \<Rightarrow> insert_call \<Rightarrow> bool" where
  "accepted key t \<longleftrightarrow> ic_key t = key \<and> (case ic_pc t of InsertDone r \<Rightarrow> \<not> isl r | _ \<Rightarrow> False)"

lemma lock_key_inject [simp]: "cache_idempotencyKey x = cache_idempotencyKey y \<longleftrightarrow> x = y"
  by (simp add: cache_idempotencyKey_def)

context answering_redis
begin

text \<open>What a step does to the cache and to the call that takes it.\<close>

lemma insert_step_answered:
  assumes "up (w_ch w)" and "ic_pc t \<noteq> AtFallback"
  shows "up (w_ch (snd (insert_step R t w)))" and "ic_pc (fst (insert_step R t w)) \<noteq> AtFallback"
    and "(if has_lock key (fst (insert_step R t w)) then 1 else 0) +
        (if look (w_ch (snd (insert_step R t w))) (cache_idempotencyKey key) = None then 1 else 0) \<le>
      (if has_lock key t then 1 else 0) + (if look (w_ch w) (cache_idempotencyKey key) = None then 1 else (0 :: nat))"
proof -
  have "up (w_ch (snd (insert_step R t w))) \<and> ic_pc (fst (insert_step R t w)) \<noteq> AtFallback \<and>
    (if has_lock key (fst (insert_step R t w)) then 1 else 0) +
        (if look (w_ch (snd (insert_step R t w))) (cache_idempotencyKey key) = None then 1 else 0) \<le>
      (if has_lock key t then 1 else 0) + (if look (w_ch w) (cache_idempotencyKey key) = None then 1 else (0 :: nat))"
  proof (cases "ic_pc t")
    case AtCheck
    obtain b r where c: "TransactionIdempotencyCheck R (ic_key t) (w_ch w) = (Inr b, r)" "up r"
      using check_answers [OF assms(1)] by blast
    show ?thesis
    proof (cases b)
      case True
      with c check_acquires [of "ic_key t" "w_ch w" r] AtCheck show ?thesis
        by (simp add: insert_step_def on_ch_def has_lock_def)
    next
      case False
      with c check_refuses [of "ic_key t" "w_ch w" r] AtCheck show ?thesis
        by (simp add: insert_step_def on_ch_def has_lock_def)
    qed
  next
    case AtInsert
    then show ?thesis
      using assms(1) by (auto simp: insert_step_def on_db_def has_lock_def split_beta split: sum.splits)
  next
    case (AtRelease err)
    obtain r where c: "TransactionIdempotencyRelease R (ic_key t) (w_ch w) = (Inr (), r)" "up r"
      using release_answers [OF assms(1)] by blast
    with release_frees [OF c(1)] AtRelease show ?thesis
      by (simp add: insert_step_def on_ch_def has_lock_def)
  next
    case (InsertDone r)
    then show ?thesis using assms by (simp add: insert_step_def)
  qed (use assms(2) in simp)
  then show "up (w_ch (snd (insert_step R t w)))" and "ic_pc (fst (insert_step R t w)) \<noteq> AtFallback"
    and "(if has_lock key (fst (insert_step R t w)) then 1 else 0) +
        (if look (w_ch (snd (insert_step R t w))) (cache_idempotencyKey key) = None then 1 else 0) \<le>
      (if has_lock key t then 1 else 0) + (if look (w_ch w) (cache_idempotencyKey key) = None then 1 else (0 :: nat))"
    by blast+
qed

end

sublocale answering_redis \<subseteq> inserts: turns "insert_step R" "\<lambda>w. up (w_ch w)" "\<lambda>w t. ic_pc t \<noteq> AtFallback"
  "\<lambda>t. if has_lock key t then 1 else 0" "\<lambda>w. if look (w_ch w) (cache_idempotencyKey key) = None then 1 else 0"
  for key
  by unfold_locales (simp_all add: insert_step_answered)

context answering_redis
begin

lemma one_insert:
  assumes "up (w_ch w)" and "list_all (\<lambda>t. ic_pc t = AtCheck) ts" and "take_turns (insert_step R) is (ts, w) = (ts', w')"
  shows "length (filter (accepted key) ts') \<le> (if look (w_ch w) (cache_idempotencyKey key) = None then 1 else 0)"
proof -
  have none: "\<forall>t \<in> set ts. ic_pc t \<noteq> AtFallback" "filter (has_lock key) ts = []"
    using assms(2) by (auto simp: list_all_iff filter_empty_conv has_lock_def)
  have "filter (accepted key) ts' = filter (accepted key) (filter (has_lock key) ts')"
    by (auto intro!: filter_cong simp: accepted_def has_lock_def split: insert_pc.splits)
  then have "length (filter (accepted key) ts') \<le> length (filter (has_lock key) ts')" by (metis length_filter_le)
  also have "\<dots> \<le> (if look (w_ch w) (cache_idempotencyKey key) = None then 1 else 0)"
    using inserts.turns_keep [OF assms(1) none(1) assms(3), of key] none(2) by (simp only: won_count) simp
  finally show ?thesis .
qed

end

interpretation ref_up: answering_redis redis_ref rr_look "\<lambda>r. rr_faults r = []"
proof unfold_locales
  fix r :: ref_redis and k v ttl
  assume "rr_faults r = []"
  then show "\<exists>b r'. redis_SetNX redis_ref k v ttl r = (Inr b, r') \<and> rr_faults r' = []"
    by (auto simp: redis_ref_def rr_command_def rr_put_def)
next
  fix r :: ref_redis and k
  assume "rr_faults r = []"
  then show "\<exists>r'. redis_Del redis_ref k r = (Inr (), r') \<and> rr_faults r' = []"
    by (simp add: redis_ref_def rr_command_def rr_drop_def)
qed

text \<open>C25. Of any number of requests of a user for an account that arrive at the same time, whatever order their
  commands come in and whatever fails in the database, at most one is accepted while Redis answers, and none if
  the lock is held when they arrive.\<close>

theorem at_most_one_request:
  assumes "answering_redis R look up" and "up (w_ch w)" and "list_all (\<lambda>t. ic_pc t = AtCheck) ts"
    and "take_turns (insert_step R) is (ts, w) = (ts', w')"
  shows "length (filter (accepted key) ts') \<le> (if look (w_ch w) (cache_idempotencyKey key) = None then 1 else 0)"
  by (rule answering_redis.one_insert [OF assms])

text \<open>Two requests for the account \<open>a1\<close>: the first takes the lock, and its row is written after the second was
  refused.\<close>

theorem at_most_one_request_witness:
  "length (filter (accepted (request_key sample_cfg)) (fst (take_turns (insert_step redis_ref) [0, 1, 0]
     ([insert_start (healthy 7) ''o1'' sample_cfg, insert_start (healthy 8) ''o2'' second_cfg], sample)))) \<le> 1"
proof -
  have "rr_faults (w_ch sample) = []" by code_simp
  from at_most_one_request [OF ref_up.answering_redis_axioms this, of
      "[insert_start (healthy 7) ''o1'' sample_cfg, insert_start (healthy 8) ''o2'' second_cfg]" "[0, 1, 0]"
      _ _ "request_key sample_cfg", OF _ prod.collapse [symmetric]]
  show ?thesis by (simp add: insert_start_def split: if_splits)
qed

section \<open>Without Redis\<close>

text \<open>C35. When Redis does not answer the check, a second request for the same user and account is accepted although
  the first one is still in the outbox: the query that is meant to replace the lock joins the table of
  transactions, which has no row of a request until the consumer takes it up.\<close>

theorem fallback_misses_waiting:
  assumes "OutboxInsert R e oid cfg w = (Inr u, w1)"
    and "oc_AggregateId cfg \<notin> set (keys tm_ID (transactions (w_db w)))"
    and "\<forall>r \<in> set (transaction_outbox (w_db w)). om_IdempotencyKey r \<noteq> request_key cfg"
    and "request_key cfg' = request_key cfg"
    and "TransactionIdempotencyCheck R (request_key cfg) (w_ch w1) = (Inl err, c)" and "call_up OutboxInsertC e'"
    and "oid' \<notin> set (keys om_ID (transaction_outbox (w_db w1)))"
    and "oc_AggregateId cfg' \<notin> set (keys om_AggregateId (transaction_outbox (w_db w1)))"
  shows "\<exists>w2. OutboxInsert R e' oid' cfg' w1 = (Inr (), w2) \<and>
    (\<exists>r r'. r \<noteq> r' \<and> {r, r'} \<subseteq> set (transaction_outbox (w_db w2)) \<and>
       om_IdempotencyKey r = request_key cfg \<and> om_IdempotencyKey r' = request_key cfg \<and>
       om_Status r = OutboxStatusPending \<and> om_Status r' = OutboxStatusPending)"
proof -
  let ?row = "new_outbox_row oid cfg (request_key cfg) (env_now e OutboxInsertC)"
  let ?row' = "new_outbox_row oid' cfg' (request_key cfg) (env_now e' OutboxInsertC)"
  have db: "w_db w1 = (w_db w)\<lparr>transaction_outbox := transaction_outbox (w_db w) @ [?row]\<rparr>"
    using insert_appended [OF assms(1)] by simp
  have "outboxIdempotencyCheck e' (request_key cfg) (w_db w1) = (Inr False, w_db w1)"
    using assms(2,3,6)
    by (auto simp: outboxIdempotencyCheck_def autocommit_def call_up_def db new_outbox_row_def set_keys)
  moreover have "outbox_write R e' oid' cfg' (request_key cfg) (w1\<lparr>w_ch := c\<rparr>) =
      (Inr (), w1\<lparr>w_ch := c, w_db := (w_db w1)\<lparr>transaction_outbox := transaction_outbox (w_db w1) @ [?row']\<rparr>\<rparr>)"
    using assms(6-8) by (simp add: outbox_write_def on_db_def autocommit_def sql_insert_outbox_def call_up_def
        new_outbox_row_def)
  ultimately have "OutboxInsert R e' oid' cfg' w1 =
      (Inr (), w1\<lparr>w_ch := c, w_db := (w_db w1)\<lparr>transaction_outbox := transaction_outbox (w_db w1) @ [?row']\<rparr>\<rparr>)"
    using assms(4,5) by (simp add: OutboxInsert_def on_ch_def on_db_def Let_def)
  moreover have "om_ID ?row \<noteq> om_ID ?row'" using assms(7) by (auto simp: db new_outbox_row_def)
  then have "?row \<noteq> ?row'" by metis
  ultimately show ?thesis
    by (intro exI [of _ "w1\<lparr>w_ch := c, w_db := (w_db w1)\<lparr>transaction_outbox := transaction_outbox (w_db w1) @ [?row']\<rparr>\<rparr>"]
        exI [of _ ?row] exI [of _ ?row'] conjI) (simp_all add: db, simp_all add: new_outbox_row_def)
qed

theorem fallback_misses_waiting_witness:
  "\<exists>w1 w2. OutboxInsert redis_ref (healthy 7) ''o1'' sample_cfg (sample\<lparr>w_ch := rr_empty\<lparr>rr_faults := [IoOk, IoErr]\<rparr>\<rparr>) = (Inr (), w1) \<and>
     OutboxInsert redis_ref (healthy 8) ''o2'' second_cfg w1 = (Inr (), w2)"
proof -
  let ?w = "sample\<lparr>w_ch := rr_empty\<lparr>rr_faults := [IoOk, IoErr]\<rparr>\<rparr>"
  let ?run = "OutboxInsert redis_ref (healthy 7) ''o1'' sample_cfg ?w"
  have "fst ?run = Inr ()" by code_simp
  then obtain w1 where run: "?run = (Inr (), w1)" by (metis prod.collapse)
  have "isl (fst (TransactionIdempotencyCheck redis_ref (request_key sample_cfg) (w_ch (snd ?run))))" by code_simp
  then obtain err where "fst (TransactionIdempotencyCheck redis_ref (request_key sample_cfg) (w_ch w1)) = Inl err"
    unfolding run snd_conv isl_def by blast
  then have chk: "TransactionIdempotencyCheck redis_ref (request_key sample_cfg) (w_ch w1) =
      (Inl err, snd (TransactionIdempotencyCheck redis_ref (request_key sample_cfg) (w_ch w1)))"
    by (simp add: prod_eq_iff)
  have new: "''o2'' \<notin> set (keys om_ID (transaction_outbox (w_db w1)))"
    "oc_AggregateId second_cfg \<notin> set (keys om_AggregateId (transaction_outbox (w_db w1)))"
    using insert_appended [OF run] by (simp_all add: new_outbox_row_def sample_cfg_def second_cfg_def sample_db_def)
  have free: "oc_AggregateId sample_cfg \<notin> set (keys tm_ID (transactions (w_db ?w)))"
    "\<forall>r \<in> set (transaction_outbox (w_db ?w)). om_IdempotencyKey r \<noteq> request_key sample_cfg"
    by code_simp+
  have "request_key second_cfg = request_key sample_cfg" by (simp add: second_cfg_def)
  from fallback_misses_waiting [OF run free this chk _ new, of "healthy 8"] run show ?thesis
    by (auto simp: call_up_def)
qed

text \<open>And a request that came that way releases a lock it does not have when its insert fails.\<close>

lemma foreign_lock_released:
  assumes "redis_laws R look" and "TransactionIdempotencyCheck R (request_key cfg) (w_ch w) = (Inl err, c)"
    and "isl (fst (outboxIdempotencyCheck e (request_key cfg) (w_db w)))"
    and "env_io e OutboxInsertC (Stmt 1) = IoErr" and "redis_Del R (cache_idempotencyKey (request_key cfg)) c = (Inr (), c')"
  shows "look (w_ch (snd (OutboxInsert R e oid cfg w))) (cache_idempotencyKey (request_key cfg)) = None"
proof -
  have "TransactionIdempotencyRelease R (request_key cfg) c = (Inr (), c')" using assms(5) by (simp add: release_Inr)
  moreover have "w_ch (snd (OutboxInsert R e oid cfg w)) = snd (TransactionIdempotencyRelease R (request_key cfg) c)"
    using assms(2-4) by (cases "fst (outboxIdempotencyCheck e (request_key cfg) (w_db w))")
      (simp_all add: OutboxInsert_def on_ch_def on_db_def Let_def outbox_write_def autocommit_def split_beta)
  ultimately show ?thesis using redis_laws.release_frees [OF assms(1)] by simp
qed

end
