(* ===== verification/Refunds.thy ===== *)
theory Refunds
  imports Redelivery
begin

text \<open>
  A completed withdrawal whose event is delivered once more. \<^verbatim>\<open>withdraw\<close> looks at the balance before it looks at the
  row: on an account that has come to hold more than 600000 it sets the row to failed, although the money was
  paid out, and the next reconciliation of the account pays it back. No fault is needed.
\<close>

text \<open>A deposit that succeeds sets the balance to the sum of the ledger, whatever the balance was.\<close>

lemma deposit_reconciles:
  assumes ok: "schema_ok (w_db w)" and amt: "fits_signed 64 amt"
    and new: "tid \<notin> set (keys tm_ID (transactions (w_db w)))"
    and res: "deposit R e tid uid acc cur amt w = (Inr r, w')"
  shows "balance_of (w_db w') acc = Some (ledger_sum acc (transactions (w_db w)) + amt)"
proof -
  let ?k = "settle_and_record R e tid uid acc ''Failed to deposit funds to account: %s, error:%w'' (DepositFunds e tid acc cur amt)"
  have pend: "pend_then e tid ''deposit'' acc acc cur amt ''Failed to create pending deposit transaction: %w'' ?k w = (Inr r, w')"
    using res by (simp add: deposit_pend split: if_splits)
  obtain db1 where go: "?k (w\<lparr>w_db := db1\<rparr>) = (Inr r, w')"
    and ins: "insert_pending e tid ''deposit'' acc acc cur amt (w_db w) = (Inr (), db1)"
    by (rule pend_then_cases [of e tid "''deposit''" acc acc cur amt
          "''Failed to create pending deposit transaction: %w''" ?k w]) (use pend in auto)
  let ?t = "new_transaction tid ''deposit'' acc acc cur amt (env_now e CreatePendingTransactionC)"
  have db1: "db1 = (w_db w)\<lparr>transactions := transactions (w_db w) @ [?t]\<rparr>"
    and acc: "acc \<in> set (keys am_ID (accounts (w_db w)))"
    using ins new by (auto simp: sql_insert_pending_Inr)
  have t: "?t \<in> set (transactions db1)" "pending_row tid ?t" by (simp_all add: db1 new_transaction_def pending_row_def)
  have ok1: "schema_ok db1" by (rule insert_pending_schema [OF ok ins amt])
  obtain m db2 where mv: "DepositFunds e tid acc cur amt db1 = (Inr m, db2)"
    and w': "w' = snd (UpdateTransactionStatus R e tid uid acc TransactionStatusCompleted (w\<lparr>w_db := db2\<rparr>))"
    using go by (cases "DepositFunds e tid acc cur amt db1"; cases "fst (DepositFunds e tid acc cur amt db1)")
      (auto simp: settle_and_record_eq Let_def)
  let ?ts = "complete_pending tid (env_now e DepositFundsC) (transactions db1)"
  have "settle_spec tid [acc] (env_now e DepositFundsC) db1 = Some db2" using dep.move_Inr [OF ok1 mv] by simp
  then have "db2 = db1\<lparr>transactions := ?ts, accounts := rebalance ?ts [acc] (env_now e DepositFundsC) (accounts db1)\<rparr>"
    using t by (auto simp: settle_spec_def Let_def split: if_splits)
  then have "balance_of db2 acc = map_option (\<lambda>_. ledger_sum acc ?ts) (balance_of db1 acc)"
    by (simp only: balance_of_rebalance) simp
  moreover have "balance_of db1 acc \<noteq> None" using acc by (simp add: balance_of_None db1)
  moreover have "ledger_sum acc ?ts = ledger_sum acc (transactions db1) + amt"
    using ledger_sum_complete [OF schema_okD(2) [OF ok1] t, of acc] by (simp add: involves_def contribution_def new_transaction_def)
  moreover have "ledger_sum acc (transactions db1) = ledger_sum acc (transactions (w_db w))"
    by (simp add: db1 ledger_sum_append ledger_sum_Cons new_transaction_def)
  ultimately have "balance_of db2 acc = Some (ledger_sum acc (transactions (w_db w)) + amt)" by auto
  moreover have "accounts (w_db w') = accounts db2"
    using status_update_db [of TransactionStatusCompleted R e tid uid acc "w\<lparr>w_db := db2\<rparr>"] w' by auto
  ultimately show ?thesis by (simp add: balance_of_def)
qed

lemma withdrawal_marked_failed:
  assumes ok: "schema_ok (w_db w)"
    and t: "t \<in> set (transactions (w_db w))" "tm_ID t = tid"
    and a: "a \<in> set (accounts (w_db w))" "am_ID a = acc" "am_UserID a = uid" "600000 < am_Balance a" "amt \<le> am_Balance a"
    and amt: "0 < amt"
    and up: "call_up FindAccountByIdC e" "call_up CreatePendingTransactionC e" "call_up UpdateTransactionStatusC e"
  shows "\<exists>err w1. withdraw R e tid uid acc amt w = (Inl err, w1) \<and>
    w_db w1 = status_set tid TransactionStatusFailed (env_now e UpdateTransactionStatusC) (w_db w)"
proof -
  have own: "fst (checkUserAccountCompatibility e uid acc (w_db w)) = Some a"
    using find_key_Some [OF schema_okD(1) [OF ok] a(1)] a(2,3) up(1) by (simp add: check_account call_up_def)
  have acc: "acc \<in> set (keys am_ID (accounts (w_db w)))" using a(1,2) by (auto simp: set_keys)
  have ins: "insert_pending e tid ''withdrawal'' acc acc (am_Currency a) amt (w_db w) = (Inr (), w_db w)"
    using t acc amt by (auto simp: sql_insert_pending_Inr transaction_type_enum_def set_keys)
  have one: "rows_where (\<lambda>x. tm_ID x = tid) (transactions (w_db w)) = 1"
    using rows_where_key_one [OF schema_okD(2) [OF ok] t(1)] t(2) by simp
  have "w_db (snd (UpdateTransactionStatus R e tid uid acc TransactionStatusFailed w)) =
      status_set tid TransactionStatusFailed (env_now e UpdateTransactionStatusC) (w_db w)"
    by (rule status_update_up [OF up(3) _ one]) simp
  then show ?thesis
    using own amt a(4,5)
    by (simp add: withdraw_pend pend_then_up [OF up(2) ins] withdraw_tail_def split_beta)
qed

text \<open>C30. Money that was withdrawn comes back: when the event of a completed withdrawal is delivered again while the
  account holds more than 600000, the row is set to failed, and the next deposit, which succeeds, raises the balance
  by its own amount and by the amount withdrawn.\<close>

theorem withdrawal_paid_back:
  assumes "schema_ok (w_db w)" and "books_balanced (w_db w)"
    and "t \<in> set (transactions (w_db w))" and "tm_ID t = tid" and "tm_Status t = TransactionStatusCompleted"
      "transaction_type t = ''withdrawal''" "tm_FromAccount t = acc" "tm_ToAccount t = acc" "tm_Amount t = amt"
    and "a \<in> set (accounts (w_db w))" and "am_ID a = acc" and "am_UserID a = uid" and "600000 < am_Balance a" and "amt \<le> am_Balance a"
    and "call_up FindAccountByIdC e" and "call_up CreatePendingTransactionC e" and "call_up UpdateTransactionStatusC e"
    and "tid' \<notin> set (keys tm_ID (transactions (w_db w)))" and "fits_signed 64 amt'"
    and "deposit R e' tid' uid' acc cur amt' (snd (withdraw R e tid uid acc amt w)) = (Inr r, w')"
  shows "isl (fst (withdraw R e tid uid acc amt w)) \<and>
    status_of (w_db (snd (withdraw R e tid uid acc amt w))) tid = Some TransactionStatusFailed \<and>
    balance_of (w_db w') acc = Some (am_Balance a + amt' + amt)"
proof -
  let ?now = "env_now e UpdateTransactionStatusC"
  have amt: "0 < amt" using schema_okD(5) [OF assms(1,3)] assms(9) by (simp add: transaction_row_ok_def)
  obtain err w1 where w1: "withdraw R e tid uid acc amt w = (Inl err, w1)"
    and db1: "w_db w1 = status_set tid TransactionStatusFailed ?now (w_db w)"
    using withdrawal_marked_failed [OF assms(1,3,4,10-14) amt assms(15-17)] by blast
  have "ledger_sum acc (transactions (w_db w1)) = ledger_sum acc (transactions (w_db w)) + amt"
    using ledger_sum_status [OF schema_okD(2) [OF assms(1)] assms(3,4), where a = acc and s = TransactionStatusFailed and now = ?now] assms(5-9)
    by (simp add: db1 status_set_def involves_def contribution_def)
  also have "ledger_sum acc (transactions (w_db w)) = am_Balance a"
    using assms(2,10,11) by (auto simp: books_balanced_def)
  finally have sum: "ledger_sum acc (transactions (w_db w1)) = am_Balance a + amt" .
  have ok1: "schema_ok (w_db w1)" unfolding db1 by (rule status_set_schema [OF assms(1)]) simp
  have new: "tid' \<notin> set (keys tm_ID (transactions (w_db w1)))"
    using assms(18) by (simp add: db1 status_set_def keys_update_where)
  have "balance_of (w_db w') acc = Some (am_Balance a + amt' + amt)"
    using deposit_reconciles [OF ok1 assms(19) new] assms(20) w1 sum by simp
  moreover have "status_of (w_db w1) tid = Some TransactionStatusFailed"
    using find_key_Some [OF schema_okD(2) [OF assms(1)] assms(3)] assms(4)
    by (simp add: db1 status_of_def status_set_def find_update_where)
  ultimately show ?thesis using w1 by simp
qed

text \<open>A withdrawal of 100 from an account with 700000 left.\<close>

definition rich_db :: database where
  "rich_db = sample_db\<lparr>accounts := [mk_account ''a1'' ''u1'' 700000],
     transactions := [mk_row ''t0'' ''deposit'' ''a1'' ''a1'' 700100 TransactionStatusCompleted,
       mk_row ''t1'' ''withdrawal'' ''a1'' ''a1'' 100 TransactionStatusCompleted]\<rparr>"

theorem withdrawal_paid_back_witness:
  "\<exists>r w'. deposit redis_ref (healthy 6) ''t2'' ''u1'' ''a1'' ''USD'' 50
      (snd (withdraw redis_ref (healthy 5) ''t1'' ''u1'' ''a1'' 100 (sample\<lparr>w_db := rich_db\<rparr>))) = (Inr r, w') \<and>
     balance_of (w_db w') ''a1'' = Some 700150"
proof -
  let ?w = "sample\<lparr>w_db := rich_db\<rparr>"
  let ?d = "deposit redis_ref (healthy 6) ''t2'' ''u1'' ''a1'' ''USD'' 50 (snd (withdraw redis_ref (healthy 5) ''t1'' ''u1'' ''a1'' 100 ?w))"
  have "\<not> isl (fst ?d)" by code_simp
  then obtain r w' where d: "?d = (Inr r, w')" by (metis prod.collapse sum.collapse(2))
  have ok: "schema_ok rich_db" "books_balanced rich_db"
    using sample_schema
    by (simp_all add: rich_db_def schema_ok_def accounts_ok_def account_row_ok_def transactions_ok_def transaction_row_ok_def
        transaction_type_enum_def fits_signed_def books_balanced_def ledger_sum_Cons involves_def contribution_def fixture_defs
        ledger_sum_def)
  have "balance_of (w_db w') ''a1'' = Some (am_Balance (mk_account ''a1'' ''u1'' 700000) + 50 + 100)"
    using withdrawal_paid_back [of ?w "mk_row ''t1'' ''withdrawal'' ''a1'' ''a1'' 100 TransactionStatusCompleted" "''t1''"
        "''a1''" 100 "mk_account ''a1'' ''u1'' 700000" "''u1''" "healthy 5" "''t2''" 50 redis_ref "healthy 6" "''u1''" "''USD''" r w'] ok d
    by (simp add: rich_db_def mk_row_def mk_account_def new_transaction_def call_up_def fits_signed_def)
  then show ?thesis using d by (simp add: mk_account_def)
qed

end
