(* ===== verification/Logging.thy ===== *)
theory Logging
  imports Connections "HOL-Library.Sublist"
begin

text \<open>
  The logger every service embeds (\<^verbatim>\<open>shared/logging\<close>): a context carries the identifier of the
  request, and every record shows the identifier of the context it was written under. \<^verbatim>\<open>Sprintf\<close> is
  modelled for the plain verbs, the only ones the log messages use; the handler of \<^verbatim>\<open>slog\<close> writes a
  record if its level is at least the handler's. \<open>logger\<close> is the interface \<^verbatim>\<open>Logger\<close>, proved of the
  levels of \<open>InternalLogger\<close> by interpretation.
\<close>

section \<open>Formatting\<close>

datatype fmt_arg = IntArg int | TextArg string string \<comment> \<open>a number; a value with its type's name and its text\<close>

primrec arg_type :: "fmt_arg \<Rightarrow> string" where
  "arg_type (IntArg i) = ''int''"
| "arg_type (TextArg ty s) = ty"

primrec arg_text :: "fmt_arg \<Rightarrow> string" where
  "arg_text (IntArg i) = Itoa i"
| "arg_text (TextArg ty s) = s"

primrec takes_verb :: "fmt_arg \<Rightarrow> char \<Rightarrow> bool" where
  "takes_verb (IntArg i) v \<longleftrightarrow> v = CHR ''d'' \<or> v = CHR ''v''"
| "takes_verb (TextArg ty s) v \<longleftrightarrow> v = CHR ''s'' \<or> v = CHR ''v''"

definition verb_text :: "char \<Rightarrow> fmt_arg \<Rightarrow> string" where
  "verb_text v a =
     (if takes_verb a v then arg_text a else ''%!'' @ [v] @ ''('' @ arg_type a @ ''='' @ arg_text a @ '')'')"

fun extra_text :: "fmt_arg list \<Rightarrow> string" where
  "extra_text [] = []"
| "extra_text [a] = arg_type a @ ''='' @ arg_text a"
| "extra_text (a # as) = arg_type a @ ''='' @ arg_text a @ '', '' @ extra_text as"

fun Sprintf :: "string \<Rightarrow> fmt_arg list \<Rightarrow> string" where
  "Sprintf [] as = (if as = [] then [] else ''%!(EXTRA '' @ extra_text as @ '')'')"
| "Sprintf (c # cs) as =
     (if c \<noteq> CHR ''%'' then c # Sprintf cs as
      else case cs of
          [] \<Rightarrow> ''%!(NOVERB)'' @ Sprintf [] as
        | v # cs' \<Rightarrow>
            if v = CHR ''%'' then CHR ''%'' # Sprintf cs' as
            else (case as of
                [] \<Rightarrow> ''%!'' @ [v] @ ''(MISSING)'' @ Sprintf cs' []
              | a # as' \<Rightarrow> verb_text v a @ Sprintf cs' as'))"

text \<open>The verbs of a format, and that a format with as many arguments as verbs, each of its verb's
  kind, prints its own text with the arguments in their places.\<close>

fun fmt_verbs :: "string \<Rightarrow> string" where
  "fmt_verbs [] = []"
| "fmt_verbs (c # cs) =
     (if c \<noteq> CHR ''%'' then fmt_verbs cs
      else case cs of [] \<Rightarrow> [] | v # cs' \<Rightarrow> (if v = CHR ''%'' then fmt_verbs cs' else v # fmt_verbs cs'))"

lemma Sprintf_shows:
  assumes "list_all2 takes_verb as (fmt_verbs f)" and "a \<in> set as"
  shows "sublist (arg_text a) (Sprintf f as)"
  using assms
proof (induction f as rule: Sprintf.induct)
  case (2 c cs as)
  show ?case
  proof (cases "c = CHR ''%''")
    case False
    with 2 show ?thesis by (auto simp: sublist_Cons_right)
  next
    case True
    note c = this
    show ?thesis
    proof (cases cs)
      case Nil
      with 2 c show ?thesis by simp
    next
      case (Cons v cs')
      show ?thesis
      proof (cases "v = CHR ''%''")
        case True
        with 2 c Cons show ?thesis by (auto simp: sublist_Cons_right)
      next
        case False
        with "2.prems"(1) c Cons obtain b bs where as: "as = b # bs" "takes_verb b v" "list_all2 takes_verb bs (fmt_verbs cs')"
          by (auto simp: list_all2_Cons2)
        with "2.prems"(2) consider (this) "a = b" | (later) "a \<in> set bs" by auto
        then show ?thesis
        proof cases
          case this
          with as(2) have "Sprintf (c # cs) as = [] @ arg_text a @ Sprintf cs' bs"
            using c Cons False as(1) by (simp add: verb_text_def)
          then show ?thesis by (metis sublist_appendI)
        next
          case later
          then have "sublist (arg_text a) (Sprintf cs' bs)"
            using "2.IH"(5) [OF _ Cons False as(1) as(3)] c by simp
          then show ?thesis using c Cons False as(1) by (auto intro: sublist_append_leftI sublist_order.order_trans)
        qed
      qed
    qed
  qed
qed simp

section \<open>Contexts\<close>

datatype ctx_key = RequestIdKey | OtherKey string

datatype ctx_value = StringValue string | OtherValue

text \<open>\<open>None\<close> is the nil context.\<close>

type_synonym go_context = "(ctx_key \<times> ctx_value) list option"

definition context_Background :: go_context where
  "context_Background = Some []"

text \<open>\<^verbatim>\<open>context.WithValue\<close> panics on a nil parent.\<close>

definition WithRequestID :: "go_context \<Rightarrow> string \<Rightarrow> go_context option" where
  "WithRequestID ctx requestID =
     (case ctx of None \<Rightarrow> None | Some vs \<Rightarrow> Some (Some ((RequestIdKey, StringValue requestID) # vs)))"

definition requestIDFromContext :: "go_context \<Rightarrow> string" where
  "requestIDFromContext ctx =
     (case ctx of
        None \<Rightarrow> []
      | Some vs \<Rightarrow>
          (let requestID = (case map_of vs RequestIdKey of Some (StringValue s) \<Rightarrow> s | _ \<Rightarrow> [])
           in if requestID = [] then ''General'' else requestID))"

section \<open>The logger\<close>

datatype log_level = LevelDebug | LevelInfo | LevelWarn | LevelError

primrec level_value :: "log_level \<Rightarrow> int" where
  "level_value LevelDebug = - 4"
| "level_value LevelInfo = 0"
| "level_value LevelWarn = 4"
| "level_value LevelError = 8"

record log_record =
  lr_level :: log_level
  lr_msg :: string
  lr_identifier :: string

record os_process =
  os_stdout :: "log_record list"
  os_exit :: "int option"

record InternalLogger =
  il_level :: log_level

definition NewInternalLogger :: InternalLogger where
  "NewInternalLogger = \<lparr>il_level = LevelDebug\<rparr>"

abbreviation running :: "os_process \<Rightarrow> bool" where
  "running p \<equiv> os_exit p = None"

definition logger_log :: "InternalLogger \<Rightarrow> go_context \<Rightarrow> log_level \<Rightarrow> string \<Rightarrow> fmt_arg list \<Rightarrow>
    os_process \<Rightarrow> os_process" where
  "logger_log l ctx level format args p =
     (if running p \<and> level_value (il_level l) \<le> level_value level
      then p\<lparr>os_stdout := os_stdout p @ [\<lparr>lr_level = level, lr_msg = Sprintf format args,
             lr_identifier = requestIDFromContext ctx\<rparr>]\<rparr>
      else p)"

definition LogWarn :: "InternalLogger \<Rightarrow> go_context \<Rightarrow> string \<Rightarrow> fmt_arg list \<Rightarrow> os_process \<Rightarrow> os_process" where
  "LogWarn l ctx format args = logger_log l ctx LevelWarn format args"

definition LogInfo :: "InternalLogger \<Rightarrow> go_context \<Rightarrow> string \<Rightarrow> fmt_arg list \<Rightarrow> os_process \<Rightarrow> os_process" where
  "LogInfo l ctx format args = logger_log l ctx LevelInfo format args"

definition LogError :: "InternalLogger \<Rightarrow> go_context \<Rightarrow> string \<Rightarrow> fmt_arg list \<Rightarrow> os_process \<Rightarrow> os_process" where
  "LogError l ctx format args = logger_log l ctx LevelError format args"

definition LogDebug :: "InternalLogger \<Rightarrow> go_context \<Rightarrow> string \<Rightarrow> fmt_arg list \<Rightarrow> os_process \<Rightarrow> os_process" where
  "LogDebug l ctx format args = logger_log l ctx LevelDebug format args"

definition LogFatal :: "InternalLogger \<Rightarrow> go_context \<Rightarrow> string \<Rightarrow> fmt_arg list \<Rightarrow> os_process \<Rightarrow> os_process" where
  "LogFatal l ctx format args p =
     (let p = logger_log l ctx LevelError format args p
      in if running p then p\<lparr>os_exit := Some 1\<rparr> else p)"

text \<open>What \<^verbatim>\<open>Connect\<close> of the Postgres instance writes before it dials.\<close>

definition pg_connect_log :: "os_env \<Rightarrow> go_context \<Rightarrow> string \<Rightarrow> os_process \<Rightarrow> os_process" where
  "pg_connect_log env ctx serviceName =
     LogDebug NewInternalLogger ctx ''%s - Connecting to postgres DSN: %s''
       [TextArg ''string'' serviceName, TextArg ''string'' (postgresDSN env)]"

section \<open>The interface\<close>

locale logger =
  fixes put :: "go_context \<Rightarrow> string \<Rightarrow> fmt_arg list \<Rightarrow> os_process \<Rightarrow> os_process"
    and level :: log_level
  assumes put_running: "running p \<Longrightarrow> os_stdout (put ctx f as p) =
      os_stdout p @ [\<lparr>lr_level = level, lr_msg = Sprintf f as, lr_identifier = requestIDFromContext ctx\<rparr>]"
    and put_exited: "\<not> running p \<Longrightarrow> put ctx f as p = p"
begin

lemma put_keeps: "\<exists>rs. os_stdout (put ctx f as p) = os_stdout p @ rs"
  by (cases "running p") (auto simp: put_running put_exited)

lemma put_shows:
  assumes "running p" and "list_all2 takes_verb as (fmt_verbs f)" and "a \<in> set as"
  shows "lr_level (last (os_stdout (put ctx f as p))) = level
    \<and> sublist (arg_text a) (lr_msg (last (os_stdout (put ctx f as p))))"
  using Sprintf_shows [OF assms(2,3)] by (simp add: put_running [OF assms(1)])

text \<open>A record written under the context of a request carries the identifier of the request.\<close>

lemma put_identified:
  assumes "running p" and "WithRequestID ctx rid = Some ctx'" and "rid \<noteq> []"
  shows "lr_identifier (last (os_stdout (put ctx' f as p))) = rid"
  using assms by (auto simp: put_running WithRequestID_def requestIDFromContext_def split: option.splits)

end

interpretation warn: logger "LogWarn NewInternalLogger" LevelWarn
  by unfold_locales (auto simp: LogWarn_def logger_log_def NewInternalLogger_def)

interpretation info: logger "LogInfo NewInternalLogger" LevelInfo
  by unfold_locales (auto simp: LogInfo_def logger_log_def NewInternalLogger_def)

interpretation err: logger "LogError NewInternalLogger" LevelError
  by unfold_locales (auto simp: LogError_def logger_log_def NewInternalLogger_def)

interpretation debug: logger "LogDebug NewInternalLogger" LevelDebug
  by unfold_locales (auto simp: LogDebug_def logger_log_def NewInternalLogger_def)

interpretation fatal: logger "LogFatal NewInternalLogger" LevelError
  by unfold_locales (auto simp: LogFatal_def logger_log_def NewInternalLogger_def)

lemma LogFatal_exits: "running p \<Longrightarrow> os_exit (LogFatal l ctx f as p) = Some 1"
  by (simp add: LogFatal_def logger_log_def Let_def)

text \<open>Connecting to Postgres writes the whole data source name, with its password, to the log:
  the debug record is not filtered, the handler's level is debug.\<close>

lemma dsn_is_logged:
  assumes "running p"
  shows "\<exists>r. os_stdout (pg_connect_log env ctx svc p) = os_stdout p @ [r] \<and> lr_level r = LevelDebug \<and>
    sublist (postgresDSN env) (lr_msg r)"
proof -
  let ?f = "''%s - Connecting to postgres DSN: %s''"
  let ?as = "[TextArg ''string'' svc, TextArg ''string'' (postgresDSN env)]"
  have "sublist (arg_text (TextArg ''string'' (postgresDSN env))) (Sprintf ?f ?as)"
    by (rule Sprintf_shows) simp_all
  then show ?thesis by (simp add: pg_connect_log_def debug.put_running [OF assms])
qed

end
