(* ===== verification/Spec2Isabelle.thy ===== *)
theory Spec2Isabelle
  imports Bank Draining GatewayFlows LifecycleProps SessionUtils SerialRuns Pollers LiveRelay RequestRaces Refunds Logging
begin

text \<open>
  Verification of the wallet application: a Go program of an HTTP gateway, an auth service and a
  wallet service over one PostgreSQL database, a Redis store and a Kafka topic.

  \<^bold>\<open>The program.\<close> The gateway (\<^verbatim>\<open>api-gateway\<close>) checks the bearer token of a request, decodes it and
  calls the auth or the wallet service. A request to move money reaches the wallet service's gRPC handler
  (\<^verbatim>\<open>wallet-service/internal/infra/grpc/grpc.go\<close>), which writes one row into the outbox table
  after taking a lock for the user and the account in Redis (\<^verbatim>\<open>OutboxInsert\<close>). The relay
  (\<^verbatim>\<open>outbox_relay_service.go\<close>) polls the outbox, claims rows, publishes each as an envelope to
  Kafka and marks it published, or counts a failed attempt and gives up after some. The consumer
  (\<^verbatim>\<open>shared/events/kafka.go\<close>) hands each message to the dispatcher (\<^verbatim>\<open>event_dispatcher.go\<close>), which
  decodes it and calls the wallet service (\<^verbatim>\<open>wallet-serice.go\<close>); that creates a pending
  transaction, books it by recomputing the balance from the ledger
  (\<^verbatim>\<open>wallet_repository.go\<close>) and sets the final status, which frees the lock. The auth service
  registers users, checks passwords and issues tokens.

  \<^bold>\<open>State and faults.\<close> The database is a record of tables (lists of rows), one statement of SQL is
  one function on it; the constraints of the migrated schema are the predicate \<open>schema_ok\<close>. Redis,
  Kafka, bcrypt and the JWT library are parameters: records of their calls, with the documented laws
  as the locales \<open>redis_laws\<close>, \<open>kafka_laws\<close>, \<open>broker_laws\<close>, \<open>bcrypt_laws\<close> and \<open>jwt_laws\<close>, each
  interpreted on a reference implementation. Every statement of every repository call has its own
  outcome, given by the environment: it works, it fails, or it takes effect and the reply is lost
  (\<open>io\<close>, \<open>db_env\<close>). A theorem that does not restrict the environment holds for every pattern of
  faults. Generated identifiers and clocks are arguments. In the theories up to \<open>Reachable\<close> a handler
  runs from its first to its last statement without another one in between; a poll of the relay may
  find rows locked by others, and the goroutines of one batch run in any order. That handlers, relays and goroutines
  also run at once, statement by statement, is the subject of \<open>Isolation\<close>, \<open>Races\<close>, \<open>RequestRaces\<close>, \<open>Pollers\<close>,
  \<open>Goroutines\<close> and \<open>LiveRelay\<close>.

  \<^bold>\<open>Theories.\<close>
  \<^item> \<open>Prelude\<close>: errors as values, calls that may fail, transactions, tables and their lemmas.
  \<^item> \<open>Models\<close>: \<^verbatim>\<open>shared/pkg/models\<close>, the schema and the environment of a call. \<open>GoStd\<close>: the parts of
    Go's standard library in use and \<^verbatim>\<open>shared/env\<close>. \<open>Json\<close>: payloads, the number format they
    pass through (64-bit floats) and timestamps. \<open>Retry\<close>: \<^verbatim>\<open>shared/retry\<close>.
  \<^item> \<open>Cache\<close>: \<^verbatim>\<open>shared/cache/client.go\<close>.
  \<^item> \<open>Ledger\<close>: \<^verbatim>\<open>CreatePendingTransaction\<close>, \<^verbatim>\<open>reconcileBalance\<close> and the three settlements of the
    repository; \<open>Settlement\<close>: their common contract, the locale \<open>settlement\<close>, interpreted on
    \<^verbatim>\<open>DepositFunds\<close>, \<^verbatim>\<open>WithdrawFunds\<close> and \<^verbatim>\<open>TransferFunds\<close>. \<open>WalletRepository\<close>: every other method.
  \<^item> \<open>WalletService\<close>, \<open>Relay\<close>, \<open>EventDispatcher\<close> (with the consumer loop), \<open>Messaging\<close>, \<open>WalletGrpc\<close>:
    the wallet service, its relay, its event side and its handlers and mappers.
  \<^item> \<open>Session\<close>, \<open>AuthService\<close>, \<open>AuthGrpc\<close>: tokens and the auth service.
  \<^item> \<open>HttpTypes\<close>: requests, replies and the gateway's domain and JSON types; \<open>GatewayServices\<close>: its mappers and
    its calls of the two services over a network that may lose a request or a reply; \<open>Gateway\<close>: the token
    middleware, the controllers and the table of routes.
  \<^item> \<open>Connections\<close>: \<^verbatim>\<open>shared/db\<close>, \<^verbatim>\<open>shared/cache/redis.go\<close> and the connecting and closing of
    \<^verbatim>\<open>shared/events/kafka.go\<close>, over drivers that are a record of calls with the locales \<open>opener\<close>, \<open>closable\<close>,
    \<open>endpoint\<close> and \<open>runtime_laws\<close>; \<open>Lifecycle\<close>: the \<^verbatim>\<open>main\<close> functions of the three processes and of the two
    scripts. \<open>SessionUtils\<close>: the auth service's own, unused copy of the session functions.
  \<^item> \<open>Logging\<close>: \<^verbatim>\<open>shared/logging\<close>; its interface is the locale \<open>logger\<close>.
  \<^item> \<open>Isolation\<close>: the three movements as threads that execute one SQL statement at a time on a committed
    database, with uncommitted writes, row locks, the share locks of foreign keys and the waiting of inserts on
    a unique key as in Postgres at \<^verbatim>\<open>READ COMMITTED\<close>: \<open>th_step\<close> is one statement or its failure, \<open>crowd_step\<close> any
    number of threads, \<open>next_stmt\<close> and \<open>run_schedule\<close> the same as functions. \<open>Races\<close>: \<^verbatim>\<open>LoginUser\<close> and
    \<^verbatim>\<open>OpenAccount\<close>, cut at their statements, taking turns; the locale \<open>turns\<close> has what such calls keep.
    \<open>RequestRaces\<close>: \<^verbatim>\<open>OutboxInsert\<close> cut in the same way, over the locale \<open>answering_redis\<close>.
    \<open>Pollers\<close>: any number of relays in \<^verbatim>\<open>OutboxPendingGetBatch\<close> at once, one row at a time (\<open>poll_step\<close>).
    \<open>Goroutines\<close>: the goroutines of a batch with the channel of 32 slots and the wait group (\<open>go_next\<close>, \<open>batch_next\<close>).
    \<open>LiveRelay\<close>: \<open>live_step\<close>, the steps of the application with any number of batches under way and processes killed
    at any point.
  \<^item> \<open>Fixtures\<close>: the concrete world on which the witnesses are evaluated.

  \<^bold>\<open>What is shown.\<close>
  \<^item> \<open>Movements\<close>, \<open>MovementProps\<close>, \<open>History\<close>: the abstract specification of the wallet is its ledger,
    and \<open>books_balanced\<close> says that each balance is the sum of the completed entries of its account.
    A movement that reports success moves exactly its amount, one that reports an error moves
    nothing, a valid one succeeds while the database answers, and along every history of movements
    under faults the books balance and the total money changes only by deposits and withdrawals. The one fault
    left out is a settlement whose commit takes effect and is not acknowledged: the code then marks a booked
    row failed.
  \<^item> \<open>Bank\<close>: an abstract bank that only knows owners and balances. A request refines it exactly while
    the database answers, and under the same faults the requests that report success are a run of it.
  \<^item> \<open>IsolationProps\<close>: in every interleaving of the movements, under the same faults, the books of the committed
    database balance, and no update is lost. \<open>Deadlock\<close>: since accounts are locked in ascending order the
    movements never block each other for good, and every schedule ends. \<open>SerialRuns\<close>: the operations of
    \<open>WalletService\<close> are runs of these threads alone, so the threads are the same code.
  \<^item> \<open>Races\<close>: at most one of many simultaneous logins succeeds; simultaneous openings exceed the limit of three
    accounts. The calls cut at their statements, run alone, are the functions \<open>LoginUser\<close> and \<open>OpenAccount\<close>.
  \<^item> \<open>Redelivery\<close>: a settled transaction never moves money again; and three places where the code
    does not do what it means to. \<open>Refunds\<close>: a completed withdrawal delivered again on an account that by then holds
    more than 600000 is marked failed, and the next reconciliation pays the money back.
  \<^item> \<open>OutboxProps\<close>, \<open>RelayProps\<close>: what a poll claims (at most the limit, the oldest due rows, none
    twice within the 30 seconds of a claim), the retry schedule, the lock, and that a row is marked
    published only after its message is in the topic.
  \<^item> \<open>LockCycle\<close>: a request whose row has its final status has given its lock back, and the next request is accepted.
  \<^item> \<open>Pollers\<close>: of relays that poll at once no two are handed the same row, unless its publication failed
    meanwhile, which puts it back; and the batches of
    \<open>OutboxPendingGetBatch\<close> are runs of these pollers.
  \<^item> \<open>Goroutines\<close>: at most 32 goroutines are at work, the wait for them returns, and every interleaving of them ends with
    the database and the broker of a run one after another, which is how \<open>readAndRelay\<close> runs them.
  \<^item> \<open>RequestRaces\<close>: of simultaneous requests at most one is accepted while Redis answers; without Redis a second one
    is accepted while the first waits in the outbox.
  \<^item> \<open>Draining\<close>: the drain loop of the relay ends whatever fails, and publishes everything that is due
    while the broker and the database answer.
  \<^item> \<open>Provenance\<close>, \<open>Interleaving\<close>, \<open>Reachable\<close>: the application as a step relation \<open>wallet_step\<close> in which
    handlers, polls, deliveries, redeliveries and faults interleave in any order; in every reachable
    state the schema holds, every ledger row was asked for, and no balance exceeds what the accepted
    requests credit, with the amounts as decoded, which are the accepted ones below two to the 53. The consumer loop refines the steps. \<open>LiveRelay\<close>: the same in every state
    with batches under way, and no accepted request is lost wherever a relay is killed.
  \<^item> \<open>GatewayProps\<close>, \<open>GatewayFlows\<close>: only an authenticated user's request reaches the account and wallet routes,
    a movement is made for the user of the token, every HTTP request is at most one step of the
    application, the token of a login identifies its user, and which requests end the process.
  \<^item> \<open>LifecycleProps\<close>: connecting leaks nothing, a service that came up holds everything it needs, a process that
    returns has closed what it opened, its listener included (the HTTP server is the locale \<open>http_laws\<close>), and the topics the script creates are those the service uses.
  \<^item> \<open>Delivery\<close>, \<open>Consumer\<close>: an accepted deposit arrives with its amount and is credited; messages
    nobody can read go to the dead-letter topic; a message whose handler failed is passed over by the next commit in
    its partition. The reader serves any number of partitions, as long as they stay assigned to it.
  \<^item> \<open>AccountProps\<close>: the limit on accounts, and the pages of a listing.
  \<^item> \<open>AuthProps\<close>: validation, registration followed by login, sessions, tokens and the schema.

  \<^bold>\<open>Bounds and fuel.\<close> Amounts and balances are \<open>int\<close> with the range of 64 bits checked where the
  database checks it; page sizes wrap at 8 bits and back-off seconds at 32 as in the source.
  \<open>WithBackoff\<close> terminates by its retry count; the consumer loop and the relay's drain loop recurse on the list of
  deliveries and of polls they are given, which stands for the time the process runs, so nothing
  is cut off. An amount survives the way through the outbox for values below two to the 53; a larger one is rounded,
  and what is said of accepted requests then holds of the amounts as decoded. Durations wrap at 64 bits of nanoseconds.

  A drain of the relay is shown to end for polls within 30 seconds, the time a claim is respected; beyond
  it a relay that can neither publish nor record a failure may poll for ever. No rows are inserted between the polls of a
  drain; in \<open>LiveRelay\<close> handlers and deliveries are single steps, between which the goroutines of the relays run.

  A movement executes at most sixteen statements, the bound of \<open>schedules_finish\<close>; a goroutine of the relay takes six steps
  and its start is one, the bound of \<open>relay_wait_returns\<close>.

  \<^bold>\<open>Not modelled.\<close> The log messages of the components (the logger itself is), generated protocol code, the gRPC health service, the parsing of command line
  flags, import lists, and Go interfaces, which are the types and locales of the definitions that implement
  them. Paths reach the routes cleaned; strings are ASCII. In \<open>Lifecycle\<close> what a service does until the signal is one function on
  the network, and of the HTTP server the three ways it ends: a failure, the signal, a handler that ends the process; that a relay stops in the middle of a batch is in \<open>LiveRelay\<close>. The threads of
  \<open>Isolation\<close> leave out a settlement whose commit is not acknowledged, and cache commands, on which no movement
  depends; a movement arrives with an identifier no other running thread has, since the events of one request are in
  one partition and handled one after another.
\<close>

end
